(* ===== verification/Prelude.thy ===== *)
theory Prelude
  imports Main "HOL-Library.Word" "HOL-Library.Monad_Syntax"
begin

text \<open>
  Vocabulary shared by every component: the machine integers of the C code, memory blocks with
  bounds-checked accesses, and the generic facts about lists and words that the component
  theories rest on.

  A block of C memory is the list of its bytes. An access outside the block is undefined
  behaviour, which the model shows as \<^term>\<open>None\<close>: every function that reads or writes through
  a pointer returns an option, and a function that returns \<^term>\<open>Some\<close> has stayed inside its
  blocks. Error codes the C functions return are ordinary values under that \<^term>\<open>Some\<close>.
\<close>

unbundle bit_operations_syntax

section \<open>Machine integers\<close>

type_synonym u8 = "8 word"
type_synonym u16 = "16 word"
type_synonym u32 = "32 word"

text \<open>A C string is the list of its bytes before the terminating NUL.\<close>

type_synonym cstring = "u8 list"

text \<open>A string literal of the code.\<close>

definition ascii :: "string \<Rightarrow> u8 list" where
  "ascii s = map (\<lambda>c. of_nat (of_char c)) s"

named_theorems mem_simps "accesses that stay inside their block"
named_theorems byte_simps "conversions between bytes and numbers"

section \<open>Memory blocks\<close>

definition rd :: "'a list \<Rightarrow> nat \<Rightarrow> 'a option" where
  "rd m i = (if i < length m then Some (m ! i) else None)"

definition wr :: "'a list \<Rightarrow> nat \<Rightarrow> 'a \<Rightarrow> 'a list option" where
  "wr m i x = (if i < length m then Some (m[i := x]) else None)"

definition rd_seg :: "'a list \<Rightarrow> nat \<Rightarrow> nat \<Rightarrow> 'a list option" where
  "rd_seg m i n = (if i + n \<le> length m then Some (take n (drop i m)) else None)"

definition wr_seg :: "'a list \<Rightarrow> nat \<Rightarrow> 'a list \<Rightarrow> 'a list option" where
  "wr_seg m i xs =
     (if i + length xs \<le> length m then Some (take i m @ xs @ drop (i + length xs) m) else None)"

lemma rd_in [mem_simps]: "i < length m \<Longrightarrow> rd m i = Some (m ! i)"
  by (simp add: rd_def)

lemma rd_out [mem_simps]: "length m \<le> i \<Longrightarrow> rd m i = None"
  by (simp add: rd_def)

lemma wr_in [mem_simps]: "i < length m \<Longrightarrow> wr m i x = Some (m[i := x])"
  by (simp add: wr_def)

lemma wr_out [mem_simps]: "length m \<le> i \<Longrightarrow> wr m i x = None"
  by (simp add: wr_def)

lemma rd_seg_in [mem_simps]: "i + n \<le> length m \<Longrightarrow> rd_seg m i n = Some (take n (drop i m))"
  by (simp add: rd_seg_def)

lemma wr_seg_in [mem_simps]:
  "i + length xs \<le> length m \<Longrightarrow> wr_seg m i xs = Some (take i m @ xs @ drop (i + length xs) m)"
  by (simp add: wr_seg_def)

lemma wr_length: "wr m i x = Some m' \<Longrightarrow> length m' = length m"
  by (auto simp: wr_def split: if_splits)

lemma wr_seg_length: "wr_seg m i xs = Some m' \<Longrightarrow> length m' = length m"
  by (auto simp: wr_seg_def split: if_splits)

text \<open>Writing one cell after another is writing the segment.\<close>

lemma take_upd_Suc: "i < length m \<Longrightarrow> take (Suc i) (m[i := x]) = take i m @ [x]"
  by (simp add: take_Suc_conv_app_nth)

lemma drop_upd_Suc: "drop (Suc i) (m[i := x]) = drop (Suc i) m"
  by simp

lemma take_drop_append [simp]: "take n xs @ drop n xs @ ys = xs @ ys"
  by (metis append_assoc append_take_drop_id)

section \<open>Bytes and numbers\<close>

lemma unat_u8_of_nat [byte_simps]: "unat (word_of_nat n :: u8) = n mod 256"
  by (simp add: unat_of_nat)

lemma unat_u16_of_nat [byte_simps]: "unat (word_of_nat n :: u16) = n mod 65536"
  by (simp add: unat_of_nat)

lemma unat_u32_of_nat [byte_simps]: "unat (word_of_nat n :: u32) = n mod 4294967296"
  by (simp add: unat_of_nat)

lemma uint_u8_of_nat [byte_simps]: "uint (word_of_nat n :: u8) = int n mod 256"
  by (simp add: unsigned_of_nat take_bit_eq_mod zmod_int)

lemma uint_u8_bound: "uint (b :: u8) < 256"
  by (rule order_less_le_trans [OF unsigned_less]) simp

lemma unat_u8_bound: "unat (b :: u8) < 256"
  by (rule order_less_le_trans [OF unsigned_less]) simp

lemma unat_u16_bound: "unat (b :: u16) < 65536"
  by (rule order_less_le_trans [OF unsigned_less]) simp

lemma unat_u32_bound: "unat (b :: u32) < 4294967296"
  by (rule order_less_le_trans [OF unsigned_less]) simp

lemma bit7_u8: "bit (c :: u8) 7 \<longleftrightarrow> 128 \<le> uint c"
proof -
  have "uint c div 128 = (if uint c < 128 then 0 else 1)"
    using uint_u8_bound [of c] by (auto simp: int_div_pos_eq)
  then have "bit (uint c) 7 \<longleftrightarrow> 128 \<le> uint c"
    unfolding bit_iff_odd by (cases "uint c < 128") simp_all
  then show ?thesis by (simp add: bit_uint_iff)
qed

lemma sint_u8: "sint (c :: u8) = (if uint c < 128 then uint c else uint c - 256)"
proof -
  have "sint c = take_bit 8 (uint c) - 256 * of_bool (bit (uint c) 7)"
    using signed_take_bit_eq_take_bit_minus [of 7 "uint c"] by (simp add: sint_uint)
  moreover have "take_bit 8 (uint c) = uint c"
    by (rule take_bit_int_eq_self) (use unsigned_less [of c] in simp_all)
  ultimately show ?thesis by (simp add: bit_uint_iff bit7_u8)
qed

lemma take_Suc_Suc_Suc: "take (n + 3) (x # y # z # xs) = x # y # z # take n xs"
  "take (n + 2) (x # y # xs) = x # y # take n xs"
  by (simp_all add: numeral_3_eq_3)

text \<open>Putting a small number into the low bits that a shift has cleared is adding it.\<close>

lemma shift_or_int:
  assumes "0 \<le> d" "d < 2 ^ k"
  shows "push_bit k v OR d = v * 2 ^ k + (d :: int)"
proof -
  have d: "take_bit k d = d" using assms by (simp add: take_bit_int_eq_self)
  have "push_bit k v OR d = push_bit k v + d"
  proof (rule disjunctive_add [symmetric])
    fix n show "\<not> bit (push_bit k v) n \<or> \<not> bit d n"
      by (metis d bit_push_bit_iff bit_take_bit_iff leD)
  qed
  then show ?thesis by (simp add: push_bit_eq_mult)
qed

text \<open>A 16-bit number from its two bytes, most significant first, as the protocols send it.\<close>

lemma split_u16_bytes: "256 * (n div 256) + n mod 256 = (n :: nat)"
  by simp

section \<open>Computations without undefined behaviour\<close>

text \<open>\<open>defined m\<close>: the computation meets nothing undefined.\<close>

definition defined :: "'a option \<Rightarrow> bool" where
  "defined m \<longleftrightarrow> m \<noteq> None"

lemma defined_Some [simp]: "defined (Some x)"
  by (simp add: defined_def)

lemma defined_bind: "defined m \<Longrightarrow> (\<And>x. m = Some x \<Longrightarrow> defined (f x)) \<Longrightarrow> defined (Option.bind m f)"
  by (cases m) (auto simp: defined_def)

lemma defined_if: "(b \<Longrightarrow> defined x) \<Longrightarrow> (\<not> b \<Longrightarrow> defined y) \<Longrightarrow> defined (if b then x else y)"
  by simp

lemma defined_map: "defined m \<Longrightarrow> defined (map_option f m)"
  by (simp add: defined_def)

lemma defined_rd: "i < length m \<Longrightarrow> defined (rd m i)"
  by (simp add: defined_def rd_def)

lemmas defined_intros = defined_bind defined_if defined_map defined_rd

text \<open>\<open>fine P m\<close>: nothing undefined is met and the result satisfies \<open>P\<close>.\<close>

definition fine :: "('a \<Rightarrow> bool) \<Rightarrow> 'a option \<Rightarrow> bool" where
  "fine P m \<longleftrightarrow> (\<exists>x. m = Some x \<and> P x)"

lemma fine_Some: "P x \<Longrightarrow> fine P (Some x)"
  by (simp add: fine_def)

lemma fine_bind: "fine Q m \<Longrightarrow> (\<And>x. Q x \<Longrightarrow> fine P (f x)) \<Longrightarrow> fine P (Option.bind m f)"
  by (auto simp: fine_def)

lemma fine_bind_pair:
  "fine (\<lambda>(ok, s). Q s) m \<Longrightarrow> (\<And>ok s. Q s \<Longrightarrow> fine P (f ok s)) \<Longrightarrow> fine P (Option.bind m (\<lambda>(ok, s). f ok s))"
  by (auto simp: fine_def)

lemma fine_if: "(b \<Longrightarrow> fine P x) \<Longrightarrow> (\<not> b \<Longrightarrow> fine P y) \<Longrightarrow> fine P (if b then x else y)"
  by simp

lemmas fine_intros = fine_bind fine_bind_pair fine_if fine_Some

section \<open>Structures in memory\<close>

text \<open>The numbers of a structure are stored with the least significant byte first.\<close>

definition le16 :: "u8 list \<Rightarrow> nat \<Rightarrow> u16" where
  "le16 m i = ucast (m ! i) OR push_bit 8 (ucast (m ! (i + 1)))"

definition le32 :: "u8 list \<Rightarrow> nat \<Rightarrow> u32" where
  "le32 m i = ucast (m ! i) OR push_bit 8 (ucast (m ! (i + 1))) OR push_bit 16 (ucast (m ! (i + 2)))
     OR push_bit 24 (ucast (m ! (i + 3)))"

definition put32 :: "u32 \<Rightarrow> u8 list" where
  "put32 w = [ucast w, ucast (drop_bit 8 w), ucast (drop_bit 16 w), ucast (drop_bit 24 w)]"

lemma length_put32 [simp]: "length (put32 w) = 4"
  by (simp add: put32_def)

lemma le32_bytes:
  "le32 (ucast w # ucast (drop_bit 8 w) # ucast (drop_bit 16 w) # ucast (drop_bit 24 w) # ys) 0 = w"
proof (rule bit_word_eqI)
  fix n assume "n < LENGTH(32)"
  then consider "n < 8" | "8 \<le> n" "n < 16" | "16 \<le> n" "n < 24" | "24 \<le> n" "n < 32"
    by (cases "n < 8"; cases "n < 16"; cases "n < 24") auto
  then show "bit (le32 (ucast w # ucast (drop_bit 8 w) # ucast (drop_bit 16 w) # ucast (drop_bit 24 w) # ys) 0) n
      = bit w n"
    by cases (auto simp: le32_def bit_or_iff bit_push_bit_iff bit_ucast_iff bit_drop_bit_eq)
qed

lemma le32_append: "length xs \<le> i \<Longrightarrow> le32 (xs @ ys) i = le32 ys (i - length xs)"
  by (simp add: le32_def nth_append Suc_diff_le)

lemma le32_prefix: "i + 4 \<le> length xs \<Longrightarrow> le32 (xs @ ys) i = le32 xs i"
  by (simp add: le32_def nth_append)

lemma le32_put32 [simp]: "le32 (put32 w @ ys) 0 = w"
  by (simp add: put32_def le32_bytes)

lemma le32_put32_at: "length xs = i \<Longrightarrow> le32 (xs @ put32 w @ ys) i = w"
  by (simp add: le32_append)

lemma le32_take: "i + 4 \<le> n \<Longrightarrow> le32 (take n m) i = le32 m i"
  by (simp add: le32_def)

end
