(* ===== verification/Ringbuf.thy ===== *)
theory Ringbuf
  imports Prelude
begin

text \<open>
  The byte ring buffer of lib/mqtt/ringbuf.c: its state, its three operations, the list of
  bytes it stands for, and the contract \<open>byte_fifo\<close> that its clients rely on.
\<close>

section \<open>State and operations\<close>

text \<open>
  \<open>RINGBUF\<close> keeps three pointers into one block. The block is \<open>rb_mem\<close> (it starts at \<open>p_o\<close>)
  and the read and write pointers are offsets from \<open>p_o\<close>. The counters are signed longs.
\<close>

record ringbuf =
  rb_mem :: "u8 list"
  p_r :: nat
  p_w :: nat
  fill_cnt :: int
  rb_size :: int

text \<open>A null pointer is \<^term>\<open>None\<close>.\<close>

definition RINGBUF_Init ::
  "ringbuf option \<Rightarrow> u8 list option \<Rightarrow> int \<Rightarrow> int \<times> ringbuf option" where
  "RINGBUF_Init r buf sz =
     (case (r, buf) of
        (Some _, Some b) \<Rightarrow>
          if sz < 2 then (-1, r)
          else (0, Some \<lparr>rb_mem = b, p_r = 0, p_w = 0, fill_cnt = 0, rb_size = sz\<rparr>)
      | _ \<Rightarrow> (-1, r))"

definition RINGBUF_Put :: "ringbuf \<Rightarrow> u8 \<Rightarrow> (int \<times> ringbuf) option" where
  "RINGBUF_Put r c =
     (if fill_cnt r \<ge> rb_size r then Some (-1, r)
      else do {
        let r = r\<lparr>fill_cnt := fill_cnt r + 1\<rparr>;
        m \<leftarrow> wr (rb_mem r) (p_w r) c;
        let r = r\<lparr>rb_mem := m, p_w := p_w r + 1\<rparr>;
        let r = (if int (p_w r) \<ge> rb_size r then r\<lparr>p_w := 0\<rparr> else r);
        Some (0, r)
      })"

text \<open>The byte read is \<^term>\<open>None\<close> when the code leaves \<open>*c\<close> alone.\<close>

definition RINGBUF_Get :: "ringbuf \<Rightarrow> (int \<times> u8 option \<times> ringbuf) option" where
  "RINGBUF_Get r =
     (if fill_cnt r \<le> 0 then Some (-1, None, r)
      else do {
        let r = r\<lparr>fill_cnt := fill_cnt r - 1\<rparr>;
        c \<leftarrow> rd (rb_mem r) (p_r r);
        let r = r\<lparr>p_r := p_r r + 1\<rparr>;
        let r = (if int (p_r r) \<ge> rb_size r then r\<lparr>p_r := 0\<rparr> else r);
        Some (0, Some c, r)
      })"

section \<open>The bytes a buffer holds\<close>

definition rb_list :: "ringbuf \<Rightarrow> u8 list" where
  "rb_list r =
     map (\<lambda>i. rb_mem r ! ((p_r r + i) mod nat (rb_size r))) [0..<nat (fill_cnt r)]"

definition rb_inv :: "ringbuf \<Rightarrow> bool" where
  "rb_inv r \<longleftrightarrow>
     rb_size r \<ge> 2 \<and> int (length (rb_mem r)) = rb_size r \<and>
     int (p_r r) < rb_size r \<and> 0 \<le> fill_cnt r \<and> fill_cnt r \<le> rb_size r \<and>
     p_w r = (p_r r + nat (fill_cnt r)) mod nat (rb_size r)"

lemma rb_invE:
  assumes "rb_inv r"
  obtains n f where "rb_size r = int n" "fill_cnt r = int f" "2 \<le> n" "length (rb_mem r) = n"
    "p_r r < n" "f \<le> n" "p_w r = (p_r r + f) mod n"
proof
  show "rb_size r = int (nat (rb_size r))" "fill_cnt r = int (nat (fill_cnt r))"
    using assms by (auto simp: rb_inv_def)
qed (use assms in \<open>auto simp: rb_inv_def\<close>)

lemma length_rb_list: "length (rb_list r) = nat (fill_cnt r)"
  by (simp add: rb_list_def)

lemma RINGBUF_Init_ok:
  assumes "RINGBUF_Init (Some r0) (Some b) sz = (0, Some r)" and "int (length b) = sz"
  shows "rb_inv r \<and> rb_list r = [] \<and> rb_size r = sz"
  using assms by (auto simp: RINGBUF_Init_def rb_inv_def rb_list_def split: if_splits)

lemma RINGBUF_Put_full: "fill_cnt r \<ge> rb_size r \<Longrightarrow> RINGBUF_Put r c = Some (-1, r)"
  by (simp add: RINGBUF_Put_def)

text \<open>Rolling a pointer over at the end of the block is counting modulo its size.\<close>

lemma roll_over: "a < n \<Longrightarrow> \<not> int n \<le> 1 + int a \<Longrightarrow> Suc a mod n = Suc a"
  "a < n \<Longrightarrow> int n \<le> 1 + int a \<Longrightarrow> Suc a mod n = 0"
  by (auto simp: mod_Suc)

text \<open>A cell between the read and the write position is never the cell written next.\<close>

lemma ring_cell_other:
  assumes "p < n" "i < f" "f < (n::nat)"
  shows "(p + i) mod n \<noteq> (p + f) mod n"
proof
  assume "(p + i) mod n = (p + f) mod n"
  then have "n dvd (p + f) - (p + i)" using assms by (metis mod_eq_dvd_iff_nat add_le_cancel_left less_imp_le)
  then have "n dvd f - i" by simp
  moreover have "0 < f - i" "f - i < n" using assms by auto
  ultimately show False by (auto dest: dvd_imp_le)
qed

lemma RINGBUF_Put_ok:
  assumes "rb_inv r" and "fill_cnt r < rb_size r"
  shows "\<exists>r'. RINGBUF_Put r c = Some (0, r') \<and> rb_inv r' \<and> rb_list r' = rb_list r @ [c] \<and>
              rb_size r' = rb_size r"
proof -
  from assms(1) obtain n f where s: "rb_size r = int n" "fill_cnt r = int f" "2 \<le> n"
    "length (rb_mem r) = n" "p_r r < n" "f \<le> n" "p_w r = (p_r r + f) mod n"
    by (rule rb_invE)
  with assms(2) have f: "f < n" by simp
  let ?r = "r\<lparr>fill_cnt := int f + 1, rb_mem := (rb_mem r)[p_w r := c],
              p_w := Suc (p_w r) mod n\<rparr>"
  have pw: "p_w r < n" using s by simp
  have put: "RINGBUF_Put r c = Some (0, ?r)"
    using s f pw by (simp add: RINGBUF_Put_def mem_simps Let_def roll_over)
  have inv: "rb_inv ?r"
    using s f by (auto simp: rb_inv_def mod_Suc_eq nat_add_distrib)
  have "rb_list ?r = rb_list r @ [c]"
  proof (rule nth_equalityI)
    show "length (rb_list ?r) = length (rb_list r @ [c])"
      using s by (simp add: length_rb_list nat_add_distrib)
    fix i assume "i < length (rb_list ?r)"
    then have i: "i < Suc f" using s by (simp add: length_rb_list nat_add_distrib)
    show "rb_list ?r ! i = (rb_list r @ [c]) ! i"
    proof (cases "i = f")
      case True
      then show ?thesis using s pw
        by (simp add: rb_list_def nth_append nat_add_distrib del: upt_Suc)
    next
      case False
      with i have "i < f" by simp
      with ring_cell_other [of "p_r r" n i f] show ?thesis using s f pw
        by (simp add: rb_list_def nth_append nat_add_distrib del: upt_Suc)
    qed
  qed
  with put inv show ?thesis by auto
qed

lemma RINGBUF_Get_empty: "fill_cnt r \<le> 0 \<Longrightarrow> RINGBUF_Get r = Some (-1, None, r)"
  by (simp add: RINGBUF_Get_def)

lemma RINGBUF_Get_ok:
  assumes "rb_inv r" and "0 < fill_cnt r"
  shows "\<exists>c r'. RINGBUF_Get r = Some (0, Some c, r') \<and> rb_inv r' \<and> rb_list r = c # rb_list r' \<and>
                rb_size r' = rb_size r"
proof -
  from assms(1) obtain n f0 where s0: "rb_size r = int n" "fill_cnt r = int f0" "2 \<le> n"
    "length (rb_mem r) = n" "p_r r < n" "f0 \<le> n" "p_w r = (p_r r + f0) mod n"
    by (rule rb_invE)
  with assms(2) obtain f where f0: "f0 = Suc f" by (cases f0) auto
  note s = s0 [unfolded f0]
  let ?r = "r\<lparr>fill_cnt := int f, p_r := Suc (p_r r) mod n\<rparr>"
  have get: "RINGBUF_Get r = Some (0, Some (rb_mem r ! p_r r), ?r)"
    using s by (simp add: RINGBUF_Get_def mem_simps Let_def roll_over)
  have inv: "rb_inv ?r"
    using s by (auto simp: rb_inv_def mod_add_left_eq)
  have "rb_list r = rb_mem r ! p_r r # rb_list ?r"
  proof (rule nth_equalityI)
    show "length (rb_list r) = length (rb_mem r ! p_r r # rb_list ?r)"
      using s by (simp add: length_rb_list nat_add_distrib)
    fix i assume "i < length (rb_list r)"
    then have i: "i < Suc f" using s by (simp add: length_rb_list)
    show "rb_list r ! i = (rb_mem r ! p_r r # rb_list ?r) ! i"
    proof (cases i)
      case 0
      with s show ?thesis by (simp add: rb_list_def nat_add_distrib del: upt_Suc)
    next
      case (Suc j)
      with i s show ?thesis
        by (simp add: rb_list_def nat_add_distrib mod_add_left_eq del: upt_Suc)
    qed
  qed
  with get inv show ?thesis by auto
qed

section \<open>The contract of a bounded byte queue\<close>

text \<open>
  What the framing layer needs from the buffer: \<open>put\<close> appends while there is room and
  refuses otherwise, \<open>get\<close> takes the oldest byte and refuses on an empty buffer.
\<close>

fun put_bytes ::
  "('s \<Rightarrow> u8 \<Rightarrow> (int \<times> 's) option) \<Rightarrow> 's \<Rightarrow> u8 list \<Rightarrow> (int \<times> 's) option" where
  "put_bytes put s [] = Some (0, s)"
| "put_bytes put s (b # bs) =
     do { (e, s') \<leftarrow> put s b; if e = -1 then Some (-1, s') else put_bytes put s' bs }"

datatype fifo_op = Put_op u8 | Get_op

text \<open>The replies to a sequence of calls, for an implementation and for a list of at most \<open>k\<close> bytes.\<close>

fun fifo_run ::
  "('s \<Rightarrow> u8 \<Rightarrow> (int \<times> 's) option) \<Rightarrow> ('s \<Rightarrow> (int \<times> u8 option \<times> 's) option) \<Rightarrow>
   's \<Rightarrow> fifo_op list \<Rightarrow> (int \<times> u8 option) list option" where
  "fifo_run put get s [] = Some []"
| "fifo_run put get s (Put_op c # ops) =
     do { (e, s') \<leftarrow> put s c; rs \<leftarrow> fifo_run put get s' ops; Some ((e, None) # rs) }"
| "fifo_run put get s (Get_op # ops) =
     do { (e, c, s') \<leftarrow> get s; rs \<leftarrow> fifo_run put get s' ops; Some ((e, c) # rs) }"

fun fifo_spec :: "nat \<Rightarrow> u8 list \<Rightarrow> fifo_op list \<Rightarrow> (int \<times> u8 option) list" where
  "fifo_spec k xs [] = []"
| "fifo_spec k xs (Put_op c # ops) =
     (if length xs < k then (0, None) # fifo_spec k (xs @ [c]) ops
      else (-1, None) # fifo_spec k xs ops)"
| "fifo_spec k xs (Get_op # ops) =
     (case xs of [] \<Rightarrow> (-1, None) # fifo_spec k [] ops
      | x # xs' \<Rightarrow> (0, Some x) # fifo_spec k xs' ops)"

locale byte_fifo =
  fixes put :: "'s \<Rightarrow> u8 \<Rightarrow> (int \<times> 's) option"
    and get :: "'s \<Rightarrow> (int \<times> u8 option \<times> 's) option"
    and content :: "'s \<Rightarrow> u8 list"
    and inv :: "'s \<Rightarrow> bool"
    and cap :: "'s \<Rightarrow> nat"
  assumes bounded: "inv s \<Longrightarrow> length (content s) \<le> cap s"
    and put_full: "inv s \<Longrightarrow> length (content s) = cap s \<Longrightarrow> put s c = Some (-1, s)"
    and put_room: "inv s \<Longrightarrow> length (content s) < cap s \<Longrightarrow>
      \<exists>s'. put s c = Some (0, s') \<and> inv s' \<and> content s' = content s @ [c] \<and> cap s' = cap s"
    and get_empty: "inv s \<Longrightarrow> content s = [] \<Longrightarrow> get s = Some (-1, None, s)"
    and get_first: "inv s \<Longrightarrow> content s = c # cs \<Longrightarrow>
      \<exists>s'. get s = Some (0, Some c, s') \<and> inv s' \<and> content s' = cs \<and> cap s' = cap s"
begin

text \<open>Putting a run of bytes keeps the longest prefix that fits, and succeeds when all fit.\<close>

lemma put_bytes_result:
  "inv s \<Longrightarrow> \<exists>s'. put_bytes put s bs =
     Some (if length (content s) + length bs \<le> cap s then 0 else -1, s') \<and>
     inv s' \<and> cap s' = cap s \<and>
     content s' = content s @ take (cap s - length (content s)) bs"
proof (induction bs arbitrary: s)
  case Nil
  then show ?case using bounded by auto
next
  case (Cons b bs)
  show ?case
  proof (cases "length (content s) < cap s")
    case True
    with put_room [OF Cons.prems, of b] obtain s1 where s1: "put s b = Some (0, s1)" "inv s1"
      "content s1 = content s @ [b]" "cap s1 = cap s" by auto
    from Cons.IH [OF s1(2)] obtain s2 where s2: "put_bytes put s1 bs =
       Some (if length (content s1) + length bs \<le> cap s1 then 0 else -1, s2)" "inv s2"
      "cap s2 = cap s1" "content s2 = content s1 @ take (cap s1 - length (content s1)) bs" by auto
    have "cap s - length (content s) = Suc (cap s - Suc (length (content s)))" using True by simp
    then show ?thesis using s1 s2 by auto
  next
    case False
    with bounded [OF Cons.prems] have "length (content s) = cap s" by simp
    with put_full [OF Cons.prems] Cons.prems show ?thesis by auto
  qed
qed

lemma fifo_refines: "inv s \<Longrightarrow> fifo_run put get s ops = Some (fifo_spec (cap s) (content s) ops)"
proof (induction ops arbitrary: s)
  case Nil
  then show ?case by simp
next
  case (Cons x ops)
  show ?case
  proof (cases x)
    case (Put_op c)
    show ?thesis
    proof (cases "length (content s) < cap s")
      case True
      with put_room [OF Cons.prems, of c] Cons.IH Put_op show ?thesis by auto
    next
      case False
      with bounded [OF Cons.prems] have "length (content s) = cap s" by simp
      with put_full [OF Cons.prems] Cons.IH [OF Cons.prems] Put_op show ?thesis by auto
    qed
  next
    case Get_op
    show ?thesis
    proof (cases "content s")
      case Nil
      with get_empty [OF Cons.prems] Cons.IH [OF Cons.prems] Get_op show ?thesis by auto
    next
      case (Cons c cs)
      with get_first [OF Cons.prems this] Cons.IH Get_op show ?thesis by auto
    qed
  qed
qed

end

interpretation rbq: byte_fifo RINGBUF_Put RINGBUF_Get rb_list rb_inv "\<lambda>r. nat (rb_size r)"
proof unfold_locales
  fix s :: ringbuf and c cs
  show "rb_inv s \<Longrightarrow> length (rb_list s) \<le> nat (rb_size s)"
    by (auto simp: rb_inv_def length_rb_list)
  show "rb_inv s \<Longrightarrow> length (rb_list s) = nat (rb_size s) \<Longrightarrow> RINGBUF_Put s c = Some (-1, s)"
    by (rule RINGBUF_Put_full) (auto simp: rb_inv_def length_rb_list)
  show "rb_inv s \<Longrightarrow> length (rb_list s) < nat (rb_size s) \<Longrightarrow>
      \<exists>s'. RINGBUF_Put s c = Some (0, s') \<and> rb_inv s' \<and> rb_list s' = rb_list s @ [c] \<and>
           nat (rb_size s') = nat (rb_size s)"
    using RINGBUF_Put_ok [of s c] by (auto simp: length_rb_list rb_inv_def)
  show "rb_inv s \<Longrightarrow> rb_list s = [] \<Longrightarrow> RINGBUF_Get s = Some (-1, None, s)"
    by (rule RINGBUF_Get_empty) (auto simp: rb_list_def)
  show "rb_inv s \<Longrightarrow> rb_list s = c # cs \<Longrightarrow>
      \<exists>s'. RINGBUF_Get s = Some (0, Some c, s') \<and> rb_inv s' \<and> rb_list s' = cs \<and>
           nat (rb_size s') = nat (rb_size s)"
    using RINGBUF_Get_ok [of s] length_rb_list [of s] by fastforce
qed

section \<open>Properties\<close>

text \<open>
  C13: a buffer set up by \<open>RINGBUF_Init\<close> over a block of the stated size answers every
  sequence of puts and gets exactly as a list of at most that many bytes does, and no call
  reads or writes outside the block.
\<close>

theorem ringbuf_refines_fifo:
  assumes "RINGBUF_Init (Some r0) (Some b) sz = (0, Some r)" and "int (length b) = sz"
  shows "fifo_run RINGBUF_Put RINGBUF_Get r ops = Some (fifo_spec (nat sz) [] ops)"
  using rbq.fifo_refines [of r ops] RINGBUF_Init_ok [OF assms] by simp

definition rb_any :: ringbuf where
  "rb_any = \<lparr>rb_mem = [], p_r = 0, p_w = 0, fill_cnt = 0, rb_size = 0\<rparr>"

theorem ringbuf_refines_fifo_witness:
  "fifo_run RINGBUF_Put RINGBUF_Get
     \<lparr>rb_mem = [0, 0], p_r = 0, p_w = 0, fill_cnt = 0, rb_size = 2\<rparr>
     [Put_op 1, Put_op 2, Put_op 3, Get_op, Put_op 4, Get_op, Get_op, Get_op] =
   Some [(0, None), (0, None), (-1, None), (0, Some 1), (0, None), (0, Some 2), (0, Some 4),
         (-1, None)]"
  using ringbuf_refines_fifo [of rb_any "[0, 0]" 2 "\<lparr>rb_mem = [0, 0], p_r = 0, p_w = 0,
      fill_cnt = 0, rb_size = 2\<rparr>" "[Put_op 1, Put_op 2, Put_op 3, Get_op, Put_op 4, Get_op, Get_op, Get_op]"]
  by (simp add: RINGBUF_Init_def del: fifo_run.simps)

end
