(* ===== verification/Proto.thy ===== *)
theory Proto
  imports Ringbuf
begin

text \<open>
  The byte-stuffing layer of lib/mqtt/proto.c: a frame starts with 0x7E, ends with 0x7F, and
  0x7D escapes a byte of the payload that would collide with one of the three. The theory has
  the incremental parser, the loop that reads one frame out of a ring buffer, the two writers,
  and the specification of both directions on plain byte lists.
\<close>

section \<open>The parser\<close>

text \<open>
  \<open>pp_buf\<close> is the destination block, \<open>pp_callback\<close> says that a callback is registered, and
  \<open>pp_seen\<close> records what the callback could read each time it was called. \<open>bufSize\<close> and
  \<open>dataLen\<close> are 16-bit in the code; \<open>dataLen\<close> only grows while it is below \<open>bufSize\<close>, so it
  never wraps, and both are kept as their values here.
\<close>

record proto_parser =
  pp_buf :: "u8 list"
  pp_bufSize :: nat
  pp_dataLen :: nat
  pp_isEsc :: u8
  pp_isBegin :: u8
  pp_callback :: bool
  pp_seen :: "u8 list list"

text \<open>\<open>PROTO_Init\<close> leaves \<open>isBegin\<close> as it finds it.\<close>

definition PROTO_Init ::
  "proto_parser \<Rightarrow> bool \<Rightarrow> u8 list \<Rightarrow> nat \<Rightarrow> int \<times> proto_parser" where
  "PROTO_Init p cb buf sz =
     (0, p\<lparr>pp_buf := buf, pp_bufSize := sz, pp_dataLen := 0, pp_callback := cb, pp_isEsc := 0\<rparr>)"

definition PROTO_ParseByte :: "proto_parser \<Rightarrow> u8 \<Rightarrow> (int \<times> proto_parser) option" where
  "PROTO_ParseByte p v =
     (if v = 0x7D then Some (-1, p\<lparr>pp_isEsc := 1\<rparr>)
      else if v = 0x7E then Some (-1, p\<lparr>pp_dataLen := 0, pp_isEsc := 0, pp_isBegin := 1\<rparr>)
      else if v = 0x7F then
        (let p = (if pp_callback p
                  then p\<lparr>pp_seen := pp_seen p @ [take (pp_dataLen p) (pp_buf p)]\<rparr> else p)
         in Some (0, p\<lparr>pp_isBegin := 0\<rparr>))
      else if pp_isBegin p = 0 then Some (-1, p)
      else
        (let (v, p) = (if pp_isEsc p \<noteq> 0 then (v XOR 0x20, p\<lparr>pp_isEsc := 0\<rparr>) else (v, p))
         in if pp_dataLen p < pp_bufSize p
            then do { b \<leftarrow> wr (pp_buf p) (pp_dataLen p) v;
                      Some (-1, p\<lparr>pp_buf := b, pp_dataLen := pp_dataLen p + 1\<rparr>) }
            else Some (-1, p)))"

text \<open>\<open>buf\<close> is the block from the pointer on.\<close>

fun proto_parse_loop :: "proto_parser \<Rightarrow> u8 list \<Rightarrow> nat \<Rightarrow> (int \<times> proto_parser) option" where
  "proto_parse_loop p buf 0 = Some (0, p)"
| "proto_parse_loop p buf (Suc len) =
     (case buf of [] \<Rightarrow> None
      | b # bs \<Rightarrow> do { (_, p') \<leftarrow> PROTO_ParseByte p b; proto_parse_loop p' bs len })"

definition PROTO_Parse :: "proto_parser \<Rightarrow> u8 list \<Rightarrow> u16 \<Rightarrow> (int \<times> proto_parser) option" where
  "PROTO_Parse p buf len = proto_parse_loop p buf (unat len)"

text \<open>
  \<open>PROTO_ParseRb\<close> declares its parser on the stack, so \<open>isBegin\<close> starts as whatever the stack
  holds: the argument \<open>garbage\<close>. The result is the return value, the buffer, the destination
  block and the new \<open>*len\<close> (\<^term>\<open>None\<close> when it is left alone).
\<close>

function parse_rb_loop ::
  "ringbuf \<Rightarrow> proto_parser \<Rightarrow> (int \<times> ringbuf \<times> proto_parser) option" where
  "parse_rb_loop rb p =
     (case RINGBUF_Get rb of
        None \<Rightarrow> None
      | Some (e, c, rb') \<Rightarrow>
          if e \<noteq> 0 then Some (-1, rb', p)
          else (case c of
                  None \<Rightarrow> None
                | Some v \<Rightarrow>
                    (case PROTO_ParseByte p v of
                       None \<Rightarrow> None
                     | Some (e2, p') \<Rightarrow>
                         if e2 = 0 then Some (0, rb', p') else parse_rb_loop rb' p')))"
  by pat_completeness auto
termination
proof (relation "measure (\<lambda>(rb, p). nat (fill_cnt rb))")
  fix rb p x e y c rb' v z e2 p'
  assume "RINGBUF_Get rb = Some x" "(e, y) = x" "(c, rb') = y" "\<not> e \<noteq> 0"
  then have "fill_cnt rb' < fill_cnt rb" "0 < fill_cnt rb"
    by (auto simp: RINGBUF_Get_def Let_def bind_eq_Some_conv split: if_splits)
  then show "((rb', p'), (rb, p)) \<in> measure (\<lambda>(rb, p). nat (fill_cnt rb))"
    by simp
qed simp

declare parse_rb_loop.simps [simp del]

definition parser_on_stack :: "u8 \<Rightarrow> proto_parser" where
  "parser_on_stack garbage =
     \<lparr>pp_buf = [], pp_bufSize = 0, pp_dataLen = 0, pp_isEsc = 0, pp_isBegin = garbage,
      pp_callback = False, pp_seen = []\<rparr>"

definition PROTO_ParseRb ::
  "u8 \<Rightarrow> ringbuf \<Rightarrow> u8 list \<Rightarrow> nat \<Rightarrow> (int \<times> ringbuf \<times> u8 list \<times> nat option) option" where
  "PROTO_ParseRb garbage rb bufOut maxBufLen =
     do { let (_, p) = PROTO_Init (parser_on_stack garbage) False bufOut maxBufLen;
          (e, rb', p') \<leftarrow> parse_rb_loop rb p;
          Some (e, rb', pp_buf p', if e = 0 then Some (pp_dataLen p') else None) }"

section \<open>The writers\<close>

definition special :: "u8 \<Rightarrow> bool" where
  "special b \<longleftrightarrow> b = 0x7D \<or> b = 0x7E \<or> b = 0x7F"

text \<open>
  \<open>PROTO_Add\<close> takes the number of bytes to send from the first two bytes of the packet
  itself (little-endian, as the target reads a \<open>U16\<close>). \<open>out\<close> collects what has been
  written through \<open>buf\<close>, whose room is \<open>bufSize\<close>, and \<open>i\<close> is the 16-bit result counter.
\<close>

fun proto_add_loop ::
  "nat \<Rightarrow> u8 list \<Rightarrow> int \<Rightarrow> u16 \<Rightarrow> u8 list \<Rightarrow> (int \<times> u8 list) option" where
  "proto_add_loop 0 packet bufSize i out =
     (if bufSize < 1 then Some (-1, out)
      else Some (sint i, out @ [0x7F]))"
| "proto_add_loop (Suc len) packet bufSize i out =
     (case packet of
        [] \<Rightarrow> None
      | b # rest \<Rightarrow>
          if special b then
            if bufSize < 2 then Some (-1, out)
            else proto_add_loop len rest (bufSize - 2) (i + 2) (out @ [0x7D, b XOR 0x20])
          else
            if bufSize < 1 then Some (-1, out)
            else proto_add_loop len rest (bufSize - 1) (i + 1) (out @ [b]))"

definition PROTO_Add :: "u8 list \<Rightarrow> int \<Rightarrow> (int \<times> u8 list) option" where
  "PROTO_Add packet bufSize =
     do { b0 \<leftarrow> rd packet 0; b1 \<leftarrow> rd packet 1;
          if bufSize < 1 then Some (-1, [])
          else proto_add_loop (unat b0 + 256 * unat b1) packet (bufSize - 1) 2 [0x7E] }"

text \<open>\<open>len\<close> counts down to zero through its 16-bit values, so it acts as an unsigned count.\<close>

fun proto_add_rb_loop ::
  "ringbuf \<Rightarrow> nat \<Rightarrow> u8 list \<Rightarrow> u16 \<Rightarrow> (int \<times> ringbuf) option" where
  "proto_add_rb_loop rb 0 packet i =
     do { (e, rb) \<leftarrow> RINGBUF_Put rb 0x7F;
          if e = -1 then Some (-1, rb) else Some (sint i, rb) }"
| "proto_add_rb_loop rb (Suc len) packet i =
     (case packet of
        [] \<Rightarrow> None
      | b # rest \<Rightarrow>
          if special b then
            do { (e, rb) \<leftarrow> RINGBUF_Put rb 0x7D;
                 if e = -1 then Some (-1, rb)
                 else do { (e, rb) \<leftarrow> RINGBUF_Put rb (b XOR 0x20);
                           if e = -1 then Some (-1, rb)
                           else proto_add_rb_loop rb len rest (i + 2) } }
          else
            do { (e, rb) \<leftarrow> RINGBUF_Put rb b;
                 if e = -1 then Some (-1, rb) else proto_add_rb_loop rb len rest (i + 1) })"

definition PROTO_AddRb :: "ringbuf \<Rightarrow> u8 list \<Rightarrow> nat \<Rightarrow> (int \<times> ringbuf) option" where
  "PROTO_AddRb rb packet len =
     do { (e, rb) \<leftarrow> RINGBUF_Put rb 0x7E;
          if e = -1 then Some (-1, rb) else proto_add_rb_loop rb len packet 2 }"

section \<open>Frames as byte lists\<close>

definition escape :: "u8 \<Rightarrow> u8 list" where
  "escape b = (if special b then [0x7D, b XOR 0x20] else [b])"

definition frame :: "u8 list \<Rightarrow> u8 list" where
  "frame p = 0x7E # concat (map escape p) @ [0x7F]"

text \<open>
  The packets a byte stream holds: \<open>esc\<close> is the pending escape and \<open>acc\<close> the payload so far.
\<close>

fun deframe :: "bool \<Rightarrow> u8 list \<Rightarrow> u8 list \<Rightarrow> u8 list list" where
  "deframe esc acc [] = []"
| "deframe esc acc (b # bs) =
     (if b = 0x7D then deframe True acc bs
      else if b = 0x7E then deframe False [] bs
      else if b = 0x7F then acc # deframe False [] bs
      else deframe False (acc @ [if esc then b XOR 0x20 else b]) bs)"

abbreviation packets :: "u8 list \<Rightarrow> u8 list list" where
  "packets \<equiv> deframe False []"

text \<open>Every frame, and every fragment of one, is preceded by its start byte.\<close>

fun framed :: "bool \<Rightarrow> u8 list \<Rightarrow> bool" where
  "framed start [] \<longleftrightarrow> True"
| "framed start (b # bs) \<longleftrightarrow> (start \<longrightarrow> b = 0x7E) \<and> framed (b = 0x7F) bs"

lemma escape_cases: "special b \<Longrightarrow> escape b = [0x7D, b XOR 0x20]" "\<not> special b \<Longrightarrow> escape b = [b]"
  by (simp_all add: escape_def)

lemma special_xor: "special b \<Longrightarrow> \<not> special (b XOR 0x20)"
  by (auto simp: special_def)

lemma special_xor_xor: "special b \<Longrightarrow> (b XOR 0x20) XOR 0x20 = b"
  by (auto simp: special_def)

lemma escape_no_end: "0x7F \<notin> set (escape b)"
  using special_xor [of b] by (auto simp: escape_def special_def)

lemma deframe_escaped:
  "deframe False acc (concat (map escape p) @ bs) = deframe False (acc @ p) bs"
proof (induction p arbitrary: acc)
  case Nil
  then show ?case by simp
next
  case (Cons b p)
  show ?case
  proof (cases "special b")
    case True
    with special_xor [OF True] special_xor_xor [OF True] Cons.IH show ?thesis
      by (simp add: escape_def special_def)
  next
    case False
    with Cons.IH show ?thesis by (simp add: escape_def special_def)
  qed
qed

lemma deframe_frame: "deframe esc acc (frame p @ bs) = p # packets bs"
  by (simp add: frame_def deframe_escaped)

lemma deframe_start: "deframe esc acc (xs @ 0x7E # ys) = deframe esc acc xs @ packets ys"
  by (induction esc acc xs rule: deframe.induct) auto

lemma deframe_append_frame: "deframe esc acc (xs @ frame p) = deframe esc acc xs @ [p]"
  using deframe_start [of esc acc xs] deframe_frame [of False "[]" p "[]"]
  by (simp add: frame_def)

lemma deframe_no_end: "0x7F \<notin> set bs \<Longrightarrow> deframe esc acc bs = []"
  by (induction esc acc bs rule: deframe.induct) auto

lemma frame_prefix_no_end: "k < length (frame p) \<Longrightarrow> 0x7F \<notin> set (take k (frame p))"
proof -
  assume "k < length (frame p)"
  then have "take k (frame p) = take k (0x7E # concat (map escape p))"
    by (simp add: frame_def take_Cons' )
  moreover have "0x7F \<notin> set (0x7E # concat (map escape p))"
    using escape_no_end by auto
  ultimately show ?thesis by (metis in_set_takeD)
qed

lemma deframe_append_fragment:
  assumes "k < length (frame p)"
  shows "deframe esc acc (xs @ take k (frame p)) = deframe esc acc xs"
proof (cases k)
  case 0
  then show ?thesis by simp
next
  case (Suc j)
  then have "take k (frame p) = 0x7E # take j (tl (frame p))" by (simp add: frame_def)
  with frame_prefix_no_end [OF assms] show ?thesis
    by (simp add: deframe_start deframe_no_end)
qed

lemma framed_append:
  "framed s (xs @ ys) \<longleftrightarrow> framed s xs \<and> framed (if xs = [] then s else last xs = 0x7F) ys"
  by (induction s xs rule: framed.induct) auto

lemma framed_no_end: "0x7F \<notin> set xs \<Longrightarrow> framed False xs"
  by (induction xs) auto

lemma framed_append_frame: "framed True xs \<Longrightarrow> framed True (xs @ take k (frame p))"
proof -
  assume *: "framed True xs"
  have n: "0x7F \<notin> set (concat (map escape p))" using escape_no_end by auto
  then have "concat (map escape p) \<noteq> [] \<Longrightarrow> last (concat (map escape p)) \<noteq> 0x7F"
    by (metis last_in_set)
  with framed_no_end [OF n] have "framed b (0x7E # concat (map escape p) @ [0x7F])" for b
    by (simp add: framed_append del: concat_eq_Nil_conv)
  then have "framed b (take k (frame p))" for b
    using framed_append [of b "take k (frame p)" "drop k (frame p)"] by (simp add: frame_def)
  with * show ?thesis by (auto simp: framed_append)
qed

section \<open>The writers against the specification\<close>

lemma put_bytes_append:
  "put_bytes put s (xs @ ys) =
     do { (e, s') \<leftarrow> put_bytes put s xs; if e = -1 then Some (-1, s') else put_bytes put s' ys }"
proof (induction xs arbitrary: s)
  case Nil
  then show ?case by simp
next
  case (Cons x xs)
  show ?case by (cases "put s x") (auto simp: Cons.IH)
qed

text \<open>Writing a packet is putting the bytes of its frame one after another.\<close>

lemma proto_add_rb_loop_eq:
  "len \<le> length packet \<Longrightarrow>
   proto_add_rb_loop rb len packet i =
     map_option (\<lambda>(e, rb). (if e = -1 then -1
         else sint (i + of_nat (length (concat (map escape (take len packet))))), rb))
       (put_bytes RINGBUF_Put rb (concat (map escape (take len packet)) @ [0x7F]))"
proof (induction rb len packet i rule: proto_add_rb_loop.induct)
  case (1 rb packet i)
  show ?case by (cases "RINGBUF_Put rb 0x7F") (auto split: prod.splits)
next
  case (2 rb len packet i)
  from "2.prems" obtain b rest where packet: "packet = b # rest" and len: "len \<le> length rest"
    by (cases packet) auto
  show ?case
  proof (cases "special b")
    case True
    have IH: "RINGBUF_Put rb 0x7D = Some (e1, rb1) \<Longrightarrow> e1 \<noteq> -1 \<Longrightarrow>
       RINGBUF_Put rb1 (b XOR 0x20) = Some (e2, rb2) \<Longrightarrow> e2 \<noteq> -1 \<Longrightarrow> ?thesis" for e1 rb1 e2 rb2
      using "2.IH"(1) [OF packet True, of "(e1, rb1)" e1 rb1 "(e2, rb2)" e2 rb2] len True
      by (simp add: packet escape_cases algebra_simps case_prod_unfold cong: if_cong)
    show ?thesis
      using IH True
      by (cases "RINGBUF_Put rb 0x7D"; cases "RINGBUF_Put (snd (the (RINGBUF_Put rb 0x7D))) (b XOR 0x20)")
         (auto simp: packet escape_cases split: prod.splits)
  next
    case False
    have IH: "RINGBUF_Put rb b = Some (e1, rb1) \<Longrightarrow> e1 \<noteq> -1 \<Longrightarrow> ?thesis" for e1 rb1
      using "2.IH"(2) [OF packet False, of "(e1, rb1)" e1 rb1] len False
      by (simp add: packet escape_cases algebra_simps case_prod_unfold cong: if_cong)
    show ?thesis
      using IH False by (cases "RINGBUF_Put rb b") (auto simp: packet escape_cases split: prod.splits)
  qed
qed

lemma frame_length_word:
  "(word_of_nat (length (frame p)) :: u16) = 2 + word_of_nat (length (concat (map escape p)))"
  by (simp add: frame_def)

lemma put_frame:
  "put_bytes put s (frame p) =
     do { (e, s') \<leftarrow> put s 0x7E;
          if e = -1 then Some (-1, s') else put_bytes put s' (concat (map escape p) @ [0x7F]) }"
  by (simp add: frame_def)

lemma PROTO_AddRb_eq:
  assumes "len \<le> length packet"
  shows "PROTO_AddRb rb packet len =
     map_option (\<lambda>(e, rb). (if e = -1 then -1
         else sint (of_nat (length (frame (take len packet))) :: u16), rb))
       (put_bytes RINGBUF_Put rb (frame (take len packet)))"
proof (cases "RINGBUF_Put rb 0x7E")
  case None
  then show ?thesis by (simp add: PROTO_AddRb_def put_frame)
next
  case (Some x)
  then show ?thesis
    using proto_add_rb_loop_eq [OF assms, of "snd x" 2]
    by (cases x) (auto simp: PROTO_AddRb_def put_frame frame_length_word case_prod_unfold cong: if_cong)
qed

text \<open>\<open>PROTO_Add\<close> writes the same bytes into a plain buffer, when they fit.\<close>

lemma proto_add_loop_ok:
  "len \<le> length packet \<Longrightarrow> int (length (concat (map escape (take len packet)))) < sz \<Longrightarrow>
   proto_add_loop len packet sz i out =
     Some (sint (i + of_nat (length (concat (map escape (take len packet))))),
           out @ concat (map escape (take len packet)) @ [0x7F])"
proof (induction len packet sz i out rule: proto_add_loop.induct)
  case (1 packet bufSize i out)
  then show ?case by simp
next
  case (2 len packet bufSize i out)
  from "2.prems" obtain b rest where packet: "packet = b # rest" and len: "len \<le> length rest"
    by (cases packet) auto
  show ?case
  proof (cases "special b")
    case True
    with "2.IH"(1) [OF packet True] "2.prems" len show ?thesis
      by (simp add: packet escape_cases algebra_simps)
  next
    case False
    with "2.IH"(2) [OF packet False] "2.prems" len show ?thesis
      by (simp add: packet escape_cases algebra_simps)
  qed
qed

lemma PROTO_Add_ok:
  assumes "length packet \<ge> 2" and "n = unat (packet ! 0) + 256 * unat (packet ! 1)"
    and "n \<le> length packet" and "int (length (frame (take n packet))) \<le> sz"
  shows "PROTO_Add packet sz =
     Some (sint (of_nat (length (frame (take n packet))) :: u16), frame (take n packet))"
proof -
  from assms(2) have n: "unat (packet ! 0) + 256 * unat (packet ! Suc 0) = n" by simp
  have l: "int (length (concat (map escape (take n packet)))) < sz - 1" "\<not> sz < 1"
    using assms(4) by (simp_all add: frame_def)
  have "0 < length packet" "Suc 0 < length packet" using assms(1) by auto
  then have "PROTO_Add packet sz = proto_add_loop n packet (sz - 1) 2 [0x7E]"
    using l(2) by (simp add: PROTO_Add_def mem_simps n)
  also have "\<dots> = Some (sint (of_nat (length (frame (take n packet))) :: u16), frame (take n packet))"
    unfolding proto_add_loop_ok [OF assms(3) l(1)] frame_length_word by (simp add: frame_def)
  finally show ?thesis .
qed

section \<open>The parser against the specification\<close>

text \<open>
  What a parser in the middle of a frame has to do with the specification's state: the payload
  so far, cut at the size of the destination, stands at the front of the destination.
\<close>

definition in_frame :: "proto_parser \<Rightarrow> bool \<Rightarrow> u8 list \<Rightarrow> nat \<Rightarrow> bool" where
  "in_frame p esc acc n \<longleftrightarrow>
     pp_isBegin p \<noteq> 0 \<and> (pp_isEsc p \<noteq> 0) = esc \<and>
     pp_bufSize p \<le> length (pp_buf p) \<and> length (pp_buf p) = n \<and>
     pp_dataLen p = min (length acc) (pp_bufSize p) \<and>
     take (pp_dataLen p) (pp_buf p) = take (pp_bufSize p) acc"

lemma in_frame_byte:
  assumes "in_frame p esc acc n" and "b \<noteq> 0x7F"
  shows "\<exists>p' esc' acc'. PROTO_ParseByte p b = Some (-1, p') \<and> in_frame p' esc' acc' n \<and>
           pp_bufSize p' = pp_bufSize p \<and> pp_callback p' = pp_callback p \<and>
           pp_seen p' = pp_seen p \<and>
           (\<forall>bs. deframe esc acc (b # bs) = deframe esc' acc' bs)"
proof -
  consider "b = 0x7D" | "b = 0x7E" | "\<not> special b"
    using assms(2) by (auto simp: special_def)
  then show ?thesis
  proof cases
    case 1
    with assms(1) show ?thesis
      by (intro exI [of _ "p\<lparr>pp_isEsc := 1\<rparr>"] exI [of _ True] exI [of _ acc])
         (auto simp: PROTO_ParseByte_def in_frame_def)
  next
    case 2
    with assms(1) show ?thesis
      by (intro exI [of _ "p\<lparr>pp_dataLen := 0, pp_isEsc := 0, pp_isBegin := 1\<rparr>"]
            exI [of _ False] exI [of _ "[]"])
         (auto simp: PROTO_ParseByte_def in_frame_def)
  next
    case 3
    let ?v = "if esc then b XOR 0x20 else b"
    have "\<exists>p'. PROTO_ParseByte p b = Some (-1, p') \<and> in_frame p' False (acc @ [?v]) n \<and>
            pp_bufSize p' = pp_bufSize p \<and> pp_callback p' = pp_callback p \<and> pp_seen p' = pp_seen p"
    proof (cases "pp_dataLen p < pp_bufSize p")
      case True
      with assms(1) have len: "pp_dataLen p = length acc" "length acc < pp_bufSize p"
        and pre: "take (length acc) (pp_buf p) = acc" "length acc < length (pp_buf p)"
        by (auto simp: in_frame_def)
      have "take (Suc (length acc)) ((pp_buf p)[length acc := ?v]) = acc @ [?v]"
        using pre by (simp add: take_upd_Suc)
      with 3 assms(1) len pre show ?thesis
        by (auto simp: PROTO_ParseByte_def in_frame_def special_def mem_simps min_def)
    next
      case False
      with 3 assms(1) show ?thesis
        by (auto simp: PROTO_ParseByte_def in_frame_def special_def)
    qed
    moreover have "\<forall>bs. deframe esc acc (b # bs) = deframe False (acc @ [?v]) bs"
      using 3 by (simp add: special_def)
    ultimately show ?thesis by blast
  qed
qed

lemma parse_rb_loop_empty:
  "rb_inv rb \<Longrightarrow> rb_list rb = [] \<Longrightarrow> parse_rb_loop rb p = Some (-1, rb, p)"
  by (simp add: parse_rb_loop.simps [of rb] rbq.get_empty)

lemma parse_rb_loop_byte:
  assumes "RINGBUF_Get rb = Some (0, Some b, rb')" and "PROTO_ParseByte p b = Some (e, p')"
  shows "parse_rb_loop rb p = (if e = 0 then Some (0, rb', p') else parse_rb_loop rb' p')"
  using assms by (simp add: parse_rb_loop.simps [of rb])

text \<open>Inside a frame, the loop takes the next packet, or the whole rest when there is none.\<close>

lemma parse_rb_loop_in_frame:
  "rb_inv rb \<Longrightarrow> in_frame p esc acc n \<Longrightarrow> \<not> pp_callback p \<Longrightarrow> framed False (rb_list rb) \<Longrightarrow>
   \<exists>e rb' p'. parse_rb_loop rb p = Some (e, rb', p') \<and> rb_inv rb' \<and> rb_size rb' = rb_size rb \<and>
     length (pp_buf p') = n \<and> framed True (rb_list rb') \<and>
     (case deframe esc acc (rb_list rb) of
        [] \<Rightarrow> e = -1 \<and> rb_list rb' = []
      | q # qs \<Rightarrow> e = 0 \<and> packets (rb_list rb') = qs \<and>
                  pp_dataLen p' = min (length q) (pp_bufSize p) \<and>
                  take (pp_dataLen p') (pp_buf p') = take (pp_bufSize p) q)"
proof (induction "rb_list rb" arbitrary: rb p esc acc)
  case Nil
  then show ?case by (auto simp: parse_rb_loop_empty in_frame_def)
next
  case (Cons b bs)
  from rbq.get_first [OF Cons.prems(1) Cons.hyps(2) [symmetric]] obtain rb1 where
    rb1: "RINGBUF_Get rb = Some (0, Some b, rb1)" "rb_inv rb1" "rb_list rb1 = bs"
         "nat (rb_size rb1) = nat (rb_size rb)" by auto
  have size: "rb_size rb1 = rb_size rb" using rb1 Cons.prems(1) by (auto simp: rb_inv_def)
  show ?case
  proof (cases "b = 0x7F")
    case True
    with Cons.prems(3) have byte: "PROTO_ParseByte p b = Some (0, p\<lparr>pp_isBegin := 0\<rparr>)"
      by (simp add: PROTO_ParseByte_def)
    from Cons.prems(4) Cons.hyps(2) [symmetric] True have "framed True bs" by simp
    with parse_rb_loop_byte [OF rb1(1) byte] rb1 size True Cons.prems(2) show ?thesis
      by (auto simp: Cons.hyps(2) [symmetric] in_frame_def)
  next
    case False
    from in_frame_byte [OF Cons.prems(2) False] obtain p1 esc1 acc1 where
      p1: "PROTO_ParseByte p b = Some (-1, p1)" "in_frame p1 esc1 acc1 n"
          "pp_bufSize p1 = pp_bufSize p" "pp_callback p1 = pp_callback p" "\<And>bs. deframe esc acc (b # bs) = deframe esc1 acc1 bs"
      by auto
    have fr: "framed False (rb_list rb1)"
      using Cons.prems(4) Cons.hyps(2) [symmetric] rb1(3) False by simp
    have eq: "parse_rb_loop rb p = parse_rb_loop rb1 p1"
      using parse_rb_loop_byte [OF rb1(1) p1(1)] by simp
    have d: "deframe esc acc (rb_list rb) = deframe esc1 acc1 (rb_list rb1)"
      using p1(5) [of bs] by (simp only: Cons.hyps(2) [symmetric] rb1(3))
    have "\<not> pp_callback p1" using p1(4) Cons.prems(3) by simp
    from Cons.hyps(1) [OF rb1(3) [symmetric] rb1(2) p1(2) this fr] show ?thesis
      unfolding eq d size p1(3) .
  qed
qed

text \<open>
  \<open>PROTO_ParseRb\<close> on a stream of frames: it takes the first packet, cut at \<open>maxBufLen\<close>, whatever
  the stack held; without a complete packet it empties the buffer and fails.
\<close>

lemma PROTO_ParseRb_result:
  assumes inv: "rb_inv rb" and fr: "framed True (rb_list rb)" and max: "m \<le> length buf"
  shows "\<exists>e rb' buf' l. PROTO_ParseRb g rb buf m = Some (e, rb', buf', l) \<and> rb_inv rb' \<and>
     rb_size rb' = rb_size rb \<and> length buf' = length buf \<and> framed True (rb_list rb') \<and>
     (case packets (rb_list rb) of
        [] \<Rightarrow> e = -1 \<and> rb_list rb' = [] \<and> l = None
      | q # qs \<Rightarrow> e = 0 \<and> packets (rb_list rb') = qs \<and> l = Some (min (length q) m) \<and>
                  take (min (length q) m) buf' = take m q)"
proof (cases "rb_list rb")
  case Nil
  with inv max show ?thesis
    by (auto simp: PROTO_ParseRb_def PROTO_Init_def parse_rb_loop_empty)
next
  case (Cons b bs)
  with fr have b: "b = 0x7E" and bs: "framed False bs" by auto
  let ?p = "snd (PROTO_Init (parser_on_stack g) False buf m)"
  let ?p1 = "?p\<lparr>pp_isBegin := 1\<rparr>"
  from rbq.get_first [OF inv Cons] obtain rb1 where
    rb1: "RINGBUF_Get rb = Some (0, Some b, rb1)" "rb_inv rb1" "rb_list rb1 = bs"
         "nat (rb_size rb1) = nat (rb_size rb)" by auto
  have size: "rb_size rb1 = rb_size rb" using rb1 inv by (auto simp: rb_inv_def)
  have byte: "PROTO_ParseByte ?p b = Some (-1, ?p1)"
    by (simp add: PROTO_ParseByte_def PROTO_Init_def parser_on_stack_def b)
  have "in_frame ?p1 False [] (length buf)"
    using max by (simp add: in_frame_def PROTO_Init_def parser_on_stack_def)
  note inf = this
  have "\<not> pp_callback ?p1" by (simp add: PROTO_Init_def)
  from parse_rb_loop_in_frame [OF rb1(2) inf this] bs rb1(3) obtain e rb' p' where
    loop: "parse_rb_loop rb1 ?p1 = Some (e, rb', p')" "rb_inv rb'" "rb_size rb' = rb_size rb1"
      "length (pp_buf p') = length buf" "framed True (rb_list rb')"
      "case packets bs of [] \<Rightarrow> e = -1 \<and> rb_list rb' = []
       | q # qs \<Rightarrow> e = 0 \<and> packets (rb_list rb') = qs \<and>
           pp_dataLen p' = min (length q) (pp_bufSize ?p1) \<and>
           take (pp_dataLen p') (pp_buf p') = take (pp_bufSize ?p1) q" by auto
  have m: "pp_bufSize ?p1 = m" by (simp add: PROTO_Init_def)
  have "PROTO_ParseRb g rb buf m =
      Some (e, rb', pp_buf p', if e = 0 then Some (pp_dataLen p') else None)"
    using parse_rb_loop_byte [OF rb1(1) byte] loop(1)
    by (simp add: PROTO_ParseRb_def split_beta)
  with loop(2-5) loop(6) [unfolded m] size show ?thesis
    by (cases "packets bs") (auto simp: Cons b)
qed

text \<open>
  \<open>PROTO_Parse\<close> with a callback over a framed stream: the callback sees every packet of the
  stream in order, each cut at the size of the destination.
\<close>

lemma proto_parse_stream:
  "framed s bs \<Longrightarrow> pp_callback p \<Longrightarrow> pp_bufSize p \<le> length (pp_buf p) \<Longrightarrow>
   (\<not> s \<Longrightarrow> in_frame p esc acc n) \<Longrightarrow>
   \<exists>p'. proto_parse_loop p bs (length bs) = Some (0, p') \<and>
     pp_seen p' = pp_seen p @
       map (take (pp_bufSize p)) (if s then packets bs else deframe esc acc bs)"
proof (induction bs arbitrary: s p esc acc n)
  case Nil
  then show ?case by simp
next
  case (Cons b bs)
  show ?case
  proof (cases s)
    case True
    with Cons.prems have b: "b = 0x7E" and bs: "framed False bs" by auto
    let ?p = "p\<lparr>pp_dataLen := 0, pp_isEsc := 0, pp_isBegin := 1\<rparr>"
    have "in_frame ?p False [] (length (pp_buf p))" using Cons.prems(3) by (simp add: in_frame_def)
    with Cons.IH [OF bs, of ?p False "[]" "length (pp_buf p)"] Cons.prems(2,3) True b show ?thesis
      by (auto simp: PROTO_ParseByte_def)
  next
    case False
    note inf = Cons.prems(4) [OF False]
    show ?thesis
    proof (cases "b = 0x7F")
      case True
      with Cons.prems(1) have bs: "framed True bs" by simp
      let ?p = "p\<lparr>pp_seen := pp_seen p @ [take (pp_dataLen p) (pp_buf p)], pp_isBegin := 0\<rparr>"
      have "take (pp_dataLen p) (pp_buf p) = take (pp_bufSize p) acc"
        using inf unfolding in_frame_def by blast
      with Cons.IH [OF bs, of ?p] Cons.prems(2,3) True False show ?thesis
        by (auto simp: PROTO_ParseByte_def)
    next
      case no_end: False
      from in_frame_byte [OF inf no_end] obtain p1 esc1 acc1 where
        p1: "PROTO_ParseByte p b = Some (-1, p1)" "in_frame p1 esc1 acc1 n"
            "pp_bufSize p1 = pp_bufSize p" "pp_callback p1 = pp_callback p"
            "pp_seen p1 = pp_seen p"
            "\<And>bs. deframe esc acc (b # bs) = deframe esc1 acc1 bs" by auto
      have bs: "framed False bs" using Cons.prems(1) no_end by simp
      have room: "pp_bufSize p1 \<le> length (pp_buf p1)" using p1(2) by (simp add: in_frame_def)
      from Cons.IH [OF bs _ room p1(2)] p1(4) Cons.prems(2) obtain p2 where
        "proto_parse_loop p1 bs (length bs) = Some (0, p2)"
        "pp_seen p2 = pp_seen p1 @ map (take (pp_bufSize p1)) (deframe esc1 acc1 bs)" by auto
      with p1 False show ?thesis by (simp del: deframe.simps add: p1(6))
    qed
  qed
qed

lemma packets_frames: "packets (concat (map frame ps)) = ps"
  by (induction ps) (simp_all add: deframe_frame)

lemma framed_frames: "framed True (concat (map frame ps))"
proof (induction ps rule: rev_induct)
  case (snoc p ps)
  with framed_append_frame [of "concat (map frame ps)" "length (frame p)" p] show ?case by simp
qed simp

text \<open>
  A packet that starts with its own length, as \<open>PROTO_Add\<close> expects it, and the number of bytes
  \<open>PROTO_Add\<close> writes for it: the packet, one more byte for each byte that is escaped, and the two
  delimiters.
\<close>

definition self_counting :: "u8 list \<Rightarrow> bool" where
  "self_counting q \<longleftrightarrow> 2 \<le> length q \<and> length q = unat (q ! 0) + 256 * unat (q ! 1)"

definition stuffed_length :: "u8 list \<Rightarrow> nat" where
  "stuffed_length q = length q + length (filter special q) + 2"

lemma length_frame: "length (frame q) = stuffed_length q"
  unfolding frame_def stuffed_length_def by (induction q) (auto simp: escape_def)

lemma PROTO_Add_frame:
  assumes "self_counting q" and "int (stuffed_length q) \<le> room" and "room \<le> 32767"
  shows "PROTO_Add q room = Some (int (length (frame q)), frame q)"
proof -
  have "sint (word_of_nat (length (frame q)) :: u16) = int (length (frame q))"
    using assms(2,3) by (simp add: signed_of_nat length_frame signed_take_bit_int_eq_self)
  with PROTO_Add_ok [of q "length q" room] assms(1,2) show ?thesis
    by (simp add: self_counting_def length_frame)
qed

section \<open>Properties\<close>

text \<open>
  C14: a run of packets, each starting with its own length in two bytes, is written by
  \<open>PROTO_Add\<close>, one call per packet, and the written bytes are given to one call of
  \<open>PROTO_Parse\<close>, whatever other bytes the packets hold. Every call of \<open>PROTO_Add\<close> succeeds and
  returns the number of bytes it has written, and the callback of the parser then sees exactly
  the packets, in order. Each packet has to fit the destination of the parser and, stuffed, the
  room given to \<open>PROTO_Add\<close> (a signed 16-bit number), and the stream has to be shorter than the
  16-bit length of \<open>PROTO_Parse\<close>.
\<close>

theorem proto_roundtrip:
  assumes "PROTO_Init p0 True buf sz = (0, p)" and "sz \<le> length buf"
    and "\<forall>q \<in> set ps. self_counting q \<and> length q \<le> sz \<and> int (stuffed_length q) \<le> room"
    and "room \<le> 32767" and "sum_list (map stuffed_length ps) < 65536"
  shows "\<exists>outs p'. map (\<lambda>q. PROTO_Add q room) ps = map (\<lambda>bs. Some (int (length bs), bs)) outs \<and>
           PROTO_Parse p (concat outs) (of_nat (length (concat outs))) = Some (0, p') \<and>
           pp_seen p' = pp_seen p0 @ ps"
proof -
  have "map (take sz) ps = ps" using assms(3) by (induction ps) auto
  moreover have "pp_callback p" "pp_bufSize p = sz" "pp_buf p = buf" "pp_seen p = pp_seen p0"
    using assms(1) by (auto simp: PROTO_Init_def)
  moreover have "length (concat (map frame ps)) < 65536"
    using assms(5) by (simp add: length_concat length_frame comp_def)
  then have "unat (of_nat (length (concat (map frame ps))) :: u16) = length (concat (map frame ps))"
    by (simp add: unat_of_nat)
  moreover have "map (\<lambda>q. PROTO_Add q room) ps = map (\<lambda>bs. Some (int (length bs), bs)) (map frame ps)"
    using assms(3,4) by (auto simp: PROTO_Add_frame)
  ultimately show ?thesis
    using proto_parse_stream [OF framed_frames [of ps], of p] assms(2)
    by (intro exI [of _ "map frame ps"]) (simp add: packets_frames PROTO_Parse_def)
qed

theorem proto_roundtrip_witness:
  "\<exists>outs p'. map (\<lambda>q. PROTO_Add q 20) [[4, 0, 0x7E, 0x7F], [3, 0, 0x7D]] =
               map (\<lambda>bs. Some (int (length bs), bs)) outs \<and>
        PROTO_Parse (snd (PROTO_Init (parser_on_stack 9) True [0, 0, 0, 0] 4)) (concat outs)
          (of_nat (length (concat outs))) = Some (0, p') \<and>
        pp_seen p' = [[4, 0, 0x7E, 0x7F], [3, 0, 0x7D]]"
proof -
  let ?p = "snd (PROTO_Init (parser_on_stack 9) True [0, 0, 0, 0] 4)"
  have i: "PROTO_Init (parser_on_stack 9) True [0, 0, 0, 0] 4 = (0, ?p)"
    by (simp add: PROTO_Init_def)
  show ?thesis
    using proto_roundtrip [OF i, of "[[4, 0, 0x7E, 0x7F], [3, 0, 0x7D]]" 20]
    by (simp add: parser_on_stack_def self_counting_def stuffed_length_def special_def)
qed

end
