(* ===== verification/Msg_Queue.thy ===== *)
theory Msg_Queue
  imports Proto
begin

text \<open>
  The packet queue of lib/mqtt/queue.c: packets are stored as frames in a ring buffer. The
  contract \<open>packet_queue\<close> states what the MQTT client relies on, and the retry loop that makes
  room for a new packet is analysed against that contract alone.
\<close>

section \<open>State and operations\<close>

text \<open>The queue owns the block the ring buffer works on, so the ring buffer is its whole state.\<close>

record queue =
  q_rb :: ringbuf

text \<open>
  \<open>os_zalloc\<close> is the SDK's allocator, the parameter \<open>zalloc\<close>; the second component of the
  result says whether the ring buffer was set up (\<open>QUEUE_Init\<close> ignores the return value).
\<close>

definition QUEUE_Init :: "(nat \<Rightarrow> u8 list option) \<Rightarrow> queue \<Rightarrow> int \<Rightarrow> queue" where
  "QUEUE_Init zalloc q bufferSize =
     (let buf = zalloc (nat bufferSize)
      in case RINGBUF_Init (Some (q_rb q)) buf bufferSize of
           (_, Some rb) \<Rightarrow> q\<lparr>q_rb := rb\<rparr>
         | (_, None) \<Rightarrow> q)"

definition QUEUE_Puts :: "queue \<Rightarrow> u8 list \<Rightarrow> nat \<Rightarrow> (int \<times> queue) option" where
  "QUEUE_Puts q buffer len =
     do { (e, rb) \<leftarrow> PROTO_AddRb (q_rb q) buffer len; Some (e, q\<lparr>q_rb := rb\<rparr>) }"

definition QUEUE_Gets ::
  "u8 \<Rightarrow> queue \<Rightarrow> u8 list \<Rightarrow> nat \<Rightarrow> (int \<times> queue \<times> u8 list \<times> nat option) option" where
  "QUEUE_Gets garbage q buffer maxLen =
     do { (e, rb, b, len) \<leftarrow> PROTO_ParseRb garbage (q_rb q) buffer maxLen;
          Some (e, q\<lparr>q_rb := rb\<rparr>, b, len) }"

definition QUEUE_IsEmpty :: "queue \<Rightarrow> bool" where
  "QUEUE_IsEmpty q \<longleftrightarrow> fill_cnt (q_rb q) \<le> 0"

section \<open>The contract\<close>

text \<open>
  \<open>pkts\<close> lists the packets that can still be taken out. A put that fails loses its own packet
  and no other; a get takes the oldest packet, cut at the size of the destination.
\<close>

locale packet_queue =
  fixes puts :: "'q \<Rightarrow> u8 list \<Rightarrow> nat \<Rightarrow> (int \<times> 'q) option"
    and gets :: "u8 \<Rightarrow> 'q \<Rightarrow> u8 list \<Rightarrow> nat \<Rightarrow> (int \<times> 'q \<times> u8 list \<times> nat option) option"
    and pkts :: "'q \<Rightarrow> u8 list list"
    and inv :: "'q \<Rightarrow> bool"
  assumes puts_result: "inv q \<Longrightarrow> n \<le> length p \<Longrightarrow>
      \<exists>e q'. puts q p n = Some (e, q') \<and> inv q' \<and>
             pkts q' = (if e = -1 then pkts q else pkts q @ [take n p])"
    and gets_none: "inv q \<Longrightarrow> pkts q = [] \<Longrightarrow> m \<le> length buf \<Longrightarrow>
      \<exists>q' buf'. gets g q buf m = Some (-1, q', buf', None) \<and> inv q' \<and> pkts q' = [] \<and>
                length buf' = length buf"
    and gets_some: "inv q \<Longrightarrow> pkts q = p # ps \<Longrightarrow> m \<le> length buf \<Longrightarrow>
      \<exists>q' buf'. gets g q buf m = Some (0, q', buf', Some (min (length p) m)) \<and> inv q' \<and>
                pkts q' = ps \<and> length buf' = length buf \<and>
                take (min (length p) m) buf' = take m p"

text \<open>
  The loop of \<open>MQTT_Publish\<close>, \<open>MQTT_Subscribe\<close> and \<open>MQTT_Ping\<close>: while the packet does not fit,
  drop the oldest one; give up when there is nothing left to drop. It is a loop without a
  bound in the code, so not returning is the value \<^term>\<open>None\<close>.
\<close>

partial_function (option) enqueue_evicting ::
  "('q \<Rightarrow> u8 list \<Rightarrow> nat \<Rightarrow> (int \<times> 'q) option) \<Rightarrow>
   (u8 \<Rightarrow> 'q \<Rightarrow> u8 list \<Rightarrow> nat \<Rightarrow> (int \<times> 'q \<times> u8 list \<times> nat option) option) \<Rightarrow>
   u8 \<Rightarrow> 'q \<Rightarrow> u8 list \<Rightarrow> nat \<Rightarrow> u8 list \<Rightarrow> nat \<Rightarrow> (bool \<times> 'q) option" where
  "enqueue_evicting puts gets g q p n buf m =
     do { (e, q1) \<leftarrow> puts q p n;
          if e \<noteq> -1 then Some (True, q1)
          else do { (e2, q2, buf2, _) \<leftarrow> gets g q1 buf m;
                    if e2 = -1 then Some (False, q2)
                    else enqueue_evicting puts gets g q2 p n buf2 m } }"

declare enqueue_evicting.simps [code]

context packet_queue
begin

lemma enqueue_evicting_result:
  assumes "inv q" and "n \<le> length p" and "m \<le> length buf"
  shows "\<exists>ok q' k. enqueue_evicting puts gets g q p n buf m = Some (ok, q') \<and> inv q' \<and>
           pkts q' = (if ok then drop k (pkts q) @ [take n p] else [])"
  using assms(1,3)
proof (induction "length (pkts q)" arbitrary: q buf)
  case 0
  from puts_result [OF 0(2) assms(2)] obtain e q1 where
    q1: "puts q p n = Some (e, q1)" "inv q1"
        "pkts q1 = (if e = -1 then pkts q else pkts q @ [take n p])" by auto
  show ?case
  proof (cases "e = -1")
    case True
    with gets_none [OF q1(2) _ 0(3), of g] q1 0(1) obtain q2 buf2 where
      "gets g q1 buf m = Some (-1, q2, buf2, None)" "inv q2" "pkts q2 = []" by auto
    with True q1 show ?thesis by (auto simp: enqueue_evicting.simps [of _ _ _ q])
  next
    case False
    with q1 0(1) show ?thesis by (auto simp: enqueue_evicting.simps [of _ _ _ q])
  qed
next
  case (Suc len)
  from Suc(2) obtain x xs where xs: "pkts q = x # xs" "length xs = len"
    by (cases "pkts q") auto
  from puts_result [OF Suc(3) assms(2)] obtain e q1 where
    q1: "puts q p n = Some (e, q1)" "inv q1"
        "pkts q1 = (if e = -1 then pkts q else pkts q @ [take n p])" by auto
  show ?case
  proof (cases "e = -1")
    case True
    with q1 xs gets_some [OF q1(2) _ Suc(4), of x xs g] obtain q2 buf2 l where
      q2: "gets g q1 buf m = Some (0, q2, buf2, l)" "inv q2" "pkts q2 = xs"
          "length buf2 = length buf" by auto
    from Suc(1) [of q2 buf2] q2 xs(2) Suc(4) obtain ok q' k where
      "enqueue_evicting puts gets g q2 p n buf2 m = Some (ok, q')" "inv q'"
      "pkts q' = (if ok then drop k xs @ [take n p] else [])" by auto
    moreover have "drop k xs = drop (Suc k) (pkts q)" using xs by simp
    ultimately show ?thesis
      using q1(1) q2(1) True by (auto simp: enqueue_evicting.simps [of _ _ _ q])
  next
    case False
    with q1 show ?thesis
      by (intro exI [of _ True] exI [of _ q1] exI [of _ 0])
         (auto simp: enqueue_evicting.simps [of _ _ _ q])
  qed
qed

text \<open>A packet that fits is queued behind all the others.\<close>

lemma enqueue_evicting_fits:
  assumes "inv q" and "n \<le> length p" and "puts q p n = Some (e, q1)" and "e \<noteq> -1"
  shows "enqueue_evicting puts gets g q p n buf m = Some (True, q1) \<and>
         pkts q1 = pkts q @ [take n p]"
  using assms puts_result [OF assms(1,2)] by (auto simp: enqueue_evicting.simps [of _ _ _ q])

end

section \<open>The queue keeps the contract\<close>

definition queue_pkts :: "queue \<Rightarrow> u8 list list" where
  "queue_pkts q = packets (rb_list (q_rb q))"

definition queue_inv :: "queue \<Rightarrow> bool" where
  "queue_inv q \<longleftrightarrow>
     rb_inv (q_rb q) \<and> rb_size (q_rb q) < 65535 \<and> framed True (rb_list (q_rb q))"

lemma sint_u16_not_minus_one: "n < 65535 \<Longrightarrow> sint (of_nat n :: u16) \<noteq> -1"
proof
  assume n: "n < 65535" and "sint (of_nat n :: u16) = -1"
  then have "(of_nat n :: u16) = -1" by (metis sint_n1 signed_word_eqI)
  then have "unat (of_nat n :: u16) = unat (-1 :: u16)" by simp
  with n show False by (simp add: unat_of_nat unsigned_minus_1_eq_mask mask_eq_exp_minus_1)
qed

text \<open>A put either stores the whole frame or leaves a fragment that no get will return.\<close>

lemma QUEUE_Puts_result:
  assumes inv: "queue_inv q" and len: "n \<le> length p"
  shows "\<exists>e q'. QUEUE_Puts q p n = Some (e, q') \<and> queue_inv q' \<and>
     (e = -1 \<longleftrightarrow> \<not> length (rb_list (q_rb q)) + length (frame (take n p)) \<le> nat (rb_size (q_rb q))) \<and>
     queue_pkts q' = (if e = -1 then queue_pkts q else queue_pkts q @ [take n p])"
proof -
  let ?rb = "q_rb q" and ?f = "frame (take n p)"
  let ?room = "nat (rb_size ?rb) - length (rb_list ?rb)"
  let ?fits = "length (rb_list ?rb) + length ?f \<le> nat (rb_size ?rb)"
  from inv have rb: "rb_inv ?rb" "rb_size ?rb < 65535" "framed True (rb_list ?rb)"
    by (auto simp: queue_inv_def)
  from rbq.put_bytes_result [OF rb(1), of ?f] obtain rb' where
    put: "put_bytes RINGBUF_Put ?rb ?f = Some (if ?fits then 0 else -1, rb')"
    and rb': "rb_inv rb'" "nat (rb_size rb') = nat (rb_size ?rb)"
      "rb_list rb' = rb_list ?rb @ take ?room ?f" by auto
  have size: "rb_size rb' = rb_size ?rb" using rb' rb(1) by (auto simp: rb_inv_def)
  have "queue_inv (q\<lparr>q_rb := rb'\<rparr>)"
    using rb' rb size framed_append_frame [OF rb(3)] by (simp add: queue_inv_def)
  moreover have "?fits \<Longrightarrow> sint (of_nat (length ?f) :: u16) \<noteq> -1"
    using rb(2) by (intro sint_u16_not_minus_one) auto
  moreover have "queue_pkts (q\<lparr>q_rb := rb'\<rparr>) =
      (if ?fits then queue_pkts q @ [take n p] else queue_pkts q)"
  proof (cases ?fits)
    case True
    then have "take ?room ?f = ?f" by simp
    with True show ?thesis by (simp add: queue_pkts_def rb'(3) deframe_append_frame)
  next
    case False
    moreover have "0 < length ?f" by (simp add: frame_def)
    ultimately have "?room < length ?f" by linarith
    with False show ?thesis by (simp add: queue_pkts_def rb'(3) deframe_append_fragment)
  qed
  ultimately show ?thesis
    by (auto simp: QUEUE_Puts_def PROTO_AddRb_eq [OF len] put)
qed

lemma QUEUE_Gets_result:
  assumes inv: "queue_inv q" and max: "m \<le> length buf"
  shows "\<exists>e q' buf' l. QUEUE_Gets g q buf m = Some (e, q', buf', l) \<and> queue_inv q' \<and>
     length buf' = length buf \<and>
     (case queue_pkts q of
        [] \<Rightarrow> e = -1 \<and> QUEUE_IsEmpty q' \<and> queue_pkts q' = [] \<and> l = None
      | p # ps \<Rightarrow> e = 0 \<and> queue_pkts q' = ps \<and> l = Some (min (length p) m) \<and>
                  take (min (length p) m) buf' = take m p)"
proof -
  from inv have rb: "rb_inv (q_rb q)" "framed True (rb_list (q_rb q))" "rb_size (q_rb q) < 65535"
    by (auto simp: queue_inv_def)
  from PROTO_ParseRb_result [OF rb(1,2) max, of g] obtain e rb' buf' l where
    r: "PROTO_ParseRb g (q_rb q) buf m = Some (e, rb', buf', l)" "rb_inv rb'"
       "rb_size rb' = rb_size (q_rb q)" "length buf' = length buf" "framed True (rb_list rb')"
       "case packets (rb_list (q_rb q)) of
          [] \<Rightarrow> e = -1 \<and> rb_list rb' = [] \<and> l = None
        | p # ps \<Rightarrow> e = 0 \<and> packets (rb_list rb') = ps \<and> l = Some (min (length p) m) \<and>
                    take (min (length p) m) buf' = take m p" by auto
  have "rb_list rb' = [] \<Longrightarrow> QUEUE_IsEmpty (q\<lparr>q_rb := rb'\<rparr>)"
    by (simp add: QUEUE_IsEmpty_def rb_list_def)
  with r rb(3) show ?thesis
    by (cases "queue_pkts q") (auto simp: QUEUE_Gets_def queue_inv_def queue_pkts_def)
qed

interpretation mq: packet_queue QUEUE_Puts QUEUE_Gets queue_pkts queue_inv
proof unfold_locales
  fix q :: queue and p :: "u8 list" and ps n m buf g
  show "queue_inv q \<Longrightarrow> n \<le> length p \<Longrightarrow>
      \<exists>e q'. QUEUE_Puts q p n = Some (e, q') \<and> queue_inv q' \<and>
             queue_pkts q' = (if e = -1 then queue_pkts q else queue_pkts q @ [take n p])"
    using QUEUE_Puts_result [of q n p] by blast
  show "queue_inv q \<Longrightarrow> queue_pkts q = [] \<Longrightarrow> m \<le> length buf \<Longrightarrow>
      \<exists>q' buf'. QUEUE_Gets g q buf m = Some (-1, q', buf', None) \<and> queue_inv q' \<and>
                queue_pkts q' = [] \<and> length buf' = length buf"
    using QUEUE_Gets_result [of q m buf g] by auto
  show "queue_inv q \<Longrightarrow> queue_pkts q = p # ps \<Longrightarrow> m \<le> length buf \<Longrightarrow>
      \<exists>q' buf'. QUEUE_Gets g q buf m = Some (0, q', buf', Some (min (length p) m)) \<and>
                queue_inv q' \<and> queue_pkts q' = ps \<and> length buf' = length buf \<and>
                take (min (length p) m) buf' = take m p"
    using QUEUE_Gets_result [of q m buf g] by auto
qed

lemma QUEUE_Init_ok:
  assumes "zalloc (nat sz) = Some (replicate (nat sz) 0)" and "2 \<le> sz" and "sz < 65535"
  shows "queue_inv (QUEUE_Init zalloc q sz) \<and> queue_pkts (QUEUE_Init zalloc q sz) = [] \<and>
         QUEUE_IsEmpty (QUEUE_Init zalloc q sz)"
  using assms
  by (simp add: QUEUE_Init_def RINGBUF_Init_def queue_inv_def rb_inv_def rb_list_def queue_pkts_def
      QUEUE_IsEmpty_def)

section \<open>Properties\<close>

text \<open>Putting a run of packets, and taking a number of packets out again.\<close>

fun puts_all :: "queue \<Rightarrow> u8 list list \<Rightarrow> queue option" where
  "puts_all q [] = Some q"
| "puts_all q (p # ps) =
     do { (e, q') \<leftarrow> QUEUE_Puts q p (length p); if e = -1 then None else puts_all q' ps }"

fun gets_all :: "u8 \<Rightarrow> queue \<Rightarrow> u8 list \<Rightarrow> nat \<Rightarrow> nat \<Rightarrow> (u8 list list \<times> queue) option" where
  "gets_all g q buf m 0 = Some ([], q)"
| "gets_all g q buf m (Suc k) =
     do { (e, q', buf', l) \<leftarrow> QUEUE_Gets g q buf m;
          if e = -1 then None
          else do { len \<leftarrow> l; (ps, q'') \<leftarrow> gets_all g q' buf' m k; Some (take len buf' # ps, q'') } }"

definition frames_size :: "u8 list list \<Rightarrow> nat" where
  "frames_size ps = length (concat (map frame ps))"

text \<open>The free bytes of the queue, and a put for which they suffice.\<close>

definition queue_room :: "queue \<Rightarrow> nat" where
  "queue_room q = nat (rb_size (q_rb q)) - length (rb_list (q_rb q))"

lemma frame_nonempty: "0 < length (frame p)"
  by (simp add: frame_def)

lemma QUEUE_Puts_fits:
  assumes inv: "queue_inv q" and n: "n \<le> length p" and fits: "length (frame (take n p)) \<le> queue_room q"
  shows "\<exists>e q'. QUEUE_Puts q p n = Some (e, q') \<and> e \<noteq> -1 \<and> queue_inv q' \<and>
     queue_pkts q' = queue_pkts q @ [take n p] \<and>
     queue_room q' = queue_room q - length (frame (take n p))"
proof -
  let ?rb = "q_rb q"
  have rb: "rb_inv ?rb" using inv by (simp add: queue_inv_def)
  have room: "length (rb_list ?rb) + length (frame (take n p)) \<le> nat (rb_size ?rb)"
    using fits frame_nonempty [of "take n p"] unfolding queue_room_def by linarith
  from QUEUE_Puts_result [OF inv n] room obtain e q1 where
    q1: "QUEUE_Puts q p n = Some (e, q1)" "queue_inv q1" "e \<noteq> -1"
        "queue_pkts q1 = queue_pkts q @ [take n p]" by auto
  from rbq.put_bytes_result [OF rb, of "frame (take n p)"] room q1(1) n
  have "length (rb_list (q_rb q1)) = length (rb_list ?rb) + length (frame (take n p))"
    "nat (rb_size (q_rb q1)) = nat (rb_size ?rb)"
    by (auto simp: QUEUE_Puts_def PROTO_AddRb_eq)
  then have "queue_room q1 = queue_room q - length (frame (take n p))" by (simp add: queue_room_def)
  with q1 show ?thesis by blast
qed

lemma puts_all_fits:
  "queue_inv q \<Longrightarrow> frames_size ps \<le> queue_room q \<Longrightarrow>
   \<exists>q'. puts_all q ps = Some q' \<and> queue_inv q' \<and> queue_pkts q' = queue_pkts q @ ps"
proof (induction ps arbitrary: q)
  case Nil
  then show ?case by simp
next
  case (Cons p ps)
  then have "length (frame (take (length p) p)) \<le> queue_room q" by (simp add: frames_size_def)
  from QUEUE_Puts_fits [OF Cons.prems(1) order_refl this] obtain e q1 where
    q1: "QUEUE_Puts q p (length p) = Some (e, q1)" "queue_inv q1" "e \<noteq> -1"
        "queue_pkts q1 = queue_pkts q @ [p]" "queue_room q1 = queue_room q - length (frame p)" by auto
  with Cons.IH [OF q1(2)] Cons.prems(2) show ?case by (auto simp: frames_size_def)
qed

lemma gets_all_result:
  "queue_inv q \<Longrightarrow> m \<le> length buf \<Longrightarrow> k \<le> length (queue_pkts q) \<Longrightarrow>
   \<exists>q'. gets_all g q buf m k = Some (map (take m) (take k (queue_pkts q)), q') \<and>
        queue_inv q' \<and> queue_pkts q' = drop k (queue_pkts q)"
proof (induction k arbitrary: q buf)
  case 0
  then show ?case by simp
next
  case (Suc k)
  then obtain p ps where ps: "queue_pkts q = p # ps" "k \<le> length ps" by (cases "queue_pkts q") auto
  from mq.gets_some [OF Suc.prems(1) ps(1) Suc.prems(2), of g] obtain q1 buf1 where
    q1: "QUEUE_Gets g q buf m = Some (0, q1, buf1, Some (min (length p) m))" "queue_inv q1"
        "queue_pkts q1 = ps" "length buf1 = length buf"
        "take (min (length p) m) buf1 = take m p" by auto
  from Suc.IH [OF q1(2), of buf1] q1 ps Suc.prems(2) show ?case by auto
qed

text \<open>
  C15: packets that are put into a fresh queue and fit it together come out again in order and
  unchanged, whatever bytes they hold and whatever the stack held before the calls.
\<close>

theorem queue_roundtrip:
  assumes "zalloc (nat sz) = Some (replicate (nat sz) 0)" and "2 \<le> sz" and "sz < 65535"
    and "int (frames_size ps) \<le> sz" and "m \<le> length buf" and "\<forall>p \<in> set ps. length p \<le> m"
  shows "\<exists>q1 q2. puts_all (QUEUE_Init zalloc q sz) ps = Some q1 \<and>
                 gets_all g q1 buf m (length ps) = Some (ps, q2) \<and>
                 (\<exists>q3 buf3. QUEUE_Gets g q2 buf m = Some (-1, q3, buf3, None))"
proof -
  let ?q = "QUEUE_Init zalloc q sz"
  have q: "queue_inv ?q" "queue_pkts ?q = []" using QUEUE_Init_ok [of zalloc sz q] assms by auto
  have "length (rb_list (q_rb ?q)) = 0" "rb_size (q_rb ?q) = sz"
    using assms by (simp_all add: QUEUE_Init_def RINGBUF_Init_def rb_list_def)
  moreover have "frames_size ps \<le> nat sz" using assms(4) by linarith
  ultimately have "frames_size ps \<le> queue_room ?q" by (simp add: queue_room_def)
  with puts_all_fits [OF q(1), of ps] q(2) obtain q1 where
    q1: "puts_all ?q ps = Some q1" "queue_inv q1" "queue_pkts q1 = ps" by auto
  have "map (take m) ps = ps" using assms(6) by (induction ps) auto
  with gets_all_result [OF q1(2) assms(5), of "length ps" g] q1(3) obtain q2 where
    "gets_all g q1 buf m (length ps) = Some (ps, q2)" "queue_inv q2" "queue_pkts q2 = []" by auto
  with q1(1) mq.gets_none [of q2 m buf g] assms(5) show ?thesis by blast
qed

definition queue_any :: queue where
  "queue_any = \<lparr>q_rb = rb_any\<rparr>"

abbreviation zalloc_ok :: "nat \<Rightarrow> u8 list option" where
  "zalloc_ok n \<equiv> Some (replicate n 0)"

theorem queue_roundtrip_witness:
  "\<exists>q1 q2. puts_all (QUEUE_Init zalloc_ok queue_any 16) [[0x7E, 1], [], [0x7F]] = Some q1 \<and>
     gets_all 7 q1 [0, 0, 0] 3 3 = Some ([[0x7E, 1], [], [0x7F]], q2) \<and>
     (\<exists>q3 buf3. QUEUE_Gets 7 q2 [0, 0, 0] 3 = Some (-1, q3, buf3, None))"
  using queue_roundtrip [of zalloc_ok 16 "[[0x7E, 1], [], [0x7F]]" 3 "[0, 0, 0]" queue_any 7]
  by (simp add: frames_size_def frame_def escape_def special_def numeral_3_eq_3
      del: puts_all.simps gets_all.simps)

text \<open>
  The retry loop of \<open>MQTT_Publish\<close>, \<open>MQTT_Subscribe\<close> and \<open>MQTT_Ping\<close> always ends. When it
  reports success the new packet is the last of the queue and only the oldest packets have been
  dropped for it; when it reports failure the queue is left with no packet at all.
\<close>

theorem enqueue_evicting_total:
  assumes "queue_inv q" and "n \<le> length p" and "m \<le> length buf"
  shows "\<exists>ok q' k. enqueue_evicting QUEUE_Puts QUEUE_Gets g q p n buf m = Some (ok, q') \<and>
           queue_inv q' \<and> queue_pkts q' = (if ok then drop k (queue_pkts q) @ [take n p] else [])"
  using assms by (rule mq.enqueue_evicting_result)

definition queue_of_10 :: queue where
  "queue_of_10 = \<lparr>q_rb = \<lparr>rb_mem = [0x7E, 1, 2, 3, 4, 0x7F, 0, 0, 0, 0], p_r = 0, p_w = 6,
                         fill_cnt = 6, rb_size = 10\<rparr>\<rparr>"

lemma queue_of_10_reached: "puts_all (QUEUE_Init zalloc_ok queue_any 10) [[1, 2, 3, 4]] = Some queue_of_10"
  by code_simp

lemma queue_of_10_inv: "queue_inv queue_of_10"
  by (simp add: queue_inv_def queue_of_10_def rb_inv_def rb_list_def upt_rec)

theorem enqueue_evicting_total_witness:
  "\<exists>ok q' k. enqueue_evicting QUEUE_Puts QUEUE_Gets 0 queue_of_10 [9] 1 [0, 0, 0, 0] 4 = Some (ok, q') \<and>
     queue_inv q' \<and> queue_pkts q' = (if ok then drop k (queue_pkts queue_of_10) @ [take 1 [9]] else [])"
  by (rule enqueue_evicting_total [OF queue_of_10_inv]) simp_all

text \<open>
  Dropping packets can fail needlessly. In a queue of 10 bytes that holds one packet, a packet of six
  bytes (whose frame of 8 bytes fits the queue once it is empty) is refused and the stored
  packet is lost too: the fragments of the failed attempts use up the room that was freed.
\<close>

theorem enqueue_evicting_loses_all:
  "length (frame [5, 6, 7, 8, 9, 10]) \<le> nat (rb_size (q_rb queue_of_10)) \<and>
   queue_pkts queue_of_10 = [[1, 2, 3, 4]] \<and>
   map_option (\<lambda>(ok, q). (ok, queue_pkts q))
     (enqueue_evicting QUEUE_Puts QUEUE_Gets 0 queue_of_10 [5, 6, 7, 8, 9, 10] 6 (replicate 8 0) 8) =
     Some (False, [])"
  by code_simp

end
