(* ===== verification/Mqtt_Utils.thy ===== *)
theory Mqtt_Utils
  imports Prelude
begin

text \<open>
  The string helpers of lib/mqtt/utils.c: the dotted-quad test, the dotted-quad parser that
  decides whether a host name is an address, and the hexadecimal parser. Strings are the bytes
  before the NUL; the end of the list is the NUL the code reads.
\<close>

section \<open>The three functions\<close>

text \<open>All three counters of \<open>UTILS_IsIPV4\<close> are 8 bits wide.\<close>

fun is_ipv4_loop :: "cstring \<Rightarrow> u8 \<Rightarrow> u8 \<Rightarrow> u8 \<Rightarrow> u8" where
  "is_ipv4_loop [] segs chcnt accum =
     (if segs \<noteq> 3 then 0 else if chcnt = 0 then 0 else 1)"
| "is_ipv4_loop (c # str) segs chcnt accum =
     (if c = 46 then
        (if chcnt = 0 then 0
         else let segs = segs + 1
              in if segs = 4 then 0 else is_ipv4_loop str segs 0 0)
      else if sint c < 48 \<or> sint c > 57 then 0
      else let accum = accum * 10 + c - 48
           in if unat accum > 255 then 0 else is_ipv4_loop str segs (chcnt + 1) accum)"

definition UTILS_IsIPV4 :: "cstring option \<Rightarrow> u8" where
  "UTILS_IsIPV4 str = (case str of None \<Rightarrow> 0 | Some s \<Rightarrow> is_ipv4_loop s 0 0 0)"

text \<open>
  One number of \<open>UTILS_StrToIP\<close>: \<open>Inl\<close> is the early \<open>return 0\<close>, \<open>Inr\<close> the number and the
  string after the character that ended it. The number is a signed int; overflowing it is
  undefined behaviour.
\<close>

fun ip_number :: "nat \<Rightarrow> cstring \<Rightarrow> int \<Rightarrow> (unit + int \<times> cstring) option" where
  "ip_number i [] n = (if i = 3 then Some (Inr (n, [])) else Some (Inl ()))"
| "ip_number i (c # rest) n =
     (if 48 \<le> sint c \<and> sint c \<le> 57 then
        (let n = n * 10 + (sint c - 48)
         in if n > 2147483647 then None else ip_number i rest n)
      else if (i < 3 \<and> c = 46) \<or> i = 3 then Some (Inr (n, rest))
      else Some (Inl ()))"

text \<open>\<open>ip\<close> is the four-byte destination, filled from index \<open>i\<close> on; \<open>k\<close> counts the rounds left.\<close>

fun str_to_ip_loop :: "nat \<Rightarrow> nat \<Rightarrow> cstring \<Rightarrow> u8 list \<Rightarrow> (u8 \<times> u8 list) option" where
  "str_to_ip_loop 0 i start ip = Some (1, ip)"
| "str_to_ip_loop (Suc k) i start ip =
     do { r \<leftarrow> ip_number i start 0;
          case r of
            Inl _ \<Rightarrow> Some (0, ip)
          | Inr (n, rest) \<Rightarrow>
              if n \<ge> 256 then Some (0, ip)
              else do { ip \<leftarrow> wr ip i (word_of_int n); str_to_ip_loop k (i + 1) rest ip } }"

definition UTILS_StrToIP :: "cstring \<Rightarrow> u8 list \<Rightarrow> (u8 \<times> u8 list) option" where
  "UTILS_StrToIP str ip = str_to_ip_loop 4 0 str ip"

fun atoh_loop :: "cstring \<Rightarrow> u32 \<Rightarrow> u32" where
  "atoh_loop [] value = value"
| "atoh_loop (c # s) value =
     (let digit = (if 48 \<le> sint c \<and> sint c \<le> 57 then Some (c - 48)
                   else if 65 \<le> sint c \<and> sint c \<le> 70 then Some (c - 65 + 10)
                   else if 97 \<le> sint c \<and> sint c \<le> 102 then Some (c - 97 + 10)
                   else None)
      in case digit of
           None \<Rightarrow> value
         | Some d \<Rightarrow> atoh_loop s (push_bit 4 value OR ucast d))"

definition UTILS_Atoh :: "cstring \<Rightarrow> u32" where
  "UTILS_Atoh s = atoh_loop s 0"

section \<open>Decimal digits and dotted quads\<close>

definition is_digit :: "u8 \<Rightarrow> bool" where
  "is_digit c \<longleftrightarrow> 48 \<le> uint c \<and> uint c \<le> 57"

text \<open>The parts of a string between its dots.\<close>

fun segments :: "cstring \<Rightarrow> cstring list" where
  "segments [] = [[]]"
| "segments (c # s) =
     (if c = 46 then [] # segments s
      else case segments s of [] \<Rightarrow> [[c]] | x # xs \<Rightarrow> (c # x) # xs)"

lemma segments_ne: "segments s \<noteq> []"
  by (induction s) (auto split: list.splits)

text \<open>On ASCII bytes the signed and the unsigned reading agree on what is a digit.\<close>

lemma digit_sint: "(48 \<le> sint c \<and> sint c \<le> 57) \<longleftrightarrow> is_digit c"
  using uint_u8_bound [of c] by (auto simp: sint_u8 is_digit_def)

lemma digit_sint_neg: "(sint c < 48 \<or> sint c > 57) \<longleftrightarrow> \<not> is_digit c"
  using digit_sint [of c] by linarith

lemma dot_not_digit [simp]: "\<not> is_digit 46"
  by (simp add: is_digit_def)

text \<open>
  The 8-bit accumulator never exceeds 255, so the range check of \<open>UTILS_IsIPV4\<close> never fires:
  the loop accepts exactly the strings of four non-empty digit groups.
\<close>

lemma accum_never_exceeds: "\<not> unat (a :: u8) > 255"
  using unat_u8_bound [of a] by simp

lemma is_ipv4_loop_iff:
  assumes "length (hd (segments s)) + unat chcnt < 256"
    and "\<forall>x \<in> set (tl (segments s)). length x < 256" and "unat segs < 4"
  shows "is_ipv4_loop s segs chcnt accum = 1 \<longleftrightarrow>
     length (segments s) + unat segs = 4 \<and> (unat chcnt = 0 \<longrightarrow> hd (segments s) \<noteq> []) \<and>
     (\<forall>x \<in> set (tl (segments s)). x \<noteq> []) \<and>
     (\<forall>x \<in> set (segments s). \<forall>c \<in> set x. is_digit c)"
  using assms
proof (induction s segs chcnt accum rule: is_ipv4_loop.induct)
  case (1 segs chcnt accum)
  have "segs = 3 \<longleftrightarrow> unat segs = 3" "chcnt = 0 \<longleftrightarrow> unat chcnt = 0"
    by (simp_all add: word_unat_eq_iff)
  then show ?case by auto
next
  case (2 c str segs chcnt accum)
  have z: "chcnt = 0 \<longleftrightarrow> unat chcnt = 0" by (simp add: word_unat_eq_iff)
  show ?case
  proof (cases "c = 46")
    case True
    have s1: "unat (segs + 1) = unat segs + 1" using "2.prems"(3)
      by (simp add: unat_word_ariths)
    have four: "segs + 1 = 4 \<longleftrightarrow> unat segs = 3" using s1 by (simp add: word_unat_eq_iff)
    show ?thesis
    proof (cases "chcnt = 0 \<or> unat segs = 3")
      case True
      with \<open>c = 46\<close> z four segments_ne [of str] show ?thesis by (auto simp: Let_def neq_Nil_conv)
    next
      case False
      have IH: "is_ipv4_loop str (segs + 1) 0 0 = 1 \<longleftrightarrow>
         length (segments str) + unat (segs + 1) = 4 \<and>
         (unat (0 :: u8) = 0 \<longrightarrow> hd (segments str) \<noteq> []) \<and>
         (\<forall>x \<in> set (tl (segments str)). x \<noteq> []) \<and>
         (\<forall>x \<in> set (segments str). \<forall>c \<in> set x. is_digit c)"
      proof (rule "2.IH"(1) [OF \<open>c = 46\<close>])
        show "length (hd (segments str)) + unat (0 :: u8) < 256"
          "\<forall>x \<in> set (tl (segments str)). length x < 256"
          using "2.prems"(2) \<open>c = 46\<close> segments_ne [of str] by (auto simp: neq_Nil_conv)
      qed (use False four s1 "2.prems"(3) in auto)
      have step: "is_ipv4_loop (c # str) segs chcnt accum = is_ipv4_loop str (segs + 1) 0 0"
        using \<open>c = 46\<close> False four by (simp add: Let_def)
      obtain x xs where "segments str = x # xs" using segments_ne by (cases "segments str") auto
      then show ?thesis
        unfolding step IH using \<open>c = 46\<close> False s1 z by auto
    qed
  next
    case no_dot: False
    from segments_ne [of str] obtain x xs where x: "segments str = x # xs"
      by (cases "segments str") auto
    show ?thesis
    proof (cases "is_digit c")
      case False
      with no_dot x show ?thesis by (auto simp: digit_sint_neg)
    next
      case True
      from "2.prems"(1) no_dot x have "Suc (length x) + unat chcnt < 256" by simp
      then have c1: "unat (chcnt + 1) = unat chcnt + 1" by (simp add: unat_word_ariths)
      have IH: "is_ipv4_loop str segs (chcnt + 1) (accum * 10 + c - 48) = 1 \<longleftrightarrow>
         length (segments str) + unat segs = 4 \<and> (unat (chcnt + 1) = 0 \<longrightarrow> hd (segments str) \<noteq> []) \<and>
         (\<forall>x \<in> set (tl (segments str)). x \<noteq> []) \<and>
         (\<forall>x \<in> set (segments str). \<forall>c \<in> set x. is_digit c)"
      proof (rule "2.IH"(2) [OF no_dot])
        show "\<not> (sint c < 48 \<or> 57 < sint c)" using True digit_sint_neg by blast
        show "length (hd (segments str)) + unat (chcnt + 1) < 256"
          "\<forall>x \<in> set (tl (segments str)). length x < 256"
          using "2.prems"(1,2) no_dot x c1 by auto
      qed (use "2.prems"(3) accum_never_exceeds in auto)
      have step: "is_ipv4_loop (c # str) segs chcnt accum =
          is_ipv4_loop str segs (chcnt + 1) (accum * 10 + c - 48)"
        using no_dot True digit_sint_neg [of c] accum_never_exceeds [of "accum * 10 + c - 48"]
        by (simp add: Let_def)
      show ?thesis
        unfolding step IH using no_dot x c1 True by auto
    qed
  qed
qed

section \<open>Numbers in decimal\<close>

definition dec_value :: "int \<Rightarrow> cstring \<Rightarrow> int" where
  "dec_value n ds = foldl (\<lambda>n c. n * 10 + (uint c - 48)) n ds"

fun show_dec :: "nat \<Rightarrow> cstring" where
  "show_dec n = (if n < 10 then [of_nat (48 + n)] else show_dec (n div 10) @ [of_nat (48 + n mod 10)])"

declare show_dec.simps [simp del]

text \<open>\<open>%d\<close> of printf.\<close>

definition show_int :: "int \<Rightarrow> cstring" where
  "show_int n = (if n < 0 then 45 # show_dec (nat (- n)) else show_dec (nat n))"

definition show_quad :: "u8 \<Rightarrow> u8 \<Rightarrow> u8 \<Rightarrow> u8 \<Rightarrow> cstring" where
  "show_quad a b c d = show_dec (unat a) @ 46 # show_dec (unat b) @ 46 #
                       show_dec (unat c) @ 46 # show_dec (unat d)"

lemma digit_of_nat: "d < 10 \<Longrightarrow> is_digit (of_nat (48 + d)) \<and> uint (of_nat (48 + d) :: u8) = 48 + int d"
  by (simp add: is_digit_def byte_simps del: of_nat_add)

lemma show_dec_digits: "\<forall>c \<in> set (show_dec n). is_digit c"
proof (induction n rule: show_dec.induct)
  case (1 n)
  show ?case
    using "1" digit_of_nat [of n] digit_of_nat [of "n mod 10"]
    by (subst show_dec.simps) (auto simp del: of_nat_add)
qed

lemma show_dec_value: "dec_value 0 (show_dec n) = int n"
proof (induction n rule: show_dec.induct)
  case (1 n)
  have "int (n div 10) * 10 + int (n mod 10) = int n"
    by (metis of_nat_add of_nat_mult div_mult_mod_eq of_nat_numeral)
  then show ?case
    using "1" digit_of_nat [of n] digit_of_nat [of "n mod 10"]
    by (subst show_dec.simps) (auto simp: dec_value_def simp del: of_nat_add)
qed

lemma show_dec_length: "n < 10 ^ k \<Longrightarrow> 0 < k \<Longrightarrow> length (show_dec n) \<le> k"
proof (induction n arbitrary: k rule: show_dec.induct)
  case (1 n)
  show ?case
  proof (cases "n < 10")
    case True
    then show ?thesis using "1.prems" by (subst show_dec.simps) simp
  next
    case False
    then obtain k' where k: "k = Suc k'" "0 < k'" using "1.prems" by (cases k; cases "k - 1") auto
    then have "n div 10 < 10 ^ k'" using "1.prems" by (simp add: div_less_iff_less_mult mult.commute)
    then have "length (show_dec (n div 10)) \<le> k'" using "1.IH" False k by simp
    then show ?thesis using False k by (subst show_dec.simps) simp
  qed
qed

lemma show_dec_longer: "10 ^ k \<le> n \<Longrightarrow> k < length (show_dec n)"
proof (induction n arbitrary: k rule: show_dec.induct)
  case (1 n)
  show ?case
  proof (cases "n < 10")
    case True
    then have "k = 0" using "1.prems" self_le_power [of "10 :: nat" k] by (cases "k = 0") auto
    then show ?thesis using True by (subst show_dec.simps) simp
  next
    case False
    show ?thesis
    proof (cases k)
      case 0
      then show ?thesis by (subst show_dec.simps) simp
    next
      case (Suc k')
      then have "10 ^ k' \<le> n div 10" using "1.prems" by (simp add: less_eq_div_iff_mult_less_eq mult.commute)
      then have "k' < length (show_dec (n div 10))" using "1.IH" False by simp
      then show ?thesis using False Suc by (subst show_dec.simps) simp
    qed
  qed
qed

lemma dec_value_mono: "0 \<le> n \<Longrightarrow> \<forall>c \<in> set ds. is_digit c \<Longrightarrow> n \<le> dec_value n ds"
proof (induction ds arbitrary: n)
  case Nil
  then show ?case by (simp add: dec_value_def)
next
  case (Cons c ds)
  then have c: "48 \<le> uint c" by (simp add: is_digit_def)
  then have "0 \<le> n * 10 + (uint c - 48)" "n \<le> n * 10 + (uint c - 48)"
    using Cons.prems(1) by linarith+
  with Cons.IH [of "n * 10 + (uint c - 48)"] Cons.prems(2) show ?case
    by (simp add: dec_value_def)
qed

lemma digit_sint_value: "is_digit c \<Longrightarrow> sint c - 48 = uint c - 48"
  by (auto simp: sint_u8 is_digit_def)

text \<open>Within the range of an int, a run of digits is read to its value.\<close>

lemma ip_number_digits:
  "0 \<le> n \<Longrightarrow> \<forall>c \<in> set ds. is_digit c \<Longrightarrow> dec_value n ds \<le> 2147483647 \<Longrightarrow>
   ip_number i (ds @ rest) n = ip_number i rest (dec_value n ds)"
proof (induction ds arbitrary: n)
  case Nil
  then show ?case by (simp add: dec_value_def)
next
  case (Cons c ds)
  let ?n = "n * 10 + (uint c - 48)"
  from Cons.prems(2) have c: "is_digit c" "48 \<le> uint c" by (simp_all add: is_digit_def)
  then have "0 \<le> ?n" using Cons.prems(1) by linarith
  moreover have "?n \<le> dec_value n (c # ds)"
    using dec_value_mono [of ?n ds] \<open>0 \<le> ?n\<close> Cons.prems(2) by (simp add: dec_value_def)
  ultimately have "ip_number i ((c # ds) @ rest) n = ip_number i (ds @ rest) ?n"
    using c Cons.prems(3) digit_sint [of c] digit_sint_value [OF c(1)] by (simp add: Let_def)
  with Cons.IH [OF \<open>0 \<le> ?n\<close>] Cons.prems show ?case by (simp add: dec_value_def)
qed

lemma ip_number_show:
  "n < 256 \<Longrightarrow> i < 3 \<Longrightarrow> ip_number i (show_dec n @ 46 # rest) 0 = Some (Inr (int n, rest))"
  "n < 256 \<Longrightarrow> ip_number 3 (show_dec n) 0 = Some (Inr (int n, []))"
  using ip_number_digits [of 0 "show_dec n" i "46 # rest"] show_dec_digits [of n]
    ip_number_digits [of 0 "show_dec n" 3 "[]"] show_dec_value [of n] digit_sint [of 46]
  by (simp_all add: del: sint_numeral)

section \<open>Hexadecimal\<close>

definition hex_digit :: "u8 \<Rightarrow> nat option" where
  "hex_digit c =
     (if 48 \<le> unat c \<and> unat c \<le> 57 then Some (unat c - 48)
      else if 65 \<le> unat c \<and> unat c \<le> 70 then Some (unat c - 55)
      else if 97 \<le> unat c \<and> unat c \<le> 102 then Some (unat c - 87)
      else None)"

fun hex_value :: "nat \<Rightarrow> cstring \<Rightarrow> nat" where
  "hex_value v [] = v"
| "hex_value v (c # s) = (case hex_digit c of None \<Rightarrow> v | Some d \<Rightarrow> hex_value (16 * v + d) s)"

lemma hex_digit_bound: "hex_digit c = Some d \<Longrightarrow> d < 16"
  by (auto simp: hex_digit_def split: if_splits)

lemma shift_or_digit:
  assumes "d < 16"
  shows "push_bit 4 (word_of_nat v :: u32) OR word_of_nat d = word_of_nat (16 * v + d)"
proof -
  have "push_bit 4 (word_of_nat v :: u32) OR word_of_nat d =
        push_bit 4 (word_of_nat v) + word_of_nat d"
  proof (rule disjunctive_add [symmetric])
    fix n show "\<not> bit (push_bit 4 (word_of_nat v :: u32)) n \<or> \<not> bit (word_of_nat d :: u32) n"
    proof (cases "n < 4")
      case True
      then show ?thesis by (simp add: bit_push_bit_iff)
    next
      case False
      with assms have "d < 2 ^ n"
        using power_increasing [of 4 n "2 :: nat"] by simp
      then have "\<not> bit d n" by (simp add: bit_iff_odd)
      then show ?thesis by (simp add: bit_of_nat_iff)
    qed
  qed
  then show ?thesis by (simp add: push_bit_eq_mult)
qed

lemma atoh_digit:
  "(if 48 \<le> sint c \<and> sint c \<le> 57 then Some (c - 48)
    else if 65 \<le> sint c \<and> sint c \<le> 70 then Some (c - 65 + 10)
    else if 97 \<le> sint c \<and> sint c \<le> 102 then Some (c - 97 + 10)
    else None) = map_option word_of_nat (hex_digit c)"
proof -
  have "uint c = int (unat c)" "unat c < 256" using unat_u8_bound [of c] by simp_all
  then have "sint c = int (unat c) \<or> (128 \<le> unat c \<and> sint c < 0)"
    using sint_u8 [of c] by (auto split: if_splits simp del: of_nat_unat)
  moreover have "c = word_of_nat (unat c)" by simp
  then have "48 \<le> unat c \<Longrightarrow> word_of_nat (unat c - 48) = c - 48"
    "55 \<le> unat c \<Longrightarrow> word_of_nat (unat c - 55) = c - 65 + 10"
    "87 \<le> unat c \<Longrightarrow> word_of_nat (unat c - 87) = c - 97 + 10"
    by (simp_all add: of_nat_diff)
  ultimately show ?thesis
    by (auto simp: hex_digit_def simp del: of_nat_unat)
qed

lemma atoh_loop_value: "atoh_loop s (word_of_nat v) = word_of_nat (hex_value v s)"
proof (induction s arbitrary: v)
  case Nil
  then show ?case by simp
next
  case (Cons c s)
  show ?case
  proof (cases "hex_digit c")
    case None
    then show ?thesis using atoh_digit [of c] by (simp only: atoh_loop.simps Let_def) simp
  next
    case (Some d)
    then have "d < 16" by (rule hex_digit_bound)
    then have "(ucast (word_of_nat d :: u8) :: u32) = word_of_nat d"
      by (simp add: word_unat_eq_iff unat_of_nat unsigned_ucast_eq take_bit_eq_mod)
    then show ?thesis
      using atoh_digit [of c] Some shift_or_digit [OF \<open>d < 16\<close>, of v] Cons.IH [of "16 * v + d"]
      by (simp only: atoh_loop.simps Let_def) simp
  qed
qed

section \<open>Properties\<close>

text \<open>
  C22: \<open>UTILS_IsIPV4\<close> accepts a string (with groups of at most 255 characters) exactly when it
  has four non-empty groups of decimal digits between three dots. The value of a group plays no
  part, although the code compares the accumulated value with 255.
\<close>

theorem UTILS_IsIPV4_iff:
  assumes "\<forall>x \<in> set (segments s). length x < 256"
  shows "UTILS_IsIPV4 (Some s) = 1 \<longleftrightarrow>
     length (segments s) = 4 \<and>
     (\<forall>x \<in> set (segments s). x \<noteq> [] \<and> (\<forall>c \<in> set x. is_digit c))"
proof -
  obtain x xs where x: "segments s = x # xs" using segments_ne [of s] by (cases "segments s") auto
  with assms is_ipv4_loop_iff [of s 0 0 0] show ?thesis by (auto simp: UTILS_IsIPV4_def)
qed

text \<open>\<open>999.1.1.1\<close> is accepted.\<close>

theorem UTILS_IsIPV4_iff_witness:
  "UTILS_IsIPV4 (Some [57, 57, 57, 46, 49, 46, 49, 46, 49]) = 1"
  by (rule UTILS_IsIPV4_iff [THEN iffD2]) (simp_all add: is_digit_def)

text \<open>
  The dotted-quad form of any four bytes is parsed back to these bytes, without leaving the
  destination or overflowing the number.
\<close>

theorem UTILS_StrToIP_roundtrip:
  assumes "length ip = 4"
  shows "UTILS_StrToIP (show_quad a b c d) ip = Some (1, [a, b, c, d])"
proof -
  from assms obtain w x y z where ip: "ip = [w, x, y, z]"
    by (auto simp: numeral_eq_Suc length_Suc_conv)
  have u: "uint k < 256" "\<not> 256 \<le> uint k" for k :: u8 using uint_u8_bound [of k] by simp_all
  show ?thesis
    using ip_number_show [OF unat_u8_bound] u
    by (simp add: UTILS_StrToIP_def show_quad_def numeral_eq_Suc wr_def ip)
qed

theorem UTILS_StrToIP_roundtrip_witness:
  "UTILS_StrToIP (show_quad 192 168 0 1) [0, 0, 0, 0] = Some (1, [192, 168, 0, 1])"
  by (rule UTILS_StrToIP_roundtrip) simp

text \<open>
  A host name that starts with three numbers and a dot is taken for an address: the fourth
  number ends at the first other character and may be empty. Here \<open>1.2.3.io\<close> parses as 1.2.3.0.
\<close>

lemma UTILS_StrToIP_takes_names:
  "UTILS_StrToIP [49, 46, 50, 46, 51, 46, 105, 111] [0, 0, 0, 0] = Some (1, [1, 2, 3, 0])"
  by code_simp

text \<open>
  \<open>UTILS_Atoh\<close> returns the value of the longest prefix of hexadecimal digits, of either
  case, modulo 2 to the 32.
\<close>

theorem UTILS_Atoh_value: "unat (UTILS_Atoh s) = hex_value 0 s mod 2 ^ 32"
  using atoh_loop_value [of s 0] by (simp add: UTILS_Atoh_def unat_of_nat)

end
