(* ===== verification/Mqtt_Msg.thy ===== *)
theory Mqtt_Msg
  imports Prelude
begin

text \<open>
  The MQTT packet layer of lib/mqtt/mqtt_msg.c and mqtt_msg.h: building packets into the
  connection's buffer and reading the fields of received ones.
\<close>

section \<open>Data\<close>

text \<open>The message types of \<open>enum mqtt_message_type\<close>, as the numbers the code puts on the wire.\<close>

definition MQTT_MSG_TYPE_CONNECT :: int where "MQTT_MSG_TYPE_CONNECT = 1"
definition MQTT_MSG_TYPE_CONNACK :: int where "MQTT_MSG_TYPE_CONNACK = 2"
definition MQTT_MSG_TYPE_PUBLISH :: int where "MQTT_MSG_TYPE_PUBLISH = 3"
definition MQTT_MSG_TYPE_PUBACK :: int where "MQTT_MSG_TYPE_PUBACK = 4"
definition MQTT_MSG_TYPE_PUBREC :: int where "MQTT_MSG_TYPE_PUBREC = 5"
definition MQTT_MSG_TYPE_PUBREL :: int where "MQTT_MSG_TYPE_PUBREL = 6"
definition MQTT_MSG_TYPE_PUBCOMP :: int where "MQTT_MSG_TYPE_PUBCOMP = 7"
definition MQTT_MSG_TYPE_SUBSCRIBE :: int where "MQTT_MSG_TYPE_SUBSCRIBE = 8"
definition MQTT_MSG_TYPE_SUBACK :: int where "MQTT_MSG_TYPE_SUBACK = 9"
definition MQTT_MSG_TYPE_UNSUBSCRIBE :: int where "MQTT_MSG_TYPE_UNSUBSCRIBE = 10"
definition MQTT_MSG_TYPE_UNSUBACK :: int where "MQTT_MSG_TYPE_UNSUBACK = 11"
definition MQTT_MSG_TYPE_PINGREQ :: int where "MQTT_MSG_TYPE_PINGREQ = 12"
definition MQTT_MSG_TYPE_PINGRESP :: int where "MQTT_MSG_TYPE_PINGRESP = 13"
definition MQTT_MSG_TYPE_DISCONNECT :: int where "MQTT_MSG_TYPE_DISCONNECT = 14"

lemmas msg_type_defs =
  MQTT_MSG_TYPE_CONNECT_def MQTT_MSG_TYPE_CONNACK_def MQTT_MSG_TYPE_PUBLISH_def
  MQTT_MSG_TYPE_PUBACK_def MQTT_MSG_TYPE_PUBREC_def MQTT_MSG_TYPE_PUBREL_def
  MQTT_MSG_TYPE_PUBCOMP_def MQTT_MSG_TYPE_SUBSCRIBE_def MQTT_MSG_TYPE_SUBACK_def
  MQTT_MSG_TYPE_UNSUBSCRIBE_def MQTT_MSG_TYPE_UNSUBACK_def MQTT_MSG_TYPE_PINGREQ_def
  MQTT_MSG_TYPE_PINGRESP_def MQTT_MSG_TYPE_DISCONNECT_def

text \<open>
  The connection: \<open>message.data\<close> is an offset into the buffer (or null), the lengths are 16-bit
  fields kept as numbers.
\<close>

record mqtt_connection =
  mc_data :: "nat option"
  mc_length :: nat
  mc_message_id :: u16
  mc_buffer :: "u8 list"
  mc_buffer_length :: nat

record mqtt_connect_info =
  ci_client_id :: "cstring option"
  ci_username :: "cstring option"
  ci_password :: "cstring option"
  ci_will_topic :: "cstring option"
  ci_will_message :: "cstring option"
  ci_keepalive :: int
  ci_will_qos :: int
  ci_will_retain :: int
  ci_clean_session :: int

section \<open>Writing into the buffer\<close>

text \<open>\<open>connection->buffer[connection->message.length++] = b\<close>\<close>

definition put_byte :: "mqtt_connection \<Rightarrow> u8 \<Rightarrow> mqtt_connection option" where
  "put_byte c b =
     do { m \<leftarrow> wr (mc_buffer c) (mc_length c) b;
          Some (c\<lparr>mc_buffer := m, mc_length := (mc_length c + 1) mod 65536\<rparr>) }"

definition put_block :: "mqtt_connection \<Rightarrow> u8 list \<Rightarrow> mqtt_connection option" where
  "put_block c bs =
     do { m \<leftarrow> wr_seg (mc_buffer c) (mc_length c) bs;
          Some (c\<lparr>mc_buffer := m, mc_length := (mc_length c + length bs) mod 65536\<rparr>) }"

definition append_string :: "mqtt_connection \<Rightarrow> cstring \<Rightarrow> (int \<times> mqtt_connection) option" where
  "append_string c s =
     (let len = length s
      in if mc_length c + len + 2 > mc_buffer_length c then Some (-1, c)
         else do { c \<leftarrow> put_byte c (word_of_nat (len div 256));
                   c \<leftarrow> put_byte c (word_of_nat (len mod 256));
                   c \<leftarrow> put_block c s;
                   Some (int len + 2, c) })"

text \<open>The loop that draws a fresh id: the counter may wrap to zero once, so it ends after two rounds.\<close>

function assign_id :: "u16 \<Rightarrow> u16 \<Rightarrow> u16 \<times> u16" where
  "assign_id message_id counter =
     (if message_id = 0 then assign_id (counter + 1) (counter + 1) else (message_id, counter))"
  by pat_completeness auto
termination
  by (relation "measure (\<lambda>(m, c). if m \<noteq> 0 then 0 else if c + 1 \<noteq> 0 then 1 else 2)") auto

declare assign_id.simps [simp del]

definition append_message_id :: "mqtt_connection \<Rightarrow> u16 \<Rightarrow> (u16 \<times> mqtt_connection) option" where
  "append_message_id c message_id =
     (let (message_id, counter) = assign_id message_id (mc_message_id c);
          c = c\<lparr>mc_message_id := counter\<rparr>
      in if mc_length c + 2 > mc_buffer_length c then Some (0, c)
         else do { c \<leftarrow> put_byte c (ucast (drop_bit 8 message_id));
                   c \<leftarrow> put_byte c (ucast (message_id AND 0xff));
                   Some (message_id, c) })"

definition init_message :: "mqtt_connection \<Rightarrow> mqtt_connection" where
  "init_message c = c\<lparr>mc_length := 3\<rparr>"

definition fail_message :: "mqtt_connection \<Rightarrow> mqtt_connection" where
  "fail_message c = c\<lparr>mc_data := Some 0, mc_length := 0\<rparr>"

definition header_byte :: "int \<Rightarrow> int \<Rightarrow> int \<Rightarrow> int \<Rightarrow> u8" where
  "header_byte type dup qos retain =
     word_of_int (push_bit 4 (type AND 0x0f) OR push_bit 3 (dup AND 1) OR
                  push_bit 1 (qos AND 3) OR (retain AND 1))"

definition fini_message ::
  "mqtt_connection \<Rightarrow> int \<Rightarrow> int \<Rightarrow> int \<Rightarrow> int \<Rightarrow> mqtt_connection option" where
  "fini_message c type dup qos retain =
     (let remaining_length = int (mc_length c) - 3
      in if remaining_length > 127 then
           do { m \<leftarrow> wr (mc_buffer c) 0 (header_byte type dup qos retain);
                m \<leftarrow> wr m 1 (word_of_int (0x80 OR (remaining_length mod 128)));
                m \<leftarrow> wr m 2 (word_of_int (remaining_length div 128));
                Some (c\<lparr>mc_buffer := m, mc_length := nat (remaining_length + 3) mod 65536,
                        mc_data := Some 0\<rparr>) }
         else
           do { m \<leftarrow> wr (mc_buffer c) 1 (header_byte type dup qos retain);
                m \<leftarrow> wr m 2 (word_of_int remaining_length);
                Some (c\<lparr>mc_buffer := m, mc_length := nat (remaining_length + 2) mod 65536,
                        mc_data := Some 1\<rparr>) })"

definition mqtt_msg_init :: "u8 list \<Rightarrow> nat \<Rightarrow> mqtt_connection" where
  "mqtt_msg_init buffer buffer_length =
     \<lparr>mc_data = None, mc_length = 0, mc_message_id = 0, mc_buffer = buffer,
      mc_buffer_length = buffer_length\<rparr>"

section \<open>Reading received packets\<close>

definition mqtt_get_type :: "u8 list \<Rightarrow> int option" where
  "mqtt_get_type buffer = do { b \<leftarrow> rd buffer 0; Some (uint (drop_bit 4 (b AND 0xf0))) }"

definition mqtt_get_dup :: "u8 list \<Rightarrow> int option" where
  "mqtt_get_dup buffer = do { b \<leftarrow> rd buffer 0; Some (uint (drop_bit 3 (b AND 0x08))) }"

definition mqtt_get_qos :: "u8 list \<Rightarrow> int option" where
  "mqtt_get_qos buffer = do { b \<leftarrow> rd buffer 0; Some (uint (drop_bit 1 (b AND 0x06))) }"

definition mqtt_get_retain :: "u8 list \<Rightarrow> int option" where
  "mqtt_get_retain buffer = do { b \<leftarrow> rd buffer 0; Some (uint (b AND 0x01)) }"

text \<open>
  The loop over the remaining-length bytes, from \<open>i\<close> on: the index after them and the sum.
  Shifting by the width of an int or more, or past its range, is undefined behaviour.
\<close>

function length_loop :: "u8 list \<Rightarrow> nat \<Rightarrow> nat \<Rightarrow> int \<Rightarrow> (nat \<times> int) option" where
  "length_loop buffer n i totlen =
     (if i < n then
        (case rd buffer i of
           None \<Rightarrow> None
         | Some b \<Rightarrow>
             (let v = uint (b AND 0x7f) * 2 ^ (7 * (i - 1))
              in if 7 * (i - 1) \<ge> 32 \<or> totlen + v > 2147483647 then None
                 else if b AND 0x80 = 0 then Some (i + 1, totlen + v)
                 else length_loop buffer n (i + 1) (totlen + v)))
      else Some (i, totlen))"
  by pat_completeness auto
termination
  by (relation "measure (\<lambda>(b, n, i, t). n - i)") auto

declare length_loop.simps [simp del]

text \<open>The total, header included; the addition is on ints as well.\<close>

definition mqtt_get_total_length :: "u8 list \<Rightarrow> nat \<Rightarrow> int option" where
  "mqtt_get_total_length buffer n =
     do { (i, totlen) \<leftarrow> length_loop buffer n 1 0;
          if totlen + int i > 2147483647 then None else Some (totlen + int i) }"

text \<open>\<open>buffer[i] << 8 | buffer[i + 1]\<close>\<close>

definition rd_be16 :: "u8 list \<Rightarrow> nat \<Rightarrow> nat option" where
  "rd_be16 buffer i =
     do { hi \<leftarrow> rd buffer i; lo \<leftarrow> rd buffer (i + 1);
          Some (nat (push_bit 8 (uint hi) OR uint lo)) }"

text \<open>The result is the pointer (an offset, or null) and the new \<open>*length\<close>.\<close>

definition mqtt_get_publish_topic :: "u8 list \<Rightarrow> nat \<Rightarrow> (nat option \<times> nat) option" where
  "mqtt_get_publish_topic buffer n =
     do { (i, totlen) \<leftarrow> length_loop buffer n 1 0;
          if totlen + int i > 2147483647 then None
          else if i + 2 \<ge> n then Some (None, n)
          else do { topiclen \<leftarrow> rd_be16 buffer i;
                    let i = i + 2;
                    if i + topiclen > n then Some (None, n)
                    else Some (Some i, topiclen) } }"

definition mqtt_get_publish_data :: "u8 list \<Rightarrow> nat \<Rightarrow> (nat option \<times> nat) option" where
  "mqtt_get_publish_data buffer n =
     do { (i, totlen) \<leftarrow> length_loop buffer n 1 0;
          if totlen + int i > 2147483647 then None
          else let totlen = totlen + int i in
          if i + 2 \<ge> n then Some (None, n)
          else do { topiclen \<leftarrow> rd_be16 buffer i;
                    let i = i + 2;
                    if i + topiclen \<ge> n then Some (None, 0)
                    else do {
                      let i = i + topiclen;
                      qos \<leftarrow> mqtt_get_qos buffer;
                      if qos > 0 \<and> i + 2 \<ge> n then Some (None, n)
                      else let i = (if qos > 0 then i + 2 else i) in
                      if totlen < int i then Some (None, n)
                      else if totlen \<le> int n then Some (Some i, nat (totlen - int i) mod 65536)
                      else Some (Some i, n - i) } } }"

text \<open>\<open>mqtt_get_id\<close> skips the remaining length without adding it up.\<close>

function skip_length :: "u8 list \<Rightarrow> nat \<Rightarrow> nat \<Rightarrow> nat option" where
  "skip_length buffer n i =
     (if i < n then
        (case rd buffer i of
           None \<Rightarrow> None
         | Some b \<Rightarrow> if b AND 0x80 = 0 then Some (i + 1) else skip_length buffer n (i + 1))
      else Some i)"
  by pat_completeness auto
termination
  by (relation "measure (\<lambda>(b, n, i). n - i)") auto

declare skip_length.simps [simp del]

definition mqtt_get_id :: "u8 list \<Rightarrow> nat \<Rightarrow> u16 option" where
  "mqtt_get_id buffer n =
     (if n < 1 then Some 0
      else do {
        type \<leftarrow> mqtt_get_type buffer;
        if type = MQTT_MSG_TYPE_PUBLISH then
          do { i \<leftarrow> skip_length buffer n 1;
               if i + 2 \<ge> n then Some 0
               else do { topiclen \<leftarrow> rd_be16 buffer i;
                         let i = i + 2;
                         if i + topiclen \<ge> n then Some 0
                         else do { let i = i + topiclen;
                                   qos \<leftarrow> mqtt_get_qos buffer;
                                   if qos > 0 then
                                     if i + 2 \<ge> n then Some 0
                                     else map_option word_of_nat (rd_be16 buffer i)
                                   else Some 0 } } }
        else if type \<in> {MQTT_MSG_TYPE_PUBACK, MQTT_MSG_TYPE_PUBREC, MQTT_MSG_TYPE_PUBREL,
                        MQTT_MSG_TYPE_PUBCOMP, MQTT_MSG_TYPE_SUBACK, MQTT_MSG_TYPE_UNSUBACK,
                        MQTT_MSG_TYPE_SUBSCRIBE} then
          if n \<ge> 4 then
            do { b \<leftarrow> rd buffer 1;
                 if b AND 0x80 = 0 then map_option word_of_nat (rd_be16 buffer 2) else Some 0 }
          else Some 0
        else Some 0 })"

section \<open>Building packets\<close>

text \<open>
  \<open>mqtt_msg_connect\<close>. The flag \<open>v31\<close> tells which of the two protocol names the build defines.
  The variable header is a packed struct at offset 3 of the buffer: length (2 bytes), name (6 or
  4), version, flags, keepalive (2).
\<close>

definition protocol_name :: "bool \<Rightarrow> u8 list" where
  "protocol_name v31 =
     (if v31 then [77, 81, 73, 115, 100, 112] else [77, 81, 84, 84])"

definition set_flag :: "mqtt_connection \<Rightarrow> bool \<Rightarrow> u8 \<Rightarrow> mqtt_connection option" where
  "set_flag c v31 f =
     (let i = 3 + 2 + length (protocol_name v31) + 1
      in do { old \<leftarrow> rd (mc_buffer c) i; m \<leftarrow> wr (mc_buffer c) i (old OR f);
              Some (c\<lparr>mc_buffer := m\<rparr>) })"

definition not_empty :: "cstring option \<Rightarrow> bool" where
  "not_empty s \<longleftrightarrow> (case s of None \<Rightarrow> False | Some s \<Rightarrow> s \<noteq> [])"

text \<open>
  One optional field: append it and set its flag. \<open>Inl\<close> is the early \<open>return fail_message\<close>.
\<close>

definition append_field ::
  "mqtt_connection \<Rightarrow> bool \<Rightarrow> cstring option \<Rightarrow> u8 \<Rightarrow> (mqtt_connection + mqtt_connection) option" where
  "append_field c v31 s flag =
     (if not_empty s then
        do { (e, c) \<leftarrow> append_string c (the s);
             if e < 0 then Some (Inl (fail_message c))
             else do { c \<leftarrow> set_flag c v31 flag; Some (Inr c) } }
      else Some (Inr c))"

text \<open>The will: \<open>strlen\<close> of a null message is undefined.\<close>

definition append_will ::
  "mqtt_connection \<Rightarrow> bool \<Rightarrow> mqtt_connect_info \<Rightarrow> (mqtt_connection + mqtt_connection) option" where
  "append_will c v31 info =
     (if not_empty (ci_will_topic info) then
        do { (e, c) \<leftarrow> append_string c (the (ci_will_topic info));
             if e < 0 then Some (Inl (fail_message c))
             else do {
               msg \<leftarrow> ci_will_message info;
               (e, c) \<leftarrow> append_string c msg;
               if e < 0 then Some (Inl (fail_message c))
               else do { c \<leftarrow> set_flag c v31 0x04;
                         c \<leftarrow> (if ci_will_retain info \<noteq> 0 then set_flag c v31 0x20 else Some c);
                         c \<leftarrow> set_flag c v31 (word_of_int (push_bit 3 (ci_will_qos info AND 3)));
                         Some (Inr c) } } }
      else Some (Inr c))"

text \<open>The client id must be there.\<close>

definition append_id ::
  "mqtt_connection \<Rightarrow> mqtt_connect_info \<Rightarrow> (mqtt_connection + mqtt_connection) option" where
  "append_id c info =
     (if not_empty (ci_client_id info) then
        do { (e, c) \<leftarrow> append_string c (the (ci_client_id info));
             if e < 0 then Some (Inl (fail_message c)) else Some (Inr c) }
      else Some (Inl (fail_message c)))"

text \<open>Going on after a step that may have returned early.\<close>

definition and_then ::
  "(mqtt_connection + mqtt_connection) option \<Rightarrow>
   (mqtt_connection \<Rightarrow> (mqtt_connection + mqtt_connection) option) \<Rightarrow>
   (mqtt_connection + mqtt_connection) option" where
  "and_then res k = do { r \<leftarrow> res; case r of Inl c \<Rightarrow> Some (Inl c) | Inr c \<Rightarrow> k c }"

definition mqtt_msg_connect ::
  "bool \<Rightarrow> mqtt_connection \<Rightarrow> mqtt_connect_info \<Rightarrow> mqtt_connection option" where
  "mqtt_msg_connect v31 c info =
     (let c = init_message c; name = protocol_name v31;
          header = [0, word_of_nat (length name)] @ name @
                   [if v31 then 3 else 4, 0, word_of_int (drop_bit 8 (ci_keepalive info)),
                    word_of_int (ci_keepalive info AND 0xff)]
      in if mc_length c + length header > mc_buffer_length c then Some (fail_message c)
         else do {
           c \<leftarrow> put_block c header;
           c \<leftarrow> (if ci_clean_session info \<noteq> 0 then set_flag c v31 0x02 else Some c);
           r \<leftarrow> and_then (and_then (and_then (append_id c info)
                  (\<lambda>c. append_will c v31 info))
                  (\<lambda>c. append_field c v31 (ci_username info) 0x80))
                  (\<lambda>c. append_field c v31 (ci_password info) 0x40);
           case r of Inl c \<Rightarrow> Some c
           | Inr c \<Rightarrow> fini_message c MQTT_MSG_TYPE_CONNECT 0 0 0 })"

text \<open>
  \<open>data\<close> is the block the data pointer points into; the result is the connection, whose
  \<open>message\<close> the code returns, and the new \<open>*message_id\<close> (\<open>mid\<close> is the old one).
\<close>

definition mqtt_msg_publish ::
  "mqtt_connection \<Rightarrow> cstring option \<Rightarrow> u8 list \<Rightarrow> int \<Rightarrow> int \<Rightarrow> int \<Rightarrow> u16 \<Rightarrow>
   (mqtt_connection \<times> u16) option" where
  "mqtt_msg_publish c topic data data_length qos retain mid =
     (let c = init_message c
      in if \<not> not_empty topic then Some (fail_message c, mid)
         else do {
           (e, c) \<leftarrow> append_string c (the topic);
           if e < 0 then Some (fail_message c, mid)
           else do {
             (mid, c) \<leftarrow> (if qos > 0 then append_message_id c 0 else Some (0, c));
             if qos > 0 \<and> mid = 0 then Some (fail_message c, mid)
             else if int (mc_length c) + data_length > int (mc_buffer_length c)
             then Some (fail_message c, mid)
             else if data_length < 0 then None
             else do {
               bytes \<leftarrow> rd_seg data 0 (nat data_length);
               c \<leftarrow> put_block c bytes;
               c \<leftarrow> fini_message c MQTT_MSG_TYPE_PUBLISH 0 qos retain;
               Some (c, mid) } } })"

text \<open>The four acknowledgements differ in their type and QoS bits.\<close>

definition ack_message :: "mqtt_connection \<Rightarrow> u16 \<Rightarrow> int \<Rightarrow> int \<Rightarrow> mqtt_connection option" where
  "ack_message c message_id type qos =
     do { let c = init_message c;
          (mid, c) \<leftarrow> append_message_id c message_id;
          if mid = 0 then Some (fail_message c) else fini_message c type 0 qos 0 }"

definition mqtt_msg_puback :: "mqtt_connection \<Rightarrow> u16 \<Rightarrow> mqtt_connection option" where
  "mqtt_msg_puback c message_id = ack_message c message_id MQTT_MSG_TYPE_PUBACK 0"

definition mqtt_msg_pubrec :: "mqtt_connection \<Rightarrow> u16 \<Rightarrow> mqtt_connection option" where
  "mqtt_msg_pubrec c message_id = ack_message c message_id MQTT_MSG_TYPE_PUBREC 0"

definition mqtt_msg_pubrel :: "mqtt_connection \<Rightarrow> u16 \<Rightarrow> mqtt_connection option" where
  "mqtt_msg_pubrel c message_id = ack_message c message_id MQTT_MSG_TYPE_PUBREL 1"

definition mqtt_msg_pubcomp :: "mqtt_connection \<Rightarrow> u16 \<Rightarrow> mqtt_connection option" where
  "mqtt_msg_pubcomp c message_id = ack_message c message_id MQTT_MSG_TYPE_PUBCOMP 0"

definition mqtt_msg_subscribe ::
  "mqtt_connection \<Rightarrow> cstring option \<Rightarrow> int \<Rightarrow> u16 \<Rightarrow> (mqtt_connection \<times> u16) option" where
  "mqtt_msg_subscribe c topic qos mid =
     (let c = init_message c
      in if \<not> not_empty topic then Some (fail_message c, mid)
         else do {
           (mid, c) \<leftarrow> append_message_id c 0;
           if mid = 0 then Some (fail_message c, mid)
           else do {
             (e, c) \<leftarrow> append_string c (the topic);
             if e < 0 then Some (fail_message c, mid)
             else if mc_length c + 1 > mc_buffer_length c then Some (fail_message c, mid)
             else do { c \<leftarrow> put_byte c (word_of_int qos);
                       c \<leftarrow> fini_message c MQTT_MSG_TYPE_SUBSCRIBE 0 1 0;
                       Some (c, mid) } } })"

definition mqtt_msg_unsubscribe ::
  "mqtt_connection \<Rightarrow> cstring option \<Rightarrow> u16 \<Rightarrow> (mqtt_connection \<times> u16) option" where
  "mqtt_msg_unsubscribe c topic mid =
     (let c = init_message c
      in if \<not> not_empty topic then Some (fail_message c, mid)
         else do {
           (mid, c) \<leftarrow> append_message_id c 0;
           if mid = 0 then Some (fail_message c, mid)
           else do {
             (e, c) \<leftarrow> append_string c (the topic);
             if e < 0 then Some (fail_message c, mid)
             else do { c \<leftarrow> fini_message c MQTT_MSG_TYPE_UNSUBSCRIBE 0 1 0; Some (c, mid) } } })"

definition mqtt_msg_pingreq :: "mqtt_connection \<Rightarrow> mqtt_connection option" where
  "mqtt_msg_pingreq c = fini_message (init_message c) MQTT_MSG_TYPE_PINGREQ 0 0 0"

definition mqtt_msg_pingresp :: "mqtt_connection \<Rightarrow> mqtt_connection option" where
  "mqtt_msg_pingresp c = fini_message (init_message c) MQTT_MSG_TYPE_PINGRESP 0 0 0"

definition mqtt_msg_disconnect :: "mqtt_connection \<Rightarrow> mqtt_connection option" where
  "mqtt_msg_disconnect c = fini_message (init_message c) MQTT_MSG_TYPE_DISCONNECT 0 0 0"

section \<open>Packets as byte lists\<close>

text \<open>
  The specification of the writers: a packet is its header byte, its remaining length in one or
  two bytes, and its payload; a string goes in with its length before it.
\<close>

definition rem_len :: "nat \<Rightarrow> u8 list" where
  "rem_len n = (if n > 127 then [word_of_nat (128 + n mod 128), word_of_nat (n div 128)]
                else [word_of_nat n])"

definition packet :: "int \<Rightarrow> int \<Rightarrow> int \<Rightarrow> int \<Rightarrow> u8 list \<Rightarrow> u8 list" where
  "packet type dup qos retain pl = header_byte type dup qos retain # rem_len (length pl) @ pl"

definition be16 :: "nat \<Rightarrow> u8 list" where
  "be16 n = [word_of_nat (n div 256), word_of_nat (n mod 256)]"

definition with_length :: "cstring \<Rightarrow> u8 list" where
  "with_length s = be16 (length s) @ s"

text \<open>The bytes the returned message points at.\<close>

definition message :: "mqtt_connection \<Rightarrow> u8 list" where
  "message c = take (mc_length c) (drop (the (mc_data c)) (mc_buffer c))"

section \<open>The writers stay in the buffer and build the packet\<close>

definition conn_ok :: "mqtt_connection \<Rightarrow> bool" where
  "conn_ok c \<longleftrightarrow> mc_buffer_length c \<le> length (mc_buffer c) \<and> 3 \<le> mc_buffer_length c \<and>
                 mc_buffer_length c < 65536"

text \<open>The message starts at the front of the buffer or one byte after it.\<close>

definition near_start :: "mqtt_connection \<Rightarrow> bool" where
  [simp]: "near_start c \<longleftrightarrow> mc_data c = Some 0 \<or> mc_data c = Some 1"

text \<open>What no writer changes but the one that draws message ids.\<close>

definition same_buffer :: "mqtt_connection \<Rightarrow> mqtt_connection \<Rightarrow> bool" where
  "same_buffer c c' \<longleftrightarrow> mc_buffer_length c' = mc_buffer_length c \<and>
     length (mc_buffer c') = length (mc_buffer c)"

definition holds_payload :: "mqtt_connection \<Rightarrow> u8 list \<Rightarrow> bool" where
  "holds_payload c pl \<longleftrightarrow> conn_ok c \<and> mc_length c = 3 + length pl \<and>
     mc_length c \<le> mc_buffer_length c \<and> take (length pl) (drop 3 (mc_buffer c)) = pl"

lemma same_buffer_refl [simp]: "same_buffer c c"
  by (simp add: same_buffer_def)

lemma same_buffer_trans [trans]: "same_buffer a b \<Longrightarrow> same_buffer b c \<Longrightarrow> same_buffer a c"
  by (simp add: same_buffer_def)

lemma same_buffer_ok: "same_buffer c c' \<Longrightarrow> conn_ok c' = conn_ok c"
  by (simp add: same_buffer_def conn_ok_def)

lemma init_message_holds: "conn_ok c \<Longrightarrow> holds_payload (init_message c) []"
  by (simp add: holds_payload_def init_message_def conn_ok_def)

lemma init_message_same [simp]: "same_buffer c (init_message c)"
  "mc_message_id (init_message c) = mc_message_id c"
  by (simp_all add: same_buffer_def init_message_def)

lemma fail_message_same [simp]: "same_buffer c (fail_message c)" "mc_length (fail_message c) = 0"
  "mc_data (fail_message c) = Some 0" "mc_message_id (fail_message c) = mc_message_id c"
  by (simp_all add: same_buffer_def fail_message_def)

lemma put_block_ok:
  assumes "holds_payload c pl" and "mc_length c + length bs \<le> mc_buffer_length c"
  shows "\<exists>c'. put_block c bs = Some c' \<and> holds_payload c' (pl @ bs) \<and> same_buffer c c' \<and>
              mc_message_id c' = mc_message_id c"
proof -
  from assms have len: "mc_length c = 3 + length pl" "3 + length pl + length bs \<le> length (mc_buffer c)"
    "3 + length pl + length bs < 65536" "3 + length pl + length bs \<le> mc_buffer_length c"
    and pl: "take (length pl) (drop 3 (mc_buffer c)) = pl" and ok: "conn_ok c"
    by (auto simp: holds_payload_def conn_ok_def)
  let ?m = "take (3 + length pl) (mc_buffer c) @ bs @ drop (3 + length pl + length bs) (mc_buffer c)"
  let ?c = "c\<lparr>mc_buffer := ?m, mc_length := 3 + length pl + length bs\<rparr>"
  have put: "put_block c bs = Some ?c"
    using len by (simp add: put_block_def mem_simps)
  have m: "length ?m = length (mc_buffer c)" using len by simp
  have "drop 3 ?m = take (length pl) (drop 3 (mc_buffer c)) @ bs @
      drop (3 + length pl + length bs) (mc_buffer c)"
    using len(2) by (simp add: drop_take)
  then have "take (length (pl @ bs)) (drop 3 ?m) = pl @ bs" using pl by simp
  then have "holds_payload ?c (pl @ bs)"
    using len ok m by (simp add: holds_payload_def conn_ok_def)
  with put m show ?thesis by (auto simp: same_buffer_def)
qed

lemma put_byte_block: "put_byte c b = put_block c [b]"
  by (simp add: put_byte_def put_block_def wr_def wr_seg_def upd_conv_take_nth_drop)

lemmas put_byte_ok = put_block_ok [where bs = "[b]" for b, folded put_byte_block, simplified]

lemma append_string_full:
  "mc_length c + length s + 2 > mc_buffer_length c \<Longrightarrow> append_string c s = Some (-1, c)"
  by (simp add: append_string_def)

lemma append_string_ok:
  assumes "holds_payload c pl" and "mc_length c + length s + 2 \<le> mc_buffer_length c"
  shows "\<exists>c'. append_string c s = Some (int (length s) + 2, c') \<and>
              holds_payload c' (pl @ with_length s) \<and> same_buffer c c' \<and>
              mc_message_id c' = mc_message_id c"
proof -
  have len: "holds_payload c pl \<Longrightarrow> mc_length c = 3 + length pl" for c pl
    by (simp add: holds_payload_def)
  from put_byte_ok [OF assms(1), of "word_of_nat (length s div 256)"] assms(2) obtain c1 where
    c1: "put_byte c (word_of_nat (length s div 256)) = Some c1"
        "holds_payload c1 (pl @ [word_of_nat (length s div 256)])" "same_buffer c c1"
        "mc_message_id c1 = mc_message_id c" by auto
  have "mc_length c1 < mc_buffer_length c1"
    using c1 assms len [OF assms(1)] len [OF c1(2)] by (simp add: same_buffer_def)
  with put_byte_ok [OF c1(2), of "word_of_nat (length s mod 256)"] obtain c2 where
    c2: "put_byte c1 (word_of_nat (length s mod 256)) = Some c2"
        "holds_payload c2 (pl @ be16 (length s))" "same_buffer c1 c2"
        "mc_message_id c2 = mc_message_id c1" by (auto simp: be16_def)
  have "mc_length c2 + length s \<le> mc_buffer_length c2"
    using c1(3) c2(3) assms len [OF assms(1)] len [OF c2(2)] by (simp add: same_buffer_def be16_def)
  with put_block_ok [OF c2(2), of s] obtain c3 where
    c3: "put_block c2 s = Some c3" "holds_payload c3 (pl @ with_length s)" "same_buffer c2 c3"
        "mc_message_id c3 = mc_message_id c2" by (auto simp: with_length_def)
  have "append_string c s = Some (int (length s) + 2, c3)"
    using assms(2) c1 c2 c3 by (simp add: append_string_def)
  moreover have "same_buffer c c3" using c1(3) c2(3) c3(3) by (metis same_buffer_trans)
  ultimately show ?thesis using c1 c2 c3 by auto
qed

text \<open>Drawing an id: never zero, the given one if there is one, else the next of the counter.\<close>

lemma assign_id_result:
  "assign_id m c =
     (if m \<noteq> 0 then (m, c) else if c + 1 \<noteq> 0 then (c + 1, c + 1) else (1, 1))"
  by (simp add: assign_id.simps [of m c] assign_id.simps [of "c + 1" "c + 1"]
      assign_id.simps [of 1 1])

lemma assign_id_nonzero: "fst (assign_id m c) \<noteq> 0"
  by (simp add: assign_id_result)

lemma u16_bytes:
  "[ucast (drop_bit 8 w) :: u8, ucast (w AND 0xff) :: u8] = be16 (unat (w :: u16))"
proof -
  have "ucast (drop_bit 8 w) = (word_of_nat (unat w div 256) :: u8)"
    by (simp add: word_unat_eq_iff unsigned_ucast_eq unsigned_drop_bit_eq drop_bit_eq_div
        take_bit_eq_mod unat_of_nat unat_div)
  moreover have "w AND 0xff = take_bit 8 w" by (simp add: take_bit_eq_mask mask_eq_exp_minus_1)
  then have "ucast (w AND 0xff) = (word_of_nat (unat w mod 256) :: u8)"
    by (simp add: word_unat_eq_iff unsigned_ucast_eq take_bit_eq_mod unat_of_nat
        unsigned_take_bit_eq unat_mod)
  ultimately show ?thesis by (simp add: be16_def)
qed

lemma append_message_id_full:
  "mc_length c + 2 > mc_buffer_length c \<Longrightarrow>
   append_message_id c m = Some (0, c\<lparr>mc_message_id := snd (assign_id m (mc_message_id c))\<rparr>)"
  by (simp add: append_message_id_def split_beta)

lemma append_message_id_ok:
  assumes "holds_payload c pl" and "mc_length c + 2 \<le> mc_buffer_length c"
  shows "\<exists>c'. append_message_id c m = Some (fst (assign_id m (mc_message_id c)), c') \<and>
              holds_payload c' (pl @ be16 (unat (fst (assign_id m (mc_message_id c))))) \<and> same_buffer c c' \<and>
              mc_message_id c' = snd (assign_id m (mc_message_id c))"
proof -
  have len: "holds_payload c pl \<Longrightarrow> mc_length c = 3 + length pl" for c pl
    by (simp add: holds_payload_def)
  define mid where "mid = fst (assign_id m (mc_message_id c))"
  let ?c = "c\<lparr>mc_message_id := snd (assign_id m (mc_message_id c))\<rparr>"
  have c: "holds_payload ?c pl" "same_buffer c ?c"
    using assms(1) by (simp_all add: holds_payload_def conn_ok_def same_buffer_def)
  from put_byte_ok [OF c(1), of "ucast (drop_bit 8 mid)"] assms(2) obtain c1 where
    c1: "put_byte ?c (ucast (drop_bit 8 mid)) = Some c1" "same_buffer ?c c1"
        "holds_payload c1 (pl @ [ucast (drop_bit 8 mid)])" "mc_message_id c1 = mc_message_id ?c"
    by auto
  have "mc_length c1 < mc_buffer_length c1"
    using c1 assms len [OF assms(1)] len [OF c1(3)] by (simp add: same_buffer_def)
  with put_byte_ok [OF c1(3), of "ucast (mid AND 0xff)"] obtain c2 where
    c2: "put_byte c1 (ucast (mid AND 0xff)) = Some c2" "same_buffer c1 c2"
        "holds_payload c2 (pl @ be16 (unat mid))" "mc_message_id c2 = mc_message_id c1"
    by (auto simp flip: u16_bytes)
  have "append_message_id c m = Some (mid, c2)"
    using assms(2) c1(1) c2(1) by (simp add: append_message_id_def split_beta mid_def)
  moreover have "same_buffer c c2" using c(2) c1(2) c2(2) by (metis same_buffer_trans)
  ultimately show ?thesis using c1 c2 by (auto simp: mid_def)
qed

lemma holds_payload_bound: "holds_payload c pl \<Longrightarrow> 3 + length pl < 65536"
  by (simp add: holds_payload_def conn_ok_def)

lemma continuation_byte: "(0x80 OR int n mod 128 :: int) = 128 + int n mod 128"
  using shift_or_int [of "int n mod 128" 7 1] by simp

text \<open>\<open>fini_message\<close> turns the payload into the packet, wherever it starts in the buffer.\<close>

lemma fini_message_ok:
  assumes "holds_payload c pl"
  shows "\<exists>c'. fini_message c type dup qos retain = Some c' \<and>
              message c' = packet type dup qos retain pl \<and>
              mc_length c' = length (packet type dup qos retain pl) \<and>
              mc_length c' \<le> mc_buffer_length c' \<and> same_buffer c c' \<and>
              mc_message_id c' = mc_message_id c \<and> near_start c'"
proof -
  let ?h = "header_byte type dup qos retain" and ?n = "length pl" and ?b = "mc_buffer c"
  from assms have len: "mc_length c = 3 + ?n" "3 + ?n \<le> length ?b" "3 + ?n < 65536"
    "3 + ?n \<le> mc_buffer_length c"
    and pl: "take ?n (drop 3 ?b) = pl"
    by (auto simp: holds_payload_def conn_ok_def)
  from len(2) obtain x y z rest where b: "?b = x # y # z # rest" "?n \<le> length rest"
    by (cases ?b; cases "tl ?b"; cases "tl (tl ?b)") auto
  with pl have rest: "take ?n rest = pl" by simp
  show ?thesis
  proof (cases "?n > 127")
    case True
    let ?m = "?h # word_of_nat (128 + ?n mod 128) # word_of_nat (?n div 128) # rest"
    have "word_of_int (0x80 OR (int ?n mod 128)) = (word_of_nat (128 + ?n mod 128) :: u8)"
      unfolding continuation_byte by (metis of_int_of_nat_eq of_nat_add of_nat_mod of_nat_numeral)
    moreover have "word_of_int (int ?n div 128) = (word_of_nat (?n div 128) :: u8)"
      by (metis of_int_of_nat_eq of_nat_div of_nat_numeral)
    ultimately have f: "fini_message c type dup qos retain =
        Some (c\<lparr>mc_buffer := ?m, mc_length := ?n + 3, mc_data := Some 0\<rparr>)"
      using True len(1,3) b by (simp add: fini_message_def wr_def Let_def nat_add_distrib)
    show ?thesis
      unfolding f using True len b rest
      by (simp add: message_def packet_def rem_len_def same_buffer_def take_Suc_Suc_Suc)
  next
    case False
    let ?m = "x # ?h # word_of_nat ?n # rest"
    have f: "fini_message c type dup qos retain =
        Some (c\<lparr>mc_buffer := ?m, mc_length := ?n + 2, mc_data := Some 1\<rparr>)"
      using False len(1,3) b by (simp add: fini_message_def wr_def Let_def nat_add_distrib)
    show ?thesis
      unfolding f using False len b rest
      by (simp add: message_def packet_def rem_len_def same_buffer_def
          take_Suc_Suc_Suc [simplified])
  qed
qed

section \<open>The readers on a packet\<close>

lemma mask_7f: "(b AND 0x7f :: u8) = take_bit 7 b"
  by (simp add: take_bit_eq_mask mask_eq_exp_minus_1)

lemma uint_mask_7f: "uint (b AND 0x7f :: u8) = uint b mod 128"
  by (simp only: mask_7f unsigned_take_bit_eq) (simp add: take_bit_eq_mod)

lemma top_bit_clear: "(b AND 0x80 = (0 :: u8)) \<longleftrightarrow> uint b < 128"
  using and_exp_eq_0_iff_not_bit [of b 7] bit7_u8 [of b] by (simp add: not_le)

lemma header_byte_value:
  assumes "0 \<le> type" "type < 16" "0 \<le> dup" "dup < 2" "0 \<le> qos" "qos < 4" "0 \<le> retain" "retain < 2"
  shows "uint (header_byte type dup qos retain) = 16 * type + 8 * dup + 2 * qos + retain"
proof -
  have m: "type AND 15 = type" "dup AND 1 = dup" "qos AND 3 = qos" "retain AND 1 = retain"
    using assms take_bit_int_eq_self [of type 4] take_bit_int_eq_self [of dup 1]
      take_bit_int_eq_self [of qos 2] take_bit_int_eq_self [of retain 1]
    by (simp_all add: take_bit_eq_mask mask_eq_exp_minus_1)
  have 1: "push_bit 1 qos OR retain = 2 * qos + retain"
    using shift_or_int [of retain 1 qos] assms by simp
  have 2: "push_bit 3 dup OR (2 * qos + retain) = 8 * dup + 2 * qos + retain"
    using shift_or_int [of "2 * qos + retain" 3 dup] assms by simp
  have 3: "push_bit 4 type OR (8 * dup + 2 * qos + retain) = 16 * type + 8 * dup + 2 * qos + retain"
    using shift_or_int [of "8 * dup + 2 * qos + retain" 4 type] assms by simp
  have "header_byte type dup qos retain = word_of_int (16 * type + 8 * dup + 2 * qos + retain)"
    unfolding header_byte_def m or.assoc 1 2 3 ..
  moreover have "0 \<le> v \<Longrightarrow> v < 256 \<Longrightarrow> uint (word_of_int v :: u8) = v" for v
    by (simp add: uint_word_of_int)
  ultimately show ?thesis using assms by (simp del: of_int_add of_int_mult)
qed

lemma uint_drop_take: "uint (take_bit m (drop_bit n (b :: u8))) = (uint b div 2 ^ n) mod 2 ^ m"
  by (simp only: unsigned_take_bit_eq unsigned_drop_bit_eq)
     (simp add: take_bit_eq_mod drop_bit_eq_div uint_u8_bound)

lemma field_masks:
  "drop_bit 4 (b AND 0xf0 :: u8) = take_bit 4 (drop_bit 4 b)"
  "drop_bit 3 (b AND 0x08 :: u8) = take_bit 1 (drop_bit 3 b)"
  "drop_bit 1 (b AND 0x06 :: u8) = take_bit 2 (drop_bit 1 b)"
  "(b AND 0x01 :: u8) = take_bit 1 (drop_bit 0 b)"
proof -
  have m: "drop_bit 4 (0xf0 :: u8) = mask 4" "drop_bit 3 (0x08 :: u8) = mask 1"
    "drop_bit 1 (0x06 :: u8) = mask 2" "(0x01 :: u8) = mask 1"
    by (simp_all add: mask_eq_exp_minus_1 drop_bit_eq_div)
  show "drop_bit 4 (b AND 0xf0 :: u8) = take_bit 4 (drop_bit 4 b)"
    "drop_bit 3 (b AND 0x08 :: u8) = take_bit 1 (drop_bit 3 b)"
    "drop_bit 1 (b AND 0x06 :: u8) = take_bit 2 (drop_bit 1 b)"
    unfolding drop_bit_and m(1-3) take_bit_eq_mask by (rule refl)+
  show "(b AND 0x01 :: u8) = take_bit 1 (drop_bit 0 b)"
    unfolding m(4) take_bit_eq_mask by simp
qed

lemma get_fields:
  "mqtt_get_type (b # xs) = Some (uint b div 16)" "mqtt_get_dup (b # xs) = Some (uint b div 8 mod 2)"
  "mqtt_get_qos (b # xs) = Some (uint b div 2 mod 4)" "mqtt_get_retain (b # xs) = Some (uint b mod 2)"
proof -
  have "uint b div 16 < 16" using uint_u8_bound [of b] by simp
  then have "uint b div 16 mod 16 = uint b div 16" 
    by (intro mod_pos_pos_trivial) (simp_all add: pos_imp_zdiv_nonneg_iff)
  then show "mqtt_get_type (b # xs) = Some (uint b div 16)"
    unfolding mqtt_get_type_def field_masks uint_drop_take by (simp add: rd_def)
qed (unfold mqtt_get_dup_def mqtt_get_qos_def mqtt_get_retain_def field_masks uint_drop_take,
     simp_all add: rd_def)

text \<open>The one or two length bytes, read as numbers.\<close>

lemma rem_len_cases:
  assumes "n \<le> 16383"
  obtains (one) b where "n \<le> 127" "rem_len n = [b]" "uint b = int n"
  | (two) b1 b2 where "127 < n" "rem_len n = [b1, b2]" "uint b1 = 128 + int n mod 128"
      "uint b2 = int n div 128"
proof (cases "n > 127")
  case False
  then show ?thesis using one [of "word_of_nat n"] by (simp add: rem_len_def byte_simps)
next
  case True
  have "uint (word_of_nat (128 + n mod 128) :: u8) = 128 + int n mod 128"
    by (simp add: byte_simps del: of_nat_add) (simp add: zmod_int)
  moreover have "uint (word_of_nat (n div 128) :: u8) = int n div 128"
    using assms by (simp add: byte_simps zdiv_int)
  ultimately show ?thesis using two True by (simp add: rem_len_def del: of_nat_add)
qed

lemma length_loop_packet:
  assumes "n \<le> 16383" and "length (rem_len n) < k"
  shows "length_loop (h # rem_len n @ rest) k 1 0 = Some (1 + length (rem_len n), int n)"
  using assms(1)
proof (cases rule: rem_len_cases)
  case (one b)
  with assms(2) show ?thesis
    by (simp add: length_loop.simps [of _ k "Suc 0"] rd_def uint_mask_7f top_bit_clear Let_def)
next
  case (two b1 b2)
  have "int n mod 128 + int n div 128 * 128 = int n" by simp
  moreover have "int n div 128 < 128" using assms(1) by simp
  moreover have "\<not> int n mod 128 < 0" "\<not> 2147483647 < int n mod 128" by presburger+
  ultimately show ?thesis
    using assms two
    by (simp add: length_loop.simps [of _ k "Suc 0"] length_loop.simps [of _ k "Suc (Suc 0)"] rd_def
        uint_mask_7f top_bit_clear Let_def)
qed

lemma skip_length_packet:
  assumes "n \<le> 16383" and "length (rem_len n) < k"
  shows "skip_length (h # rem_len n @ rest) k 1 = Some (1 + length (rem_len n))"
  using assms(1)
proof (cases rule: rem_len_cases)
  case (one b)
  with assms(2) show ?thesis
    by (simp add: skip_length.simps [of _ k "Suc 0"] rd_def top_bit_clear)
next
  case (two b1 b2)
  have "int n div 128 < 128" "\<not> int n mod 128 < 0" using assms(1) by simp_all
  with assms two show ?thesis
    by (simp add: skip_length.simps [of _ k "Suc 0"] skip_length.simps [of _ k "Suc (Suc 0)"] rd_def
        top_bit_clear)
qed

lemma rd_append: "rd (xs @ y # ys) (length xs) = Some y"
  by (simp add: rd_def)

lemma rd_be16_append:
  assumes "n < 65536"
  shows "rd_be16 (xs @ be16 n @ ys) (length xs) = Some n"
proof -
  let ?hi = "word_of_nat (n div 256) :: u8" and ?lo = "word_of_nat (n mod 256) :: u8"
  have hi: "uint ?hi = int n div 256" and lo: "uint ?lo = int n mod 256"
    using assms by (simp_all add: byte_simps zdiv_int zmod_int)
  have "push_bit 8 (uint ?hi) OR uint ?lo = int n"
    using shift_or_int [of "uint ?lo" 8 "uint ?hi"] unfolding hi lo by simp
  then show ?thesis
    using rd_append [of xs ?hi] rd_append [of "xs @ [?hi]" ?lo]
    by (simp add: rd_be16_def be16_def)
qed

section \<open>Publishing: what is written is what is read back\<close>

text \<open>The payload of a PUBLISH packet: topic, message id when there is a QoS, data.\<close>

definition publish_payload :: "cstring \<Rightarrow> int \<Rightarrow> u16 \<Rightarrow> u8 list \<Rightarrow> u8 list" where
  "publish_payload topic qos mid data =
     with_length topic @ (if qos > 0 then be16 (unat mid) else []) @ data"

text \<open>The bytes a returned pointer and length describe.\<close>

definition view :: "u8 list \<Rightarrow> nat option \<times> nat \<Rightarrow> u8 list option" where
  "view buffer r = (case r of (None, _) \<Rightarrow> None | (Some i, n) \<Rightarrow> Some (take n (drop i buffer)))"

lemma length_be16 [simp]: "length (be16 n) = 2"
  by (simp add: be16_def)

lemma length_with_length [simp]: "length (with_length s) = length s + 2"
  by (simp add: with_length_def)

lemma holds_payload_length: "holds_payload c pl \<Longrightarrow> mc_length c = 3 + length pl"
  by (simp add: holds_payload_def)

text \<open>The fresh id a QoS publish draws, and the counter after it.\<close>

definition fresh_id :: "mqtt_connection \<Rightarrow> u16" where
  "fresh_id c = fst (assign_id 0 (mc_message_id c))"

lemma fresh_id_result: "fresh_id c = (if mc_message_id c + 1 \<noteq> 0 then mc_message_id c + 1 else 1)"
  by (simp add: fresh_id_def assign_id_result)

lemma fresh_id_nonzero: "fresh_id c \<noteq> 0"
  by (simp add: fresh_id_result)

lemma publish_builds:
  assumes ok: "conn_ok c" and topic: "topic \<noteq> []"
    and mid: "m = (if qos > 0 then fresh_id c else 0)"
    and fits: "3 + length (publish_payload topic qos m data) \<le> mc_buffer_length c"
  shows "\<exists>c'. mqtt_msg_publish c (Some topic) data (int (length data)) qos retain m0 = Some (c', m) \<and>
     message c' = packet 3 0 qos retain (publish_payload topic qos m data) \<and>
     mc_length c' \<noteq> 0 \<and> mc_length c' \<le> mc_buffer_length c' \<and> conn_ok c' \<and> same_buffer c c' \<and> near_start c' \<and> length (message c') = mc_length c'"
proof -
  let ?c0 = "init_message c"
  have c0: "holds_payload ?c0 []" "same_buffer c ?c0" using ok by (simp_all add: init_message_holds)
  have "mc_length ?c0 + length topic + 2 \<le> mc_buffer_length ?c0"
    using fits c0 holds_payload_length [OF c0(1)] by (simp add: publish_payload_def same_buffer_def)
  from append_string_ok [OF c0(1) this] obtain c1 where
    c1: "append_string ?c0 topic = Some (int (length topic) + 2, c1)"
        "holds_payload c1 (with_length topic)" "same_buffer ?c0 c1"
        "mc_message_id c1 = mc_message_id ?c0" by auto
  have "\<exists>c2. (if qos > 0 then append_message_id c1 0 else Some (0, c1)) = Some (m, c2) \<and>
      holds_payload c2 (with_length topic @ (if qos > 0 then be16 (unat m) else [])) \<and>
      same_buffer c1 c2"
  proof (cases "qos > 0")
    case True
    have "mc_length c1 + 2 \<le> mc_buffer_length c1"
      using fits True c0 c1 holds_payload_length [OF c1(2)]
      by (simp add: publish_payload_def same_buffer_def)
    from append_message_id_ok [OF c1(2) this, of 0] True c1(4) show ?thesis
      by (auto simp: mid fresh_id_def)
  next
    case False
    with c1 show ?thesis by (auto simp: mid)
  qed
  then obtain c2 where
    c2: "(if qos > 0 then append_message_id c1 0 else Some (0, c1)) = Some (m, c2)"
        "holds_payload c2 (with_length topic @ (if qos > 0 then be16 (unat m) else []))"
        "same_buffer c1 c2" by blast
  have room: "mc_length c2 + length data \<le> mc_buffer_length c2"
    using fits c0 c1(3) c2(3) holds_payload_length [OF c2(2)]
    by (auto simp: publish_payload_def same_buffer_def)
  from put_block_ok [OF c2(2) this] obtain c3 where
    c3: "put_block c2 data = Some c3" "holds_payload c3 (publish_payload topic qos m data)"
        "same_buffer c2 c3" by (auto simp: publish_payload_def)
  from fini_message_ok [OF c3(2), of 3 0 qos retain] obtain c4 where
    c4: "fini_message c3 3 0 qos retain = Some c4"
        "message c4 = packet 3 0 qos retain (publish_payload topic qos m data)"
        "mc_length c4 = length (packet 3 0 qos retain (publish_payload topic qos m data))"
        "mc_length c4 \<le> mc_buffer_length c4" "same_buffer c3 c4" "near_start c4" by auto
  have "\<not> (qos > 0 \<and> m = 0)" using fresh_id_nonzero by (simp add: mid)
  then have "mqtt_msg_publish c (Some topic) data (int (length data)) qos retain m0 = Some (c4, m)"
    using topic c1(1) c2(1) room c3(1) c4(1)
    by (auto simp: mqtt_msg_publish_def not_empty_def mem_simps MQTT_MSG_TYPE_PUBLISH_def Let_def)
  moreover have "same_buffer c c4"
    using c0(2) c1(3) c2(3) c3(3) c4(5) by (metis same_buffer_trans)
  ultimately show ?thesis
    using c4 ok same_buffer_ok by (auto simp: packet_def)
qed

text \<open>The readers once the length bytes are behind them: \<open>i\<close> is where the payload starts.\<close>

lemma publish_read_core:
  assumes loop: "length_loop buf n 1 0 = Some (i, int pn)" and skip: "skip_length buf n 1 = Some i"
    and be1: "rd_be16 buf i = Some tlen"
    and be2: "qos > 0 \<Longrightarrow> rd_be16 buf (i + 2 + tlen) = Some mid"
    and qos: "mqtt_get_qos buf = Some qos" and type: "mqtt_get_type buf = Some 3"
    and k: "k = (if qos > 0 then 2 else 0)"
    and sz: "pn = 2 + tlen + k + dn" "i \<le> 3" "pn \<le> 16383" "0 < tlen" "0 < dn" "i + pn \<le> n"
  shows "mqtt_get_total_length buf n = Some (int (i + pn))"
    "mqtt_get_publish_topic buf n = Some (Some (i + 2), tlen)"
    "mqtt_get_publish_data buf n = Some (Some (i + 2 + tlen + k), dn)"
    "mqtt_get_id buf n = Some (if qos > 0 then word_of_nat mid else 0)"
proof -
  have small: "\<not> 2147483647 < int pn + int i" using sz by simp
  show "mqtt_get_total_length buf n = Some (int (i + pn))"
    unfolding mqtt_get_total_length_def loop using small by simp
  show "mqtt_get_publish_topic buf n = Some (Some (i + 2), tlen)"
    unfolding mqtt_get_publish_topic_def loop using small be1 sz by (simp add: Let_def)
  have a: "\<not> n \<le> i + 2" "\<not> n \<le> i + 2 + tlen" "\<not> (qos > 0 \<and> n \<le> i + 2 + tlen + 2)"
    "\<not> int pn + int i < int (i + 2 + tlen + k)" "nat (int pn + int i - int (i + 2 + tlen + k)) = dn"
    "int pn + int i \<le> int n" "dn mod 65536 = dn"
    using sz k by (auto split: if_splits)
  show "mqtt_get_publish_data buf n = Some (Some (i + 2 + tlen + k), dn)"
  proof (cases "qos > 0")
    case True
    with small a k be1 qos show ?thesis
      unfolding mqtt_get_publish_data_def loop by (simp add: Let_def add.assoc)
  next
    case False
    with small a k be1 qos show ?thesis
      unfolding mqtt_get_publish_data_def loop by (simp add: Let_def add.assoc)
  qed
  show "mqtt_get_id buf n = Some (if qos > 0 then word_of_nat mid else 0)"
    unfolding mqtt_get_id_def skip type
    using be1 be2 a qos sz by (simp add: Let_def msg_type_defs add.assoc)
qed

text \<open>
  A PUBLISH packet at the front of a receive buffer, with \<open>n\<close> bytes received (other packets may
  follow).
\<close>

lemma publish_read:
  assumes t: "topic \<noteq> []" and d: "data \<noteq> []" and q: "0 \<le> qos" "qos < 4" "0 \<le> retain" "retain < 2"
    and pl: "pl = publish_payload topic qos mid data" "length pl \<le> 16383"
    and p: "p = packet 3 0 qos retain pl" "length p \<le> n"
  shows "mqtt_get_type (p @ rest) = Some 3 \<and> mqtt_get_qos (p @ rest) = Some qos \<and>
    mqtt_get_total_length (p @ rest) n = Some (int (length p)) \<and>
    map_option (view (p @ rest)) (mqtt_get_publish_topic (p @ rest) n) = Some (Some topic) \<and>
    map_option (view (p @ rest)) (mqtt_get_publish_data (p @ rest) n) = Some (Some data) \<and>
    map_option snd (mqtt_get_publish_topic (p @ rest) n) = Some (length topic) \<and>
    map_option snd (mqtt_get_publish_data (p @ rest) n) = Some (length data) \<and>
    mqtt_get_id (p @ rest) n = Some (if qos > 0 then mid else 0)"
proof -
  let ?h = "header_byte 3 0 qos retain" and ?r = "rem_len (length pl)"
  let ?idb = "if qos > 0 then be16 (unat mid) else []"
  define i where "i = 1 + length ?r"
  have b: "p @ rest = ?h # ?r @ pl @ rest" by (simp add: p packet_def)
  have h: "uint ?h = 48 + 2 * qos + retain" using header_byte_value [of 3 0 qos retain] q by simp
  have type: "mqtt_get_type (p @ rest) = Some 3" unfolding b get_fields h using q by simp
  have "(48 + 2 * qos + retain) div 2 mod 4 = qos" using q by presburger
  then have qos: "mqtt_get_qos (p @ rest) = Some qos" unfolding b get_fields h by simp
  have lp: "length p = i + length pl" by (simp add: p packet_def i_def)
  have lpl: "length pl = 2 + length topic + length ?idb + length data"
    by (simp add: pl publish_payload_def)
  have lr: "length ?r < n" using p(2) lp by (simp add: i_def)
  have loop: "length_loop (p @ rest) n 1 0 = Some (i, int (length pl))"
    unfolding b i_def using length_loop_packet [OF pl(2) lr] by simp
  have skip: "skip_length (p @ rest) n 1 = Some i"
    unfolding b i_def using skip_length_packet [OF pl(2) lr] by simp
  have "length topic < 65536" using pl(2) lpl by simp
  then have be1: "rd_be16 (p @ rest) i = Some (length topic)"
    using rd_be16_append [of "length topic" "?h # ?r" "topic @ ?idb @ data @ rest"]
    by (simp add: b pl(1) publish_payload_def with_length_def i_def)
  have be2: "qos > 0 \<Longrightarrow> rd_be16 (p @ rest) (i + 2 + length topic) = Some (unat mid)"
    using rd_be16_append [OF unat_u16_bound, of "?h # ?r @ be16 (length topic) @ topic" mid "data @ rest"]
    by (simp add: b pl(1) publish_payload_def with_length_def i_def)
  have topic: "take (length topic) (drop (i + 2) (p @ rest)) = topic"
    by (simp add: b pl(1) publish_payload_def with_length_def be16_def i_def)
  have data: "take (length data) (drop (i + 2 + length topic + length ?idb) (p @ rest)) = data"
    by (simp add: b pl(1) publish_payload_def with_length_def be16_def i_def)
  have sz: "i \<le> 3" "length ?idb = (if qos > 0 then 2 else 0)" "0 < length data" "0 < length topic"
    "i + length pl \<le> n"
    using lp p(2) t d by (simp_all add: i_def rem_len_def)
  have be2': "0 < qos \<Longrightarrow> rd_be16 (p @ rest) (i + 2 + length topic) = Some (unat mid)"
    by (rule be2)
  note core = publish_read_core [where qos = qos, OF loop skip be1 be2' qos type sz(2) lpl sz(1) pl(2)
      sz(4,3,5), simplified]
  show ?thesis
    unfolding lp using core type qos topic data by (simp add: view_def)
qed

text \<open>The acknowledgements and SUBSCRIBE: the id is the first thing of the payload.\<close>

lemma ack_read:
  assumes "type \<in> {4, 5, 6, 7, 8, 9, 11}" and "0 \<le> qos" "qos < 4"
    and "length rest0 \<le> 125" and "2 + (2 + length rest0) \<le> n"
  shows "mqtt_get_id (packet type 0 qos 0 (be16 (unat mid) @ rest0) @ rest) n = Some mid"
proof -
  let ?h = "header_byte type 0 qos 0" and ?l = "word_of_nat (2 + length rest0) :: u8"
  have "uint ?h = 16 * type + 2 * qos" using header_byte_value [of type 0 qos 0] assms by auto
  then have h: "uint ?h div 16 = type" using assms(1-3) by auto
  have p: "packet type 0 qos 0 (be16 (unat mid) @ rest0) @ rest =
      ?h # ?l # be16 (unat mid) @ rest0 @ rest"
    using assms(4) by (simp add: packet_def rem_len_def)
  have l: "uint ?l < 128"
    using assms(4) by (simp only: uint_u8_of_nat) simp
  have "rd_be16 (?h # ?l # be16 (unat mid) @ rest0 @ rest) 2 = Some (unat mid)"
    using rd_be16_append [OF unat_u16_bound, of "[?h, ?l]" mid "rest0 @ rest"]
    by (simp add: numeral_2_eq_2)
  with h l assms(1,5) show ?thesis
    unfolding p by (auto simp: mqtt_get_id_def get_fields msg_type_defs rd_def top_bit_clear
        simp del: of_nat_add)
qed

section \<open>CONNECT\<close>

text \<open>The fixed part of the variable header, and the whole payload, with the flags \<open>f\<close>.\<close>

definition connect_head :: "bool \<Rightarrow> u8 list" where
  "connect_head v31 = with_length (protocol_name v31) @ [if v31 then 3 else 4]"

definition connect_part :: "bool \<Rightarrow> mqtt_connect_info \<Rightarrow> u8 \<Rightarrow> u8 list \<Rightarrow> u8 list" where
  "connect_part v31 info f fs =
     connect_head v31 @ [f, word_of_int (drop_bit 8 (ci_keepalive info)),
                         word_of_int (ci_keepalive info AND 0xff)] @ fs"

definition opt_field :: "cstring option \<Rightarrow> u8 list" where
  "opt_field s = (if not_empty s then with_length (the s) else [])"

definition will_fields :: "mqtt_connect_info \<Rightarrow> u8 list" where
  "will_fields info =
     (if not_empty (ci_will_topic info)
      then with_length (the (ci_will_topic info)) @ with_length (the (ci_will_message info)) else [])"

definition opt_flag :: "bool \<Rightarrow> u8 \<Rightarrow> u8 \<Rightarrow> u8" where
  "opt_flag b f x = (if b then f OR x else f)"

definition will_flags :: "mqtt_connect_info \<Rightarrow> u8 \<Rightarrow> u8" where
  "will_flags info f =
     (if not_empty (ci_will_topic info)
      then opt_flag (ci_will_retain info \<noteq> 0) (f OR 0x04) 0x20 OR
             word_of_int (push_bit 3 (ci_will_qos info AND 3))
      else f)"

definition connect_flags :: "mqtt_connect_info \<Rightarrow> u8" where
  "connect_flags info =
     opt_flag (not_empty (ci_password info))
       (opt_flag (not_empty (ci_username info))
         (will_flags info (opt_flag (ci_clean_session info \<noteq> 0) 0 0x02)) 0x80) 0x40"

definition connect_payload :: "bool \<Rightarrow> mqtt_connect_info \<Rightarrow> u8 list" where
  "connect_payload v31 info =
     connect_part v31 info (connect_flags info)
       (with_length (the (ci_client_id info)) @ will_fields info @ opt_field (ci_username info) @
        opt_field (ci_password info))"

lemma length_connect_head: "length (connect_head v31) = 2 + length (protocol_name v31) + 1"
  by (simp add: connect_head_def)

lemma set_flag_ok:
  assumes "holds_payload c (connect_part v31 info f r)"
  shows "\<exists>c'. set_flag c v31 x = Some c' \<and> holds_payload c' (connect_part v31 info (f OR x) r) \<and>
              same_buffer c c'"
proof -
  let ?h = "connect_head v31" and ?ka = "[word_of_int (drop_bit 8 (ci_keepalive info)),
                         word_of_int (ci_keepalive info AND 0xff)] :: u8 list"
  let ?pl = "connect_part v31 info f r" and ?b = "mc_buffer c"
  from assms have len: "mc_length c = 3 + length ?pl" "3 + length ?pl \<le> length ?b"
    and pl: "take (length ?pl) (drop 3 ?b) = ?pl"
    by (auto simp: holds_payload_def conn_ok_def)
  define tail where "tail = drop (3 + length ?pl) ?b"
  have b: "?b = take 3 ?b @ ?h @ f # ?ka @ r @ tail"
  proof -
    have t: "drop (length ?pl) (drop 3 ?b) = tail" by (simp add: tail_def add.commute)
    have "?b = take 3 ?b @ drop 3 ?b" by simp
    also have "drop 3 ?b = take (length ?pl) (drop 3 ?b) @ drop (length ?pl) (drop 3 ?b)"
      by (rule append_take_drop_id [symmetric])
    also have "\<dots> = ?pl @ tail" unfolding t pl ..
    finally show ?thesis by (simp add: connect_part_def)
  qed
  have l3: "length (take 3 ?b) = 3" using len(2) by simp
  obtain pre where pre: "?b = pre @ ?h @ f # ?ka @ r @ tail" "length pre = 3"
    using b l3 by blast
  let ?i = "3 + 2 + length (protocol_name v31) + 1"
  have i: "?i = length (pre @ ?h)" using pre(2) by (simp add: length_connect_head)
  have at: "rd ?b ?i = Some f" unfolding i pre(1) by (simp add: rd_def)
  have "wr ?b ?i (f OR x) = Some (pre @ ?h @ (f OR x) # ?ka @ r @ tail)"
    unfolding i pre(1) by (simp add: wr_def list_update_append)
  with at have s: "set_flag c v31 x = Some (c\<lparr>mc_buffer := pre @ ?h @ (f OR x) # ?ka @ r @ tail\<rparr>)"
    by (simp add: set_flag_def Let_def)
  show ?thesis
    unfolding s using assms pre
    by (auto simp: holds_payload_def conn_ok_def same_buffer_def connect_part_def numeral_3_eq_3)
qed

lemma connect_part_append: "connect_part v31 info f r @ xs = connect_part v31 info f (r @ xs)"
  by (simp add: connect_part_def)

lemma length_connect_part:
  "length (connect_part v31 info f r) = length (protocol_name v31) + 6 + length r"
  by (simp add: connect_part_def connect_head_def)

text \<open>
  A step of \<open>mqtt_msg_connect\<close>: it adds its fields and flags when they fit and fails otherwise.
\<close>

definition step_ok ::
  "mqtt_connection \<Rightarrow> bool \<Rightarrow> mqtt_connect_info \<Rightarrow> u8 \<Rightarrow> u8 list \<Rightarrow>
   (mqtt_connection + mqtt_connection) option \<Rightarrow> bool" where
  "step_ok c v31 info f r res \<longleftrightarrow>
     (if 3 + length (connect_part v31 info f r) \<le> mc_buffer_length c
      then \<exists>c'. res = Some (Inr c') \<and> holds_payload c' (connect_part v31 info f r) \<and> same_buffer c c'
      else \<exists>c'. res = Some (Inl c') \<and> mc_length c' = 0 \<and> mc_data c' = Some 0 \<and> same_buffer c c')"

lemma append_string_part:
  assumes "holds_payload c (connect_part v31 info f r)"
  shows "(3 + length (connect_part v31 info f (r @ with_length s)) \<le> mc_buffer_length c \<longrightarrow>
      (\<exists>c'. append_string c s = Some (int (length s) + 2, c') \<and> same_buffer c c' \<and>
           holds_payload c' (connect_part v31 info f (r @ with_length s)))) \<and>
     (\<not> 3 + length (connect_part v31 info f (r @ with_length s)) \<le> mc_buffer_length c \<longrightarrow>
      append_string c s = Some (-1, c))"
  using append_string_ok [OF assms, of s] append_string_full [of c s] holds_payload_length [OF assms]
  by (auto simp: connect_part_append length_connect_part)

lemma append_field_ok:
  assumes "holds_payload c (connect_part v31 info f r)"
  shows "step_ok c v31 info (opt_flag (not_empty s) f flag) (r @ opt_field s)
           (append_field c v31 s flag)"
proof (cases "not_empty s")
  case False
  with assms show ?thesis
    by (auto simp: step_ok_def append_field_def opt_flag_def opt_field_def holds_payload_def)
next
  case True
  let ?fits = "3 + length (connect_part v31 info f (r @ with_length (the s))) \<le> mc_buffer_length c"
  show ?thesis
  proof (cases ?fits)
    case False
    with True append_string_part [OF assms, of "the s"] show ?thesis
      by (auto simp: step_ok_def append_field_def opt_flag_def opt_field_def length_connect_part)
  next
    case fits: True
    with append_string_part [OF assms, of "the s"] obtain c1 where
      c1: "append_string c (the s) = Some (int (length (the s)) + 2, c1)" "same_buffer c c1"
          "holds_payload c1 (connect_part v31 info f (r @ with_length (the s)))" by auto
    from set_flag_ok [OF c1(3), of flag] obtain c2 where
      c2: "set_flag c1 v31 flag = Some c2" "same_buffer c1 c2"
          "holds_payload c2 (connect_part v31 info (f OR flag) (r @ with_length (the s)))" by auto
    from c1(2) c2(2) have "same_buffer c c2" by (rule same_buffer_trans)
    with True fits c1(1) c2 show ?thesis
      by (auto simp: step_ok_def append_field_def opt_flag_def opt_field_def length_connect_part)
  qed
qed

lemma append_will_ok:
  assumes "holds_payload c (connect_part v31 info f r)"
    and "not_empty (ci_will_topic info) \<Longrightarrow> ci_will_message info \<noteq> None"
  shows "step_ok c v31 info (will_flags info f) (r @ will_fields info) (append_will c v31 info)"
proof (cases "not_empty (ci_will_topic info)")
  case False
  with assms show ?thesis
    by (auto simp: step_ok_def append_will_def will_flags_def will_fields_def holds_payload_def)
next
  case True
  let ?t = "the (ci_will_topic info)"
  from assms(2) True obtain msg where msg: "ci_will_message info = Some msg" by auto
  let ?r1 = "r @ with_length ?t" and ?r2 = "r @ with_length ?t @ with_length msg"
  note t = append_string_part [OF assms(1), of ?t]
  show ?thesis
  proof (cases "3 + length (connect_part v31 info f ?r1) \<le> mc_buffer_length c")
    case False
    with True t msg show ?thesis
      by (auto simp: step_ok_def append_will_def will_fields_def length_connect_part)
  next
    case fits1: True
    with t obtain c1 where
      c1: "append_string c ?t = Some (int (length ?t) + 2, c1)" "same_buffer c c1"
          "holds_payload c1 (connect_part v31 info f ?r1)" by auto
    note m = append_string_part [OF c1(3), of msg]
    show ?thesis
    proof (cases "3 + length (connect_part v31 info f ?r2) \<le> mc_buffer_length c")
      case False
      with True c1 m msg show ?thesis
        by (auto simp: step_ok_def append_will_def will_fields_def length_connect_part same_buffer_def
            fail_message_def)
    next
      case fits2: True
      with m c1(2) obtain c2 where
        c2: "append_string c1 msg = Some (int (length msg) + 2, c2)" "same_buffer c1 c2"
            "holds_payload c2 (connect_part v31 info f ?r2)" by (auto simp: same_buffer_def)
      from set_flag_ok [OF c2(3), of 4] obtain c3 where
        c3: "set_flag c2 v31 4 = Some c3" "same_buffer c2 c3"
            "holds_payload c3 (connect_part v31 info (f OR 4) ?r2)" by auto
      let ?f4 = "opt_flag (ci_will_retain info \<noteq> 0) (f OR 4) 0x20"
      from set_flag_ok [OF c3(3), of "0x20"] c3(3) obtain c4 where
        c4: "(if ci_will_retain info \<noteq> 0 then set_flag c3 v31 0x20 else Some c3) = Some c4"
            "same_buffer c3 c4" "holds_payload c4 (connect_part v31 info ?f4 ?r2)"
        by (cases "ci_will_retain info \<noteq> 0") (auto simp: opt_flag_def)
      let ?q = "word_of_int (push_bit 3 (ci_will_qos info AND 3)) :: u8"
      from set_flag_ok [OF c4(3), of ?q] obtain c5 where
        c5: "set_flag c4 v31 ?q = Some c5" "same_buffer c4 c5"
            "holds_payload c5 (connect_part v31 info (?f4 OR ?q) ?r2)" by auto
      have "append_will c v31 info = Some (Inr c5)"
        using True msg c1(1) c2(1) c3(1) c4(1) c5(1) by (simp add: append_will_def)
      moreover have "same_buffer c c5"
        using c1(2) c2(2) c3(2) c4(2) c5(2) by (metis same_buffer_trans)
      ultimately show ?thesis
        using True msg fits2 c5(3)
        by (auto simp: step_ok_def will_flags_def will_fields_def length_connect_part)
    qed
  qed
qed

lemma append_id_ok:
  assumes "holds_payload c (connect_part v31 info f [])" and "not_empty (ci_client_id info)"
  shows "step_ok c v31 info f (with_length (the (ci_client_id info))) (append_id c info)"
  using append_string_part [OF assms(1), of "the (ci_client_id info)"] assms(2)
  by (auto simp: step_ok_def append_id_def)

text \<open>Steps compose: once something does not fit, what follows does not fit either.\<close>

lemma step_ok_then:
  assumes "step_ok c v31 info f r res"
    and "\<And>c'. holds_payload c' (connect_part v31 info f r) \<Longrightarrow> step_ok c' v31 info f' (r @ r') (k c')"
  shows "step_ok c v31 info f' (r @ r') (and_then res k)"
proof (cases "3 + length (connect_part v31 info f r) \<le> mc_buffer_length c")
  case False
  with assms(1) show ?thesis by (auto simp: step_ok_def and_then_def length_connect_part)
next
  case True
  with assms(1) obtain c1 where
    c1: "res = Some (Inr c1)" "holds_payload c1 (connect_part v31 info f r)" "same_buffer c c1"
    by (auto simp: step_ok_def)
  have "mc_buffer_length c1 = mc_buffer_length c" using c1(3) by (simp add: same_buffer_def)
  moreover have "and_then res k = k c1" by (simp add: and_then_def c1(1))
  ultimately show ?thesis
    using assms(2) [OF c1(2)] same_buffer_trans [OF c1(3)] unfolding step_ok_def by (auto; blast)
qed

lemma connect_steps:
  assumes "holds_payload c (connect_part v31 info f [])" and "not_empty (ci_client_id info)"
    and "not_empty (ci_will_topic info) \<Longrightarrow> ci_will_message info \<noteq> None"
    and "f = opt_flag (ci_clean_session info \<noteq> 0) 0 0x02"
  shows "step_ok c v31 info (connect_flags info)
     (((with_length (the (ci_client_id info)) @ will_fields info) @ opt_field (ci_username info)) @
       opt_field (ci_password info))
     (and_then (and_then (and_then (append_id c info)
        (\<lambda>c. append_will c v31 info))
        (\<lambda>c. append_field c v31 (ci_username info) 0x80))
        (\<lambda>c. append_field c v31 (ci_password info) 0x40))"
  unfolding connect_flags_def assms(4) [symmetric]
  by (rule step_ok_then, rule step_ok_then, rule step_ok_then, rule append_id_ok [OF assms(1,2)])
     (rule append_will_ok append_field_ok assms(3) | assumption)+

text \<open>The whole handler: the packet when it fits, the failed message otherwise.\<close>

lemma connect_builds:
  assumes ok: "conn_ok c" and id: "not_empty (ci_client_id info)"
    and will: "not_empty (ci_will_topic info) \<Longrightarrow> ci_will_message info \<noteq> None"
  shows "\<exists>c'. mqtt_msg_connect v31 c info = Some c' \<and> same_buffer c c' \<and> near_start c' \<and>
     mc_length c' \<le> mc_buffer_length c' \<and>
     (if 3 + length (connect_payload v31 info) \<le> mc_buffer_length c
      then message c' = packet 1 0 0 0 (connect_payload v31 info) \<and> mc_length c' = length (message c')
      else mc_length c' = 0)"
proof -
  let ?c0 = "init_message c"
  let ?bytes = "connect_part v31 info 0 []" and ?f0 = "opt_flag (ci_clean_session info \<noteq> 0) 0 0x02"
  let ?pl = "connect_payload v31 info"
  have bytes: "[0, word_of_nat (length (protocol_name v31))] @ protocol_name v31 @
       [if v31 then 3 else 4, 0, word_of_int (drop_bit 8 (ci_keepalive info)),
        word_of_int (ci_keepalive info AND 0xff)] = ?bytes"
    by (simp add: connect_part_def connect_head_def with_length_def be16_def protocol_name_def)
  note def = mqtt_msg_connect_def [of v31 c info, unfolded bytes Let_def]
  have c0: "holds_payload ?c0 []" "same_buffer c ?c0" using ok by (simp_all add: init_message_holds)
  have len: "length ?bytes \<le> length ?pl"
    by (simp add: connect_payload_def length_connect_part)
  have bl: "mc_buffer_length ?c0 = mc_buffer_length c" "mc_length ?c0 = 3"
    by (simp_all add: init_message_def)
  show ?thesis
  proof (cases "3 + length ?bytes \<le> mc_buffer_length c")
    case False
    then have "mqtt_msg_connect v31 c info = Some (fail_message ?c0)" unfolding def bl by simp
    moreover have "same_buffer c (fail_message ?c0)" by (rule same_buffer_trans [OF c0(2)]) simp
    ultimately show ?thesis using False len by auto
  next
    case fits: True
    with put_block_ok [OF c0(1), of ?bytes] bl obtain c1 where
      c1: "put_block ?c0 ?bytes = Some c1" "same_buffer ?c0 c1" "holds_payload c1 ?bytes" by auto
    from set_flag_ok [OF c1(3), of "0x02"] c1(3) obtain c2 where
      c2: "(if ci_clean_session info \<noteq> 0 then set_flag c1 v31 0x02 else Some c1) = Some c2"
          "same_buffer c1 c2" "holds_payload c2 (connect_part v31 info ?f0 [])"
      by (cases "ci_clean_session info \<noteq> 0") (auto simp: opt_flag_def)
    have s2: "same_buffer c c2" using c0(2) c1(2) c2(2) by (metis same_buffer_trans)
    have run: "mqtt_msg_connect v31 c info =
        do { r \<leftarrow> and_then (and_then (and_then (append_id c2 info)
                (\<lambda>c. append_will c v31 info))
                (\<lambda>c. append_field c v31 (ci_username info) 0x80))
                (\<lambda>c. append_field c v31 (ci_password info) 0x40);
             case r of Inl c \<Rightarrow> Some c | Inr c \<Rightarrow> fini_message c 1 0 0 0 }"
      unfolding def bl using fits c1(1) c2(1) by (simp add: MQTT_MSG_TYPE_CONNECT_def)
    have steps: "step_ok c2 v31 info (connect_flags info)
        (with_length (the (ci_client_id info)) @ will_fields info @ opt_field (ci_username info) @
         opt_field (ci_password info))
        (and_then (and_then (and_then (append_id c2 info)
          (\<lambda>c. append_will c v31 info))
          (\<lambda>c. append_field c v31 (ci_username info) 0x80))
          (\<lambda>c. append_field c v31 (ci_password info) 0x40))"
      using connect_steps [OF c2(3) id will refl] by simp
    have bl2: "mc_buffer_length c2 = mc_buffer_length c" using s2 by (simp add: same_buffer_def)
    note steps = steps [unfolded step_ok_def connect_payload_def [symmetric] bl2]
    show ?thesis
    proof (cases "3 + length ?pl \<le> mc_buffer_length c")
      case True
      with steps obtain c3 where
        c3: "mqtt_msg_connect v31 c info = fini_message c3 1 0 0 0" "holds_payload c3 ?pl"
            "same_buffer c2 c3" unfolding run by auto
      with fini_message_ok [OF c3(2), of 1 0 0 0] True same_buffer_trans [OF s2 c3(3)]
        same_buffer_trans show ?thesis by fastforce
    next
      case False
      with steps s2 same_buffer_trans show ?thesis unfolding run by fastforce
    qed
  qed
qed

section \<open>The other packets\<close>

text \<open>
  What every builder leaves: it stays in the buffer, and the message is empty or lies inside it.
\<close>

definition built :: "mqtt_connection \<Rightarrow> mqtt_connection \<Rightarrow> bool" where
  "built c c' \<longleftrightarrow> same_buffer c c' \<and> near_start c' \<and> mc_length c' \<le> mc_buffer_length c' \<and>
     length (message c') = mc_length c'"

lemma built_fail: "same_buffer c c' \<Longrightarrow> built c (fail_message c')"
  by (simp add: built_def same_buffer_def fail_message_def message_def)

lemma connect_built:
  assumes "conn_ok c" and "not_empty (ci_client_id info)"
    and "not_empty (ci_will_topic info) \<Longrightarrow> ci_will_message info \<noteq> None"
  shows "\<exists>c'. mqtt_msg_connect v31 c info = Some c' \<and> built c c' \<and>
     (if 3 + length (connect_payload v31 info) \<le> mc_buffer_length c
      then message c' = packet 1 0 0 0 (connect_payload v31 info)
      else mc_length c' = 0)"
proof -
  from connect_builds [OF assms, of v31] obtain c' where
    c': "mqtt_msg_connect v31 c info = Some c'" "same_buffer c c'" "near_start c'"
      "mc_length c' \<le> mc_buffer_length c'"
      "if 3 + length (connect_payload v31 info) \<le> mc_buffer_length c
       then message c' = packet 1 0 0 0 (connect_payload v31 info) \<and> mc_length c' = length (message c')
       else mc_length c' = 0" by blast
  have "length (message c') = mc_length c'"
  proof (cases "3 + length (connect_payload v31 info) \<le> mc_buffer_length c")
    case True
    with c'(5) show ?thesis by simp
  next
    case False
    with c'(5) show ?thesis by (simp add: message_def)
  qed
  with c' have "built c c'" by (simp add: built_def)
  with c'(1,5) show ?thesis
    by (intro exI [of _ c']) (simp split: if_splits)
qed

text \<open>What \<open>fini_message\<close> returns, as the builders use it.\<close>

lemma fini_builds:
  assumes "holds_payload c1 pl" and "same_buffer c c1"
  obtains c' where "fini_message c1 type dup qos retain = Some c'"
    "message c' = packet type dup qos retain pl" "built c c'" "mc_length c' = length (message c')"
    "mc_message_id c' = mc_message_id c1"
proof -
  from fini_message_ok [OF assms(1), of type dup qos retain] obtain c' where
    c': "fini_message c1 type dup qos retain = Some c'"
      "message c' = packet type dup qos retain pl"
      "mc_length c' = length (packet type dup qos retain pl)" "mc_length c' \<le> mc_buffer_length c'"
      "same_buffer c1 c'" "mc_message_id c' = mc_message_id c1" "near_start c'" by auto
  moreover have "same_buffer c c'" using assms(2) c'(5) by (rule same_buffer_trans)
  ultimately show ?thesis using that by (auto simp: built_def)
qed

lemma ack_message_builds:
  assumes ok: "conn_ok c" and mid: "mid = fst (assign_id m (mc_message_id c))"
  shows "\<exists>c'. ack_message c m type qos = Some c' \<and> built c c' \<and>
     (if 5 \<le> mc_buffer_length c then message c' = packet type 0 qos 0 (be16 (unat mid))
      else mc_length c' = 0)"
proof -
  let ?c0 = "init_message c"
  have c0: "holds_payload ?c0 []" "same_buffer c ?c0" using ok by (simp_all add: init_message_holds)
  have b: "mc_length ?c0 = 3" "mc_buffer_length ?c0 = mc_buffer_length c"
    by (simp_all add: init_message_def)
  show ?thesis
  proof (cases "5 \<le> mc_buffer_length c")
    case True
    with append_message_id_ok [OF c0(1), of m] b obtain c1 where
      c1: "append_message_id ?c0 m = Some (mid, c1)" "holds_payload c1 (be16 (unat mid))"
          "same_buffer ?c0 c1" by (auto simp: mid)
    from c0(2) c1(3) have "same_buffer c c1" by (rule same_buffer_trans)
    from fini_builds [OF c1(2) this, of type 0 qos 0] True c1(1) assign_id_nonzero [of m] mid
    show ?thesis by (auto simp: ack_message_def)
  next
    case False
    with append_message_id_full [of ?c0 m] b
    have "ack_message c m type qos =
       Some (fail_message (?c0\<lparr>mc_message_id := snd (assign_id m (mc_message_id ?c0))\<rparr>))"
      by (simp add: ack_message_def)
    with False show ?thesis
      by (auto simp: init_message_def same_buffer_def intro!: built_fail)
  qed
qed

lemma ping_builds:
  assumes "conn_ok c"
  shows "\<exists>c'. fini_message (init_message c) type 0 0 0 = Some c' \<and> built c c' \<and>
              message c' = packet type 0 0 0 []"
  using fini_builds [OF init_message_holds [OF assms], of c type 0 0 0] by auto

text \<open>The id and the topic that open a SUBSCRIBE or UNSUBSCRIBE packet.\<close>

lemma id_topic_builds:
  assumes ok: "conn_ok c"
  shows "\<exists>mid c1. append_message_id (init_message c) 0 = Some (mid, c1) \<and> same_buffer c c1 \<and>
     (mid \<noteq> 0 \<longrightarrow> mid = fresh_id c \<and> mc_length c1 = 5 \<and>
       (7 + length t \<le> mc_buffer_length c \<longrightarrow>
         (\<exists>c2. append_string c1 t = Some (int (length t) + 2, c2) \<and> same_buffer c c2 \<and>
              holds_payload c2 (be16 (unat mid) @ with_length t))) \<and>
       (\<not> 7 + length t \<le> mc_buffer_length c \<longrightarrow> append_string c1 t = Some (-1, c1))) \<and>
     (mid = 0 \<longleftrightarrow> \<not> 5 \<le> mc_buffer_length c)"
proof -
  let ?c0 = "init_message c"
  have c0: "holds_payload ?c0 []" "same_buffer c ?c0" using ok by (simp_all add: init_message_holds)
  have b: "mc_length ?c0 = 3" "mc_buffer_length ?c0 = mc_buffer_length c"
    "mc_message_id ?c0 = mc_message_id c"
    by (simp_all add: init_message_def)
  show ?thesis
  proof (cases "5 \<le> mc_buffer_length c")
    case False
    with append_message_id_full [of ?c0 0] b show ?thesis
      by (auto simp: init_message_def same_buffer_def)
  next
    case True
    with append_message_id_ok [OF c0(1), of 0] b obtain c1 where
      c1: "append_message_id ?c0 0 = Some (fresh_id c, c1)"
          "holds_payload c1 (be16 (unat (fresh_id c)))" "same_buffer ?c0 c1"
      by (auto simp: fresh_id_def)
    from c0(2) c1(3) have s1: "same_buffer c c1" by (rule same_buffer_trans)
    have l1: "mc_length c1 = 5" "mc_buffer_length c1 = mc_buffer_length c"
      using holds_payload_length [OF c1(2)] s1 by (simp_all add: same_buffer_def)
    show ?thesis
      using c1 s1 l1 True fresh_id_nonzero append_string_full [of c1 t]
        append_string_ok [OF c1(2), of t] same_buffer_trans [OF s1] by auto
  qed
qed

lemma subscribe_builds:
  assumes ok: "conn_ok c"
  shows "\<exists>c' mid. mqtt_msg_subscribe c topic qos m0 = Some (c', mid) \<and> built c c' \<and>
     (if not_empty topic \<and> 8 + length (the topic) \<le> mc_buffer_length c
      then mid = fresh_id c \<and> message c' =
        packet 8 0 1 0 (be16 (unat mid) @ with_length (the topic) @ [word_of_int qos])
      else mc_length c' = 0)"
proof (cases "not_empty topic")
  case False
  then show ?thesis
    by (auto simp: mqtt_msg_subscribe_def intro!: built_fail)
next
  case topic: True
  from id_topic_builds [OF ok, of "the topic"] obtain mid c1 where
    c1: "append_message_id (init_message c) 0 = Some (mid, c1)" "same_buffer c c1"
    "mid \<noteq> 0 \<Longrightarrow> mid = fresh_id c"
    "mid \<noteq> 0 \<Longrightarrow> 7 + length (the topic) \<le> mc_buffer_length c \<Longrightarrow>
         (\<exists>c2. append_string c1 (the topic) = Some (int (length (the topic)) + 2, c2) \<and>
              same_buffer c c2 \<and> holds_payload c2 (be16 (unat mid) @ with_length (the topic)))"
    "mid \<noteq> 0 \<Longrightarrow> \<not> 7 + length (the topic) \<le> mc_buffer_length c \<Longrightarrow>
         append_string c1 (the topic) = Some (-1, c1)"
    "mid = 0 \<longleftrightarrow> \<not> 5 \<le> mc_buffer_length c" by auto
  show ?thesis
  proof (cases "mid \<noteq> 0 \<and> 7 + length (the topic) \<le> mc_buffer_length c")
    case False
    have "\<exists>m. mqtt_msg_subscribe c topic qos m0 = Some (fail_message c1, m)"
    proof (cases "mid = 0")
      case True
      with c1(1) topic show ?thesis by (simp add: mqtt_msg_subscribe_def)
    next
      case nz: False
      with False have "append_string c1 (the topic) = Some (-1, c1)" using c1(5) by blast
      with nz c1(1) topic show ?thesis by (simp add: mqtt_msg_subscribe_def)
    qed
    moreover have "\<not> 7 + length (the topic) \<le> mc_buffer_length c" using False c1(6) by auto
    ultimately show ?thesis using built_fail [OF c1(2)] by auto
  next
    case fits: True
    with c1(4) obtain c2 where
      c2: "append_string c1 (the topic) = Some (int (length (the topic)) + 2, c2)"
          "same_buffer c c2" "holds_payload c2 (be16 (unat mid) @ with_length (the topic))" by auto
    have l2: "mc_length c2 = 7 + length (the topic)" "mc_buffer_length c2 = mc_buffer_length c"
      using holds_payload_length [OF c2(3)] c2(2) by (simp_all add: same_buffer_def)
    show ?thesis
    proof (cases "8 + length (the topic) \<le> mc_buffer_length c")
      case False
      with fits c1(1) c2 l2 topic show ?thesis
        by (auto simp: mqtt_msg_subscribe_def intro!: built_fail)
    next
      case True
      with put_byte_ok [OF c2(3), of "word_of_int qos"] l2 obtain c3 where
        c3: "put_byte c2 (word_of_int qos) = Some c3" "same_buffer c2 c3"
            "holds_payload c3 (be16 (unat mid) @ with_length (the topic) @ [word_of_int qos])" by auto
      from c2(2) c3(2) have "same_buffer c c3" by (rule same_buffer_trans)
      from fini_builds [OF c3(3) this, of 8 0 1 0] obtain c' where
        c': "fini_message c3 8 0 1 0 = Some c'" "built c c'"
          "message c' = packet 8 0 1 0 (be16 (unat mid) @ with_length (the topic) @ [word_of_int qos])"
        by blast
      have "mqtt_msg_subscribe c topic qos m0 = Some (c', mid)"
        using fits c1(1) c2(1) c3(1) c'(1) l2 topic True
        by (simp add: mqtt_msg_subscribe_def MQTT_MSG_TYPE_SUBSCRIBE_def)
      with c'(2,3) c1(3) fits topic True show ?thesis by simp
    qed
  qed
qed

lemma unsubscribe_builds:
  assumes ok: "conn_ok c"
  shows "\<exists>c' mid. mqtt_msg_unsubscribe c topic m0 = Some (c', mid) \<and> built c c' \<and>
     (if not_empty topic \<and> 7 + length (the topic) \<le> mc_buffer_length c
      then mid = fresh_id c \<and> message c' =
        packet 10 0 1 0 (be16 (unat mid) @ with_length (the topic))
      else mc_length c' = 0)"
proof (cases "not_empty topic")
  case False
  then show ?thesis
    by (auto simp: mqtt_msg_unsubscribe_def intro!: built_fail)
next
  case topic: True
  from id_topic_builds [OF ok, of "the topic"] obtain mid c1 where
    c1: "append_message_id (init_message c) 0 = Some (mid, c1)" "same_buffer c c1"
    "mid \<noteq> 0 \<Longrightarrow> mid = fresh_id c"
    "mid \<noteq> 0 \<Longrightarrow> 7 + length (the topic) \<le> mc_buffer_length c \<Longrightarrow>
         (\<exists>c2. append_string c1 (the topic) = Some (int (length (the topic)) + 2, c2) \<and>
              same_buffer c c2 \<and> holds_payload c2 (be16 (unat mid) @ with_length (the topic)))"
    "mid \<noteq> 0 \<Longrightarrow> \<not> 7 + length (the topic) \<le> mc_buffer_length c \<Longrightarrow>
         append_string c1 (the topic) = Some (-1, c1)"
    "mid = 0 \<longleftrightarrow> \<not> 5 \<le> mc_buffer_length c" by auto
  show ?thesis
  proof (cases "mid \<noteq> 0 \<and> 7 + length (the topic) \<le> mc_buffer_length c")
    case False
    have "\<exists>m. mqtt_msg_unsubscribe c topic m0 = Some (fail_message c1, m)"
    proof (cases "mid = 0")
      case True
      with c1(1) topic show ?thesis by (simp add: mqtt_msg_unsubscribe_def)
    next
      case nz: False
      with False have "append_string c1 (the topic) = Some (-1, c1)" using c1(5) by blast
      with nz c1(1) topic show ?thesis by (simp add: mqtt_msg_unsubscribe_def)
    qed
    moreover have "\<not> 7 + length (the topic) \<le> mc_buffer_length c" using False c1(6) by auto
    ultimately show ?thesis using built_fail [OF c1(2)] by auto
  next
    case fits: True
    with c1(4) obtain c2 where
      c2: "append_string c1 (the topic) = Some (int (length (the topic)) + 2, c2)"
          "same_buffer c c2" "holds_payload c2 (be16 (unat mid) @ with_length (the topic))" by auto
    from fini_builds [OF c2(3,2), of 10 0 1 0] obtain c' where
      c': "fini_message c2 10 0 1 0 = Some c'" "built c c'"
        "message c' = packet 10 0 1 0 (be16 (unat mid) @ with_length (the topic))" by blast
    have "mqtt_msg_unsubscribe c topic m0 = Some (c', mid)"
      using fits c1(1) c2(1) c'(1) topic
      by (simp add: mqtt_msg_unsubscribe_def MQTT_MSG_TYPE_UNSUBSCRIBE_def)
    with c'(2,3) c1(3) fits topic show ?thesis by simp
  qed
qed

text \<open>PUBLISH packets that do not fit, and all of them together.\<close>

lemma publish_fails:
  assumes ok: "conn_ok c" and topic: "topic \<noteq> []"
    and full: "\<not> 3 + length (publish_payload topic qos 0 data) \<le> mc_buffer_length c"
  shows "\<exists>c' mid. mqtt_msg_publish c (Some topic) data (int (length data)) qos retain m0 =
           Some (fail_message c', mid) \<and> same_buffer c c'"
proof -
  let ?c0 = "init_message c"
  have c0: "holds_payload ?c0 []" "same_buffer c ?c0" using ok by (simp_all add: init_message_holds)
  have b0: "mc_length ?c0 = 3" "mc_buffer_length ?c0 = mc_buffer_length c" by (simp_all add: init_message_def)
  have ne: "not_empty (Some topic)" using topic by (simp add: not_empty_def)
  show ?thesis
  proof (cases "mc_length ?c0 + length topic + 2 \<le> mc_buffer_length ?c0")
    case False
    then have "append_string ?c0 topic = Some (-1, ?c0)" by (intro append_string_full) simp
    with ne c0(2) show ?thesis by (auto simp: mqtt_msg_publish_def)
  next
    case True
    from append_string_ok [OF c0(1) this] obtain c1 where
      c1: "append_string ?c0 topic = Some (int (length topic) + 2, c1)"
          "holds_payload c1 (with_length topic)" "same_buffer ?c0 c1" by auto
    have l1: "mc_length c1 = 5 + length topic" "mc_buffer_length c1 = mc_buffer_length c"
      using holds_payload_length [OF c1(2)] c1(3) c0(2) by (simp_all add: same_buffer_def)
    have s1: "same_buffer c c1" using c0(2) c1(3) by (rule same_buffer_trans)
    show ?thesis
    proof (cases "qos > 0")
      case q: True
      show ?thesis
      proof (cases "mc_length c1 + 2 \<le> mc_buffer_length c1")
        case False
        with append_message_id_full [of c1 0]
        have "append_message_id c1 0 = Some (0, c1\<lparr>mc_message_id := snd (assign_id 0 (mc_message_id c1))\<rparr>)"
          by simp
        with ne c1(1) q s1 show ?thesis
          by (auto simp: mqtt_msg_publish_def same_buffer_def intro!: exI [of _ "c1\<lparr>mc_message_id := snd (assign_id 0 (mc_message_id c1))\<rparr>"])
      next
        case True
        from append_message_id_ok [OF c1(2) True, of 0] obtain c2 m where
          c2: "append_message_id c1 0 = Some (m, c2)" "same_buffer c1 c2"
              "holds_payload c2 (with_length topic @ be16 (unat m))" by auto
        have "int (mc_length c2) + int (length data) > int (mc_buffer_length c2)"
          using holds_payload_length [OF c2(3)] c2(2) l1 full q by (simp add: same_buffer_def publish_payload_def)
        moreover have "same_buffer c c2" using s1 c2(2) by (rule same_buffer_trans)
        ultimately show ?thesis using ne c1(1) q c2(1) by (auto simp: mqtt_msg_publish_def)
      qed
    next
      case False
      then have "int (mc_length c1) + int (length data) > int (mc_buffer_length c1)"
        using l1 full by (simp add: publish_payload_def)
      with ne c1(1) False s1 show ?thesis by (auto simp: mqtt_msg_publish_def)
    qed
  qed
qed

lemma publish_any:
  assumes ok: "conn_ok c"
  shows "\<exists>c' mid. mqtt_msg_publish c topic data (int (length data)) qos retain m0 = Some (c', mid) \<and> built c c' \<and>
     (if not_empty topic \<and> 3 + length (publish_payload (the topic) qos 0 data) \<le> mc_buffer_length c
      then mid = (if qos > 0 then fresh_id c else 0) \<and> mc_length c' \<noteq> 0 \<and>
           message c' = packet 3 0 qos retain (publish_payload (the topic) qos mid data)
      else mc_length c' = 0)"
proof (cases "not_empty topic")
  case False
  then show ?thesis by (auto simp: mqtt_msg_publish_def intro!: built_fail)
next
  case True
  then obtain t where t: "topic = Some t" "t \<noteq> []" by (auto simp: not_empty_def split: option.splits)
  have len: "length (publish_payload t qos m data) = length (publish_payload t qos 0 data)" for m
    by (simp add: publish_payload_def)
  show ?thesis
  proof (cases "3 + length (publish_payload t qos 0 data) \<le> mc_buffer_length c")
    case fits: True
    let ?m = "if qos > 0 then fresh_id c else 0"
    have "3 + length (publish_payload t qos ?m data) \<le> mc_buffer_length c"
      using fits len [of ?m] by linarith
    from publish_builds [OF ok t(2) refl this, of retain m0] obtain c' where
      "mqtt_msg_publish c (Some t) data (int (length data)) qos retain m0 = Some (c', ?m)"
      "message c' = packet 3 0 qos retain (publish_payload t qos ?m data)" "mc_length c' \<noteq> 0" "built c c'"
      by (auto simp: built_def)
    with True fits show ?thesis unfolding t(1) by simp
  next
    case False
    from publish_fails [OF ok t(2) False, of retain m0] obtain c' mid where
      "mqtt_msg_publish c (Some t) data (int (length data)) qos retain m0 = Some (fail_message c', mid)"
      "same_buffer c c'" by blast
    with False True built_fail show ?thesis unfolding t(1) by auto
  qed
qed
section \<open>Properties\<close>

text \<open>
  C20: a PUBLISH packet that \<open>mqtt_msg_publish\<close> builds (non-empty topic and data, QoS below 4,
  remaining length of at most two bytes, room in the buffer) is read back exactly by the readers,
  whatever follows it in the receive buffer: type, QoS, total length, topic, data, and the message
  id, which is the fresh one when there is a QoS and 0 otherwise.
\<close>

theorem publish_roundtrip:
  assumes "conn_ok c" and "topic \<noteq> []" and "data \<noteq> []"
    and "0 \<le> qos" "qos < 4" "0 \<le> retain" "retain < 2"
    and "length (publish_payload topic qos 0 data) \<le> 16383"
    and "3 + length (publish_payload topic qos 0 data) \<le> mc_buffer_length c"
  shows "\<exists>c' mid. mqtt_msg_publish c (Some topic) data (int (length data)) qos retain m0 = Some (c', mid) \<and>
     mid = (if qos > 0 then fresh_id c else 0) \<and> built c c' \<and>
     (\<forall>rest n. length (message c') \<le> n \<longrightarrow>
        (let buf = message c' @ rest
         in mqtt_get_type buf = Some MQTT_MSG_TYPE_PUBLISH \<and> mqtt_get_qos buf = Some qos \<and>
            mqtt_get_total_length buf n = Some (int (length (message c'))) \<and>
            map_option (view buf) (mqtt_get_publish_topic buf n) = Some (Some topic) \<and>
            map_option (view buf) (mqtt_get_publish_data buf n) = Some (Some data) \<and>
            mqtt_get_id buf n = Some mid))"
proof -
  let ?m = "if qos > 0 then fresh_id c else 0"
  have len: "length (publish_payload topic qos ?m data) = length (publish_payload topic qos 0 data)"
    by (simp add: publish_payload_def)
  from publish_builds [OF assms(1,2) refl, of qos data retain m0] assms(9) len obtain c' where
    c': "mqtt_msg_publish c (Some topic) data (int (length data)) qos retain m0 = Some (c', ?m)"
        "message c' = packet 3 0 qos retain (publish_payload topic qos ?m data)"
        "built c c'" by (auto simp: built_def)
  note r = publish_read [OF assms(2-7) refl _ c'(2)]
  show ?thesis
    using c' r assms(8) len by (simp add: Let_def MQTT_MSG_TYPE_PUBLISH_def)
qed

theorem publish_roundtrip_witness:
  "\<exists>c' mid. mqtt_msg_publish (mqtt_msg_init (replicate 64 0) 64) (Some [97, 47, 98]) [1, 0, 2] 3 1 0 0
        = Some (c', mid) \<and> mid = 1"
  using publish_roundtrip [of "mqtt_msg_init (replicate 64 0) 64" "[97, 47, 98]" "[1, 0, 2]" 1 0 0]
  by (auto simp: conn_ok_def mqtt_msg_init_def publish_payload_def fresh_id_result)

text \<open>
  A PUBLISH packet with a QoS, an id and an empty payload is legal, but the readers do not
  read it: with exactly the packet received, \<open>mqtt_get_publish_data\<close> returns a null pointer and
  leaves \<open>*length\<close> at the length of the whole packet, and \<open>mqtt_get_id\<close> returns 0 for the id.
\<close>

theorem empty_publish_not_read:
  assumes "topic \<noteq> []" and "0 < qos" "qos < 3"
    and "length topic \<le> 16000" and "p = packet 3 0 qos 0 (publish_payload topic qos mid [])"
  shows "mqtt_get_publish_data p (length p) = Some (None, length p) \<and>
         mqtt_get_id p (length p) = Some 0"
proof -
  let ?h = "header_byte 3 0 qos 0" and ?pl = "publish_payload topic qos mid []"
  let ?r = "rem_len (length ?pl)"
  define i where "i = 1 + length ?r"
  have b: "p = ?h # ?r @ ?pl @ []" using assms(5) by (simp add: packet_def)
  have h: "uint ?h = 48 + 2 * qos" using header_byte_value [of 3 0 qos 0] assms(2,3) by simp
  have type: "mqtt_get_type p = Some 3" unfolding b get_fields h using assms(2,3) by simp
  have "(48 + 2 * qos) div 2 mod 4 = qos" using assms(2,3) by presburger
  then have qos: "mqtt_get_qos p = Some qos" unfolding b get_fields h by simp
  have lpl: "length ?pl = length topic + 4" using assms(2) by (simp add: publish_payload_def)
  then have pl: "length ?pl \<le> 16383" using assms(4) by simp
  have n: "length p = i + (length topic + 4)" using b lpl by (simp add: i_def)
  then have lr: "length ?r < length p" by (simp add: i_def)
  have loop: "length_loop p (length p) 1 0 = Some (i, int (length ?pl))"
    using length_loop_packet [OF pl lr, of ?h "?pl @ []"] unfolding b [symmetric] by (simp add: i_def)
  have skip: "skip_length p (length p) 1 = Some i"
    using skip_length_packet [OF pl lr, of ?h "?pl @ []"] unfolding b [symmetric] by (simp add: i_def)
  have "length topic < 65536" using assms(4) by simp
  then have be1: "rd_be16 p i = Some (length topic)"
    using rd_be16_append [of "length topic" "?h # ?r" "topic @ be16 (unat mid)"] assms(2) b
    by (simp add: publish_payload_def with_length_def i_def)
  have "i \<le> 3" by (simp add: i_def rem_len_def)
  then show ?thesis
    unfolding mqtt_get_publish_data_def mqtt_get_id_def loop skip type
    unfolding n using be1 qos assms(1,2,4) pl lpl by (simp add: Let_def msg_type_defs)
qed

theorem empty_publish_not_read_witness:
  "let p = packet 3 0 1 0 (publish_payload [97] 1 7 [])
   in mqtt_get_publish_data p (length p) = Some (None, length p)"
  using empty_publish_not_read [of "[97]" 1 _ 7] by (simp add: Let_def)

text \<open>
  C21: \<open>mqtt_msg_connect\<close> writes the CONNECT packet of the protocol (name, level, flags computed
  from the fields that are set, keepalive, client id, will, user name, password) when it fits, a
  message of length 0 when it does not, and stays in its buffer in both cases.
\<close>

theorem mqtt_msg_connect_correct:
  assumes "conn_ok c" and "not_empty (ci_client_id info)"
    and "not_empty (ci_will_topic info) \<Longrightarrow> ci_will_message info \<noteq> None"
  shows "\<exists>c'. mqtt_msg_connect v31 c info = Some c' \<and> built c c' \<and>
     (if 3 + length (connect_payload v31 info) \<le> mc_buffer_length c
      then message c' = packet MQTT_MSG_TYPE_CONNECT 0 0 0 (connect_payload v31 info)
      else mc_length c' = 0)"
  unfolding MQTT_MSG_TYPE_CONNECT_def by (rule connect_built [OF assms])

theorem mqtt_msg_connect_correct_witness:
  "let info = \<lparr>ci_client_id = Some [69, 83, 80], ci_username = None, ci_password = Some [49],
              ci_will_topic = Some [119], ci_will_message = Some [111, 102, 102], ci_keepalive = 120,
              ci_will_qos = 1, ci_will_retain = 0, ci_clean_session = 1\<rparr>;
       c = mqtt_msg_init (replicate 128 0) 128
   in \<exists>c'. mqtt_msg_connect True c info = Some c' \<and> built c c'"
  using mqtt_msg_connect_correct [of "mqtt_msg_init (replicate 128 0) 128"
     "\<lparr>ci_client_id = Some [69, 83, 80], ci_username = None, ci_password = Some [49],
       ci_will_topic = Some [119], ci_will_message = Some [111, 102, 102], ci_keepalive = 120,
       ci_will_qos = 1, ci_will_retain = 0, ci_clean_session = 1\<rparr>" True]
  by (auto simp: conn_ok_def mqtt_msg_init_def not_empty_def Let_def)

text \<open>
  The four acknowledgement builders return packets of their types that carry the id they were
  given, so that \<open>mqtt_get_id\<close> of the peer (the same code) finds the id of the packet acknowledged.
\<close>

theorem acks_carry_id:
  assumes "conn_ok c" and "5 \<le> mc_buffer_length c" and "mid \<noteq> 0"
    and "(build, type) \<in> {(mqtt_msg_puback, MQTT_MSG_TYPE_PUBACK), (mqtt_msg_pubrec, MQTT_MSG_TYPE_PUBREC),
                            (mqtt_msg_pubrel, MQTT_MSG_TYPE_PUBREL), (mqtt_msg_pubcomp, MQTT_MSG_TYPE_PUBCOMP)}"
  shows "\<exists>c'. build c mid = Some c' \<and> built c c' \<and> length (message c') = 4 \<and>
           mqtt_get_type (message c') = Some type \<and> mqtt_get_id (message c' @ rest) 4 = Some mid"
proof -
  have "mqtt_msg_puback = (\<lambda>c m. ack_message c m 4 0)" "mqtt_msg_pubrec = (\<lambda>c m. ack_message c m 5 0)"
    "mqtt_msg_pubrel = (\<lambda>c m. ack_message c m 6 1)" "mqtt_msg_pubcomp = (\<lambda>c m. ack_message c m 7 0)"
    by (simp_all add: fun_eq_iff mqtt_msg_puback_def mqtt_msg_pubrec_def mqtt_msg_pubrel_def
        mqtt_msg_pubcomp_def msg_type_defs)
  then have "\<exists>qos. build = (\<lambda>c m. ack_message c m type qos) \<and> type \<in> {4, 5, 6, 7} \<and> qos \<in> {0, 1}"
    using assms(4) by (auto simp: msg_type_defs)
  then obtain qos where b: "build = (\<lambda>c m. ack_message c m type qos)" "type \<in> {4, 5, 6, 7}"
    "qos \<in> {0, 1}" by blast
  from ack_message_builds [OF assms(1) refl, of mid type qos] assms(2,3) obtain c' where
    c': "ack_message c mid type qos = Some c'" "built c c'"
        "message c' = packet type 0 qos 0 (be16 (unat mid))" by (auto simp: assign_id_result)
  have "mqtt_get_id (message c' @ rest) 4 = Some mid"
    using ack_read [of type qos "[]" 4 mid rest] b(2,3) unfolding c'(3) by auto
  moreover have "uint (header_byte type 0 qos 0) div 16 = type"
    using header_byte_value [of type 0 qos 0] b(2,3) by auto
  then have "mqtt_get_type (message c') = Some type" unfolding c'(3) packet_def get_fields by simp
  ultimately show ?thesis
    using c' b(1) by (auto simp: packet_def rem_len_def)
qed

theorem acks_carry_id_witness:
  "\<exists>c'. mqtt_msg_pubrel (mqtt_msg_init (replicate 8 0) 8) 0x1234 = Some c' \<and>
        mqtt_get_id (message c' @ [0, 0]) 4 = Some 0x1234"
  using acks_carry_id [where c = "mqtt_msg_init (replicate 8 0) 8" and mid = "0x1234"
      and build = mqtt_msg_pubrel and type = MQTT_MSG_TYPE_PUBREL and rest = "[0, 0]"]
  by (auto simp: conn_ok_def mqtt_msg_init_def)

text \<open>
  \<open>mqtt_msg_subscribe\<close> and \<open>mqtt_msg_unsubscribe\<close> draw a fresh id, which is never 0, and write
  it with the topic (and the QoS) when the packet fits; otherwise the message has length 0. They
  never write outside the buffer.
\<close>

theorem subscribe_correct:
  assumes "conn_ok c"
  shows "(\<exists>c' mid. mqtt_msg_subscribe c topic qos m0 = Some (c', mid) \<and> built c c' \<and>
     (if not_empty topic \<and> 8 + length (the topic) \<le> mc_buffer_length c
      then mid = fresh_id c \<and> mid \<noteq> 0 \<and> message c' =
        packet MQTT_MSG_TYPE_SUBSCRIBE 0 1 0 (be16 (unat mid) @ with_length (the topic) @ [word_of_int qos])
      else mc_length c' = 0)) \<and>
    (\<exists>c' mid. mqtt_msg_unsubscribe c topic m0 = Some (c', mid) \<and> built c c' \<and>
     (if not_empty topic \<and> 7 + length (the topic) \<le> mc_buffer_length c
      then mid = fresh_id c \<and> mid \<noteq> 0 \<and> message c' =
        packet MQTT_MSG_TYPE_UNSUBSCRIBE 0 1 0 (be16 (unat mid) @ with_length (the topic))
      else mc_length c' = 0))"
  using subscribe_builds [OF assms, of topic qos m0] unsubscribe_builds [OF assms, of topic m0]
    fresh_id_nonzero
  by (auto simp: msg_type_defs split: if_splits)

theorem subscribe_correct_witness:
  "\<exists>c'. mqtt_msg_subscribe (mqtt_msg_init (replicate 16 0) 16) (Some [97]) 1 0 = Some (c', 1) \<and>
        mc_length c' \<le> mc_buffer_length c'"
  using subscribe_correct [of "mqtt_msg_init (replicate 16 0) 16" "Some [97]" 1 0]
  by (auto simp: conn_ok_def mqtt_msg_init_def not_empty_def fresh_id_result built_def)

end
