(* ===== verification/Mqtt_Client.thy ===== *)
theory Mqtt_Client
  imports Mqtt_Msg Mqtt_Utils Msg_Queue
begin

text \<open>
  The client of lib/mqtt/mqtt.c: its state, one definition per callback, task and function of the
  interface, and the calls that leave the library, kept in order in a trace. The callbacks the
  application registers are calls that leave the library too (they do not change the client), so
  only whether they are registered is state. \<open>None\<close> is undefined behaviour, as elsewhere.
\<close>

section \<open>State\<close>

datatype conn_state =
  WIFI_INIT | WIFI_CONNECTING | WIFI_CONNECTING_ERROR | WIFI_CONNECTED | DNS_RESOLVE
| TCP_DISCONNECTING | TCP_DISCONNECTED | TCP_RECONNECT_REQ | TCP_RECONNECT | TCP_CONNECTING
| TCP_CONNECTING_ERROR | TCP_CONNECTED | MQTT_CONNECT_SEND | MQTT_CONNECT_SENDING
| MQTT_SUBSCIBE_SEND | MQTT_SUBSCIBE_SENDING | MQTT_DATA | MQTT_PUBLISH_RECV | MQTT_PUBLISHING
| MQTT_DELETING | MQTT_DELETED

text \<open>The part of \<open>struct espconn\<close> and its \<open>esp_tcp\<close> that the client fills in.\<close>

record tcp_conn =
  tc_remote_ip :: "u8 list"
  tc_remote_port :: u32
  tc_local_port :: u32

text \<open>
  \<open>ms_out_buffer\<close> tells whether the output buffer is allocated; its bytes are those of the
  connection's buffer, which points to the same block. \<open>ms_connect_info\<close> tells whether the pointer
  is set; it can only point to the client's own \<open>connect_info\<close>. \<open>ms_outbound\<close> tells whether
  \<open>outbound_message\<close> is set; it can only point to the connection's message.
\<close>

record mqtt_state =
  ms_connect_info :: bool
  ms_in_buffer :: "u8 list option"
  ms_out_buffer :: bool
  ms_in_buffer_length :: int
  ms_out_buffer_length :: int
  ms_message_length :: u16
  ms_message_length_read :: u16
  ms_outbound :: bool
  ms_connection :: mqtt_connection
  ms_pending_msg_id :: u16
  ms_pending_msg_type :: int

datatype event =
  Ev_new_conn | Ev_delete_conn
| Ev_connect | Ev_secure_connect | Ev_disconnect | Ev_secure_disconnect
| Ev_send "u8 list" | Ev_secure_send "u8 list" | Ev_resolve cstring
| Ev_post | Ev_timer_arm nat | Ev_timer_disarm
| Ev_connected | Ev_disconnected | Ev_published | Ev_timeout
| Ev_data "u8 list option" nat "u8 list option" nat

record mqtt_client =
  cl_pCon :: "tcp_conn option"
  cl_security :: u8
  cl_host :: "cstring option"
  cl_port :: u32
  cl_ip :: u32
  cl_state :: mqtt_state
  cl_connect_info :: mqtt_connect_info
  cl_connectedCb :: bool
  cl_disconnectedCb :: bool
  cl_publishedCb :: bool
  cl_timeoutCb :: bool
  cl_dataCb :: bool
  cl_keepAliveTick :: u32
  cl_reconnectTick :: u32
  cl_sendTimeout :: u32
  cl_connState :: conn_state
  cl_msgQueue :: queue
  cl_user_data :: bool
  cl_trace :: "event list"

definition MQTT_SEND_TIMOUT :: u32 where "MQTT_SEND_TIMOUT = 5"
definition MQTT_BUF_SIZE :: nat where "MQTT_BUF_SIZE = 1024"
definition MQTT_RECONNECT_TIMEOUT :: u32 where "MQTT_RECONNECT_TIMEOUT = 5"
definition QUEUE_BUFFER_SIZE :: int where "QUEUE_BUFFER_SIZE = 2048"

section \<open>Calls out of the library\<close>

definition emit :: "event \<Rightarrow> mqtt_client \<Rightarrow> mqtt_client" where
  "emit e c = c\<lparr>cl_trace := cl_trace c @ [e]\<rparr>"

definition emit_if :: "bool \<Rightarrow> event \<Rightarrow> mqtt_client \<Rightarrow> mqtt_client" where
  "emit_if b e c = (if b then emit e c else c)"

text \<open>
  The choice between the plain and the secure call; \<open>ssl\<close> tells whether the build defines
  \<open>MQTT_SSL_ENABLE\<close>, without which a secure client does nothing.
\<close>

definition net_call :: "bool \<Rightarrow> event \<Rightarrow> event \<Rightarrow> mqtt_client \<Rightarrow> mqtt_client" where
  "net_call ssl secure plain c =
     (if cl_security c \<noteq> 0 then emit_if ssl secure c else emit plain c)"

definition set_state :: "conn_state \<Rightarrow> mqtt_client \<Rightarrow> mqtt_client" where
  "set_state s c = c\<lparr>cl_connState := s\<rparr>"

definition upd :: "(mqtt_state \<Rightarrow> mqtt_state) \<Rightarrow> mqtt_client \<Rightarrow> mqtt_client" where
  "upd f c = c\<lparr>cl_state := f (cl_state c)\<rparr>"

text \<open>
  \<open>outbound_message = build(...)\<close>: the connection the builder leaves, and the pointer set.
\<close>

definition set_outbound :: "mqtt_connection \<Rightarrow> mqtt_client \<Rightarrow> mqtt_client" where
  "set_outbound mc = upd (\<lambda>s. s\<lparr>ms_connection := mc, ms_outbound := True\<rparr>)"

text \<open>The bytes from \<open>outbound_message->data\<close> on, and the length.\<close>

definition outbound :: "mqtt_client \<Rightarrow> (u8 list \<times> nat) option" where
  "outbound c =
     (if ms_outbound (cl_state c)
      then do { off \<leftarrow> mc_data (ms_connection (cl_state c));
                Some (drop off (mc_buffer (ms_connection (cl_state c))),
                      mc_length (ms_connection (cl_state c))) }
      else None)"

section \<open>Name resolution\<close>

text \<open>The four bytes of an address in memory (the target is little-endian).\<close>

definition ip_bytes :: "u32 \<Rightarrow> u8 list" where
  "ip_bytes a = [ucast a, ucast (drop_bit 8 a), ucast (drop_bit 16 a), ucast (drop_bit 24 a)]"

definition mqtt_dns_found :: "bool \<Rightarrow> u32 option \<Rightarrow> mqtt_client \<Rightarrow> mqtt_client option" where
  "mqtt_dns_found ssl ipaddr c =
     (case ipaddr of
        None \<Rightarrow> Some (set_state TCP_RECONNECT_REQ c)
      | Some addr \<Rightarrow>
          do { c \<leftarrow> (if cl_ip c = 0 \<and> addr \<noteq> 0
                     then do { pc \<leftarrow> cl_pCon c;
                               let c = c\<lparr>cl_pCon := Some (pc\<lparr>tc_remote_ip := ip_bytes addr\<rparr>)\<rparr>;
                               let c = net_call ssl Ev_secure_connect Ev_connect c;
                               Some (set_state TCP_CONNECTING c) }
                     else Some c);
               Some (emit Ev_post c) })"

section \<open>Deleting\<close>

definition mqtt_tcpclient_delete :: "mqtt_client \<Rightarrow> mqtt_client" where
  "mqtt_tcpclient_delete c =
     (if cl_pCon c \<noteq> None then (emit Ev_delete_conn c)\<lparr>cl_pCon := None\<rparr> else c)"

definition mqtt_client_delete :: "mqtt_client \<Rightarrow> mqtt_client" where
  "mqtt_client_delete c =
     (let c = mqtt_tcpclient_delete c;
          c = c\<lparr>cl_host := None, cl_user_data := False,
                cl_connect_info := cl_connect_info c
                  \<lparr>ci_client_id := None, ci_username := None, ci_password := None,
                   ci_will_topic := None, ci_will_message := None\<rparr>\<rparr>
      in upd (\<lambda>s. s\<lparr>ms_in_buffer := None, ms_out_buffer := False,
                    ms_connection := (ms_connection s)\<lparr>mc_buffer := []\<rparr>\<rparr>) c)"

section \<open>Receiving\<close>

definition deliver_publish :: "u8 list \<Rightarrow> nat \<Rightarrow> mqtt_client \<Rightarrow> mqtt_client option" where
  "deliver_publish buf len c =
     do { t \<leftarrow> mqtt_get_publish_topic buf len;
          d \<leftarrow> mqtt_get_publish_data buf len;
          Some (emit_if (cl_dataCb c) (Ev_data (view buf t) (snd t) (view buf d) (snd d)) c) }"

text \<open>
  The response to a packet goes into the queue; when it is full the response is lost (the code
  only prints a message).
\<close>

definition queue_outbound :: "mqtt_client \<Rightarrow> mqtt_client option" where
  "queue_outbound c =
     do { (data, len) \<leftarrow> outbound c;
          (e, q) \<leftarrow> QUEUE_Puts (cl_msgQueue c) data len;
          Some (c\<lparr>cl_msgQueue := q\<rparr>) }"

definition respond ::
  "(mqtt_connection \<Rightarrow> mqtt_connection option) \<Rightarrow> mqtt_client \<Rightarrow> mqtt_client option" where
  "respond build c =
     do { mc \<leftarrow> build (ms_connection (cl_state c));
          queue_outbound (set_outbound mc c) }"

text \<open>The switch over the message type in state \<open>MQTT_DATA\<close>.\<close>

definition data_packet ::
  "u8 list \<Rightarrow> int \<Rightarrow> int \<Rightarrow> u16 \<Rightarrow> mqtt_client \<Rightarrow> mqtt_client option" where
  "data_packet ib msg_type msg_qos msg_id c =
     (if msg_type = MQTT_MSG_TYPE_PUBLISH then
        do { c \<leftarrow> (if msg_qos = 1 then respond (\<lambda>m. mqtt_msg_puback m msg_id) c
                   else if msg_qos = 2 then respond (\<lambda>m. mqtt_msg_pubrec m msg_id) c
                   else Some c);
             deliver_publish ib (unat (ms_message_length_read (cl_state c))) c }
      else if msg_type = MQTT_MSG_TYPE_PUBREC then respond (\<lambda>m. mqtt_msg_pubrel m msg_id) c
      else if msg_type = MQTT_MSG_TYPE_PUBREL then respond (\<lambda>m. mqtt_msg_pubcomp m msg_id) c
      else if msg_type = MQTT_MSG_TYPE_PINGREQ then respond mqtt_msg_pingresp c
      else Some c)"

text \<open>
  One round of the loop at the label \<open>READPACKET\<close>. The second component of the result tells
  whether the code jumps back to the label, and with which \<open>len\<close> and \<open>pdata\<close>.
\<close>

definition read_packet ::
  "bool \<Rightarrow> u16 \<Rightarrow> u8 list \<Rightarrow> mqtt_client \<Rightarrow> (mqtt_client \<times> (u16 \<times> u8 list) option) option" where
  "read_packet ssl len pdata c =
     (if unat len < MQTT_BUF_SIZE \<and> len > 0 then
        do { bytes \<leftarrow> rd_seg pdata 0 (unat len);
             old \<leftarrow> ms_in_buffer (cl_state c);
             ib \<leftarrow> wr_seg old 0 bytes;
             let c = upd (\<lambda>s. s\<lparr>ms_in_buffer := Some ib\<rparr>) c;
             msg_type \<leftarrow> mqtt_get_type ib;
             msg_qos \<leftarrow> mqtt_get_qos ib;
             msg_id \<leftarrow> mqtt_get_id ib (nat (ms_in_buffer_length (cl_state c) mod 65536));
             (case cl_connState c of
                MQTT_CONNECT_SENDING \<Rightarrow>
                  Some (if msg_type = MQTT_MSG_TYPE_CONNACK then
                          if ms_pending_msg_type (cl_state c) \<noteq> MQTT_MSG_TYPE_CONNECT
                          then net_call ssl Ev_secure_disconnect Ev_disconnect c
                          else emit_if (cl_connectedCb c) Ev_connected (set_state MQTT_DATA c)
                        else c, None)
              | MQTT_DATA \<Rightarrow>
                  do { let c = upd (\<lambda>s. s\<lparr>ms_message_length_read := len\<rparr>) c;
                       total \<leftarrow> mqtt_get_total_length ib (unat len);
                       let c = upd (\<lambda>s. s\<lparr>ms_message_length := word_of_int total\<rparr>) c;
                       c \<leftarrow> data_packet ib msg_type msg_qos msg_id c;
                       let ml = ms_message_length (cl_state c);
                       let mr = ms_message_length_read (cl_state c);
                       Some (c, if msg_type = MQTT_MSG_TYPE_PUBLISH \<and> ml < mr
                                then Some (mr - ml, drop (unat ml) pdata) else None) }
              | _ \<Rightarrow> Some (c, None)) }
      else Some (c, None))"

text \<open>
  The loop itself has no bound in the code, so it runs on fuel: \<open>Out_of_fuel\<close> says that it is
  still running, \<open>Undefined\<close> that it did something undefined.
\<close>

datatype 'a outcome = Returns 'a | Undefined | Out_of_fuel

fun mqtt_tcpclient_recv ::
  "nat \<Rightarrow> bool \<Rightarrow> u16 \<Rightarrow> u8 list \<Rightarrow> mqtt_client \<Rightarrow> mqtt_client outcome" where
  "mqtt_tcpclient_recv 0 ssl len pdata c = Out_of_fuel"
| "mqtt_tcpclient_recv (Suc fuel) ssl len pdata c =
     (case read_packet ssl len pdata c of
        None \<Rightarrow> Undefined
      | Some (c, None) \<Rightarrow> Returns (emit Ev_post c)
      | Some (c, Some (len, pdata)) \<Rightarrow> mqtt_tcpclient_recv fuel ssl len pdata c)"

section \<open>The other callbacks\<close>

definition mqtt_tcpclient_sent_cb :: "mqtt_client \<Rightarrow> mqtt_client" where
  "mqtt_tcpclient_sent_cb c =
     (let c = c\<lparr>cl_sendTimeout := 0\<rparr>;
          c = emit_if (cl_connState c = MQTT_DATA \<and>
                       ms_pending_msg_type (cl_state c) = MQTT_MSG_TYPE_PUBLISH \<and> cl_publishedCb c)
                Ev_published c
      in emit Ev_post c)"

text \<open>
  Recording a packet that is about to be sent: its type, its id and the send timeout.
\<close>

definition note_pending :: "u8 list \<Rightarrow> nat \<Rightarrow> mqtt_client \<Rightarrow> mqtt_client option" where
  "note_pending data len c =
     do { type \<leftarrow> mqtt_get_type data;
          msg_id \<leftarrow> mqtt_get_id data len;
          Some ((upd (\<lambda>s. s\<lparr>ms_pending_msg_type := type, ms_pending_msg_id := msg_id\<rparr>) c)
                  \<lparr>cl_sendTimeout := MQTT_SEND_TIMOUT\<rparr>) }"

definition send_bytes :: "bool \<Rightarrow> u8 list \<Rightarrow> nat \<Rightarrow> mqtt_client \<Rightarrow> mqtt_client option" where
  "send_bytes ssl data len c =
     do { bytes \<leftarrow> rd_seg data 0 len;
          Some (upd (\<lambda>s. s\<lparr>ms_outbound := False\<rparr>)
                 (net_call ssl (Ev_secure_send bytes) (Ev_send bytes) c)) }"

text \<open>
  \<open>mqtt_timer\<close>, once a second. \<open>sent\<close> tells whether the send call returns \<open>ESPCONN_OK\<close>; a secure
  client of a build without SSL never calls it and keeps the initial \<open>ESPCONN_OK\<close>.
\<close>

definition keepalive_due :: "mqtt_client \<Rightarrow> bool" where
  "keepalive_due c \<longleftrightarrow> cl_keepAliveTick c > word_of_int (ci_keepalive (cl_connect_info c))"

definition mqtt_timer :: "bool \<Rightarrow> bool \<Rightarrow> mqtt_client \<Rightarrow> mqtt_client option" where
  "mqtt_timer ssl sent c =
     do { c \<leftarrow>
       (if cl_connState c = MQTT_DATA then
          do { let c = c\<lparr>cl_keepAliveTick := cl_keepAliveTick c + 1\<rparr>;
               if \<not> ms_connect_info (cl_state c) then None
               else if keepalive_due c then
                 do { mc \<leftarrow> mqtt_msg_pingreq (ms_connection (cl_state c));
                      let c = set_outbound mc c;
                      (data, len) \<leftarrow> outbound c;
                      c \<leftarrow> note_pending data len c;
                      c \<leftarrow> send_bytes ssl data len c;
                      let ok = (sent \<or> cl_security c \<noteq> 0 \<and> \<not> ssl);
                      Some (if ok then emit Ev_post (c\<lparr>cl_keepAliveTick := 0\<rparr>)
                            else set_state TCP_RECONNECT_REQ c) }
               else Some c }
        else if cl_connState c = TCP_RECONNECT_REQ then
          (let c = c\<lparr>cl_reconnectTick := cl_reconnectTick c + 1\<rparr>
           in Some (if cl_reconnectTick c > MQTT_RECONNECT_TIMEOUT
                    then emit_if (cl_timeoutCb c) Ev_timeout
                           (emit Ev_post (set_state TCP_RECONNECT (c\<lparr>cl_reconnectTick := 0\<rparr>)))
                    else c))
        else Some c);
       Some (if cl_sendTimeout c > 0 then c\<lparr>cl_sendTimeout := cl_sendTimeout c - 1\<rparr> else c) }"

definition mqtt_tcpclient_discon_cb :: "mqtt_client \<Rightarrow> mqtt_client" where
  "mqtt_tcpclient_discon_cb c =
     (let c = set_state (if cl_connState c = TCP_DISCONNECTING then TCP_DISCONNECTED
                         else if cl_connState c = MQTT_DELETING then MQTT_DELETED
                         else TCP_RECONNECT_REQ) c
      in emit Ev_post (emit_if (cl_disconnectedCb c) Ev_disconnected c))"

text \<open>\<open>v31\<close> tells which protocol name the build defines.\<close>

definition mqtt_tcpclient_connect_cb :: "bool \<Rightarrow> bool \<Rightarrow> mqtt_client \<Rightarrow> mqtt_client option" where
  "mqtt_tcpclient_connect_cb ssl v31 c =
     (if \<not> ms_connect_info (cl_state c) then None
      else do {
        let mc = mqtt_msg_init (mc_buffer (ms_connection (cl_state c)))
                   (nat (ms_out_buffer_length (cl_state c) mod 65536));
        mc \<leftarrow> mqtt_msg_connect v31 mc (cl_connect_info c);
        let c = set_outbound mc c;
        (data, len) \<leftarrow> outbound c;
        c \<leftarrow> note_pending data len c;
        c \<leftarrow> send_bytes ssl data len c;
        Some (emit Ev_post (set_state MQTT_CONNECT_SENDING c)) })"

definition mqtt_tcpclient_recon_cb :: "mqtt_client \<Rightarrow> mqtt_client" where
  "mqtt_tcpclient_recon_cb c = emit Ev_post (set_state TCP_RECONNECT_REQ c)"

section \<open>The functions of the interface\<close>

text \<open>
  The tail that publishing, subscribing and pinging share: the retry loop over the queue. \<open>g\<close> and
  \<open>stack\<close> are the bytes the stack holds before the call (\<open>dataBuffer\<close> and the parser).
\<close>

definition enqueue_outbound ::
  "u8 \<Rightarrow> u8 list \<Rightarrow> mqtt_client \<Rightarrow> (bool \<times> mqtt_client) option" where
  "enqueue_outbound g stack c =
     do { (data, len) \<leftarrow> outbound c;
          (ok, q) \<leftarrow> enqueue_evicting QUEUE_Puts QUEUE_Gets g (cl_msgQueue c) data len stack MQTT_BUF_SIZE;
          let c = c\<lparr>cl_msgQueue := q\<rparr>;
          Some (ok, emit_if ok Ev_post c) }"

definition MQTT_Publish ::
  "u8 \<Rightarrow> u8 list \<Rightarrow> cstring option \<Rightarrow> u8 list \<Rightarrow> int \<Rightarrow> int \<Rightarrow> int \<Rightarrow> mqtt_client \<Rightarrow>
   (bool \<times> mqtt_client) option" where
  "MQTT_Publish g stack topic data data_length qos retain c =
     do { (mc, mid) \<leftarrow> mqtt_msg_publish (ms_connection (cl_state c)) topic data data_length qos retain
                        (ms_pending_msg_id (cl_state c));
          let c = upd (\<lambda>s. s\<lparr>ms_pending_msg_id := mid\<rparr>) (set_outbound mc c);
          if mc_length mc = 0 then Some (False, c) else enqueue_outbound g stack c }"

definition MQTT_Subscribe ::
  "u8 \<Rightarrow> u8 list \<Rightarrow> cstring option \<Rightarrow> u8 \<Rightarrow> mqtt_client \<Rightarrow> (bool \<times> mqtt_client) option" where
  "MQTT_Subscribe g stack topic qos c =
     do { (mc, mid) \<leftarrow> mqtt_msg_subscribe (ms_connection (cl_state c)) topic (uint qos)
                        (ms_pending_msg_id (cl_state c));
          let c = upd (\<lambda>s. s\<lparr>ms_pending_msg_id := mid\<rparr>) (set_outbound mc c);
          enqueue_outbound g stack c }"

definition MQTT_Ping :: "u8 \<Rightarrow> u8 list \<Rightarrow> mqtt_client \<Rightarrow> (bool \<times> mqtt_client) option" where
  "MQTT_Ping g stack c =
     do { mc \<leftarrow> mqtt_msg_pingreq (ms_connection (cl_state c));
          let c = set_outbound mc c;
          if mc_length mc = 0 then Some (False, c) else enqueue_outbound g stack c }"

definition MQTT_Disconnect :: "mqtt_client \<Rightarrow> mqtt_client" where
  "MQTT_Disconnect c = emit Ev_timer_disarm (emit Ev_post (set_state TCP_DISCONNECTING c))"

definition MQTT_DeleteClient :: "mqtt_client \<Rightarrow> mqtt_client" where
  "MQTT_DeleteClient c = emit Ev_timer_disarm (emit Ev_post (set_state MQTT_DELETING c))"

text \<open>
  \<open>zalloc\<close> is the SDK's allocator; the code writes through the pointers it gets without a test.
  \<open>port\<close> is what \<open>espconn_port\<close> returns.
\<close>

definition MQTT_Connect ::
  "bool \<Rightarrow> (nat \<Rightarrow> u8 list option) \<Rightarrow> u32 \<Rightarrow> mqtt_client \<Rightarrow> mqtt_client option" where
  "MQTT_Connect ssl zalloc port c =
     do { let c = MQTT_Disconnect c;
          _ \<leftarrow> zalloc 1;
          let pc = \<lparr>tc_remote_ip = [0, 0, 0, 0], tc_remote_port = cl_port c, tc_local_port = port\<rparr>;
          let c = (emit Ev_new_conn c)\<lparr>cl_keepAliveTick := 0, cl_reconnectTick := 0\<rparr>;
          let c = emit (Ev_timer_arm 1000) (emit Ev_timer_disarm c);
          host \<leftarrow> cl_host c;
          (r, ip) \<leftarrow> UTILS_StrToIP host (tc_remote_ip pc);
          let c = c\<lparr>cl_pCon := Some (pc\<lparr>tc_remote_ip := ip\<rparr>)\<rparr>;
          let c = (if r \<noteq> 0 then net_call ssl Ev_secure_connect Ev_connect c
                   else emit (Ev_resolve host) c);
          Some (set_state TCP_CONNECTING c) }"

text \<open>\<open>MQTT_Task\<close>; the client pointer in the event is never null here.\<close>

definition MQTT_Task ::
  "bool \<Rightarrow> (nat \<Rightarrow> u8 list option) \<Rightarrow> u32 \<Rightarrow> u8 \<Rightarrow> u8 list \<Rightarrow> mqtt_client \<Rightarrow> mqtt_client option" where
  "MQTT_Task ssl zalloc port g stack c =
     (case cl_connState c of
        TCP_RECONNECT \<Rightarrow> do { c \<leftarrow> MQTT_Connect ssl zalloc port c; Some (set_state TCP_CONNECTING c) }
      | MQTT_DELETING \<Rightarrow> Some (net_call ssl Ev_secure_connect Ev_disconnect c)
      | TCP_DISCONNECTING \<Rightarrow> Some (net_call ssl Ev_secure_connect Ev_disconnect c)
      | TCP_DISCONNECTED \<Rightarrow> Some (mqtt_tcpclient_delete c)
      | MQTT_DELETED \<Rightarrow> Some (mqtt_client_delete c)
      | MQTT_DATA \<Rightarrow>
          if QUEUE_IsEmpty (cl_msgQueue c) \<or> cl_sendTimeout c \<noteq> 0 then Some c
          else do { (e, q, buf, len) \<leftarrow> QUEUE_Gets g (cl_msgQueue c) stack MQTT_BUF_SIZE;
                    let c = c\<lparr>cl_msgQueue := q\<rparr>;
                    if e = 0 then
                      do { len \<leftarrow> len; c \<leftarrow> note_pending buf len c; send_bytes ssl buf len c }
                    else Some c }
      | _ \<Rightarrow> Some c)"

section \<open>Initialisation\<close>

text \<open>Allocating a block and copying a string into it.\<close>

definition copy_string :: "(nat \<Rightarrow> u8 list option) \<Rightarrow> cstring \<Rightarrow> cstring option" where
  "copy_string zalloc s = do { _ \<leftarrow> zalloc (length s + 1); Some s }"

definition zero_connect_info :: mqtt_connect_info where
  "zero_connect_info =
     \<lparr>ci_client_id = None, ci_username = None, ci_password = None, ci_will_topic = None,
      ci_will_message = None, ci_keepalive = 0, ci_will_qos = 0, ci_will_retain = 0,
      ci_clean_session = 0\<rparr>"

definition zero_client :: mqtt_client where
  "zero_client =
     \<lparr>cl_pCon = None, cl_security = 0, cl_host = None, cl_port = 0, cl_ip = 0,
      cl_state = \<lparr>ms_connect_info = False, ms_in_buffer = None, ms_out_buffer = False,
        ms_in_buffer_length = 0, ms_out_buffer_length = 0, ms_message_length = 0,
        ms_message_length_read = 0, ms_outbound = False, ms_connection = mqtt_msg_init [] 0,
        ms_pending_msg_id = 0, ms_pending_msg_type = 0\<rparr>,
      cl_connect_info = zero_connect_info,
      cl_connectedCb = False, cl_disconnectedCb = False, cl_publishedCb = False,
      cl_timeoutCb = False, cl_dataCb = False, cl_keepAliveTick = 0, cl_reconnectTick = 0,
      cl_sendTimeout = 0, cl_connState = WIFI_INIT,
      cl_msgQueue = \<lparr>q_rb = \<lparr>rb_mem = [], p_r = 0, p_w = 0, fill_cnt = 0, rb_size = 0\<rparr>\<rparr>,
      cl_user_data = False, cl_trace = []\<rparr>"

definition MQTT_InitConnection ::
  "(nat \<Rightarrow> u8 list option) \<Rightarrow> cstring \<Rightarrow> u32 \<Rightarrow> u8 \<Rightarrow> mqtt_client option" where
  "MQTT_InitConnection zalloc host port security =
     do { h \<leftarrow> copy_string zalloc host;
          Some (zero_client\<lparr>cl_host := Some h, cl_port := port, cl_security := security\<rparr>) }"

definition MQTT_InitClient ::
  "(nat \<Rightarrow> u8 list option) \<Rightarrow> cstring \<Rightarrow> cstring \<Rightarrow> cstring \<Rightarrow> u32 \<Rightarrow> u8 \<Rightarrow> mqtt_client \<Rightarrow>
   mqtt_client option" where
  "MQTT_InitClient zalloc client_id client_user client_pass keepAliveTime cleanSession c =
     do { i \<leftarrow> copy_string zalloc client_id;
          u \<leftarrow> copy_string zalloc client_user;
          p \<leftarrow> copy_string zalloc client_pass;
          let info = zero_connect_info\<lparr>ci_client_id := Some i, ci_username := Some u,
             ci_password := Some p, ci_keepalive := sint keepAliveTime,
             ci_clean_session := uint cleanSession\<rparr>;
          let ib = zalloc MQTT_BUF_SIZE;
          let ob = zalloc MQTT_BUF_SIZE;
          let c = upd (\<lambda>s. s\<lparr>ms_in_buffer := ib, ms_in_buffer_length := int MQTT_BUF_SIZE,
             ms_out_buffer := (ob \<noteq> None), ms_out_buffer_length := int MQTT_BUF_SIZE,
             ms_connect_info := True,
             ms_connection := mqtt_msg_init (case ob of None \<Rightarrow> [] | Some b \<Rightarrow> b) MQTT_BUF_SIZE\<rparr>)
             (c\<lparr>cl_connect_info := info\<rparr>);
          let c = c\<lparr>cl_msgQueue := QUEUE_Init zalloc (cl_msgQueue c) QUEUE_BUFFER_SIZE\<rparr>;
          Some (emit Ev_post c) }"

definition MQTT_InitLWT ::
  "(nat \<Rightarrow> u8 list option) \<Rightarrow> cstring \<Rightarrow> cstring \<Rightarrow> u8 \<Rightarrow> u8 \<Rightarrow> mqtt_client \<Rightarrow> mqtt_client option" where
  "MQTT_InitLWT zalloc will_topic will_msg will_qos will_retain c =
     do { t \<leftarrow> copy_string zalloc will_topic;
          m \<leftarrow> copy_string zalloc will_msg;
          Some (c\<lparr>cl_connect_info := cl_connect_info c
             \<lparr>ci_will_topic := Some t, ci_will_message := Some m, ci_will_qos := uint will_qos,
              ci_will_retain := uint will_retain\<rparr>\<rparr>) }"

definition MQTT_OnConnected :: "bool \<Rightarrow> mqtt_client \<Rightarrow> mqtt_client" where
  "MQTT_OnConnected cb c = c\<lparr>cl_connectedCb := cb\<rparr>"

definition MQTT_OnDisconnected :: "bool \<Rightarrow> mqtt_client \<Rightarrow> mqtt_client" where
  "MQTT_OnDisconnected cb c = c\<lparr>cl_disconnectedCb := cb\<rparr>"

definition MQTT_OnData :: "bool \<Rightarrow> mqtt_client \<Rightarrow> mqtt_client" where
  "MQTT_OnData cb c = c\<lparr>cl_dataCb := cb\<rparr>"

definition MQTT_OnPublished :: "bool \<Rightarrow> mqtt_client \<Rightarrow> mqtt_client" where
  "MQTT_OnPublished cb c = c\<lparr>cl_publishedCb := cb\<rparr>"

definition MQTT_OnTimeout :: "bool \<Rightarrow> mqtt_client \<Rightarrow> mqtt_client" where
  "MQTT_OnTimeout cb c = c\<lparr>cl_timeoutCb := cb\<rparr>"

end
