(* ===== verification/Mqtt_Client_Live.thy ===== *)
theory Mqtt_Client_Live
  imports Mqtt_Client
begin

text \<open>
  What the entry points of the MQTT client do to a client that is set up: its invariant, the effect
  of each callback and function on every branch, the client as a state machine, and runs of the
  task and of the timer.
\<close>

section \<open>What every handler keeps\<close>

text \<open>
  A client after \<open>MQTT_InitConnection\<close> and \<open>MQTT_InitClient\<close>, as long as it is not deleted: both
  buffers are there, the packet builder works inside its own, the queue is well formed, and the
  connect information can be sent.
\<close>

definition client_ready :: "mqtt_client \<Rightarrow> bool" where
  "client_ready c \<longleftrightarrow>
     (\<exists>ib. ms_in_buffer (cl_state c) = Some ib \<and> length ib = MQTT_BUF_SIZE) \<and>
     ms_in_buffer_length (cl_state c) = int MQTT_BUF_SIZE \<and>
     ms_out_buffer_length (cl_state c) = int MQTT_BUF_SIZE \<and>
     length (mc_buffer (ms_connection (cl_state c))) = MQTT_BUF_SIZE \<and>
     mc_buffer_length (ms_connection (cl_state c)) = MQTT_BUF_SIZE \<and>
     ms_connect_info (cl_state c) \<and> queue_inv (cl_msgQueue c) \<and> cl_host c \<noteq> None \<and>
     not_empty (ci_client_id (cl_connect_info c)) \<and>
     (not_empty (ci_will_topic (cl_connect_info c)) \<longrightarrow> ci_will_message (cl_connect_info c) \<noteq> None)"

named_theorems client_simps "how the small state changes act on the fields"

lemma emit_fields [client_simps]:
  "cl_state (emit e c) = cl_state c" "cl_msgQueue (emit e c) = cl_msgQueue c"
  "cl_connState (emit e c) = cl_connState c" "cl_trace (emit e c) = cl_trace c @ [e]"
  "cl_connect_info (emit e c) = cl_connect_info c" "cl_host (emit e c) = cl_host c"
  "cl_security (emit e c) = cl_security c" "cl_dataCb (emit e c) = cl_dataCb c"
  "cl_sendTimeout (emit e c) = cl_sendTimeout c" "cl_pCon (emit e c) = cl_pCon c"
  "cl_keepAliveTick (emit e c) = cl_keepAliveTick c"
  "cl_reconnectTick (emit e c) = cl_reconnectTick c" "cl_ip (emit e c) = cl_ip c"
  "cl_port (emit e c) = cl_port c"
  by (simp_all add: emit_def)

lemma emit_if_fields [client_simps]:
  "cl_state (emit_if b e c) = cl_state c" "cl_msgQueue (emit_if b e c) = cl_msgQueue c"
  "cl_connState (emit_if b e c) = cl_connState c"
  "cl_trace (emit_if b e c) = cl_trace c @ (if b then [e] else [])"
  "cl_connect_info (emit_if b e c) = cl_connect_info c" "cl_host (emit_if b e c) = cl_host c"
  "cl_security (emit_if b e c) = cl_security c" "cl_dataCb (emit_if b e c) = cl_dataCb c"
  "cl_sendTimeout (emit_if b e c) = cl_sendTimeout c" "cl_pCon (emit_if b e c) = cl_pCon c"
  "cl_keepAliveTick (emit_if b e c) = cl_keepAliveTick c"
  "cl_reconnectTick (emit_if b e c) = cl_reconnectTick c" "cl_ip (emit_if b e c) = cl_ip c"
  "cl_port (emit_if b e c) = cl_port c"
  by (simp_all add: emit_if_def client_simps)

lemma net_call_fields [client_simps]:
  "cl_state (net_call ssl s p c) = cl_state c" "cl_msgQueue (net_call ssl s p c) = cl_msgQueue c"
  "cl_connState (net_call ssl s p c) = cl_connState c"
  "cl_trace (net_call ssl s p c) =
     cl_trace c @ (if cl_security c \<noteq> 0 then (if ssl then [s] else []) else [p])"
  "cl_connect_info (net_call ssl s p c) = cl_connect_info c" "cl_host (net_call ssl s p c) = cl_host c"
  "cl_security (net_call ssl s p c) = cl_security c" "cl_dataCb (net_call ssl s p c) = cl_dataCb c"
  "cl_sendTimeout (net_call ssl s p c) = cl_sendTimeout c" "cl_pCon (net_call ssl s p c) = cl_pCon c"
  "cl_keepAliveTick (net_call ssl s p c) = cl_keepAliveTick c"
  "cl_reconnectTick (net_call ssl s p c) = cl_reconnectTick c" "cl_ip (net_call ssl s p c) = cl_ip c"
  by (simp_all add: net_call_def client_simps)

lemma set_state_fields [client_simps]:
  "cl_state (set_state s c) = cl_state c" "cl_msgQueue (set_state s c) = cl_msgQueue c"
  "cl_connState (set_state s c) = s" "cl_trace (set_state s c) = cl_trace c"
  "cl_connect_info (set_state s c) = cl_connect_info c" "cl_host (set_state s c) = cl_host c"
  "cl_security (set_state s c) = cl_security c" "cl_dataCb (set_state s c) = cl_dataCb c"
  "cl_sendTimeout (set_state s c) = cl_sendTimeout c" "cl_pCon (set_state s c) = cl_pCon c"
  "cl_keepAliveTick (set_state s c) = cl_keepAliveTick c"
  "cl_reconnectTick (set_state s c) = cl_reconnectTick c" "cl_ip (set_state s c) = cl_ip c"
  "cl_port (set_state s c) = cl_port c"
  by (simp_all add: set_state_def)

lemma upd_fields [client_simps]:
  "cl_state (upd f c) = f (cl_state c)" "cl_msgQueue (upd f c) = cl_msgQueue c"
  "cl_connState (upd f c) = cl_connState c" "cl_trace (upd f c) = cl_trace c"
  "cl_connect_info (upd f c) = cl_connect_info c" "cl_host (upd f c) = cl_host c"
  "cl_security (upd f c) = cl_security c" "cl_dataCb (upd f c) = cl_dataCb c"
  "cl_sendTimeout (upd f c) = cl_sendTimeout c" "cl_pCon (upd f c) = cl_pCon c"
  "cl_keepAliveTick (upd f c) = cl_keepAliveTick c"
  "cl_reconnectTick (upd f c) = cl_reconnectTick c"
  by (simp_all add: upd_def)

lemma ready_conn: "client_ready c \<Longrightarrow> conn_ok (ms_connection (cl_state c))"
  by (simp add: client_ready_def conn_ok_def MQTT_BUF_SIZE_def)

text \<open>
  What a response changes: the connection and its message, and the queue.
\<close>

definition quiet :: "mqtt_client \<Rightarrow> mqtt_client \<Rightarrow> bool" where
  "quiet c c' \<longleftrightarrow>
     (\<exists>mc q. c' = c\<lparr>cl_state := (cl_state c)\<lparr>ms_connection := mc, ms_outbound := True\<rparr>,
                     cl_msgQueue := q\<rparr>)"

lemma built_message:
  assumes "built mc0 mc"
  obtains off where "mc_data mc = Some off" "off \<le> 1" "mc_length mc \<le> length (drop off (mc_buffer mc))"
    "take (mc_length mc) (drop off (mc_buffer mc)) = message mc" "length (mc_buffer mc) = length (mc_buffer mc0)"
    "mc_buffer_length mc = mc_buffer_length mc0" "length (message mc) = mc_length mc"
proof -
  from assms obtain off where off: "mc_data mc = Some off" "off \<le> 1" by (auto simp: built_def)
  with assms have "min (length (drop off (mc_buffer mc))) (mc_length mc) = mc_length mc"
    by (simp add: built_def message_def min.commute)
  then have "mc_length mc \<le> length (drop off (mc_buffer mc))" by linarith
  with off assms show ?thesis by (intro that [of off]) (auto simp: built_def same_buffer_def message_def)
qed

lemma ready_set_outbound:
  "client_ready c \<Longrightarrow> built (ms_connection (cl_state c)) mc \<Longrightarrow> client_ready (set_outbound mc c)"
  by (erule built_message) (simp add: client_ready_def set_outbound_def client_simps)

lemma outbound_built:
  assumes "built mc0 mc"
  obtains d where "outbound (set_outbound mc c) = Some (d, mc_length mc)" "mc_length mc \<le> length d"
    "take (mc_length mc) d = message mc" "length (mc_buffer mc0) \<le> length d + 1"
  using assms by (elim built_message) (auto simp: outbound_def set_outbound_def client_simps)

lemma respond_result:
  assumes r: "client_ready c" and b: "build (ms_connection (cl_state c)) = Some mc"
    and ok: "built (ms_connection (cl_state c)) mc"
  shows "\<exists>c'. respond build c = Some c' \<and> client_ready c' \<and> quiet c c' \<and>
     (length (frame (message mc)) \<le> queue_room (cl_msgQueue c) \<longrightarrow>
        queue_pkts (cl_msgQueue c') = queue_pkts (cl_msgQueue c) @ [message mc] \<and>
        queue_room (cl_msgQueue c') = queue_room (cl_msgQueue c) - length (frame (message mc)))"
proof -
  let ?c = "set_outbound mc c"
  have q: "queue_inv (cl_msgQueue c)" using r by (simp add: client_ready_def)
  from outbound_built [OF ok, of c] obtain d where
    d: "outbound ?c = Some (d, mc_length mc)" "mc_length mc \<le> length d"
       "take (mc_length mc) d = message mc" by blast
  from QUEUE_Puts_result [OF q d(2)] obtain e q' where
    put: "QUEUE_Puts (cl_msgQueue c) d (mc_length mc) = Some (e, q')" "queue_inv q'" by blast
  have "respond build c = Some (?c\<lparr>cl_msgQueue := q'\<rparr>)"
    using b d(1) put(1) by (simp add: respond_def queue_outbound_def set_outbound_def client_simps)
  moreover have "client_ready (?c\<lparr>cl_msgQueue := q'\<rparr>)"
    using ready_set_outbound [OF r ok] put(2) by (simp add: client_ready_def)
  moreover have "quiet c (?c\<lparr>cl_msgQueue := q'\<rparr>)"
    by (auto simp: quiet_def set_outbound_def upd_def)
  ultimately show ?thesis using QUEUE_Puts_fits [OF q d(2)] put(1) d(3) by auto
qed

section \<open>Segments of PUBLISH packets\<close>

text \<open>The packet that acknowledges an id.\<close>

definition ack_packet :: "int \<Rightarrow> int \<Rightarrow> u16 \<Rightarrow> u8 list" where
  "ack_packet type q mid = packet type 0 q 0 (be16 (unat mid))"

lemma respond_ack:
  assumes r: "client_ready c"
  shows "\<exists>c'. respond (\<lambda>m. ack_message m mid type q) c = Some c' \<and> client_ready c' \<and> quiet c c' \<and>
     (mid \<noteq> 0 \<and> length (frame (ack_packet type q mid)) \<le> queue_room (cl_msgQueue c) \<longrightarrow>
        queue_pkts (cl_msgQueue c') = queue_pkts (cl_msgQueue c) @ [ack_packet type q mid] \<and>
        queue_room (cl_msgQueue c') =
          queue_room (cl_msgQueue c) - length (frame (ack_packet type q mid)))"
proof -
  have "5 \<le> mc_buffer_length (ms_connection (cl_state c))"
    using r by (simp add: client_ready_def MQTT_BUF_SIZE_def)
  with ack_message_builds [OF ready_conn [OF r] refl, of mid type q] obtain mc where
    mc: "ack_message (ms_connection (cl_state c)) mid type q = Some mc"
        "built (ms_connection (cl_state c)) mc"
        "message mc = packet type 0 q 0
           (be16 (unat (fst (assign_id mid (mc_message_id (ms_connection (cl_state c)))))))" by auto
  have "mid \<noteq> 0 \<Longrightarrow> message mc = ack_packet type q mid"
    using mc(3) by (simp add: assign_id_result ack_packet_def)
  with respond_result [where build = "\<lambda>m. ack_message m mid type q", OF r mc(1,2)]
  show ?thesis by auto
qed

lemma respond_ping:
  assumes r: "client_ready c"
  shows "\<exists>c'. respond mqtt_msg_pingresp c = Some c' \<and> client_ready c' \<and> quiet c c' \<and>
     (length (frame (packet 13 0 0 0 [])) \<le> queue_room (cl_msgQueue c) \<longrightarrow>
        queue_pkts (cl_msgQueue c') = queue_pkts (cl_msgQueue c) @ [packet 13 0 0 0 []] \<and>
        queue_room (cl_msgQueue c') = queue_room (cl_msgQueue c) - length (frame (packet 13 0 0 0 [])))"
proof -
  from ping_builds [OF ready_conn [OF r], of 13] obtain mc where
    mc: "mqtt_msg_pingresp (ms_connection (cl_state c)) = Some mc"
        "built (ms_connection (cl_state c)) mc" "message mc = packet 13 0 0 0 []"
    by (auto simp: mqtt_msg_pingresp_def MQTT_MSG_TYPE_PINGRESP_def)
  from respond_result [where build = mqtt_msg_pingresp, OF r mc(1,2)] mc(3) show ?thesis by simp
qed

lemma quiet_fields:
  assumes "quiet c c'"
  shows "cl_connState c' = cl_connState c" "cl_trace c' = cl_trace c" "cl_dataCb c' = cl_dataCb c"
    "ms_message_length (cl_state c') = ms_message_length (cl_state c)"
    "ms_message_length_read (cl_state c') = ms_message_length_read (cl_state c)"
    "ms_in_buffer (cl_state c') = ms_in_buffer (cl_state c)"
    "ms_pending_msg_type (cl_state c') = ms_pending_msg_type (cl_state c)"
    "ms_pending_msg_id (cl_state c') = ms_pending_msg_id (cl_state c)"
    "cl_sendTimeout c' = cl_sendTimeout c"
    "cl_connect_info c' = cl_connect_info c" "cl_host c' = cl_host c"
  using assms by (auto simp: quiet_def)

text \<open>The messages a broker publishes: topic, data, QoS, id, retain flag.\<close>

type_synonym pub = "cstring \<times> u8 list \<times> int \<times> u16 \<times> int"

fun pub_packet :: "pub \<Rightarrow> u8 list" where
  "pub_packet (topic, data, qos, mid, retain) = packet 3 0 qos retain (publish_payload topic qos mid data)"

fun pub_ok :: "pub \<Rightarrow> bool" where
  "pub_ok (topic, data, qos, mid, retain) \<longleftrightarrow>
     topic \<noteq> [] \<and> data \<noteq> [] \<and> 0 \<le> qos \<and> qos \<le> 2 \<and> (qos > 0 \<longrightarrow> mid \<noteq> 0) \<and> 0 \<le> retain \<and> retain \<le> 1"

fun pub_acks :: "pub \<Rightarrow> u8 list list" where
  "pub_acks (topic, data, qos, mid, retain) =
     (if qos = 1 then [ack_packet MQTT_MSG_TYPE_PUBACK 0 mid]
      else if qos = 2 then [ack_packet MQTT_MSG_TYPE_PUBREC 0 mid] else [])"

fun pub_event :: "pub \<Rightarrow> event" where
  "pub_event (topic, data, qos, mid, retain) = Ev_data (Some topic) (length topic) (Some data) (length data)"

lemma wr_seg_front: "length bytes \<le> length old \<Longrightarrow> wr_seg old 0 bytes = Some (bytes @ drop (length bytes) old)"
  by (simp add: wr_seg_def)

text \<open>One round over a PUBLISH packet with \<open>rest\<close> behind it in the segment.\<close>

lemma read_packet_publish:
  assumes r: "client_ready c" and st: "cl_connState c = MQTT_DATA" and ok: "pub_ok m"
    and len: "length (pub_packet m @ rest) < MQTT_BUF_SIZE"
    and room: "frames_size (pub_acks m) \<le> queue_room (cl_msgQueue c)"
  shows "\<exists>c'. read_packet ssl (of_nat (length (pub_packet m @ rest))) (pub_packet m @ rest) c =
       Some (c', if rest = [] then None else Some (of_nat (length rest), rest)) \<and>
     client_ready c' \<and> cl_connState c' = MQTT_DATA \<and> cl_dataCb c' = cl_dataCb c \<and>
     cl_trace c' = cl_trace c @ (if cl_dataCb c then [pub_event m] else []) \<and>
     queue_pkts (cl_msgQueue c') = queue_pkts (cl_msgQueue c) @ pub_acks m \<and>
     queue_room (cl_msgQueue c') = queue_room (cl_msgQueue c) - frames_size (pub_acks m)"
proof -
  obtain topic data qos mid retain where m: "m = (topic, data, qos, mid, retain)" by (cases m)
  let ?p = "pub_packet m" let ?seg = "?p @ rest" let ?n = "length ?seg"
  from r obtain old where old: "ms_in_buffer (cl_state c) = Some old" "length old = MQTT_BUF_SIZE"
    by (auto simp: client_ready_def)
  define n where "n = ?n"
  define ib where "ib = ?p @ (rest @ drop n old)"
  have n3: "n < 1024" "n = length ?p + length rest" using len by (simp_all add: n_def MQTT_BUF_SIZE_def)
  have un: "unat (of_nat n :: u16) = n" using n3(1) by (simp add: unat_of_nat)
  note n = un less_trans [OF n3(1), of 65536, simplified] n3
  have plen: "length ?p = 1 + length (rem_len (length (publish_payload topic qos mid data)))
      + length (publish_payload topic qos mid data)"
    by (simp add: m packet_def)
  then have pl: "length (publish_payload topic qos mid data) \<le> 16383" and pos: "0 < n"
    using n by simp_all
  have rd0: "mqtt_get_type ib = Some 3" "mqtt_get_qos ib = Some qos"
      "mqtt_get_total_length ib k = Some (int (length ?p))"
      "\<exists>i. mqtt_get_publish_topic ib k = Some (i, length topic) \<and> view ib (i, length topic) = Some topic"
      "\<exists>i. mqtt_get_publish_data ib k = Some (i, length data) \<and> view ib (i, length data) = Some data"
      "mqtt_get_id ib k = Some (if qos > 0 then mid else 0)" if "length ?p \<le> k" for k
    using publish_read [of topic data qos retain _ mid ?p k "rest @ drop n old"] ok pl that
    unfolding ib_def by (auto simp: m)
  have seg: "rd_seg ?seg 0 (unat (of_nat n :: u16)) = Some ?seg"
    unfolding n(1) by (simp add: rd_seg_def n(4))
  have ib: "wr_seg old 0 ?seg = Some ib"
    using old(2) n by (simp add: wr_seg_def ib_def MQTT_BUF_SIZE_def)
  let ?c1 = "upd (\<lambda>s. s\<lparr>ms_message_length := of_nat (length ?p)\<rparr>)
     (upd (\<lambda>s. s\<lparr>ms_message_length_read := of_nat n\<rparr>) (upd (\<lambda>s. s\<lparr>ms_in_buffer := Some ib\<rparr>) c))"
  have r1: "client_ready ?c1"
    using r old n by (auto simp: client_ready_def client_simps ib_def MQTT_BUF_SIZE_def)
  have "\<exists>c2. (if qos = 1 then respond (\<lambda>m. mqtt_msg_puback m mid) ?c1
               else if qos = 2 then respond (\<lambda>m. mqtt_msg_pubrec m mid) ?c1 else Some ?c1) = Some c2 \<and>
      client_ready c2 \<and> (quiet ?c1 c2 \<or> c2 = ?c1) \<and>
      queue_pkts (cl_msgQueue c2) = queue_pkts (cl_msgQueue c) @ pub_acks m \<and>
      queue_room (cl_msgQueue c2) = queue_room (cl_msgQueue c) - frames_size (pub_acks m)"
    using respond_ack [OF r1, of mid 4 0] respond_ack [OF r1, of mid 5 0] r1 room ok
    by (auto simp: m mqtt_msg_puback_def mqtt_msg_pubrec_def msg_type_defs frames_size_def client_simps)
  then obtain c2 where
    c2: "(if qos = 1 then respond (\<lambda>m. mqtt_msg_puback m mid) ?c1
          else if qos = 2 then respond (\<lambda>m. mqtt_msg_pubrec m mid) ?c1 else Some ?c1) = Some c2"
       "client_ready c2" "quiet ?c1 c2 \<or> c2 = ?c1"
      "queue_pkts (cl_msgQueue c2) = queue_pkts (cl_msgQueue c) @ pub_acks m"
      "queue_room (cl_msgQueue c2) = queue_room (cl_msgQueue c) - frames_size (pub_acks m)" by blast
  have f2: "cl_connState c2 = MQTT_DATA" "cl_trace c2 = cl_trace c" "cl_dataCb c2 = cl_dataCb c"
    "ms_message_length (cl_state c2) = of_nat (length ?p)"
    "ms_message_length_read (cl_state c2) = of_nat n"
    using c2(3) quiet_fields st by (auto simp: client_simps)
  obtain t d where td: "mqtt_get_publish_topic ib n = Some (t, length topic)"
    "view ib (t, length topic) = Some topic" "mqtt_get_publish_data ib n = Some (d, length data)"
    "view ib (d, length data) = Some data" using rd0(4,5) [of n] n(4) by auto
  let ?c3 = "emit_if (cl_dataCb c) (pub_event m) c2"
  have deliver: "deliver_publish ib n c2 = Some ?c3"
    using td f2(3) by (simp add: deliver_publish_def m)
  have mid: "qos \<noteq> 1 \<longrightarrow> qos \<noteq> 2 \<longrightarrow> \<not> qos > 0" using ok by (simp add: m)
  have up: "unat (of_nat (length ?p) :: u16) = length ?p" using n by (simp add: unat_of_nat)
  have "of_nat n = (of_nat (length ?p) + of_nat (length rest) :: u16)" by (simp add: n(4))
  then have diff: "of_nat n - of_nat (length ?p) = (of_nat (length rest) :: u16)" by simp
  have less: "(of_nat (length ?p) < (of_nat n :: u16)) = (rest \<noteq> [])" "(0 :: u16) < of_nat n"
    using up n pos by (simp_all add: word_less_nat_alt)
  have le: "length ?p \<le> n" using n by simp
  have bs: "nat (ms_in_buffer_length (cl_state c) mod 65536) = 1024"
    using r by (simp add: client_ready_def MQTT_BUF_SIZE_def)
  have id: "mqtt_get_id ib 1024 = Some (if qos > 0 then mid else 0)" using rd0(6) [of 1024] n by simp
  have data: "data_packet ib 3 qos (if qos > 0 then mid else 0) ?c1 = Some ?c3"
  proof -
    have "(if qos = 1 then respond (\<lambda>m. mqtt_msg_puback m (if qos > 0 then mid else 0)) ?c1
          else if qos = 2 then respond (\<lambda>m. mqtt_msg_pubrec m (if qos > 0 then mid else 0)) ?c1
          else Some ?c1) = Some c2"
      using c2(1) by (auto split: if_splits)
    then show ?thesis
      unfolding data_packet_def MQTT_MSG_TYPE_PUBLISH_def using deliver f2(5) n(1) by simp
  qed
  have "read_packet ssl (of_nat n) ?seg c =
      Some (?c3, if rest = [] then None else Some (of_nat (length rest), rest))"
    using rd0(1) [OF le] rd0(2) [OF le] rd0(3) [OF le] st old(1) seg ib n(1-3) less bs data id
    by (simp add: read_packet_def client_simps Let_def f2 up diff MQTT_MSG_TYPE_PUBLISH_def MQTT_BUF_SIZE_def del: of_nat_add)
  moreover have "client_ready ?c3" using c2(2) by (simp add: client_ready_def client_simps)
  ultimately show ?thesis
    using f2 c2(4,5) unfolding n_def [symmetric] by (auto simp: client_simps)
qed

text \<open>The whole segment.\<close>

lemma recv_publishes:
  assumes "client_ready c" and "cl_connState c = MQTT_DATA" and "ms \<noteq> []" and "\<forall>m \<in> set ms. pub_ok m"
    and "length (concat (map pub_packet ms)) < MQTT_BUF_SIZE"
    and "frames_size (concat (map pub_acks ms)) \<le> queue_room (cl_msgQueue c)"
    and "length ms \<le> fuel"
  shows "\<exists>c'. mqtt_tcpclient_recv fuel ssl (of_nat (length (concat (map pub_packet ms))))
       (concat (map pub_packet ms)) c = Returns c' \<and> client_ready c' \<and> cl_connState c' = MQTT_DATA \<and>
     cl_trace c' = cl_trace c @ (if cl_dataCb c then map pub_event ms else []) @ [Ev_post] \<and>
     queue_pkts (cl_msgQueue c') = queue_pkts (cl_msgQueue c) @ concat (map pub_acks ms)"
  using assms
proof (induction ms arbitrary: c fuel)
  case Nil
  then show ?case by simp
next
  case (Cons m ms)
  let ?rest = "concat (map pub_packet ms)"
  obtain f where f: "fuel = Suc f" using Cons.prems(7) by (cases fuel) auto
  have room: "frames_size (pub_acks m) \<le> queue_room (cl_msgQueue c)"
    "frames_size (concat (map pub_acks ms)) \<le>
       queue_room (cl_msgQueue c) - frames_size (pub_acks m)"
    using Cons.prems(6) by (simp_all add: frames_size_def)
  have m: "pub_ok m" "length (pub_packet m @ ?rest) < MQTT_BUF_SIZE" using Cons.prems(4,5) by simp_all
  from read_packet_publish [OF Cons.prems(1,2) m room(1), of ssl] obtain c1 where
    c1: "read_packet ssl (of_nat (length (pub_packet m @ ?rest))) (pub_packet m @ ?rest) c =
           Some (c1, if ?rest = [] then None else Some (of_nat (length ?rest), ?rest))"
      "client_ready c1" "cl_connState c1 = MQTT_DATA" "cl_dataCb c1 = cl_dataCb c"
      "cl_trace c1 = cl_trace c @ (if cl_dataCb c then [pub_event m] else [])"
      "queue_pkts (cl_msgQueue c1) = queue_pkts (cl_msgQueue c) @ pub_acks m"
      "queue_room (cl_msgQueue c1) = queue_room (cl_msgQueue c) - frames_size (pub_acks m)" by blast
  have ne: "?rest = [] \<longleftrightarrow> ms = []"
    by (cases ms) (auto simp: packet_def elim!: pub_packet.elims)
  show ?case
  proof (cases "ms = []")
    case True
    with c1 f show ?thesis by (simp add: client_simps client_ready_def)
  next
    case False
    with Cons.IH [OF c1(2,3) False, of f] Cons.prems(4,5,7) room(2) c1 f obtain c2 where
      "mqtt_tcpclient_recv f ssl (of_nat (length ?rest)) ?rest c1 = Returns c2" "client_ready c2"
      "cl_connState c2 = MQTT_DATA"
      "cl_trace c2 = cl_trace c1 @ (if cl_dataCb c1 then map pub_event ms else []) @ [Ev_post]"
      "queue_pkts (cl_msgQueue c2) = queue_pkts (cl_msgQueue c1) @ concat (map pub_acks ms)" by auto
    moreover from ne False have nr: "?rest \<noteq> []" by blast
    then have "mqtt_tcpclient_recv fuel ssl (of_nat (length (pub_packet m @ ?rest))) (pub_packet m @ ?rest) c
        = mqtt_tcpclient_recv f ssl (of_nat (length ?rest)) ?rest c1"
      unfolding f mqtt_tcpclient_recv.simps c1(1) using nr by (simp del: concat_eq_Nil_conv)
    ultimately show ?thesis using c1 by simp
  qed
qed

section \<open>Any bytes a broker sends\<close>

lemma rd_be16_ok: "i + 1 < length b \<Longrightarrow> defined (rd_be16 b i)"
  by (auto simp: rd_be16_def intro!: defined_intros)

lemma get_fields_ok: "0 < length b \<Longrightarrow> defined (mqtt_get_type b)" "0 < length b \<Longrightarrow> defined (mqtt_get_qos b)"
  by (auto simp: mqtt_get_type_def mqtt_get_qos_def intro!: defined_intros)

lemma skip_length_ok: "n \<le> length b \<Longrightarrow> defined (skip_length b n i)"
proof (induction b n i rule: skip_length.induct)
  case (1 b n i)
  then show ?case
    by (subst skip_length.simps) (auto simp: rd_def)
qed

lemma mqtt_get_id_ok: "n \<le> length b \<Longrightarrow> defined (mqtt_get_id b n)"
  unfolding mqtt_get_id_def Let_def
  by (intro defined_intros skip_length_ok get_fields_ok rd_be16_ok; auto)

text \<open>A length prefix whose value and position the readers can add up.\<close>

definition prefix_ok :: "u8 list \<Rightarrow> nat \<Rightarrow> bool" where
  "prefix_ok b n \<longleftrightarrow> (\<exists>i t. length_loop b n 1 0 = Some (i, t) \<and> t + int i \<le> 2147483647)"

lemma publish_readers_ok:
  assumes n: "n \<le> length b" and p: "prefix_ok b n"
  shows "defined (mqtt_get_total_length b n)" "defined (mqtt_get_publish_topic b n)"
    "defined (mqtt_get_publish_data b n)"
proof -
  from p obtain i t where l: "length_loop b n 1 0 = Some (i, t)" "t + int i \<le> 2147483647"
    by (auto simp: prefix_ok_def)
  have q: "n \<le> i \<Longrightarrow> \<not> n \<le> i \<Longrightarrow> False" for i by simp
  show "defined (mqtt_get_total_length b n)"
    unfolding mqtt_get_total_length_def l using l(2) by simp
  show "defined (mqtt_get_publish_topic b n)"
    unfolding mqtt_get_publish_topic_def l Let_def using l(2) n
    by (auto intro!: defined_intros rd_be16_ok)
  show "defined (mqtt_get_publish_data b n)"
    unfolding mqtt_get_publish_data_def l Let_def using l(2) n
    by (auto intro!: defined_intros rd_be16_ok get_fields_ok)
qed

text \<open>Within four bytes the prefix ends, as the protocol demands, or the received bytes do.\<close>

lemma length_loop_short:
  assumes "n \<le> length b" and "n \<le> 5 \<or> (\<exists>k\<in>{i..4}. b ! k AND 0x80 = 0)"
    and "1 \<le> i" "i \<le> 5" and "0 \<le> t" "t < 128 ^ (i - 1)"
  shows "\<exists>j t'. length_loop b n i t = Some (j, t') \<and> j \<le> 5 \<and> t' < 128 ^ 4"
  using assms(2-)
proof (induction "5 - i" arbitrary: i t)
  case 0
  then have "i = 5" by simp
  with 0 show ?case by (auto simp: length_loop.simps [of _ _ 5])
next
  case (Suc d)
  then have i: "1 \<le> i" "i \<le> 4" by simp_all
  show ?case
  proof (cases "i < n")
    case False
    have "(128 :: int) ^ (i - 1) \<le> 128 ^ 4" using i by (intro power_increasing) auto
    with False Suc.prems i show ?thesis by (auto simp: length_loop.simps [of _ _ i])
  next
    case True
    let ?u = "uint (b ! i AND 0x7f)"
    have u: "0 \<le> ?u" "?u \<le> 127" by (simp_all add: uint_mask_7f)
    have pw: "(2 :: int) ^ (7 * (i - Suc 0)) = 128 ^ (i - Suc 0)" by (simp add: power_mult)
    have up: "128 ^ i = (128 :: int) * 128 ^ (i - 1)" using i by (cases i) auto
    have "?u * 128 ^ (i - 1) \<le> 127 * 128 ^ (i - 1)" using u by (intro mult_right_mono) auto
    then have t1: "t + ?u * 128 ^ (i - 1) < 128 ^ i"
      using Suc.prems(5) unfolding up by linarith
    have t0: "0 \<le> t + ?u * 128 ^ (i - 1)"
      using Suc.prems(4) u(1) by (intro add_nonneg_nonneg mult_nonneg_nonneg) auto
    have "(128 :: int) ^ i \<le> 128 ^ 4" using i by (intro power_increasing) auto
    then have t2: "t + ?u * 128 ^ (i - 1) < 128 ^ 4" using t1 by linarith
    have step: "length_loop b n i t =
        (if b ! i AND 0x80 = 0 then Some (i + 1, t + ?u * 128 ^ (i - 1))
         else length_loop b n (i + 1) (t + ?u * 128 ^ (i - 1)))"
    proof -
      have "\<not> 32 \<le> 7 * (i - Suc 0)" using i by simp
      with True assms(1) i t2 show ?thesis
        by (subst length_loop.simps) (simp add: rd_def Let_def pw)
    qed
    show ?thesis
    proof (cases "b ! i AND 0x80 = 0")
      case True
      with step t2 i show ?thesis by simp
    next
      case False
      have "n \<le> 5 \<or> (\<exists>k\<in>{i + 1..4}. b ! k AND 0x80 = 0)"
        using Suc.prems(1) False by (metis Suc_eq_plus1 Suc_leI atLeastAtMost_iff le_neq_implies_less)
      with Suc.hyps(1) [of "i + 1" "t + ?u * 128 ^ (i - 1)"] Suc.hyps(2) t0 t1 i False show ?thesis
        unfolding step by simp
    qed
  qed
qed

lemma prefix_ok_short:
  assumes "n \<le> length b" and "n \<le> 5 \<or> (\<exists>k\<in>{1..4}. b ! k AND 0x80 = 0)"
  shows "prefix_ok b n"
  using length_loop_short [OF assms(1), of 1 0] assms(2) unfolding prefix_ok_def by force

text \<open>What no packet changes: the packet that is pending, and the configuration.\<close>

definition keeps :: "mqtt_client \<Rightarrow> mqtt_client \<Rightarrow> bool" where
  [simp]: "keeps c c' \<longleftrightarrow> ms_pending_msg_type (cl_state c') = ms_pending_msg_type (cl_state c) \<and>
     cl_connect_info c' = cl_connect_info c \<and> cl_host c' = cl_host c"

lemma data_packet_ready:
  assumes r: "client_ready c" and ib: "unat (ms_message_length_read (cl_state c)) \<le> length ib"
    and p: "prefix_ok ib (unat (ms_message_length_read (cl_state c)))"
  shows "\<exists>c'. data_packet ib t q mid c = Some c' \<and> client_ready c' \<and>
     cl_connState c' = cl_connState c \<and>
     keeps c c' \<and>
     ms_message_length_read (cl_state c') = ms_message_length_read (cl_state c)"
proof -
  let ?n = "unat (ms_message_length_read (cl_state c))"
  have resp: "\<exists>c'. respond (\<lambda>m. ack_message m mid k j) c = Some c' \<and> client_ready c' \<and> quiet c c'" for k j
    using respond_ack [OF r, of mid k j] by blast
  have deliver: "\<exists>c''. deliver_publish ib ?n c' = Some c'' \<and> client_ready c'' \<and>
      cl_connState c'' = cl_connState c' \<and> cl_state c'' = cl_state c' \<and>
      cl_connect_info c'' = cl_connect_info c' \<and> cl_host c'' = cl_host c'" if "client_ready c'" for c'
    using publish_readers_ok [OF ib p] that
    by (auto simp: deliver_publish_def client_simps client_ready_def defined_def)
  show ?thesis
  proof (cases "t = MQTT_MSG_TYPE_PUBLISH")
    case True
    have "\<exists>c'. (if q = 1 then respond (\<lambda>m. mqtt_msg_puback m mid) c
           else if q = 2 then respond (\<lambda>m. mqtt_msg_pubrec m mid) c else Some c) = Some c' \<and>
        client_ready c' \<and> (quiet c c' \<or> c' = c)"
      using resp r by (auto simp: mqtt_msg_puback_def mqtt_msg_pubrec_def)
    then obtain c' where c': "(if q = 1 then respond (\<lambda>m. mqtt_msg_puback m mid) c
           else if q = 2 then respond (\<lambda>m. mqtt_msg_pubrec m mid) c else Some c) = Some c'"
       "client_ready c'" "quiet c c' \<or> c' = c" by blast
    from deliver [OF c'(2)] c'(3) quiet_fields show ?thesis
      unfolding data_packet_def c'(1) using True by auto
  next
    case False
    have fin: "\<exists>c'. x = Some c' \<and> client_ready c' \<and> cl_connState c' = cl_connState c \<and>
        keeps c c' \<and>
        ms_message_length_read (cl_state c') = ms_message_length_read (cl_state c)"
      if "\<exists>c'. x = Some c' \<and> client_ready c' \<and> quiet c c'" for x
      using that by (auto simp: quiet_fields)
    have "\<exists>c'. respond mqtt_msg_pingresp c = Some c' \<and> client_ready c' \<and> quiet c c'"
      using respond_ping [OF r] by blast
    with fin [OF resp [of MQTT_MSG_TYPE_PUBREL 1]] fin [OF resp [of MQTT_MSG_TYPE_PUBCOMP 0]] fin r False
    show ?thesis by (simp add: data_packet_def mqtt_msg_pubrel_def mqtt_msg_pubcomp_def)
  qed
qed

lemma length_loop_append: "length_loop (xs @ ys) (length xs) i t = length_loop xs (length xs) i t"
proof (induction xs "length xs" i t rule: length_loop.induct)
  case (1 xs i t)
  then show ?case
    by (subst (1 2) length_loop.simps) (auto simp: rd_def nth_append Let_def)
qed

lemma read_packet_ready:
  assumes r: "client_ready c" and len: "unat len \<le> length pdata"
    and p: "prefix_ok (take (unat len) pdata) (unat len)"
  shows "\<exists>c' nxt. read_packet ssl len pdata c = Some (c', nxt) \<and> client_ready c' \<and>
     keeps c c' \<and>
     (cl_connState c' = cl_connState c \<or>
      cl_connState c = MQTT_CONNECT_SENDING \<and> cl_connState c' = MQTT_DATA) \<and>
     (case nxt of None \<Rightarrow> True
      | Some (l, d) \<Rightarrow> \<exists>k \<le> unat len. unat l = unat len - k \<and> d = drop k pdata)"
proof (cases "unat len < MQTT_BUF_SIZE \<and> len > 0")
  case False
  have "read_packet ssl len pdata c = Some (c, None)"
    unfolding read_packet_def by (rule if_not_P [OF False])
  with r show ?thesis by simp
next
  case True
  let ?n = "unat len"
  from r obtain old where old: "ms_in_buffer (cl_state c) = Some old" "length old = MQTT_BUF_SIZE"
    by (auto simp: client_ready_def)
  define ib where "ib = take ?n pdata @ drop ?n old"
  have lib: "length ib = MQTT_BUF_SIZE" using len True old by (simp add: ib_def)
  have seg: "rd_seg pdata 0 ?n = Some (take ?n pdata)" using len by (simp add: rd_seg_def)
  have wr: "wr_seg old 0 (take ?n pdata) = Some ib" using len True old by (simp add: wr_seg_def ib_def)
  have pib: "prefix_ok ib ?n"
    using p length_loop_append [of "take ?n pdata" "drop ?n old"] len
    by (simp add: prefix_ok_def ib_def)
  have bs: "nat (ms_in_buffer_length (cl_state c) mod 65536) = MQTT_BUF_SIZE"
    using r by (simp add: client_ready_def MQTT_BUF_SIZE_def)
  have pos: "0 < length ib" using lib by (simp add: MQTT_BUF_SIZE_def)
  obtain ty q mid where f: "mqtt_get_type ib = Some ty" "mqtt_get_qos ib = Some q"
    "mqtt_get_id ib MQTT_BUF_SIZE = Some mid"
    using get_fields_ok [OF pos] mqtt_get_id_ok [of MQTT_BUF_SIZE ib] lib by (auto simp: defined_def)
  let ?c1 = "upd (\<lambda>s. s\<lparr>ms_in_buffer := Some ib\<rparr>) c"
  have r1: "client_ready ?c1" using r lib by (simp add: client_ready_def client_simps)
  show ?thesis
  proof (cases "cl_connState c = MQTT_DATA")
    case data: True
    have le: "?n \<le> length ib" using True lib by simp
    from publish_readers_ok(1) [OF le pib] obtain total where
      total: "mqtt_get_total_length ib ?n = Some total" by (auto simp: defined_def)
    let ?c2 = "upd (\<lambda>s. s\<lparr>ms_message_length := word_of_int total\<rparr>)
                 (upd (\<lambda>s. s\<lparr>ms_message_length_read := len\<rparr>) ?c1)"
    have r2: "client_ready ?c2" using r1 by (simp add: client_ready_def client_simps)
    from data_packet_ready [OF r2, of ib ty q mid] le pib obtain c3 where
      c3: "data_packet ib ty q mid ?c2 = Some c3" "client_ready c3" "cl_connState c3 = MQTT_DATA"
         "keeps c c3"
         "ms_message_length_read (cl_state c3) = len"
      using data by (auto simp: client_simps)
    let ?ml = "ms_message_length (cl_state c3)"
    let ?nxt = "if ty = MQTT_MSG_TYPE_PUBLISH \<and> ?ml < len then Some (len - ?ml, drop (unat ?ml) pdata) else None"
    have "read_packet ssl len pdata c = Some (c3, ?nxt)"
      using True data old seg wr bs f total c3(1,5)
      by (simp add: read_packet_def client_simps Let_def)
    moreover have "unat (len - ?ml) = unat len - unat ?ml" if "?ml < len"
      using that by (simp add: unat_sub word_less_nat_alt word_le_nat_alt)
    ultimately show ?thesis using c3(2-4) data
      by (auto simp: word_less_nat_alt intro!: exI [of _ "unat ?ml"])
  next
    case False
    with True old seg wr bs f r1 show ?thesis
      by (cases "cl_connState c")
        (auto simp: read_packet_def client_simps Let_def client_ready_def)
  qed
qed


lemma recv_ready:
  assumes "client_ready c" and "unat len \<le> length pdata"
    and "\<forall>k \<le> unat len. prefix_ok (take (unat len - k) (drop k pdata)) (unat len - k)"
  shows "mqtt_tcpclient_recv fuel ssl len pdata c \<noteq> Undefined \<and>
    (\<forall>c'. mqtt_tcpclient_recv fuel ssl len pdata c = Returns c' \<longrightarrow> client_ready c' \<and>
       keeps c c' \<and>
       (cl_connState c' = cl_connState c \<or>
        cl_connState c = MQTT_CONNECT_SENDING \<and> cl_connState c' = MQTT_DATA))"
  using assms
proof (induction fuel arbitrary: c len pdata)
  case 0
  then show ?case by simp
next
  case (Suc fuel)
  have "prefix_ok (take (unat len) pdata) (unat len)" using Suc.prems(3) by force
  from read_packet_ready [OF Suc.prems(1,2) this, of ssl] obtain c1 nxt where
    c1: "read_packet ssl len pdata c = Some (c1, nxt)" "client_ready c1"
      "keeps c c1"
      "cl_connState c1 = cl_connState c \<or>
       cl_connState c = MQTT_CONNECT_SENDING \<and> cl_connState c1 = MQTT_DATA"
      "case nxt of None \<Rightarrow> True
       | Some (l, d) \<Rightarrow> \<exists>k \<le> unat len. unat l = unat len - k \<and> d = drop k pdata" by blast
  show ?case
  proof (cases nxt)
    case None
    with c1 show ?thesis by (auto simp: client_simps client_ready_def)
  next
    case (Some ld)
    with c1(5) obtain l d k where ld: "ld = (l, d)" "k \<le> unat len" "unat l = unat len - k" "d = drop k pdata"
      by (cases ld) auto
    have "unat l \<le> length d" using ld Suc.prems(2) by simp
    moreover have "\<forall>j \<le> unat l. prefix_ok (take (unat l - j) (drop j d)) (unat l - j)"
      using Suc.prems(3) ld by (auto simp: add.commute)
    ultimately show ?thesis
      using Suc.IH [OF c1(2), of l d] c1(1,3,4) Some ld(1) by auto
  qed
qed

section \<open>The whole client as a state machine\<close>

text \<open>What the build and the SDK fix.\<close>

record client_env =
  env_ssl :: bool
  env_v31 :: bool
  env_zalloc :: "nat \<Rightarrow> u8 list option"
  env_port :: u32

text \<open>
  The entry points: the callbacks of the network stack and of the timer, the task, and the
  functions the application calls (the byte and the block are what the stack holds). The callbacks
  of the network stack are those for the client's current connection.
\<close>

datatype input =
  In_dns "u32 option" | In_received "u8 list" | In_sent | In_tick bool | In_disconnected
| In_connected | In_reconnect | In_task u8 "u8 list"
| Do_publish u8 "u8 list" "cstring option" "u8 list" int int
| Do_subscribe u8 "u8 list" "cstring option" u8 | Do_ping u8 "u8 list"
| Do_connect | Do_disconnect | Do_delete | Do_lwt cstring cstring u8 u8
| Do_on_connected bool | Do_on_disconnected bool | Do_on_data bool | Do_on_published bool
| Do_on_timeout bool

text \<open>
  The callbacks of the network stack find the client through their argument (\<open>pConn->reverse\<close>), the
  connection that was registered. \<open>mqtt_tcpclient_delete\<close> frees it and sets \<open>pCon\<close> to null: a
  callback for it would read freed memory.
\<close>

fun from_network :: "input \<Rightarrow> bool" where
  "from_network (In_dns a) = True"
| "from_network (In_received bytes) = True"
| "from_network In_sent = True"
| "from_network In_disconnected = True"
| "from_network In_connected = True"
| "from_network In_reconnect = True"
| "from_network i = False"

definition run :: "'a option \<Rightarrow> 'a outcome" where
  "run m = (case m of None \<Rightarrow> Undefined | Some x \<Rightarrow> Returns x)"

definition client_handle :: "client_env \<Rightarrow> nat \<Rightarrow> input \<Rightarrow> mqtt_client \<Rightarrow> mqtt_client outcome" where
  "client_handle env fuel i c =
     (if from_network i \<and> cl_pCon c = None then Undefined else
      case i of
        In_dns a \<Rightarrow> run (mqtt_dns_found (env_ssl env) a c)
      | In_received bytes \<Rightarrow> mqtt_tcpclient_recv fuel (env_ssl env) (of_nat (length bytes)) bytes c
      | In_sent \<Rightarrow> Returns (mqtt_tcpclient_sent_cb c)
      | In_tick sent \<Rightarrow> run (mqtt_timer (env_ssl env) sent c)
      | In_disconnected \<Rightarrow> Returns (mqtt_tcpclient_discon_cb c)
      | In_connected \<Rightarrow> run (mqtt_tcpclient_connect_cb (env_ssl env) (env_v31 env) c)
      | In_reconnect \<Rightarrow> Returns (mqtt_tcpclient_recon_cb c)
      | In_task g stack \<Rightarrow> run (MQTT_Task (env_ssl env) (env_zalloc env) (env_port env) g stack c)
      | Do_publish g stack topic data qos retain \<Rightarrow>
          run (map_option snd (MQTT_Publish g stack topic data (int (length data)) qos retain c))
      | Do_subscribe g stack topic qos \<Rightarrow> run (map_option snd (MQTT_Subscribe g stack topic qos c))
      | Do_ping g stack \<Rightarrow> run (map_option snd (MQTT_Ping g stack c))
      | Do_connect \<Rightarrow> run (MQTT_Connect (env_ssl env) (env_zalloc env) (env_port env) c)
      | Do_disconnect \<Rightarrow> Returns (MQTT_Disconnect c)
      | Do_delete \<Rightarrow> Returns (MQTT_DeleteClient c)
      | Do_lwt topic msg qos retain \<Rightarrow> run (MQTT_InitLWT (env_zalloc env) topic msg qos retain c)
      | Do_on_connected cb \<Rightarrow> Returns (MQTT_OnConnected cb c)
      | Do_on_disconnected cb \<Rightarrow> Returns (MQTT_OnDisconnected cb c)
      | Do_on_data cb \<Rightarrow> Returns (MQTT_OnData cb c)
      | Do_on_published cb \<Rightarrow> Returns (MQTT_OnPublished cb c)
      | Do_on_timeout cb \<Rightarrow> Returns (MQTT_OnTimeout cb c))"

text \<open>
  What the callers guarantee: the network stack calls back only while the client has a connection; a
  segment is shorter than 64 KiB and its length prefixes are within the bounds of the protocol,
  wherever a packet may start; the stack buffers have their size; the CONNECT packet with a new will
  fits the output buffer (\<open>with_will\<close> is the connect information after \<open>MQTT_InitLWT\<close>).
\<close>

definition with_will :: "cstring \<Rightarrow> cstring \<Rightarrow> u8 \<Rightarrow> u8 \<Rightarrow> mqtt_connect_info \<Rightarrow> mqtt_connect_info" where
  "with_will topic msg qos retain info = info\<lparr>ci_will_topic := Some topic, ci_will_message := Some msg,
     ci_will_qos := uint qos, ci_will_retain := uint retain\<rparr>"

definition segment_ok :: "u8 list \<Rightarrow> bool" where
  "segment_ok bytes \<longleftrightarrow> length bytes < 65536 \<and>
     (\<forall>k \<le> length bytes. prefix_ok (drop k bytes) (length bytes - k))"

definition input_ok :: "mqtt_client \<Rightarrow> input \<Rightarrow> bool" where
  "input_ok c i =
     ((from_network i \<longrightarrow> cl_pCon c \<noteq> None) \<and>
     (case i of
        In_received bytes \<Rightarrow> segment_ok bytes
      | In_task g stack \<Rightarrow> length stack = MQTT_BUF_SIZE
      | Do_publish g stack topic data qos retain \<Rightarrow> length stack = MQTT_BUF_SIZE
      | Do_subscribe g stack topic qos \<Rightarrow> length stack = MQTT_BUF_SIZE
      | Do_ping g stack \<Rightarrow> length stack = MQTT_BUF_SIZE
      | Do_lwt topic msg qos retain \<Rightarrow>
          3 + length (connect_payload True (with_will topic msg qos retain (cl_connect_info c))) \<le> MQTT_BUF_SIZE
      | _ \<Rightarrow> True))"

definition env_ok :: "client_env \<Rightarrow> bool" where
  "env_ok env \<longleftrightarrow> (\<forall>n. env_zalloc env n = Some (replicate n 0))"

text \<open>
  The host is a C string whose numbers, if it starts with some, are in range for an int.
\<close>

definition host_ok :: "mqtt_client \<Rightarrow> bool" where
  "host_ok c \<longleftrightarrow> (\<exists>h. cl_host c = Some h \<and> UTILS_StrToIP h [0, 0, 0, 0] \<noteq> None)"

lemma note_pending_ready:
  assumes "client_ready c" and "n \<le> length data" and "0 < length data"
  shows "\<exists>c' ty mid. note_pending data n c = Some c' \<and> client_ready c' \<and>
     mqtt_get_type data = Some ty \<and> mqtt_get_id data n = Some mid \<and>
     c' = c\<lparr>cl_state := (cl_state c)\<lparr>ms_pending_msg_type := ty, ms_pending_msg_id := mid\<rparr>,
            cl_sendTimeout := MQTT_SEND_TIMOUT\<rparr>"
  using get_fields_ok(1) [OF assms(3)] mqtt_get_id_ok [OF assms(2)] assms(1)
  by (auto simp: note_pending_def defined_def upd_def client_ready_def)

lemma send_bytes_ready:
  assumes "client_ready c" and "n \<le> length data"
  shows "\<exists>c'. send_bytes ssl data n c = Some c' \<and> client_ready c' \<and>
     c' = upd (\<lambda>s. s\<lparr>ms_outbound := False\<rparr>)
            (net_call ssl (Ev_secure_send (take n data)) (Ev_send (take n data)) c)"
  using assms by (auto simp: send_bytes_def rd_seg_def client_ready_def client_simps)

lemma enqueue_ready:
  assumes r: "client_ready c" and b: "built (ms_connection (cl_state c)) mc" and st: "length stack = MQTT_BUF_SIZE"
  shows "\<exists>c' ok k. enqueue_outbound g stack (set_outbound mc c) = Some (ok, c') \<and> client_ready c' \<and>
     cl_connState c' = cl_connState c \<and> ms_pending_msg_type (cl_state c') = ms_pending_msg_type (cl_state c) \<and>
     cl_connect_info c' = cl_connect_info c \<and> cl_host c' = cl_host c \<and>
     queue_pkts (cl_msgQueue c') =
       (if ok then drop k (queue_pkts (cl_msgQueue c)) @ [message mc] else [])"
proof -
  let ?c = "set_outbound mc c"
  have q: "queue_inv (cl_msgQueue c)" using r by (simp add: client_ready_def)
  from outbound_built [OF b, of c] obtain d where
    d: "outbound ?c = Some (d, mc_length mc)" "mc_length mc \<le> length d"
       "take (mc_length mc) d = message mc" by blast
  have qc: "cl_msgQueue ?c = cl_msgQueue c" by (simp add: set_outbound_def client_simps)
  from mq.enqueue_evicting_result [OF q d(2), of MQTT_BUF_SIZE stack g, unfolded d(3)] st obtain ok q' k where
    e: "enqueue_evicting QUEUE_Puts QUEUE_Gets g (cl_msgQueue c) d (mc_length mc) stack MQTT_BUF_SIZE = Some (ok, q')"
       "queue_inv q'" "queue_pkts q' = (if ok then drop k (queue_pkts (cl_msgQueue c)) @ [message mc] else [])"
    by auto
  have "enqueue_outbound g stack ?c = Some (ok, emit_if ok Ev_post (?c\<lparr>cl_msgQueue := q'\<rparr>))"
    using d(1) e(1) by (simp add: enqueue_outbound_def qc)
  moreover have "client_ready (emit_if ok Ev_post (?c\<lparr>cl_msgQueue := q'\<rparr>))"
    using ready_set_outbound [OF r b] e(2) by (simp add: client_ready_def client_simps)
  ultimately show ?thesis
    using e(3) by (auto simp: client_simps set_outbound_def)
qed


lemma ready_fields:
  "client_ready c \<Longrightarrow> client_ready (emit e c)" "client_ready c \<Longrightarrow> client_ready (emit_if b e c)"
  "client_ready c \<Longrightarrow> client_ready (net_call ssl s p c)" "client_ready c \<Longrightarrow> client_ready (set_state st c)"
  "client_ready c \<Longrightarrow> client_ready (c\<lparr>cl_keepAliveTick := n\<rparr>)"
  "client_ready c \<Longrightarrow> client_ready (c\<lparr>cl_reconnectTick := n\<rparr>)"
  "client_ready c \<Longrightarrow> client_ready (c\<lparr>cl_sendTimeout := n\<rparr>)"
  "client_ready c \<Longrightarrow> client_ready (c\<lparr>cl_pCon := pc\<rparr>)"
  "client_ready c \<Longrightarrow> client_ready (upd (\<lambda>s. s\<lparr>ms_pending_msg_id := mid\<rparr>) c)"
  by (simp_all add: client_ready_def client_simps)

lemma set_outbound_fields [client_simps]:
  "cl_msgQueue (set_outbound mc c) = cl_msgQueue c" "cl_connState (set_outbound mc c) = cl_connState c"
  "cl_trace (set_outbound mc c) = cl_trace c" "cl_connect_info (set_outbound mc c) = cl_connect_info c"
  "cl_host (set_outbound mc c) = cl_host c" "cl_security (set_outbound mc c) = cl_security c"
  "ms_connection (cl_state (set_outbound mc c)) = mc"
  "ms_pending_msg_type (cl_state (set_outbound mc c)) = ms_pending_msg_type (cl_state c)"
  by (simp_all add: set_outbound_def client_simps)

lemma upd_pending_outbound:
  "upd (\<lambda>s. s\<lparr>ms_pending_msg_id := mid\<rparr>) (set_outbound mc c) =
   set_outbound mc (upd (\<lambda>s. s\<lparr>ms_pending_msg_id := mid\<rparr>) c)"
  by (simp add: set_outbound_def upd_def)

text \<open>What the publishing functions do to a ready client.\<close>

definition enqueued :: "u8 list \<Rightarrow> mqtt_client \<Rightarrow> bool \<Rightarrow> mqtt_client \<Rightarrow> bool" where
  "enqueued p c ok c' \<longleftrightarrow> client_ready c' \<and> cl_connState c' = cl_connState c \<and>
     ms_pending_msg_type (cl_state c') = ms_pending_msg_type (cl_state c) \<and>
     cl_connect_info c' = cl_connect_info c \<and> cl_host c' = cl_host c \<and>
     (\<exists>k. queue_pkts (cl_msgQueue c') = (if ok then drop k (queue_pkts (cl_msgQueue c)) @ [p] else []))"

lemma MQTT_Publish_result:
  assumes r: "client_ready c" and st: "length stack = MQTT_BUF_SIZE"
  shows "\<exists>ok c'. MQTT_Publish g stack topic data (int (length data)) qos retain c = Some (ok, c') \<and>
     client_ready c' \<and> cl_connState c' = cl_connState c \<and>
     ms_pending_msg_type (cl_state c') = ms_pending_msg_type (cl_state c) \<and>
     cl_connect_info c' = cl_connect_info c \<and> cl_host c' = cl_host c \<and>
     (if not_empty topic \<and> 3 + length (publish_payload (the topic) qos 0 data) \<le> MQTT_BUF_SIZE
      then enqueued (packet 3 0 qos retain (publish_payload (the topic) qos
             (if qos > 0 then fresh_id (ms_connection (cl_state c)) else 0) data)) c ok c'
      else \<not> ok \<and> queue_pkts (cl_msgQueue c') = queue_pkts (cl_msgQueue c))"
proof -
  let ?m0 = "ms_pending_msg_id (cl_state c)" and ?mc = "ms_connection (cl_state c)"
  have bl: "mc_buffer_length ?mc = MQTT_BUF_SIZE" using r by (simp add: client_ready_def)
  from publish_any [OF ready_conn [OF r], of topic data qos retain ?m0] obtain mc mid where
    mc: "mqtt_msg_publish ?mc topic data (int (length data)) qos retain ?m0 = Some (mc, mid)" "built ?mc mc"
      "if not_empty topic \<and> 3 + length (publish_payload (the topic) qos 0 data) \<le> MQTT_BUF_SIZE
       then mid = (if qos > 0 then fresh_id ?mc else 0) \<and> mc_length mc \<noteq> 0 \<and>
            message mc = packet 3 0 qos retain (publish_payload (the topic) qos mid data)
       else mc_length mc = 0" unfolding bl by blast
  let ?c1 = "upd (\<lambda>s. s\<lparr>ms_pending_msg_id := mid\<rparr>) c"
  have r1: "client_ready ?c1" using r by (rule ready_fields)
  have b1: "built (ms_connection (cl_state ?c1)) mc" using mc(2) by (simp add: client_simps)
  have pub: "MQTT_Publish g stack topic data (int (length data)) qos retain c =
      (if mc_length mc = 0 then Some (False, set_outbound mc ?c1)
       else enqueue_outbound g stack (set_outbound mc ?c1))"
    using mc(1) by (simp add: MQTT_Publish_def upd_pending_outbound)
  show ?thesis
  proof (cases "not_empty topic \<and> 3 + length (publish_payload (the topic) qos 0 data) \<le> MQTT_BUF_SIZE")
    case True
    with mc(3) have m: "mc_length mc \<noteq> 0" "mid = (if qos > 0 then fresh_id ?mc else 0)"
      "message mc = packet 3 0 qos retain (publish_payload (the topic) qos mid data)" by auto
    from enqueue_ready [OF r1 b1 st, of g, unfolded upd_fields(2)] obtain c' ok k where
      c': "enqueue_outbound g stack (set_outbound mc ?c1) = Some (ok, c')" "client_ready c'"
        "cl_connState c' = cl_connState c"
        "ms_pending_msg_type (cl_state c') = ms_pending_msg_type (cl_state c)"
        "cl_connect_info c' = cl_connect_info c" "cl_host c' = cl_host c"
        "queue_pkts (cl_msgQueue c') = (if ok then drop k (queue_pkts (cl_msgQueue c)) @ [message mc] else [])"
      by (auto simp: client_simps)
    then have "enqueued (message mc) c ok c'" unfolding enqueued_def by blast
    with c' True m(1) show ?thesis unfolding pub m(3) m(2) by auto
  next
    case False
    with mc(3) have "mc_length mc = 0" by auto
    with ready_set_outbound [OF r1 b1] show ?thesis
      unfolding pub if_not_P [OF False] by (auto simp: client_simps)
  qed
qed


lemma MQTT_Subscribe_result:
  assumes r: "client_ready c" and st: "length stack = MQTT_BUF_SIZE"
  shows "\<exists>ok c' mid p. MQTT_Subscribe g stack topic qos c = Some (ok, c') \<and> enqueued p c ok c' \<and>
     (if not_empty topic \<and> 8 + length (the topic) \<le> MQTT_BUF_SIZE
      then mid = fresh_id (ms_connection (cl_state c)) \<and>
           p = packet 8 0 1 0 (be16 (unat mid) @ with_length (the topic) @ [qos])
      else p = [])"
proof -
  let ?m0 = "ms_pending_msg_id (cl_state c)" and ?mc = "ms_connection (cl_state c)"
  have bl: "mc_buffer_length ?mc = MQTT_BUF_SIZE" using r by (simp add: client_ready_def)
  from subscribe_builds [OF ready_conn [OF r], of topic "uint qos" ?m0] obtain mc mid where
    mc: "mqtt_msg_subscribe ?mc topic (uint qos) ?m0 = Some (mc, mid)" "built ?mc mc"
      "if not_empty topic \<and> 8 + length (the topic) \<le> MQTT_BUF_SIZE
       then mid = fresh_id ?mc \<and> message mc =
          packet 8 0 1 0 (be16 (unat mid) @ with_length (the topic) @ [qos])
       else mc_length mc = 0" unfolding bl by (auto simp: word_of_int_uint)
  let ?c1 = "upd (\<lambda>s. s\<lparr>ms_pending_msg_id := mid\<rparr>) c"
  have r1: "client_ready ?c1" using r by (rule ready_fields)
  have b1: "built (ms_connection (cl_state ?c1)) mc" using mc(2) by (simp add: client_simps)
  have sub: "MQTT_Subscribe g stack topic qos c = enqueue_outbound g stack (set_outbound mc ?c1)"
    using mc(1) by (simp add: MQTT_Subscribe_def upd_pending_outbound)
  from enqueue_ready [OF r1 b1 st, of g, unfolded upd_fields(2)] obtain c' ok k where
    c': "enqueue_outbound g stack (set_outbound mc ?c1) = Some (ok, c')" "client_ready c'"
      "cl_connState c' = cl_connState c"
      "ms_pending_msg_type (cl_state c') = ms_pending_msg_type (cl_state c)"
      "cl_connect_info c' = cl_connect_info c" "cl_host c' = cl_host c"
      "queue_pkts (cl_msgQueue c') = (if ok then drop k (queue_pkts (cl_msgQueue c)) @ [message mc] else [])"
    by (auto simp: client_simps)
  then have "enqueued (message mc) c ok c'" unfolding enqueued_def by blast
  moreover have "mc_length mc = 0 \<Longrightarrow> message mc = []" by (simp add: message_def)
  ultimately show ?thesis using c'(1) mc(3) unfolding sub by (auto split: if_splits)
qed

lemma MQTT_Ping_result:
  assumes r: "client_ready c" and st: "length stack = MQTT_BUF_SIZE"
  shows "\<exists>ok c'. MQTT_Ping g stack c = Some (ok, c') \<and> enqueued (packet 12 0 0 0 []) c ok c'"
proof -
  let ?mc = "ms_connection (cl_state c)"
  from ping_builds [OF ready_conn [OF r], of 12] obtain mc where
    mc: "mqtt_msg_pingreq ?mc = Some mc" "built ?mc mc" "message mc = packet 12 0 0 0 []"
    by (auto simp: mqtt_msg_pingreq_def MQTT_MSG_TYPE_PINGREQ_def)
  from mc(2) have "length (message mc) = mc_length mc" by (simp add: built_def)
  then have "mc_length mc \<noteq> 0" unfolding mc(3) by (simp add: packet_def)
  then have ping: "MQTT_Ping g stack c = enqueue_outbound g stack (set_outbound mc c)"
    using mc(1) by (simp add: MQTT_Ping_def)
  from enqueue_ready [OF r mc(2) st, of g] show ?thesis
    unfolding ping enqueued_def mc(3) by blast
qed

text \<open>The handlers of the network stack and of the timer.\<close>

lemma MQTT_Connect_result:
  assumes "client_ready c" and "host_ok c" and "zalloc 1 \<noteq> None"
  shows "\<exists>c'. MQTT_Connect ssl zalloc port c = Some c' \<and> client_ready c' \<and>
     cl_connState c' = TCP_CONNECTING \<and> cl_pCon c' \<noteq> None \<and>
     cl_connect_info c' = cl_connect_info c \<and> cl_host c' = cl_host c \<and>
     cl_keepAliveTick c' = 0 \<and> cl_reconnectTick c' = 0"
  using assms
  by (auto simp: MQTT_Connect_def MQTT_Disconnect_def host_ok_def client_simps Let_def intro!: ready_fields)


lemma type_of_packet:
  assumes "take n d = packet type dup qos retain pl" and "0 \<le> type" "type < 16"
    and "0 \<le> dup" "dup < 2" "0 \<le> qos" "qos < 4" "0 \<le> retain" "retain < 2"
  shows "mqtt_get_type d = Some type"
proof -
  from assms(1) obtain b d' where d: "d = b # d'" "b = header_byte type dup qos retain"
    by (cases d; cases n) (auto simp: packet_def)
  have "uint b = 16 * type + 8 * dup + 2 * qos + retain"
    unfolding d(2) using assms by (simp add: header_byte_value)
  then have "uint b div 16 = type" using assms by simp
  then show ?thesis unfolding d(1) get_fields by simp
qed

text \<open>Whether the CONNECT packet fits the output buffer.\<close>

definition connect_fits :: "client_env \<Rightarrow> mqtt_client \<Rightarrow> bool" where
  "connect_fits env c \<longleftrightarrow>
     3 + length (connect_payload (env_v31 env) (cl_connect_info c)) \<le> MQTT_BUF_SIZE"

lemma connect_cb_result:
  assumes r: "client_ready c"
  shows "\<exists>c'. mqtt_tcpclient_connect_cb ssl (env_v31 env) c = Some c' \<and> client_ready c' \<and>
     cl_connState c' = MQTT_CONNECT_SENDING \<and> cl_connect_info c' = cl_connect_info c \<and>
     cl_host c' = cl_host c \<and>
     (connect_fits env c \<longrightarrow> ms_pending_msg_type (cl_state c') = MQTT_MSG_TYPE_CONNECT \<and>
        (cl_security c = 0 \<longrightarrow> cl_trace c' = cl_trace c @
           [Ev_send (packet 1 0 0 0 (connect_payload (env_v31 env) (cl_connect_info c))), Ev_post]))"
proof -
  let ?info = "cl_connect_info c" and ?v = "env_v31 env"
  let ?m0 = "mqtt_msg_init (mc_buffer (ms_connection (cl_state c))) MQTT_BUF_SIZE"
  have bs: "nat (ms_out_buffer_length (cl_state c) mod 65536) = MQTT_BUF_SIZE"
    using r by (simp add: client_ready_def MQTT_BUF_SIZE_def)
  have m0: "conn_ok ?m0" "mc_buffer_length ?m0 = MQTT_BUF_SIZE" "length (mc_buffer ?m0) = MQTT_BUF_SIZE"
    using r by (auto simp: client_ready_def conn_ok_def mqtt_msg_init_def MQTT_BUF_SIZE_def)
  have info: "not_empty (ci_client_id ?info)" "not_empty (ci_will_topic ?info) \<Longrightarrow> ci_will_message ?info \<noteq> None"
    using r by (simp_all add: client_ready_def)
  from connect_built [OF m0(1) info, of ?v] obtain mc where
    mc: "mqtt_msg_connect ?v ?m0 ?info = Some mc" "built ?m0 mc"
      "connect_fits env c \<Longrightarrow> message mc = packet 1 0 0 0 (connect_payload ?v ?info)"
    unfolding connect_fits_def m0(2) by auto
  let ?c1 = "set_outbound mc c"
  have r1: "client_ready ?c1"
    using mc(2) r m0 by (auto simp: client_ready_def set_outbound_def client_simps built_def same_buffer_def)
  from outbound_built [OF mc(2), of c] obtain d where
    d: "outbound ?c1 = Some (d, mc_length mc)" "mc_length mc \<le> length d"
       "take (mc_length mc) d = message mc" "length (mc_buffer ?m0) \<le> length d + 1" by blast
  have pos: "0 < length d" using d(4) m0(3) unfolding MQTT_BUF_SIZE_def by linarith
  from note_pending_ready [OF r1 d(2) pos] obtain c2 ty mid where
    c2: "note_pending d (mc_length mc) ?c1 = Some c2" "client_ready c2" "mqtt_get_type d = Some ty"
      "c2 = ?c1\<lparr>cl_state := (cl_state ?c1)\<lparr>ms_pending_msg_type := ty, ms_pending_msg_id := mid\<rparr>,
            cl_sendTimeout := MQTT_SEND_TIMOUT\<rparr>" by blast
  from send_bytes_ready [OF c2(2) d(2), of ssl] obtain c3 where
    c3: "send_bytes ssl d (mc_length mc) c2 = Some c3" "client_ready c3"
      "c3 = upd (\<lambda>s. s\<lparr>ms_outbound := False\<rparr>)
          (net_call ssl (Ev_secure_send (message mc)) (Ev_send (message mc)) c2)"
    unfolding d(3) by blast
  let ?c4 = "emit Ev_post (set_state MQTT_CONNECT_SENDING c3)"
  have run: "mqtt_tcpclient_connect_cb ssl ?v c = Some ?c4"
    using r mc(1) d(1) c2(1) c3(1) bs by (simp add: mqtt_tcpclient_connect_cb_def client_ready_def)
  have "connect_fits env c \<Longrightarrow> ty = 1"
    using type_of_packet [of "mc_length mc" d 1 0 0 0] d(3) mc(3) c2(3) by simp
  moreover have "ms_pending_msg_type (cl_state ?c4) = ty" "cl_connect_info ?c4 = cl_connect_info c"
    "cl_host ?c4 = cl_host c" "cl_connState ?c4 = MQTT_CONNECT_SENDING"
    "cl_security c = 0 \<Longrightarrow> cl_trace ?c4 = cl_trace c @ [Ev_send (message mc), Ev_post]"
    unfolding c3(3) c2(4) by (simp_all add: client_simps)
  moreover have "client_ready ?c4" using c3(2) by (intro ready_fields)
  ultimately show ?thesis using run mc(3) by (auto simp: MQTT_MSG_TYPE_CONNECT_def)
qed


text \<open>The timer: a keepalive that is due sends a PINGREQ, a lost connection counts up to a retry.\<close>

definition tick_down :: "mqtt_client \<Rightarrow> mqtt_client" where
  "tick_down c = (if cl_sendTimeout c > 0 then c\<lparr>cl_sendTimeout := cl_sendTimeout c - 1\<rparr> else c)"

lemma tick_down_fields [client_simps]:
  "cl_state (tick_down c) = cl_state c" "cl_msgQueue (tick_down c) = cl_msgQueue c"
  "cl_connState (tick_down c) = cl_connState c" "cl_trace (tick_down c) = cl_trace c"
  "cl_connect_info (tick_down c) = cl_connect_info c" "cl_host (tick_down c) = cl_host c"
  "cl_keepAliveTick (tick_down c) = cl_keepAliveTick c"
  "cl_reconnectTick (tick_down c) = cl_reconnectTick c" "cl_security (tick_down c) = cl_security c"
  by (simp_all add: tick_down_def)

lemma ready_tick_down: "client_ready c \<Longrightarrow> client_ready (tick_down c)"
  by (simp add: client_ready_def client_simps)

lemma timer_keepalive:
  assumes r: "client_ready c" and st: "cl_connState c = MQTT_DATA"
    and due: "cl_keepAliveTick c + 1 > word_of_int (ci_keepalive (cl_connect_info c))"
  shows "\<exists>c'. mqtt_timer ssl sent c = Some c' \<and> client_ready c' \<and>
     cl_connState c' = (if sent \<or> cl_security c \<noteq> 0 \<and> \<not> ssl then MQTT_DATA else TCP_RECONNECT_REQ) \<and>
     cl_connect_info c' = cl_connect_info c \<and> cl_host c' = cl_host c \<and>
     ms_pending_msg_type (cl_state c') = MQTT_MSG_TYPE_PINGREQ \<and>
     cl_msgQueue c' = cl_msgQueue c \<and>
     (cl_security c = 0 \<longrightarrow>
        cl_trace c' = cl_trace c @ Ev_send (packet 12 0 0 0 []) # (if sent then [Ev_post] else []) \<and>
        (sent \<longrightarrow> cl_keepAliveTick c' = 0))"
proof -
  let ?c0 = "c\<lparr>cl_keepAliveTick := cl_keepAliveTick c + 1\<rparr>"
  have r0: "client_ready ?c0" using r by (rule ready_fields)
  let ?mc = "ms_connection (cl_state ?c0)"
  from ping_builds [OF ready_conn [OF r0], of 12] obtain mc where
    mc: "mqtt_msg_pingreq ?mc = Some mc" "built ?mc mc" "message mc = packet 12 0 0 0 []"
    by (auto simp: mqtt_msg_pingreq_def MQTT_MSG_TYPE_PINGREQ_def)
  let ?c1 = "set_outbound mc ?c0"
  have r1: "client_ready ?c1" by (rule ready_set_outbound [OF r0 mc(2)])
  from outbound_built [OF mc(2), of ?c0] obtain d where
    d: "outbound ?c1 = Some (d, mc_length mc)" "mc_length mc \<le> length d"
       "take (mc_length mc) d = message mc" by blast
  have pos: "0 < length d" using d(3) unfolding mc(3) by (cases d) (auto simp: packet_def)
  from note_pending_ready [OF r1 d(2) pos] obtain c2 ty mid where
    c2: "note_pending d (mc_length mc) ?c1 = Some c2" "client_ready c2" "mqtt_get_type d = Some ty"
      "c2 = ?c1\<lparr>cl_state := (cl_state ?c1)\<lparr>ms_pending_msg_type := ty, ms_pending_msg_id := mid\<rparr>,
            cl_sendTimeout := MQTT_SEND_TIMOUT\<rparr>" by blast
  have ty: "ty = 12"
    using type_of_packet [of "mc_length mc" d 12 0 0 0] d(3) mc(3) c2(3) by simp
  from send_bytes_ready [OF c2(2) d(2), of ssl] obtain c3 where
    c3: "send_bytes ssl d (mc_length mc) c2 = Some c3" "client_ready c3"
      "c3 = upd (\<lambda>s. s\<lparr>ms_outbound := False\<rparr>)
          (net_call ssl (Ev_secure_send (message mc)) (Ev_send (message mc)) c2)"
    unfolding d(3) by blast
  have f3: "ms_pending_msg_type (cl_state c3) = 12" "cl_connect_info c3 = cl_connect_info c"
    "cl_host c3 = cl_host c" "cl_connState c3 = MQTT_DATA" "cl_security c3 = cl_security c"
    "cl_msgQueue c3 = cl_msgQueue c"
    "cl_security c = 0 \<Longrightarrow> cl_trace c3 = cl_trace c @ [Ev_send (message mc)]"
    unfolding c3(3) c2(4) using st ty by (simp_all add: client_simps)
  let ?ok = "sent \<or> cl_security c3 \<noteq> 0 \<and> \<not> ssl"
  let ?c4 = "if ?ok then emit Ev_post (c3\<lparr>cl_keepAliveTick := 0\<rparr>) else set_state TCP_RECONNECT_REQ c3"
  have run: "mqtt_timer ssl sent c = Some (tick_down ?c4)"
    using r0 st due mc(1) d(1) c2(1) c3(1)
    by (simp add: mqtt_timer_def keepalive_due_def client_ready_def tick_down_def Let_def)
  have "client_ready ?c4" using c3(2) by (simp add: ready_fields)
  with run f3 show ?thesis
    by (auto simp: client_simps ready_tick_down MQTT_MSG_TYPE_PINGREQ_def mc(3))
qed

lemma timer_idle:
  assumes "client_ready c" and "cl_connState c = MQTT_DATA"
    and "\<not> cl_keepAliveTick c + 1 > word_of_int (ci_keepalive (cl_connect_info c))"
  shows "mqtt_timer ssl sent c = Some (tick_down (c\<lparr>cl_keepAliveTick := cl_keepAliveTick c + 1\<rparr>))"
  using assms by (simp add: mqtt_timer_def keepalive_due_def client_ready_def tick_down_def Let_def)

lemma timer_reconnect:
  assumes "cl_connState c = TCP_RECONNECT_REQ"
  shows "mqtt_timer ssl sent c = Some (tick_down
     (if cl_reconnectTick c + 1 > MQTT_RECONNECT_TIMEOUT
      then emit_if (cl_timeoutCb c) Ev_timeout
             (emit Ev_post (set_state TCP_RECONNECT (c\<lparr>cl_reconnectTick := 0\<rparr>)))
      else c\<lparr>cl_reconnectTick := cl_reconnectTick c + 1\<rparr>))"
  using assms by (simp add: mqtt_timer_def tick_down_def Let_def)

lemma timer_other:
  "cl_connState c \<noteq> MQTT_DATA \<Longrightarrow> cl_connState c \<noteq> TCP_RECONNECT_REQ \<Longrightarrow>
   mqtt_timer ssl sent c = Some (tick_down c)"
  by (simp add: mqtt_timer_def tick_down_def)

text \<open>The task in state \<open>MQTT_DATA\<close>.\<close>

lemma task_sends:
  assumes r: "client_ready c" and st: "cl_connState c = MQTT_DATA" and to: "cl_sendTimeout c = 0"
    and stack: "length stack = MQTT_BUF_SIZE" and q: "queue_pkts (cl_msgQueue c) = p # ps"
  shows "\<exists>c'. MQTT_Task ssl zalloc port g stack c = Some c' \<and> client_ready c' \<and>
     cl_connState c' = MQTT_DATA \<and> cl_connect_info c' = cl_connect_info c \<and> cl_host c' = cl_host c \<and>
     cl_security c' = cl_security c \<and> queue_pkts (cl_msgQueue c') = ps \<and> cl_sendTimeout c' = MQTT_SEND_TIMOUT \<and>
     (cl_security c = 0 \<longrightarrow> cl_trace c' = cl_trace c @ [Ev_send (take MQTT_BUF_SIZE p)])"
proof -
  have qi: "queue_inv (cl_msgQueue c)" using r by (simp add: client_ready_def)
  have ne: "\<not> QUEUE_IsEmpty (cl_msgQueue c)"
    using q by (auto simp: queue_pkts_def QUEUE_IsEmpty_def rb_list_def)
  let ?n = "min (length p) MQTT_BUF_SIZE"
  from mq.gets_some [OF qi q, of MQTT_BUF_SIZE stack g] stack obtain q' buf where
    get: "QUEUE_Gets g (cl_msgQueue c) stack MQTT_BUF_SIZE = Some (0, q', buf, Some ?n)" "queue_inv q'"
      "queue_pkts q' = ps" "length buf = length stack" "take ?n buf = take MQTT_BUF_SIZE p" by auto
  let ?c1 = "c\<lparr>cl_msgQueue := q'\<rparr>"
  have r1: "client_ready ?c1" using r get(2) by (simp add: client_ready_def)
  have buf: "?n \<le> length buf" "0 < length buf" using get(4) stack by (simp_all add: MQTT_BUF_SIZE_def)
  from note_pending_ready [OF r1 buf] obtain c2 ty mid where
    c2: "note_pending buf ?n ?c1 = Some c2" "client_ready c2"
      "c2 = ?c1\<lparr>cl_state := (cl_state ?c1)\<lparr>ms_pending_msg_type := ty, ms_pending_msg_id := mid\<rparr>,
            cl_sendTimeout := MQTT_SEND_TIMOUT\<rparr>" by blast
  from send_bytes_ready [OF c2(2) buf(1), of ssl] obtain c3 where
    c3: "send_bytes ssl buf ?n c2 = Some c3" "client_ready c3"
      "c3 = upd (\<lambda>s. s\<lparr>ms_outbound := False\<rparr>)
          (net_call ssl (Ev_secure_send (take MQTT_BUF_SIZE p)) (Ev_send (take MQTT_BUF_SIZE p)) c2)"
    unfolding get(5) by blast
  have "MQTT_Task ssl zalloc port g stack c = Some c3"
    using st ne to get(1) c2(1) c3(1) by (simp add: MQTT_Task_def)
  moreover have "cl_connState c3 = MQTT_DATA" "cl_connect_info c3 = cl_connect_info c"
    "cl_host c3 = cl_host c" "cl_security c3 = cl_security c" "queue_pkts (cl_msgQueue c3) = ps" "cl_sendTimeout c3 = MQTT_SEND_TIMOUT"
    "cl_security c = 0 \<Longrightarrow> cl_trace c3 = cl_trace c @ [Ev_send (take MQTT_BUF_SIZE p)]"
    unfolding c3(3) c2(3) using st get(3) by (simp_all add: client_simps)
  ultimately show ?thesis using c3(2) by blast
qed

lemma task_idle:
  assumes "cl_connState c = MQTT_DATA" and "QUEUE_IsEmpty (cl_msgQueue c) \<or> cl_sendTimeout c \<noteq> 0"
  shows "MQTT_Task ssl zalloc port g stack c = Some c"
  using assms by (simp add: MQTT_Task_def)

lemma task_fragments:
  assumes r: "client_ready c" and st: "cl_connState c = MQTT_DATA" and stack: "length stack = MQTT_BUF_SIZE"
    and q: "queue_pkts (cl_msgQueue c) = []"
  shows "\<exists>q'. MQTT_Task ssl zalloc port g stack c = Some (c\<lparr>cl_msgQueue := q'\<rparr>) \<and> queue_inv q' \<and>
             queue_pkts q' = []"
proof (cases "QUEUE_IsEmpty (cl_msgQueue c) \<or> cl_sendTimeout c \<noteq> 0")
  case True
  with r q st show ?thesis
    by (intro exI [of _ "cl_msgQueue c"]) (simp add: task_idle client_ready_def)
next
  case False
  have qi: "queue_inv (cl_msgQueue c)" using r by (simp add: client_ready_def)
  from mq.gets_none [OF qi q, of MQTT_BUF_SIZE stack g] stack False st show ?thesis
    by (auto simp: MQTT_Task_def)
qed

section \<open>Invariant of the state machine\<close>

definition used_states :: "conn_state set" where
  "used_states = {WIFI_INIT, TCP_DISCONNECTING, TCP_DISCONNECTED, TCP_RECONNECT_REQ, TCP_RECONNECT,
     TCP_CONNECTING, MQTT_CONNECT_SENDING, MQTT_DATA, MQTT_DELETING, MQTT_DELETED}"

definition client_live :: "client_env \<Rightarrow> mqtt_client \<Rightarrow> bool" where
  "client_live env c \<longleftrightarrow> client_ready c \<and> host_ok c \<and> connect_fits env c \<and>
     cl_connState c \<in> used_states \<and>
     (cl_connState c = MQTT_CONNECT_SENDING \<longrightarrow>
        ms_pending_msg_type (cl_state c) = MQTT_MSG_TYPE_CONNECT)"

definition client_gone :: "mqtt_client \<Rightarrow> bool" where
  "client_gone c \<longleftrightarrow> cl_host c = None \<and> cl_pCon c = None \<and> cl_connState c = MQTT_DELETED"

lemma live_same:
  assumes "client_live env c" and "client_ready c'" and "cl_connState c' = cl_connState c"
    and "ms_pending_msg_type (cl_state c') = ms_pending_msg_type (cl_state c)"
    and "cl_connect_info c' = cl_connect_info c" and "cl_host c' = cl_host c"
  shows "client_live env c'"
  using assms by (simp add: client_live_def host_ok_def connect_fits_def)

lemma live_move:
  assumes "client_live env c" and "client_ready c'"
    and "cl_connState c' \<in> used_states - {MQTT_CONNECT_SENDING}"
    and "cl_connect_info c' = cl_connect_info c" and "cl_host c' = cl_host c"
  shows "client_live env c'"
  using assms by (auto simp: client_live_def host_ok_def connect_fits_def)

lemma live_ready: "client_live env c \<Longrightarrow> client_ready c"
  by (simp add: client_live_def)

text \<open>The functions that register a will or a callback.\<close>

lemma connect_payload_shorter:
  "length (connect_payload v31 info) \<le> length (connect_payload True info)"
  by (simp add: connect_payload_def length_connect_part protocol_name_def)

lemma lwt_live:
  assumes l: "client_live env c" and z: "env_ok env"
    and fits: "3 + length (connect_payload True (with_will topic msg qos retain (cl_connect_info c))) \<le> MQTT_BUF_SIZE"
  shows "\<exists>c'. MQTT_InitLWT (env_zalloc env) topic msg qos retain c = Some c' \<and> client_live env c' \<and>
    cl_connState c' = cl_connState c"
proof -
  let ?c = "c\<lparr>cl_connect_info := with_will topic msg qos retain (cl_connect_info c)\<rparr>"
  have "MQTT_InitLWT (env_zalloc env) topic msg qos retain c = Some ?c"
    using z by (simp add: MQTT_InitLWT_def copy_string_def env_ok_def with_will_def)
  moreover have "client_ready ?c"
    using live_ready [OF l] by (simp add: client_ready_def with_will_def)
  moreover have "connect_fits env ?c"
    using fits connect_payload_shorter [of "env_v31 env" "with_will topic msg qos retain (cl_connect_info c)"]
    by (simp add: connect_fits_def)
  ultimately show ?thesis using l by (auto simp: client_live_def host_ok_def)
qed

lemma on_live:
  assumes l: "client_live env c"
  shows "client_live env (MQTT_OnConnected cb c)" "client_live env (MQTT_OnDisconnected cb c)"
    "client_live env (MQTT_OnData cb c)" "client_live env (MQTT_OnPublished cb c)"
    "client_live env (MQTT_OnTimeout cb c)"
  unfolding MQTT_OnConnected_def MQTT_OnDisconnected_def MQTT_OnData_def MQTT_OnPublished_def MQTT_OnTimeout_def
  by (rule live_same [OF l]; use live_ready [OF l] in \<open>simp add: client_ready_def\<close>)+

lemma live_tick_down: "client_live env c \<Longrightarrow> client_live env (tick_down c)"
  by (rule live_same) (auto simp: client_simps live_ready ready_tick_down)

lemma timer_live:
  assumes l: "client_live env c"
  shows "\<exists>c'. mqtt_timer ssl sent c = Some c' \<and> client_live env c'"
proof -
  note r = live_ready [OF l]
  consider (due) "cl_connState c = MQTT_DATA" "cl_keepAliveTick c + 1 > word_of_int (ci_keepalive (cl_connect_info c))"
    | (idle) "cl_connState c = MQTT_DATA" "\<not> cl_keepAliveTick c + 1 > word_of_int (ci_keepalive (cl_connect_info c))"
    | (lost) "cl_connState c = TCP_RECONNECT_REQ"
    | (other) "cl_connState c \<noteq> MQTT_DATA" "cl_connState c \<noteq> TCP_RECONNECT_REQ" by blast
  then show ?thesis
  proof cases
    case due
    from timer_keepalive [OF r due, of ssl sent] obtain c' where
      "mqtt_timer ssl sent c = Some c'" "client_ready c'" "cl_connect_info c' = cl_connect_info c"
      "cl_host c' = cl_host c" "cl_connState c' \<in> {MQTT_DATA, TCP_RECONNECT_REQ}" by auto
    with live_move [OF l, of c'] show ?thesis by (auto simp: used_states_def)
  next
    case idle
    have "client_live env (c\<lparr>cl_keepAliveTick := cl_keepAliveTick c + 1\<rparr>)"
      by (rule live_same [OF l]) (simp_all add: r ready_fields)
    then show ?thesis unfolding timer_idle [OF r idle] by (simp add: live_tick_down)
  next
    case lost
    have "client_live env (if cl_reconnectTick c + 1 > MQTT_RECONNECT_TIMEOUT
      then emit_if (cl_timeoutCb c) Ev_timeout
             (emit Ev_post (set_state TCP_RECONNECT (c\<lparr>cl_reconnectTick := 0\<rparr>)))
      else c\<lparr>cl_reconnectTick := cl_reconnectTick c + 1\<rparr>)"
      using lost by (intro live_move [OF l]) (auto simp: r ready_fields client_simps used_states_def)
    then show ?thesis unfolding timer_reconnect [OF lost] by (simp add: live_tick_down)
  next
    case other
    then show ?thesis using l by (simp add: timer_other live_tick_down)
  qed
qed

lemma connect_live:
  assumes l: "client_live env c" and z: "env_ok env"
  shows "\<exists>c'. MQTT_Connect (env_ssl env) (env_zalloc env) p c = Some c' \<and> client_live env c' \<and>
     cl_connState c' = TCP_CONNECTING \<and> cl_pCon c' \<noteq> None"
proof -
  from MQTT_Connect_result [of c "env_zalloc env" "env_ssl env" p] l z obtain c' where
    "MQTT_Connect (env_ssl env) (env_zalloc env) p c = Some c'" "client_ready c'"
    "cl_connState c' = TCP_CONNECTING" "cl_pCon c' \<noteq> None"
    "cl_connect_info c' = cl_connect_info c" "cl_host c' = cl_host c"
    by (auto simp: client_live_def env_ok_def)
  with live_move [OF l, of c'] show ?thesis by (auto simp: used_states_def)
qed

lemma task_live:
  assumes l: "client_live env c" and z: "env_ok env" and st: "length stack = MQTT_BUF_SIZE"
  shows "\<exists>c'. MQTT_Task (env_ssl env) (env_zalloc env) p g stack c = Some c' \<and>
     (client_live env c' \<or> client_gone c')"
proof -
  note r = live_ready [OF l]
  show ?thesis
  proof (cases "cl_connState c")
    case TCP_RECONNECT
    from connect_live [OF l z, of p] obtain c' where
      "MQTT_Connect (env_ssl env) (env_zalloc env) p c = Some c'" "client_live env c'" by blast
    moreover have "client_live env (set_state TCP_CONNECTING c')"
      by (rule live_move [OF calculation(2)])
        (auto simp: client_simps used_states_def ready_fields live_ready [OF calculation(2)])
    ultimately show ?thesis using TCP_RECONNECT by (simp add: MQTT_Task_def)
  next
    case MQTT_DATA
    show ?thesis
    proof (cases "queue_pkts (cl_msgQueue c)")
      case Nil
      from task_fragments [OF r MQTT_DATA st Nil] obtain q' where
        "MQTT_Task (env_ssl env) (env_zalloc env) p g stack c = Some (c\<lparr>cl_msgQueue := q'\<rparr>)"
        "queue_inv q'" by blast
      moreover have "client_live env (c\<lparr>cl_msgQueue := q'\<rparr>)"
        by (rule live_same [OF l]) (use r calculation(2) in \<open>auto simp: client_ready_def\<close>)
      ultimately show ?thesis by blast
    next
      case (Cons x xs)
      show ?thesis
      proof (cases "cl_sendTimeout c = 0")
        case True
        from task_sends [OF r MQTT_DATA True st Cons] obtain c' where
          "MQTT_Task (env_ssl env) (env_zalloc env) p g stack c = Some c'" "client_ready c'"
          "cl_connState c' = MQTT_DATA" "cl_connect_info c' = cl_connect_info c" "cl_host c' = cl_host c"
          by blast
        with live_move [OF l, of c'] show ?thesis by (auto simp: used_states_def)
      next
        case False
        with task_idle [OF MQTT_DATA] l show ?thesis by blast
      qed
    qed
  next
    case TCP_DISCONNECTED
    have "client_live env (mqtt_tcpclient_delete c)"
      by (rule live_same [OF l]) (auto simp: mqtt_tcpclient_delete_def client_simps ready_fields r)
    with TCP_DISCONNECTED show ?thesis by (simp add: MQTT_Task_def)
  next
    case MQTT_DELETED
    then have "client_gone (mqtt_client_delete c)"
      by (simp add: client_gone_def mqtt_client_delete_def mqtt_tcpclient_delete_def Let_def client_simps upd_def)
    with MQTT_DELETED show ?thesis by (simp add: MQTT_Task_def)
  next
    case MQTT_DELETING
    have "client_live env (net_call (env_ssl env) Ev_secure_connect Ev_disconnect c)"
      by (rule live_same [OF l]) (auto simp: client_simps ready_fields r)
    with MQTT_DELETING show ?thesis by (simp add: MQTT_Task_def)
  next
    case TCP_DISCONNECTING
    have "client_live env (net_call (env_ssl env) Ev_secure_connect Ev_disconnect c)"
      by (rule live_same [OF l]) (auto simp: client_simps ready_fields r)
    with TCP_DISCONNECTING show ?thesis by (simp add: MQTT_Task_def)
  qed (use l in \<open>simp_all add: MQTT_Task_def\<close>)
qed


lemma dns_live:
  assumes l: "client_live env c" and pc: "cl_pCon c \<noteq> None"
  shows "\<exists>c'. mqtt_dns_found ssl a c = Some c' \<and> client_live env c'"
proof -
  note r = live_ready [OF l]
  have lost: "client_live env (set_state TCP_RECONNECT_REQ c)"
    by (rule live_move [OF l]) (auto simp: client_simps used_states_def ready_fields r)
  have same: "client_live env (emit Ev_post c)"
    by (rule live_same [OF l]) (auto simp: client_simps ready_fields r)
  have conn: "client_live env (emit Ev_post (set_state TCP_CONNECTING
      (net_call ssl Ev_secure_connect Ev_connect (c\<lparr>cl_pCon := x\<rparr>))))" for x
    by (rule live_move [OF l]) (auto simp: client_simps used_states_def ready_fields r)
  from pc obtain pc where "cl_pCon c = Some pc" by auto
  with lost same conn show ?thesis
    by (cases a) (auto simp: mqtt_dns_found_def Let_def)
qed

lemma recv_live:
  assumes l: "client_live env c" and ok: "segment_ok bytes"
  shows "mqtt_tcpclient_recv fuel ssl (of_nat (length bytes)) bytes c \<noteq> Undefined \<and>
    (\<forall>c'. mqtt_tcpclient_recv fuel ssl (of_nat (length bytes)) bytes c = Returns c' \<longrightarrow>
       client_live env c' \<and>
       (cl_connState c' = cl_connState c \<or>
        cl_connState c = MQTT_CONNECT_SENDING \<and> cl_connState c' = MQTT_DATA))"
proof -
  have n: "unat (of_nat (length bytes) :: u16) = length bytes"
    using ok by (simp add: segment_ok_def unat_of_nat)
  have p: "\<forall>k \<le> unat (of_nat (length bytes) :: u16).
     prefix_ok (take (unat (of_nat (length bytes) :: u16) - k) (drop k bytes)) (unat (of_nat (length bytes) :: u16) - k)"
    unfolding n using ok by (simp add: segment_ok_def)
  have le: "unat (of_nat (length bytes) :: u16) \<le> length bytes" by (simp add: n)
  note rr = recv_ready [OF live_ready [OF l] le p, of fuel ssl]
  have "client_live env c'" if "mqtt_tcpclient_recv fuel ssl (of_nat (length bytes)) bytes c = Returns c'" for c'
  proof -
    from rr that have c': "client_ready c'" "keeps c c'"
      "cl_connState c' = cl_connState c \<or> cl_connState c = MQTT_CONNECT_SENDING \<and> cl_connState c' = MQTT_DATA"
      by blast+
    show ?thesis
    proof (cases "cl_connState c' = cl_connState c")
      case True
      with c' live_same [OF l c'(1)] show ?thesis by simp
    next
      case False
      with c' have "cl_connState c' = MQTT_DATA" by blast
      with c' show ?thesis by (intro live_move [OF l c'(1)]) (auto simp: used_states_def)
    qed
  qed
  with rr show ?thesis by blast
qed

lemma enqueued_live: "client_live env c \<Longrightarrow> enqueued p c ok c' \<Longrightarrow> client_live env c'"
  by (rule live_same) (auto simp: enqueued_def)

text \<open>Every entry point, on a client that is live.\<close>

lemma handle_live:
  assumes l: "client_live env c" and z: "env_ok env" and i: "input_ok c i"
  shows "client_handle env fuel i c \<noteq> Undefined \<and>
    (\<forall>c'. client_handle env fuel i c = Returns c' \<longrightarrow> client_live env c' \<or> client_gone c')"
proof -
  note r = live_ready [OF l]
  have n: "from_network i \<Longrightarrow> cl_pCon c \<noteq> None" using i by (simp add: input_ok_def)
  show ?thesis
  proof (cases i)
    case (In_dns a)
    with dns_live [OF l, of "env_ssl env" a] n show ?thesis
      by (auto simp: client_handle_def run_def input_ok_def)
  next
    case (In_received bytes)
    with recv_live [OF l, of bytes fuel "env_ssl env"] i show ?thesis
      by (auto simp: client_handle_def input_ok_def)
  next
    case In_sent
    have "client_live env (mqtt_tcpclient_sent_cb c)"
      by (rule live_same [OF l])
        (auto simp: mqtt_tcpclient_sent_cb_def client_simps Let_def intro!: ready_fields r)
    with In_sent n show ?thesis by (simp add: client_handle_def)
  next
    case (In_tick sent)
    with timer_live [OF l, of "env_ssl env" sent] show ?thesis
      by (auto simp: client_handle_def run_def)
  next
    case In_disconnected
    have "client_live env (mqtt_tcpclient_discon_cb c)"
      by (rule live_move [OF l])
        (auto simp: mqtt_tcpclient_discon_cb_def client_simps Let_def used_states_def intro!: ready_fields r)
    with In_disconnected n show ?thesis by (simp add: client_handle_def)
  next
    case In_connected
    from connect_cb_result [OF r, of "env_ssl env" env] obtain c' where
      c': "mqtt_tcpclient_connect_cb (env_ssl env) (env_v31 env) c = Some c'" "client_ready c'"
        "cl_connState c' = MQTT_CONNECT_SENDING" "cl_connect_info c' = cl_connect_info c"
        "cl_host c' = cl_host c"
        "connect_fits env c \<Longrightarrow> ms_pending_msg_type (cl_state c') = MQTT_MSG_TYPE_CONNECT" by blast
    then have "client_live env c'"
      using l by (simp add: client_live_def host_ok_def connect_fits_def used_states_def)
    with c' In_connected n show ?thesis by (simp add: client_handle_def run_def)
  next
    case In_reconnect
    have "client_live env (mqtt_tcpclient_recon_cb c)"
      by (rule live_move [OF l])
        (auto simp: mqtt_tcpclient_recon_cb_def client_simps used_states_def intro!: ready_fields r)
    with In_reconnect n show ?thesis by (simp add: client_handle_def)
  next
    case (In_task g stack)
    with task_live [OF l z, of stack "env_port env" g] i show ?thesis
      by (auto simp: client_handle_def run_def input_ok_def)
  next
    case (Do_publish g stack topic data qos retain)
    then have st: "length stack = MQTT_BUF_SIZE" using i by (simp add: input_ok_def)
    from MQTT_Publish_result [OF r st, of g topic data qos retain] obtain ok c' where
      "MQTT_Publish g stack topic data (int (length data)) qos retain c = Some (ok, c')"
      "client_ready c'" "cl_connState c' = cl_connState c"
      "ms_pending_msg_type (cl_state c') = ms_pending_msg_type (cl_state c)"
      "cl_connect_info c' = cl_connect_info c" "cl_host c' = cl_host c" by blast
    with live_same [OF l, of c'] Do_publish show ?thesis by (simp add: client_handle_def run_def)
  next
    case (Do_subscribe g stack topic qos)
    then have st: "length stack = MQTT_BUF_SIZE" using i by (simp add: input_ok_def)
    from MQTT_Subscribe_result [OF r st, of g topic qos] obtain ok c' p where
      "MQTT_Subscribe g stack topic qos c = Some (ok, c')" "enqueued p c ok c'" by blast
    with enqueued_live [OF l] Do_subscribe show ?thesis by (simp add: client_handle_def run_def)
  next
    case (Do_ping g stack)
    then have st: "length stack = MQTT_BUF_SIZE" using i by (simp add: input_ok_def)
    from MQTT_Ping_result [OF r st, of g] obtain ok c' where
      "MQTT_Ping g stack c = Some (ok, c')" "enqueued (packet 12 0 0 0 []) c ok c'" by blast
    with enqueued_live [OF l] Do_ping show ?thesis by (simp add: client_handle_def run_def)
  next
    case Do_connect
    with connect_live [OF l z, of "env_port env"] show ?thesis
      by (auto simp: client_handle_def run_def)
  next
    case Do_disconnect
    have "client_live env (MQTT_Disconnect c)"
      by (rule live_move [OF l])
        (auto simp: MQTT_Disconnect_def client_simps used_states_def intro!: ready_fields r)
    with Do_disconnect show ?thesis by (simp add: client_handle_def)
  next
    case Do_delete
    have "client_live env (MQTT_DeleteClient c)"
      by (rule live_move [OF l])
        (auto simp: MQTT_DeleteClient_def client_simps used_states_def intro!: ready_fields r)
    with Do_delete show ?thesis by (simp add: client_handle_def)
  next
    case (Do_lwt topic msg qos retain)
    with i lwt_live [OF l z, of topic msg qos retain] show ?thesis
      by (auto simp: client_handle_def run_def input_ok_def)
  qed (use on_live [OF l] in \<open>simp_all add: client_handle_def\<close>)
qed

text \<open>The clients a program can reach: set up, then any calls and callbacks until it is deleted.\<close>

inductive client_reaches :: "client_env \<Rightarrow> mqtt_client \<Rightarrow> mqtt_client \<Rightarrow> bool" for env c0 where
  start: "client_reaches env c0 c0"
| step: "client_reaches env c0 c \<Longrightarrow> cl_host c \<noteq> None \<Longrightarrow> input_ok c i \<Longrightarrow>
         client_handle env fuel i c = Returns c' \<Longrightarrow> client_reaches env c0 c'"

text \<open>A client that \<open>MQTT_InitConnection\<close> and \<open>MQTT_InitClient\<close> have set up.\<close>

definition client_setup ::
  "client_env \<Rightarrow> cstring \<Rightarrow> u32 \<Rightarrow> u8 \<Rightarrow> cstring \<Rightarrow> cstring \<Rightarrow> cstring \<Rightarrow> u32 \<Rightarrow> u8 \<Rightarrow> mqtt_client option" where
  "client_setup env host port security client_id user pass keepalive clean =
     do { c \<leftarrow> MQTT_InitConnection (env_zalloc env) host port security;
          MQTT_InitClient (env_zalloc env) client_id user pass keepalive clean c }"

lemma setup_live:
  assumes z: "env_ok env" and id: "client_id \<noteq> []" and host: "UTILS_StrToIP host [0, 0, 0, 0] \<noteq> None"
    and fits: "length client_id + length user + length pass \<le> 900"
  shows "\<exists>c. client_setup env host port security client_id user pass keepalive clean = Some c \<and>
     client_live env c \<and> cl_connState c = WIFI_INIT \<and> cl_trace c = [Ev_post]"
proof -
  let ?z = "env_zalloc env"
  have zn: "?z n = Some (replicate n 0)" for n using z by (simp add: env_ok_def)
  have q: "queue_inv (QUEUE_Init ?z qq QUEUE_BUFFER_SIZE)" for qq
    using QUEUE_Init_ok [of ?z QUEUE_BUFFER_SIZE qq] by (simp add: zn QUEUE_BUFFER_SIZE_def)
  have len: "length (connect_payload v info) \<le> 1021"
    if "ci_client_id info = Some client_id" "ci_username info = Some user" "ci_password info = Some pass"
      "ci_will_topic info = None" for v info
    using that fits
    by (simp add: connect_payload_def length_connect_part will_fields_def opt_field_def not_empty_def
        protocol_name_def)
  show ?thesis
    using id host q
    by (auto simp: client_setup_def MQTT_InitConnection_def MQTT_InitClient_def copy_string_def zn Let_def
        client_simps client_live_def client_ready_def host_ok_def connect_fits_def zero_client_def
        zero_connect_info_def used_states_def not_empty_def MQTT_BUF_SIZE_def mqtt_msg_init_def len)
qed

lemma reaches_live:
  assumes "client_reaches env c0 c" and "client_live env c0" and "env_ok env"
  shows "client_live env c \<or> client_gone c"
  using assms(1)
proof (induction rule: client_reaches.induct)
  case start
  with assms(2) show ?case by simp
next
  case (step c i fuel c')
  then have "client_live env c" by (auto simp: client_gone_def)
  from handle_live [OF this assms(3) step(3), of fuel] step(4) show ?case by blast
qed

section \<open>What single packets do\<close>

text \<open>A whole segment that starts with a CONNACK.\<close>

lemma recv_connecting:
  assumes l: "client_live env c" and st: "cl_connState c = MQTT_CONNECT_SENDING"
    and ok: "segment_ok bytes" and len: "0 < length bytes" "length bytes < MQTT_BUF_SIZE"
  shows "\<exists>ib. mqtt_tcpclient_recv (Suc fuel) ssl (of_nat (length bytes)) bytes c =
       Returns (emit Ev_post
         (if uint (bytes ! 0) div 16 = 2
          then emit_if (cl_connectedCb c) Ev_connected (set_state MQTT_DATA (upd (\<lambda>s. s\<lparr>ms_in_buffer := Some ib\<rparr>) c))
          else upd (\<lambda>s. s\<lparr>ms_in_buffer := Some ib\<rparr>) c))"
proof -
  let ?n = "unat (of_nat (length bytes) :: u16)"
  have n: "?n = length bytes" using len by (simp add: unat_of_nat MQTT_BUF_SIZE_def)
  have n0: "(0 :: u16) < of_nat (length bytes)" using len n by (simp add: word_less_nat_alt)
  note r = live_ready [OF l]
  from r obtain old where old: "ms_in_buffer (cl_state c) = Some old" "length old = MQTT_BUF_SIZE"
    by (auto simp: client_ready_def)
  define ib where "ib = bytes @ drop (length bytes) old"
  have lib: "length ib = MQTT_BUF_SIZE" using len old by (simp add: ib_def)
  have seg: "rd_seg bytes 0 (length bytes) = Some bytes" by (simp add: rd_seg_def)
  have wr: "wr_seg old 0 bytes = Some ib" using len old by (simp add: wr_seg_def ib_def)
  have bs: "nat (ms_in_buffer_length (cl_state c) mod 65536) = MQTT_BUF_SIZE"
    using r by (simp add: client_ready_def MQTT_BUF_SIZE_def)
  obtain b bs' where b: "bytes = b # bs'" using len by (cases bytes) auto
  have ty: "mqtt_get_type ib = Some (uint (bytes ! 0) div 16)" unfolding ib_def b by (simp add: get_fields)
  obtain q mid where f: "mqtt_get_qos ib = Some q" "mqtt_get_id ib MQTT_BUF_SIZE = Some mid"
    using get_fields_ok(2) [of ib] mqtt_get_id_ok [of MQTT_BUF_SIZE ib] lib
    by (auto simp: defined_def MQTT_BUF_SIZE_def)
  have pend: "ms_pending_msg_type (cl_state c) = 1"
    using l st by (simp add: client_live_def MQTT_MSG_TYPE_CONNECT_def)
  show ?thesis
    using st old seg wr bs ty f pend n n0 len
    by (intro exI [of _ ib]) (simp add: read_packet_def client_simps Let_def msg_type_defs upd_def)
qed

lemma recv_connected:
  assumes l: "client_live env c" and ok: "segment_ok bytes"
    and run: "mqtt_tcpclient_recv fuel ssl (of_nat (length bytes)) bytes c = Returns c'"
    and before: "cl_connState c \<noteq> MQTT_DATA" and after: "cl_connState c' = MQTT_DATA"
  shows "cl_connState c = MQTT_CONNECT_SENDING \<and> bytes \<noteq> [] \<and> uint (hd bytes) div 16 = MQTT_MSG_TYPE_CONNACK"
proof -
  from recv_live [OF l ok, of fuel ssl] run before after have st: "cl_connState c = MQTT_CONNECT_SENDING"
    by auto
  from run obtain f where f: "fuel = Suc f" by (cases fuel) auto
  have n: "unat (of_nat (length bytes) :: u16) = length bytes"
    using ok by (simp add: segment_ok_def unat_of_nat)
  show ?thesis
  proof (cases "0 < length bytes \<and> length bytes < MQTT_BUF_SIZE")
    case True
    then have len: "0 < length bytes" "length bytes < MQTT_BUF_SIZE" by simp_all
    from recv_connecting [OF l st ok len, of f ssl] run obtain ib where
      "c' = emit Ev_post
         (if uint (bytes ! 0) div 16 = 2
          then emit_if (cl_connectedCb c) Ev_connected (set_state MQTT_DATA (upd (\<lambda>s. s\<lparr>ms_in_buffer := Some ib\<rparr>) c))
          else upd (\<lambda>s. s\<lparr>ms_in_buffer := Some ib\<rparr>) c)" unfolding f by auto
    with after st True show ?thesis
      by (auto simp: client_simps MQTT_MSG_TYPE_CONNACK_def hd_conv_nth split: if_splits)
  next
    case False
    have "read_packet ssl (of_nat (length bytes)) bytes c = Some (c, None)"
      unfolding read_packet_def n
      using False by (intro if_not_P) auto
    with run f after before show ?thesis by (auto simp: client_simps)
  qed
qed


text \<open>
  A PUBLISH packet of 65536 bytes, of which the first segment has arrived: the total does not fit
  the 16-bit \<open>message_length\<close>, which becomes 0.
\<close>

lemma hang_prefix: "4 \<le> n \<Longrightarrow> n \<le> length xs + 4 \<Longrightarrow>
  length_loop (0x30 # 0xFC # 0xFF # 0x03 # xs) n 1 0 = Some (4, 65532)"
  by (simp add: length_loop.simps [of _ n "Suc 0"] length_loop.simps [of _ n "Suc (Suc 0)"]
      length_loop.simps [of _ n "Suc (Suc (Suc 0))"] rd_def Let_def)

lemma hang_step:
  assumes r: "client_ready c" and st: "cl_connState c = MQTT_DATA"
    and b: "bytes = 0x30 # 0xFC # 0xFF # 0x03 # xs" and len: "length bytes < MQTT_BUF_SIZE"
  shows "\<exists>c'. read_packet ssl (of_nat (length bytes)) bytes c =
             Some (c', Some (of_nat (length bytes), bytes)) \<and> client_ready c' \<and> cl_connState c' = MQTT_DATA"
proof -
  define n where "n = length bytes"
  have n4: "4 \<le> n" "n < 1024" using b len by (simp_all add: n_def MQTT_BUF_SIZE_def)
  have un: "unat (of_nat n :: u16) = n" using n4 by (simp add: unat_of_nat)
  have n0: "(0 :: u16) < of_nat n" using n4 un by (simp add: word_less_nat_alt)
  from r obtain old where old: "ms_in_buffer (cl_state c) = Some old" "length old = MQTT_BUF_SIZE"
    by (auto simp: client_ready_def)
  define ib where "ib = 0x30 # 0xFC # 0xFF # 0x03 # (xs @ drop n old)"
  have lib: "length ib = 1024" using n4 old b by (simp add: ib_def n_def MQTT_BUF_SIZE_def)
  have seg: "rd_seg bytes 0 n = Some bytes" by (simp add: rd_seg_def n_def)
  have wr: "wr_seg old 0 bytes = Some ib" using n4 old by (simp add: wr_seg_def ib_def b n_def MQTT_BUF_SIZE_def)
  have bs: "nat (ms_in_buffer_length (cl_state c) mod 65536) = 1024"
    using r by (simp add: client_ready_def MQTT_BUF_SIZE_def)
  have loop: "length_loop ib n 1 0 = Some (4, 65532)"
    unfolding ib_def using n4 lib by (intro hang_prefix) (simp_all add: ib_def)
  then have pre: "prefix_ok ib n" by (simp add: prefix_ok_def)
  have total: "mqtt_get_total_length ib n = Some 65536"
    unfolding mqtt_get_total_length_def loop by simp
  have z: "(65536 :: u16) = 0" by simp
  have f: "mqtt_get_type ib = Some 3" "mqtt_get_qos ib = Some 0" by (simp_all add: ib_def get_fields)
  obtain mid where mid: "mqtt_get_id ib 1024 = Some mid"
    using mqtt_get_id_ok [of 1024 ib] lib by (auto simp: defined_def)
  have le: "n \<le> length ib" using n4 lib by simp
  let ?c2 = "upd (\<lambda>s. s\<lparr>ms_message_length := 0\<rparr>)
     (upd (\<lambda>s. s\<lparr>ms_message_length_read := of_nat n\<rparr>) (upd (\<lambda>s. s\<lparr>ms_in_buffer := Some ib\<rparr>) c))"
  obtain e where e: "deliver_publish ib n ?c2 = Some (emit_if (cl_dataCb ?c2) e ?c2)"
    using publish_readers_ok [OF le pre] by (auto simp: deliver_publish_def defined_def)
  have data: "data_packet ib 3 0 mid ?c2 = Some (emit_if (cl_dataCb ?c2) e ?c2)"
    using e by (simp add: data_packet_def MQTT_MSG_TYPE_PUBLISH_def client_simps un)
  have "read_packet ssl (of_nat n) bytes c =
      Some (emit_if (cl_dataCb ?c2) e ?c2, Some (of_nat n, bytes))"
    using st old(1) seg wr bs f mid total data un n4 n0
    by (simp add: read_packet_def Let_def client_simps MQTT_BUF_SIZE_def MQTT_MSG_TYPE_PUBLISH_def z)
  moreover have "client_ready (emit_if (cl_dataCb ?c2) e ?c2)"
    using r lib by (intro ready_fields) (auto simp: client_ready_def client_simps MQTT_BUF_SIZE_def)
  ultimately show ?thesis using st unfolding n_def by (auto simp: client_simps)
qed

lemma hang:
  assumes "client_ready c" and "cl_connState c = MQTT_DATA"
    and "bytes = 0x30 # 0xFC # 0xFF # 0x03 # xs" and "length bytes < MQTT_BUF_SIZE"
  shows "mqtt_tcpclient_recv fuel ssl (of_nat (length bytes)) bytes c = Out_of_fuel"
  using assms(1,2)
proof (induction fuel arbitrary: c)
  case (Suc fuel)
  from hang_step [OF Suc.prems assms(3,4), of ssl] Suc.IH show ?case by auto
qed simp

text \<open>A segment whose first packet is a confirmation.\<close>

lemma recv_confirmation:
  assumes r: "client_ready c" and st: "cl_connState c = MQTT_DATA"
    and len: "length bytes < MQTT_BUF_SIZE" "bytes \<noteq> []" and pre: "prefix_ok bytes (length bytes)"
    and ty: "uint (hd bytes) div 16 \<in> {4, 7, 9, 11, 13}"
  shows "\<exists>c'. mqtt_tcpclient_recv (Suc fuel) ssl (of_nat (length bytes)) bytes c = Returns c' \<and>
     client_ready c' \<and> cl_connState c' = MQTT_DATA \<and> cl_trace c' = cl_trace c @ [Ev_post] \<and>
     cl_msgQueue c' = cl_msgQueue c"
proof -
  define n where "n = length bytes"
  have n4: "0 < n" "n < 1024" using len by (simp_all add: n_def MQTT_BUF_SIZE_def)
  have un: "unat (of_nat n :: u16) = n" using n4 by (simp add: unat_of_nat)
  have n0: "(0 :: u16) < of_nat n" using n4 un by (simp add: word_less_nat_alt)
  from r obtain old where old: "ms_in_buffer (cl_state c) = Some old" "length old = MQTT_BUF_SIZE"
    by (auto simp: client_ready_def)
  define ib where "ib = bytes @ drop n old"
  have lib: "length ib = 1024" using n4 old by (simp add: ib_def n_def MQTT_BUF_SIZE_def)
  have seg: "rd_seg bytes 0 n = Some bytes" by (simp add: rd_seg_def n_def)
  have wr: "wr_seg old 0 bytes = Some ib" using n4 old by (simp add: wr_seg_def ib_def n_def MQTT_BUF_SIZE_def)
  have bs: "nat (ms_in_buffer_length (cl_state c) mod 65536) = 1024"
    using r by (simp add: client_ready_def MQTT_BUF_SIZE_def)
  have pib: "prefix_ok ib n"
    using pre length_loop_append [of bytes "drop n old"] by (simp add: prefix_ok_def ib_def n_def)
  obtain total where total: "mqtt_get_total_length ib n = Some total"
    using publish_readers_ok(1) [of n ib] pib n4 lib by (auto simp: defined_def)
  from len(2) obtain b bs' where b: "bytes = b # bs'" by (cases bytes) auto
  have ty': "mqtt_get_type ib = Some (uint (hd bytes) div 16)" unfolding ib_def b by (simp add: get_fields)
  obtain q mid where f: "mqtt_get_qos ib = Some q" "mqtt_get_id ib 1024 = Some mid"
    using get_fields_ok(2) [of ib] mqtt_get_id_ok [of 1024 ib] lib by (auto simp: defined_def)
  let ?c2 = "upd (\<lambda>s. s\<lparr>ms_message_length := word_of_int total\<rparr>)
     (upd (\<lambda>s. s\<lparr>ms_message_length_read := of_nat n\<rparr>) (upd (\<lambda>s. s\<lparr>ms_in_buffer := Some ib\<rparr>) c))"
  have data: "data_packet ib (uint (hd bytes) div 16) q mid ?c2 = Some ?c2"
    using ty by (auto simp: data_packet_def msg_type_defs)
  have np: "uint (hd bytes) div 16 \<noteq> 3" using ty by auto
  have "read_packet ssl (of_nat n) bytes c = Some (?c2, None)"
    using st old(1) seg wr bs ty' f total data un n4 n0 np
    by (simp add: read_packet_def Let_def client_simps MQTT_BUF_SIZE_def MQTT_MSG_TYPE_PUBLISH_def)
  moreover have "client_ready (emit Ev_post ?c2)"
    using r lib by (intro ready_fields) (auto simp: client_ready_def client_simps MQTT_BUF_SIZE_def)
  ultimately show ?thesis using st unfolding n_def by (auto simp: client_simps)
qed

section \<open>Runs of the task and of the timer\<close>

text \<open>The task and the callback that confirms what it sent, \<open>k\<close> times.\<close>

fun drain :: "client_env \<Rightarrow> u8 \<Rightarrow> u8 list \<Rightarrow> nat \<Rightarrow> mqtt_client \<Rightarrow> mqtt_client option" where
  "drain env g stack 0 c = Some c"
| "drain env g stack (Suc k) c =
     do { c \<leftarrow> MQTT_Task (env_ssl env) (env_zalloc env) (env_port env) g stack c;
          drain env g stack k (mqtt_tcpclient_sent_cb c) }"

definition sent_pkts :: "event list \<Rightarrow> u8 list list" where
  "sent_pkts tr = concat (map (\<lambda>e. case e of Ev_send p \<Rightarrow> [p] | _ \<Rightarrow> []) tr)"

lemma sent_pkts_append [simp]: "sent_pkts (xs @ ys) = sent_pkts xs @ sent_pkts ys"
  by (simp add: sent_pkts_def)

lemma drain_sends:
  assumes "client_live env c" and "cl_connState c = MQTT_DATA" and "cl_sendTimeout c = 0"
    and "cl_security c = 0" and "length stack = MQTT_BUF_SIZE"
    and "\<forall>p \<in> set (queue_pkts (cl_msgQueue c)). length p \<le> MQTT_BUF_SIZE"
    and "k \<le> length (queue_pkts (cl_msgQueue c))"
  shows "\<exists>c'. drain env g stack k c = Some c' \<and> client_live env c' \<and> cl_connState c' = MQTT_DATA \<and>
     cl_sendTimeout c' = 0 \<and> queue_pkts (cl_msgQueue c') = drop k (queue_pkts (cl_msgQueue c)) \<and>
     sent_pkts (cl_trace c') = sent_pkts (cl_trace c) @ take k (queue_pkts (cl_msgQueue c))"
  using assms
proof (induction k arbitrary: c)
  case 0
  then show ?case by simp
next
  case (Suc k)
  note r = live_ready [OF Suc.prems(1)]
  obtain p ps where q: "queue_pkts (cl_msgQueue c) = p # ps"
    using Suc.prems(7) by (cases "queue_pkts (cl_msgQueue c)") auto
  from task_sends [OF r Suc.prems(2,3,5) q, of "env_ssl env" "env_zalloc env" "env_port env" g] obtain c1 where
    c1: "MQTT_Task (env_ssl env) (env_zalloc env) (env_port env) g stack c = Some c1" "client_ready c1"
     "cl_connState c1 = MQTT_DATA" "cl_connect_info c1 = cl_connect_info c" "cl_host c1 = cl_host c"
     "queue_pkts (cl_msgQueue c1) = ps" "cl_security c1 = cl_security c"
     "cl_trace c1 = cl_trace c @ [Ev_send (take MQTT_BUF_SIZE p)]" using Suc.prems(4) by blast
  let ?c2 = "mqtt_tcpclient_sent_cb c1"
  have f2: "cl_connState ?c2 = MQTT_DATA" "cl_sendTimeout ?c2 = 0" "cl_security ?c2 = 0"
    "cl_msgQueue ?c2 = cl_msgQueue c1" "cl_connect_info ?c2 = cl_connect_info c" "cl_host ?c2 = cl_host c"
    using c1(3-5,7) Suc.prems(4)
    by (simp_all add: mqtt_tcpclient_sent_cb_def Let_def client_simps)
  have r2: "client_ready ?c2"
    unfolding mqtt_tcpclient_sent_cb_def Let_def by (intro ready_fields c1(2))
  have "take MQTT_BUF_SIZE p = p" using Suc.prems(6) q by simp
  then have tr: "sent_pkts (cl_trace ?c2) = sent_pkts (cl_trace c) @ [p]"
    unfolding mqtt_tcpclient_sent_cb_def Let_def emit_fields emit_if_fields
    by (simp add: c1(8) sent_pkts_def)
  have l2: "client_live env ?c2"
    using live_move [OF Suc.prems(1) r2] f2 by (simp add: used_states_def)
  from Suc.IH [OF l2 f2(1-3) Suc.prems(5)] f2(4) tr c1(1,6) q Suc.prems(6,7) show ?case by auto
qed

fun ticks :: "bool \<Rightarrow> bool \<Rightarrow> nat \<Rightarrow> mqtt_client \<Rightarrow> mqtt_client option" where
  "ticks ssl sent 0 c = Some c"
| "ticks ssl sent (Suc k) c = do { c \<leftarrow> ticks ssl sent k c; mqtt_timer ssl sent c }"

lemma ticks_reconnect:
  assumes "client_live env c" and "cl_connState c = TCP_RECONNECT_REQ" and "cl_reconnectTick c = 0" and "k \<le> 5"
  shows "\<exists>c'. ticks ssl sent k c = Some c' \<and> client_live env c' \<and> cl_connState c' = TCP_RECONNECT_REQ \<and>
     cl_reconnectTick c' = of_nat k"
  using assms(4)
proof (induction k)
  case 0
  with assms show ?case by simp
next
  case (Suc k)
  then obtain c1 where c1: "ticks ssl sent k c = Some c1" "client_live env c1"
    "cl_connState c1 = TCP_RECONNECT_REQ" "cl_reconnectTick c1 = of_nat k" by auto
  have u: "unat (1 + of_nat k :: u32) = Suc k" using Suc.prems by (simp add: unat_word_ariths unat_of_nat)
  have t: "unat MQTT_RECONNECT_TIMEOUT = 5" by (simp add: MQTT_RECONNECT_TIMEOUT_def)
  have "\<not> cl_reconnectTick c1 + 1 > MQTT_RECONNECT_TIMEOUT"
    unfolding word_less_nat_alt t using Suc.prems u by (simp add: c1(4) add.commute)
  with timer_live [OF c1(2), of ssl sent] c1(1,3,4) show ?case
    by (auto simp: timer_reconnect client_simps add.commute)
qed

lemma ticks_keepalive:
  assumes "client_live env c" and "cl_connState c = MQTT_DATA" and "cl_keepAliveTick c = 0"
    and "ci_keepalive (cl_connect_info c) = int K" and "K < 2 ^ 31" and "k \<le> K"
  shows "\<exists>c'. ticks ssl sent k c = Some c' \<and> client_live env c' \<and> cl_connState c' = MQTT_DATA \<and>
     cl_keepAliveTick c' = of_nat k \<and> cl_trace c' = cl_trace c \<and> cl_security c' = cl_security c \<and>
     cl_connect_info c' = cl_connect_info c"
  using assms(6)
proof (induction k)
  case 0
  with assms show ?case by simp
next
  case (Suc k)
  then obtain c1 where c1: "ticks ssl sent k c = Some c1" "client_live env c1"
    "cl_connState c1 = MQTT_DATA" "cl_keepAliveTick c1 = of_nat k" "cl_trace c1 = cl_trace c"
    "cl_security c1 = cl_security c" "cl_connect_info c1 = cl_connect_info c" by auto
  have "unat (of_nat K :: u32) = K" "unat (of_nat (Suc k) :: u32) = Suc k"
    using assms(5) Suc.prems by (simp_all add: unat_of_nat del: of_nat_Suc)
  then have nd: "\<not> cl_keepAliveTick c1 + 1 > word_of_int (ci_keepalive (cl_connect_info c1))"
    using Suc.prems by (simp add: c1(4,7) assms(4) word_less_nat_alt add.commute)
  from timer_live [OF c1(2), of ssl sent] show ?case
    using c1 timer_idle [OF live_ready [OF c1(2)] c1(3) nd, of ssl sent]
    by (auto simp: client_simps add.commute)
qed

text \<open>Which entry points lead into \<open>MQTT_DATA\<close>.\<close>

lemma other_inputs_keep_out:
  assumes l: "client_live env c" and z: "env_ok env" and i: "input_ok c i"
    and h: "client_handle env fuel i c = Returns c'" and out: "cl_connState c \<noteq> MQTT_DATA"
    and nr: "\<And>bytes. i \<noteq> In_received bytes"
  shows "cl_connState c' \<noteq> MQTT_DATA"
proof -
  note r = live_ready [OF l]
  show ?thesis
  proof (cases i)
    case (In_dns a)
    with h out show ?thesis
      by (auto simp: client_handle_def run_def mqtt_dns_found_def client_simps Let_def
          split: option.splits if_splits Option.bind_splits)
  next
    case (In_received bytes)
    with nr show ?thesis by blast
  next
    case In_sent
    with h out show ?thesis
      by (auto simp: client_handle_def mqtt_tcpclient_sent_cb_def Let_def client_simps split: if_splits)
  next
    case (In_tick sent)
    with h out show ?thesis
      by (cases "cl_connState c = TCP_RECONNECT_REQ")
        (auto simp: client_handle_def run_def timer_reconnect timer_other client_simps split: if_splits)
  next
    case In_disconnected
    with h show ?thesis
      by (auto simp: client_handle_def mqtt_tcpclient_discon_cb_def client_simps Let_def split: if_splits)
  next
    case In_connected
    with h connect_cb_result [OF r, of "env_ssl env" env] show ?thesis
      by (auto simp: client_handle_def run_def split: if_splits)
  next
    case In_reconnect
    with h show ?thesis
      by (auto simp: client_handle_def mqtt_tcpclient_recon_cb_def client_simps split: if_splits)
  next
    case (In_task g stack)
    have "\<And>c'. MQTT_Task (env_ssl env) (env_zalloc env) (env_port env) g stack c = Some c' \<Longrightarrow>
      cl_connState c' \<noteq> MQTT_DATA"
      using out
      by (cases "cl_connState c")
        (auto simp: MQTT_Task_def client_simps mqtt_tcpclient_delete_def mqtt_client_delete_def Let_def
          upd_def split: Option.bind_splits if_splits)
    with In_task h show ?thesis by (auto simp: client_handle_def run_def split: option.splits)
  next
    case (Do_publish g stack topic data qos retain)
    then have st: "length stack = MQTT_BUF_SIZE" using i by (simp add: input_ok_def)
    from MQTT_Publish_result [OF r st, of g topic data qos retain] obtain ok c1 where
      "MQTT_Publish g stack topic data (int (length data)) qos retain c = Some (ok, c1)"
      "cl_connState c1 = cl_connState c" by blast
    with h out Do_publish show ?thesis by (simp add: client_handle_def run_def)
  next
    case (Do_subscribe g stack topic qos)
    then have st: "length stack = MQTT_BUF_SIZE" using i by (simp add: input_ok_def)
    from MQTT_Subscribe_result [OF r st, of g topic qos] obtain ok c1 p where
      "MQTT_Subscribe g stack topic qos c = Some (ok, c1)" "enqueued p c ok c1" by blast
    with h out Do_subscribe show ?thesis by (simp add: client_handle_def run_def enqueued_def)
  next
    case (Do_ping g stack)
    then have st: "length stack = MQTT_BUF_SIZE" using i by (simp add: input_ok_def)
    from MQTT_Ping_result [OF r st, of g] obtain ok c1 where
      "MQTT_Ping g stack c = Some (ok, c1)" "enqueued (packet 12 0 0 0 []) c ok c1" by blast
    with h out Do_ping show ?thesis by (simp add: client_handle_def run_def enqueued_def)
  next
    case Do_connect
    with h connect_live [OF l z, of "env_port env"] show ?thesis
      by (auto simp: client_handle_def run_def)
  next
    case Do_disconnect
    with h show ?thesis by (auto simp: client_handle_def MQTT_Disconnect_def client_simps)
  next
    case Do_delete
    with h show ?thesis by (auto simp: client_handle_def MQTT_DeleteClient_def client_simps)
  next
    case (Do_lwt topic msg qos retain)
    with i h out lwt_live [OF l z, of topic msg qos retain] show ?thesis
      by (auto simp: client_handle_def run_def input_ok_def)
  qed (use h out in \<open>auto simp: client_handle_def MQTT_OnConnected_def MQTT_OnDisconnected_def
      MQTT_OnData_def MQTT_OnPublished_def MQTT_OnTimeout_def\<close>)
qed

section \<open>The connection behind the packets\<close>

lemma respond_pCon: "respond b c = Some c' \<Longrightarrow> cl_pCon c' = cl_pCon c"
  by (auto simp: respond_def queue_outbound_def set_outbound_def client_simps Let_def
      split: Option.bind_splits prod.splits)

lemma data_packet_pCon: "data_packet ib ty q mid c = Some c' \<Longrightarrow> cl_pCon c' = cl_pCon c"
  by (auto simp: data_packet_def deliver_publish_def client_simps dest: respond_pCon
      split: Option.bind_splits if_splits)

lemma read_packet_pCon: "read_packet ssl len pdata c = Some (c', r) \<Longrightarrow> cl_pCon c' = cl_pCon c"
  by (auto simp: read_packet_def client_simps Let_def dest!: data_packet_pCon
      split: Option.bind_splits if_splits conn_state.splits)

lemma recv_pCon: "mqtt_tcpclient_recv fuel ssl len pdata c = Returns c' \<Longrightarrow> cl_pCon c' = cl_pCon c"
  by (induction fuel ssl len pdata c rule: mqtt_tcpclient_recv.induct)
    (auto simp: client_simps dest: read_packet_pCon split: option.splits prod.splits)

lemma connect_cb_pCon: "mqtt_tcpclient_connect_cb ssl v31 c = Some c' \<Longrightarrow> cl_pCon c' = cl_pCon c"
  by (auto simp: mqtt_tcpclient_connect_cb_def note_pending_def send_bytes_def set_outbound_def client_simps Let_def
      split: Option.bind_splits if_splits prod.splits)

text \<open>
  In the states in which the client sends it has a connection to send on: \<open>connect_cb\<close> and the
  receive callback, which lead into them, need one, and only the task of a disconnected or deleted
  client gives it up.
\<close>

definition connected_when_sending :: "mqtt_client \<Rightarrow> bool" where
  "connected_when_sending c \<longleftrightarrow> cl_connState c \<in> {MQTT_CONNECT_SENDING, MQTT_DATA} \<longrightarrow> cl_pCon c \<noteq> None"

lemma connected_same:
  "connected_when_sending c \<Longrightarrow> cl_pCon c' = cl_pCon c \<Longrightarrow> cl_connState c' = cl_connState c \<Longrightarrow> connected_when_sending c'"
  by (simp add: connected_when_sending_def)

lemma enqueue_outbound_conn:
  "enqueue_outbound g stack c = Some (ok, c') \<Longrightarrow> cl_pCon c' = cl_pCon c \<and> cl_connState c' = cl_connState c"
  by (auto simp: enqueue_outbound_def client_simps Let_def split: Option.bind_splits prod.splits)

lemma set_outbound_conn: "cl_pCon (set_outbound mc c) = cl_pCon c"
  by (simp add: set_outbound_def client_simps)

lemma publish_conn:
  "MQTT_Publish g stack topic data n qos retain c = Some (ok, c') \<Longrightarrow> cl_pCon c' = cl_pCon c \<and> cl_connState c' = cl_connState c"
  "MQTT_Subscribe g stack topic q c = Some (ok, c') \<Longrightarrow> cl_pCon c' = cl_pCon c \<and> cl_connState c' = cl_connState c"
  "MQTT_Ping g stack c = Some (ok, c') \<Longrightarrow> cl_pCon c' = cl_pCon c \<and> cl_connState c' = cl_connState c"
  by (auto simp: MQTT_Publish_def MQTT_Subscribe_def MQTT_Ping_def client_simps set_outbound_conn Let_def dest!: enqueue_outbound_conn
      split: Option.bind_splits prod.splits if_splits)

lemma note_send_conn:
  "note_pending d n c = Some c' \<Longrightarrow> cl_pCon c' = cl_pCon c \<and> cl_connState c' = cl_connState c"
  "send_bytes ssl d n c = Some c' \<Longrightarrow> cl_pCon c' = cl_pCon c \<and> cl_connState c' = cl_connState c"
  by (auto simp: note_pending_def send_bytes_def client_simps split: Option.bind_splits)

lemma timer_conn:
  "mqtt_timer ssl sent c = Some c' \<Longrightarrow> connected_when_sending c \<Longrightarrow> connected_when_sending c'"
  by (auto simp: mqtt_timer_def connected_when_sending_def client_simps set_outbound_conn Let_def dest!: note_send_conn
      split: Option.bind_splits prod.splits if_splits)

lemma task_conn:
  "MQTT_Task ssl z port g stack c = Some c' \<Longrightarrow> connected_when_sending c \<Longrightarrow> connected_when_sending c'"
  by (cases "cl_connState c")
    (auto simp: MQTT_Task_def connected_when_sending_def client_simps mqtt_tcpclient_delete_def mqtt_client_delete_def upd_def
      Let_def dest!: note_send_conn split: Option.bind_splits prod.splits if_splits)

lemma recv_conn:
  assumes "mqtt_tcpclient_recv fuel ssl len pdata c = Returns c'" and "cl_pCon c \<noteq> None"
  shows "connected_when_sending c'"
  using recv_pCon [OF assms(1)] assms(2) by (simp add: connected_when_sending_def)

lemma run_Returns: "run m = Returns c' \<longleftrightarrow> m = Some c'"
  by (cases m) (auto simp: run_def)

lemma handle_conn:
  assumes "client_handle env fuel i c = Returns c'" and "connected_when_sending c"
  shows "connected_when_sending c'"
proof (cases i)
  case (In_received bytes)
  with assms recv_conn show ?thesis by (auto simp: client_handle_def split: if_splits)
next
  case (In_connected)
  with assms have "cl_pCon c \<noteq> None" "mqtt_tcpclient_connect_cb (env_ssl env) (env_v31 env) c = Some c'"
    by (auto simp: client_handle_def run_Returns split: if_splits)
  with connect_cb_pCon [OF this(2)] show ?thesis by (simp add: connected_when_sending_def)
next
  case (In_dns a)
  with assms show ?thesis
    by (auto simp: client_handle_def run_Returns mqtt_dns_found_def connected_when_sending_def client_simps Let_def
      split: option.splits if_splits Option.bind_splits)
next
  case (In_tick sent)
  with assms timer_conn show ?thesis by (auto simp: client_handle_def run_Returns)
next
  case (In_task g stack)
  with assms task_conn show ?thesis by (auto simp: client_handle_def run_Returns)
next
  case (Do_publish g stack topic data qos retain)
  with assms connected_same show ?thesis by (auto simp: client_handle_def run_Returns dest!: publish_conn(1))
next
  case (Do_subscribe g stack topic qos)
  with assms connected_same show ?thesis by (auto simp: client_handle_def run_Returns dest!: publish_conn(2))
next
  case (Do_ping g stack)
  with assms connected_same show ?thesis by (auto simp: client_handle_def run_Returns dest!: publish_conn(3))
next
  case Do_connect
  with assms show ?thesis
    by (auto simp: client_handle_def run_Returns MQTT_Connect_def connected_when_sending_def client_simps Let_def
      split: Option.bind_splits prod.splits)
next
  case (Do_lwt topic msg qos retain)
  with assms connected_same show ?thesis
    by (auto simp: client_handle_def run_Returns MQTT_InitLWT_def connected_when_sending_def split: Option.bind_splits)
qed (use assms in \<open>auto simp: client_handle_def connected_when_sending_def client_simps mqtt_tcpclient_sent_cb_def Let_def
  mqtt_tcpclient_discon_cb_def mqtt_tcpclient_recon_cb_def MQTT_Disconnect_def MQTT_DeleteClient_def
  MQTT_OnConnected_def MQTT_OnDisconnected_def MQTT_OnData_def MQTT_OnPublished_def MQTT_OnTimeout_def split: if_splits\<close>)

lemma reaches_conn:
  assumes "client_reaches env c0 c" and "connected_when_sending c0"
  shows "connected_when_sending c"
  using assms(1) by induction (use assms(2) handle_conn in \<open>blast+\<close>)

end
