(* ===== verification/Mqtt_Client_Props.thy ===== *)
theory Mqtt_Client_Props
  imports Mqtt_Client_Live
begin

text \<open>The properties of the MQTT client, and a concrete client that shows they can hold.\<close>

section \<open>A client for the witnesses\<close>

definition demo_env :: client_env where
  "demo_env = \<lparr>env_ssl = False, env_v31 = True, env_zalloc = zalloc_ok, env_port = 50000\<rparr>"

text \<open>Host \<open>b\<close>, port 1883, client id \<open>e\<close>, keepalive of two seconds.\<close>

definition demo_client :: mqtt_client where
  "demo_client = the (client_setup demo_env [98] 1883 0 [101] [] [] 2 1)"

text \<open>The client in a given state, with a connection.\<close>

definition demo_in :: "conn_state \<Rightarrow> mqtt_client" where
  "demo_in s = set_state s (demo_client\<lparr>cl_pCon :=
     Some \<lparr>tc_remote_ip = [10, 0, 0, 1], tc_remote_port = 1883, tc_local_port = 50000\<rparr>\<rparr>)"

lemma demo_env_ok: "env_ok demo_env"
  by (simp add: env_ok_def demo_env_def)

lemma demo_setup: "client_setup demo_env [98] 1883 0 [101] [] [] 2 1 = Some demo_client \<and> client_live demo_env demo_client"
proof -
  have "UTILS_StrToIP [98] [0, 0, 0, 0] \<noteq> None" by code_simp
  from setup_live [OF demo_env_ok _ this, of "[101]" "[]" "[]" 1883 0 2 1] show ?thesis
    by (auto simp: demo_client_def)
qed

lemma demo_queue: "cl_msgQueue demo_client = QUEUE_Init zalloc_ok (cl_msgQueue zero_client) QUEUE_BUFFER_SIZE"
  "cl_security demo_client = 0" "cl_sendTimeout demo_client = 0" "cl_keepAliveTick demo_client = 0"
  "cl_reconnectTick demo_client = 0" "ci_keepalive (cl_connect_info demo_client) = 2"
  "cl_trace demo_client = [Ev_post]" "cl_dataCb demo_client = False" "cl_connectedCb demo_client = False"
  by (simp_all add: demo_client_def client_setup_def MQTT_InitConnection_def MQTT_InitClient_def copy_string_def
      demo_env_def client_simps Let_def zero_client_def zero_connect_info_def emit_def upd_def)

lemma demo_info: "ci_client_id (cl_connect_info demo_client) = Some [101]"
  "ci_username (cl_connect_info demo_client) = Some []" "ci_password (cl_connect_info demo_client) = Some []"
  by (simp_all add: demo_client_def client_setup_def MQTT_InitConnection_def MQTT_InitClient_def copy_string_def
      demo_env_def client_simps Let_def zero_client_def zero_connect_info_def emit_def upd_def)

lemma demo_queue_empty: "queue_pkts (cl_msgQueue demo_client) = [] \<and> queue_room (cl_msgQueue demo_client) = 2048"
  using QUEUE_Init_ok [of zalloc_ok QUEUE_BUFFER_SIZE "cl_msgQueue zero_client"]
  by (simp add: demo_queue QUEUE_BUFFER_SIZE_def queue_room_def QUEUE_Init_def RINGBUF_Init_def rb_list_def)

lemma demo_live: "client_live demo_env demo_client"
  using demo_setup by blast

lemma demo_in_live: "s \<in> used_states - {MQTT_CONNECT_SENDING} \<Longrightarrow> client_live demo_env (demo_in s)"
  unfolding demo_in_def
  by (rule live_move [OF demo_live])
    (simp_all add: client_simps ready_fields live_ready [OF demo_live])

lemma demo_in_fields [simp]:
  "cl_connState (demo_in s) = s" "cl_msgQueue (demo_in s) = cl_msgQueue demo_client"
  "cl_trace (demo_in s) = [Ev_post]" "cl_dataCb (demo_in s) = False" "cl_security (demo_in s) = 0"
  "cl_sendTimeout (demo_in s) = 0" "cl_keepAliveTick (demo_in s) = 0" "cl_reconnectTick (demo_in s) = 0"
  "ci_keepalive (cl_connect_info (demo_in s)) = 2" "cl_pCon (demo_in s) \<noteq> None"
  by (simp_all add: demo_in_def client_simps demo_queue)


section \<open>Properties\<close>

text \<open>
  C1: a segment of PUBLISH packets (each with topic and data, together shorter than the receive
  buffer) that reaches a connected client is delivered completely: every message once, in order,
  with its exact topic and data; and one acknowledgement per QoS 1 or 2 message, PUBACK or PUBREC
  with the id of the message, is appended to the send queue in the same order. The loop over the
  segment ends after one round per packet.
\<close>

theorem recv_delivers_all:
  assumes "client_ready c" and "cl_connState c = MQTT_DATA" and "ms \<noteq> []" and "\<forall>m \<in> set ms. pub_ok m"
    and "length (concat (map pub_packet ms)) < MQTT_BUF_SIZE"
    and "frames_size (concat (map pub_acks ms)) \<le> queue_room (cl_msgQueue c)"
    and "length ms \<le> fuel"
  shows "\<exists>c'. mqtt_tcpclient_recv fuel ssl (of_nat (length (concat (map pub_packet ms))))
       (concat (map pub_packet ms)) c = Returns c' \<and> client_ready c' \<and> cl_connState c' = MQTT_DATA \<and>
     cl_trace c' = cl_trace c @ (if cl_dataCb c then map pub_event ms else []) @ [Ev_post] \<and>
     queue_pkts (cl_msgQueue c') = queue_pkts (cl_msgQueue c) @ concat (map pub_acks ms)"
  using assms by (rule recv_publishes)

definition demo_pubs :: "pub list" where
  "demo_pubs = [([97], [1], 1, 7, 0), ([97], [2, 3], 0, 0, 1)]"

theorem recv_delivers_all_witness:
  "\<exists>c'. mqtt_tcpclient_recv 2 False (of_nat (length (concat (map pub_packet demo_pubs))))
      (concat (map pub_packet demo_pubs)) (demo_in MQTT_DATA) = Returns c' \<and>
    queue_pkts (cl_msgQueue c') = [ack_packet 4 0 7]"
proof -
  have "length (concat (map pub_packet demo_pubs)) < MQTT_BUF_SIZE"
    by (simp add: demo_pubs_def packet_def publish_payload_def rem_len_def MQTT_BUF_SIZE_def)
  moreover have acks: "concat (map pub_acks demo_pubs) = [ack_packet 4 0 7]"
    by (simp add: demo_pubs_def MQTT_MSG_TYPE_PUBACK_def)
  moreover have "frames_size [ack_packet 4 0 7] \<le> queue_room (cl_msgQueue (demo_in MQTT_DATA))"
    using demo_queue_empty
    by (simp add: frames_size_def ack_packet_def packet_def rem_len_def frame_def escape_def be16_def)
  moreover have "client_ready (demo_in MQTT_DATA)"
    by (rule live_ready [OF demo_in_live]) (simp add: used_states_def)
  ultimately show ?thesis
    using recv_delivers_all [of "demo_in MQTT_DATA" demo_pubs 2 False] demo_queue_empty
    by (auto simp: demo_pubs_def)
qed



text \<open>
  C3: a client becomes connected only when, after it has sent its CONNECT packet, it receives a
  segment that starts with a CONNACK packet. No other call, callback or packet leads to \<open>MQTT_DATA\<close>.
\<close>

theorem connected_by_connack:
  assumes "client_live env c" and "env_ok env" and "input_ok c i"
    and "client_handle env fuel i c = Returns c'"
    and "cl_connState c \<noteq> MQTT_DATA" and "cl_connState c' = MQTT_DATA"
  shows "\<exists>bytes. i = In_received bytes \<and> cl_connState c = MQTT_CONNECT_SENDING \<and> bytes \<noteq> [] \<and>
           uint (hd bytes) div 16 = MQTT_MSG_TYPE_CONNACK"
proof (cases "\<exists>bytes. i = In_received bytes")
  case True
  then obtain bytes where i: "i = In_received bytes" by blast
  with assms(3,4) have "segment_ok bytes"
    "mqtt_tcpclient_recv fuel (env_ssl env) (of_nat (length bytes)) bytes c = Returns c'"
    by (auto simp: input_ok_def client_handle_def)
  from recv_connected [OF assms(1) this assms(5,6)] i show ?thesis by blast
next
  case False
  with other_inputs_keep_out [OF assms(1-5)] assms(6) show ?thesis by blast
qed


definition demo_connecting :: mqtt_client where
  "demo_connecting = the (mqtt_tcpclient_connect_cb False True (demo_in TCP_CONNECTING))"

lemma demo_connecting: "client_live demo_env demo_connecting \<and> cl_connState demo_connecting = MQTT_CONNECT_SENDING"
proof -
  let ?c = "demo_in TCP_CONNECTING"
  have l: "client_live demo_env ?c" by (rule demo_in_live) (simp add: used_states_def)
  from handle_live [OF l demo_env_ok, of In_connected 0] connect_cb_result [OF live_ready [OF l], of False demo_env]
  show ?thesis
    by (auto simp: client_handle_def run_def input_ok_def demo_connecting_def demo_env_def client_gone_def)
qed

lemma demo_connecting_pCon: "cl_pCon demo_connecting \<noteq> None"
proof -
  have l: "client_live demo_env (demo_in TCP_CONNECTING)" by (rule demo_in_live) (simp add: used_states_def)
  from connect_cb_result [OF live_ready [OF l], of False demo_env]
  obtain c' where "mqtt_tcpclient_connect_cb False True (demo_in TCP_CONNECTING) = Some c'"
    by (auto simp: demo_env_def)
  with connect_cb_pCon [OF this] show ?thesis by (simp add: demo_connecting_def)
qed

text \<open>
  Once the CONNECT packet is sent, any segment that starts with a CONNACK packet connects the
  client and calls the application's callback, whatever the return code in its fourth byte says: a
  broker that refuses the connection is taken for one that accepts it.
\<close>

theorem connack_code_ignored:
  assumes "client_live env c" and "cl_connState c = MQTT_CONNECT_SENDING" and "cl_pCon c \<noteq> None"
  shows "\<exists>c'. client_handle env (Suc fuel) (In_received [0x20, 2, session, code]) c = Returns c' \<and>
     cl_connState c' = MQTT_DATA \<and>
     cl_trace c' = cl_trace c @ (if cl_connectedCb c then [Ev_connected] else []) @ [Ev_post]"
proof -
  have ok: "segment_ok [0x20, 2, session, code]"
    unfolding segment_ok_def by (auto intro!: prefix_ok_short)
  have len: "0 < length [0x20, 2, session, code]" "length [0x20, 2, session, code] < MQTT_BUF_SIZE"
    by (simp_all add: MQTT_BUF_SIZE_def)
  from recv_connecting [OF assms(1,2) ok len, of fuel "env_ssl env"] show ?thesis
    using assms(3) by (auto simp: client_handle_def client_simps)
qed

text \<open>Return code 5, not authorized.\<close>

theorem connack_code_ignored_witness:
  "\<exists>c'. client_handle demo_env 1 (In_received [0x20, 2, 0, 5]) demo_connecting = Returns c' \<and>
        cl_connState c' = MQTT_DATA"
  using connack_code_ignored [of demo_env demo_connecting 0 0 5] demo_connecting demo_connecting_pCon by auto

theorem connected_by_connack_witness:
  "\<exists>c'. client_handle demo_env 1 (In_received [0x20, 2, 0, 0]) demo_connecting = Returns c' \<and>
     (\<exists>bytes. In_received [0x20, 2, 0, 0] = In_received bytes \<and>
        cl_connState demo_connecting = MQTT_CONNECT_SENDING \<and> bytes \<noteq> [] \<and>
        uint (hd bytes) div 16 = MQTT_MSG_TYPE_CONNACK)"
proof -
  have ok: "segment_ok [0x20, 2, 0, 0]" unfolding segment_ok_def by (auto intro!: prefix_ok_short)
  have len: "0 < length [0x20, 2, 0, 0 :: u8]" "length [0x20, 2, 0, 0 :: u8] < MQTT_BUF_SIZE"
    by (simp_all add: MQTT_BUF_SIZE_def)
  from recv_connecting [OF conjunct1 [OF demo_connecting] conjunct2 [OF demo_connecting] ok len, of 0 False]
  obtain c' where c': "client_handle demo_env 1 (In_received [0x20, 2, 0, 0]) demo_connecting = Returns c'"
    "cl_connState c' = MQTT_DATA"
    using demo_connecting_pCon by (auto simp: client_handle_def client_simps demo_env_def)
  have "input_ok demo_connecting (In_received [0x20, 2, 0, 0])"
    using ok demo_connecting_pCon by (simp add: input_ok_def)
  from connected_by_connack [OF conjunct1 [OF demo_connecting] demo_env_ok this c'(1) _ c'(2)] c'(1)
    demo_connecting show ?thesis by auto
qed

text \<open>
  C4: every queued packet is sent, oldest first and unchanged: after as many rounds of the task and
  of its send callback as there are packets in the queue, exactly these packets have been handed to
  the network in order and the queue is empty.
\<close>

theorem queue_is_sent:
  assumes "client_live env c" and "cl_connState c = MQTT_DATA" and "cl_sendTimeout c = 0"
    and "cl_security c = 0" and "length stack = MQTT_BUF_SIZE"
    and "queue_pkts (cl_msgQueue c) = ps" and "\<forall>p \<in> set ps. length p \<le> MQTT_BUF_SIZE"
  shows "\<exists>c'. drain env g stack (length ps) c = Some c' \<and> client_live env c' \<and>
     queue_pkts (cl_msgQueue c') = [] \<and> sent_pkts (cl_trace c') = sent_pkts (cl_trace c) @ ps"
  using drain_sends [OF assms(1-5), of "length ps" g] assms(6,7) by auto

definition demo_queued :: mqtt_client where
  "demo_queued = (demo_in MQTT_DATA)\<lparr>cl_msgQueue :=
     the (puts_all (cl_msgQueue demo_client) [[0xC0, 0], [0x40, 2, 0, 7]])\<rparr>"

lemma demo_queued: "client_live demo_env demo_queued \<and> queue_pkts (cl_msgQueue demo_queued) = [[0xC0, 0], [0x40, 2, 0, 7]]"
proof -
  have l: "client_live demo_env (demo_in MQTT_DATA)" by (rule demo_in_live) (simp add: used_states_def)
  have "queue_inv (cl_msgQueue demo_client)" using live_ready [OF demo_live] by (simp add: client_ready_def)
  from puts_all_fits [OF this, of "[[0xC0, 0], [0x40, 2, 0, 7]]"] demo_queue_empty obtain q where
    q: "puts_all (cl_msgQueue demo_client) [[0xC0, 0], [0x40, 2, 0, 7]] = Some q" "queue_inv q"
       "queue_pkts q = [[0xC0, 0], [0x40, 2, 0, 7]]"
    by (auto simp: frames_size_def frame_def escape_def special_def simp del: puts_all.simps)
  have "client_live demo_env ((demo_in MQTT_DATA)\<lparr>cl_msgQueue := q\<rparr>)"
    by (rule live_same [OF l]) (use live_ready [OF l] q(2) in \<open>auto simp: client_ready_def\<close>)
  with q show ?thesis by (simp add: demo_queued_def del: puts_all.simps)
qed

theorem queue_is_sent_witness:
  "\<exists>c'. drain demo_env 0 (replicate MQTT_BUF_SIZE 0) 2 demo_queued = Some c' \<and>
        sent_pkts (cl_trace c') = [[0xC0, 0], [0x40, 2, 0, 7]]"
proof -
  have f: "cl_connState demo_queued = MQTT_DATA" "cl_sendTimeout demo_queued = 0" "cl_security demo_queued = 0"
    "sent_pkts (cl_trace demo_queued) = []"
    by (simp_all add: demo_queued_def sent_pkts_def)
  from queue_is_sent [OF conjunct1 [OF demo_queued] f(1-3) _ conjunct2 [OF demo_queued],
      of "replicate MQTT_BUF_SIZE 0" 0] f(4) show ?thesis
    by (auto simp: MQTT_BUF_SIZE_def numeral_2_eq_2 simp del: replicate.simps)
qed

text \<open>
  C5: \<open>MQTT_Publish\<close> on a set-up client with a message that fits the output buffer puts the PUBLISH
  packet last in the send queue and drops at most the oldest packets for it, or gives up with the
  queue emptied; with a message that does not fit it returns false and leaves the queue alone. The
  connection state does not change.
\<close>

theorem MQTT_Publish_correct:
  assumes "client_ready c" and "length stack = MQTT_BUF_SIZE"
  shows "\<exists>ok c' k. MQTT_Publish g stack topic data (int (length data)) qos retain c = Some (ok, c') \<and>
     client_ready c' \<and> cl_connState c' = cl_connState c \<and>
     queue_pkts (cl_msgQueue c') =
       (if not_empty topic \<and> 3 + length (publish_payload (the topic) qos 0 data) \<le> MQTT_BUF_SIZE
        then if ok
             then drop k (queue_pkts (cl_msgQueue c)) @
               [packet MQTT_MSG_TYPE_PUBLISH 0 qos retain (publish_payload (the topic) qos
                 (if qos > 0 then fresh_id (ms_connection (cl_state c)) else 0) data)]
             else []
        else queue_pkts (cl_msgQueue c)) \<and>
     (ok \<longrightarrow> not_empty topic \<and> 3 + length (publish_payload (the topic) qos 0 data) \<le> MQTT_BUF_SIZE)"
proof -
  from MQTT_Publish_result [OF assms, of g topic data qos retain] obtain ok c' where
    c': "MQTT_Publish g stack topic data (int (length data)) qos retain c = Some (ok, c')"
      "client_ready c'" "cl_connState c' = cl_connState c"
      "if not_empty topic \<and> 3 + length (publish_payload (the topic) qos 0 data) \<le> MQTT_BUF_SIZE
       then enqueued (packet 3 0 qos retain (publish_payload (the topic) qos
             (if qos > 0 then fresh_id (ms_connection (cl_state c)) else 0) data)) c ok c'
       else \<not> ok \<and> queue_pkts (cl_msgQueue c') = queue_pkts (cl_msgQueue c)" by blast
  show ?thesis
  proof (cases "not_empty topic \<and> 3 + length (publish_payload (the topic) qos 0 data) \<le> MQTT_BUF_SIZE")
    case True
    with c'(4) obtain k where
      "queue_pkts (cl_msgQueue c') = (if ok then drop k (queue_pkts (cl_msgQueue c)) @
         [packet 3 0 qos retain (publish_payload (the topic) qos
             (if qos > 0 then fresh_id (ms_connection (cl_state c)) else 0) data)] else [])"
      by (auto simp: enqueued_def)
    with c' True show ?thesis unfolding if_P [OF True] MQTT_MSG_TYPE_PUBLISH_def by blast
  next
    case False
    with c' show ?thesis unfolding if_not_P [OF False] by blast
  qed
qed

theorem MQTT_Publish_correct_witness:
  "\<exists>ok c'. MQTT_Publish 0 (replicate MQTT_BUF_SIZE 0) (Some [97]) [1] 1 0 0 demo_client = Some (ok, c') \<and>
           client_ready c'"
  using MQTT_Publish_correct [OF live_ready [OF demo_live], of "replicate MQTT_BUF_SIZE 0" 0 "Some [97]" "[1]" 0 0]
  by auto


text \<open>
  C11: a client that has lost its connection waits exactly six ticks of the timer, asks for the
  reconnection at the sixth, and the next run of the task opens a new connection.
\<close>

theorem reconnects:
  assumes "client_live env c" and "env_ok env" and "cl_connState c = TCP_RECONNECT_REQ"
    and "cl_reconnectTick c = 0" and "length stack = MQTT_BUF_SIZE"
  shows "(\<forall>k \<le> 5. \<exists>c'. ticks ssl sent k c = Some c' \<and> cl_connState c' = TCP_RECONNECT_REQ) \<and>
    (\<exists>c' c''. ticks ssl sent 6 c = Some c' \<and> cl_connState c' = TCP_RECONNECT \<and>
       MQTT_Task (env_ssl env) (env_zalloc env) (env_port env) g stack c' = Some c'' \<and>
       cl_connState c'' = TCP_CONNECTING \<and> cl_pCon c'' \<noteq> None \<and> client_live env c'')"
proof
  show "\<forall>k \<le> 5. \<exists>c'. ticks ssl sent k c = Some c' \<and> cl_connState c' = TCP_RECONNECT_REQ"
    using ticks_reconnect [OF assms(1,3,4)] by blast
  from ticks_reconnect [OF assms(1,3,4), of 5 ssl sent] obtain c1 where
    c1: "ticks ssl sent 5 c = Some c1" "client_live env c1" "cl_connState c1 = TCP_RECONNECT_REQ"
      "cl_reconnectTick c1 = 5" by auto
  from timer_live [OF c1(2), of ssl sent] obtain c2 where
    c2: "mqtt_timer ssl sent c1 = Some c2" "client_live env c2" by blast
  have st: "cl_connState c2 = TCP_RECONNECT"
    using c2(1) c1(4) unfolding timer_reconnect [OF c1(3)]
    by (auto simp: MQTT_RECONNECT_TIMEOUT_def client_simps)
  have "ticks ssl sent (Suc 5) c = Some c2" unfolding ticks.simps(2) c1(1) using c2(1) by simp
  then have "ticks ssl sent 6 c = Some c2" by simp
  moreover from connect_live [OF c2(2) assms(2), of "env_port env"] obtain c3 where
    c3: "MQTT_Connect (env_ssl env) (env_zalloc env) (env_port env) c2 = Some c3" "client_live env c3"
      "cl_pCon c3 \<noteq> None" by blast
  have "client_live env (set_state TCP_CONNECTING c3)"
    by (rule live_move [OF c3(2)]) (auto simp: client_simps used_states_def ready_fields live_ready [OF c3(2)])
  ultimately show "\<exists>c' c''. ticks ssl sent 6 c = Some c' \<and> cl_connState c' = TCP_RECONNECT \<and>
       MQTT_Task (env_ssl env) (env_zalloc env) (env_port env) g stack c' = Some c'' \<and>
       cl_connState c'' = TCP_CONNECTING \<and> cl_pCon c'' \<noteq> None \<and> client_live env c''"
    using st c3 by (auto simp: MQTT_Task_def client_simps)
qed

theorem reconnects_witness:
  "\<exists>c' c''. ticks False True 6 (demo_in TCP_RECONNECT_REQ) = Some c' \<and> cl_connState c' = TCP_RECONNECT \<and>
     MQTT_Task False zalloc_ok 50000 0 (replicate MQTT_BUF_SIZE 0) c' = Some c'' \<and>
     cl_connState c'' = TCP_CONNECTING"
proof -
  have l: "client_live demo_env (demo_in TCP_RECONNECT_REQ)" by (rule demo_in_live) (simp add: used_states_def)
  from reconnects [OF l demo_env_ok, of "replicate MQTT_BUF_SIZE 0" False True 0] show ?thesis
    by (auto simp: demo_env_def)
qed

text \<open>
  C12: a connected client whose keepalive is \<open>K\<close> seconds sends nothing on its own for \<open>K\<close> ticks, and
  at the next tick sends one PINGREQ packet and starts to count again.
\<close>

theorem keepalive_ping:
  assumes "client_live env c" and "cl_connState c = MQTT_DATA" and "cl_security c = 0"
    and "cl_keepAliveTick c = 0" and "ci_keepalive (cl_connect_info c) = int K" and "K < 2 ^ 31"
  shows "(\<forall>k \<le> K. \<exists>c'. ticks ssl True k c = Some c' \<and> cl_trace c' = cl_trace c) \<and>
    (\<exists>c'. ticks ssl True (Suc K) c = Some c' \<and> cl_connState c' = MQTT_DATA \<and> cl_keepAliveTick c' = 0 \<and>
       cl_trace c' = cl_trace c @ [Ev_send (packet MQTT_MSG_TYPE_PINGREQ 0 0 0 []), Ev_post])"
proof
  note t = ticks_keepalive [OF assms(1,2,4-6), where ssl = ssl and sent = True]
  show "\<forall>k \<le> K. \<exists>c'. ticks ssl True k c = Some c' \<and> cl_trace c' = cl_trace c" using t by blast
  from t [of K] obtain c1 where c1: "ticks ssl True K c = Some c1" "client_live env c1"
    "cl_connState c1 = MQTT_DATA" "cl_keepAliveTick c1 = of_nat K" "cl_trace c1 = cl_trace c"
    "cl_security c1 = 0" "cl_connect_info c1 = cl_connect_info c" using assms(3) by auto
  have "unat (of_nat K :: u32) = K" "unat (of_nat (Suc K) :: u32) = Suc K"
    using assms(6) by (simp_all add: unat_of_nat del: of_nat_Suc)
  then have due: "cl_keepAliveTick c1 + 1 > word_of_int (ci_keepalive (cl_connect_info c1))"
    by (simp add: c1(4,7) assms(5) word_less_nat_alt add.commute)
  from timer_keepalive [OF live_ready [OF c1(2)] c1(3) due, of ssl True] c1
  show "\<exists>c'. ticks ssl True (Suc K) c = Some c' \<and> cl_connState c' = MQTT_DATA \<and> cl_keepAliveTick c' = 0 \<and>
       cl_trace c' = cl_trace c @ [Ev_send (packet MQTT_MSG_TYPE_PINGREQ 0 0 0 []), Ev_post]"
    by (auto simp: MQTT_MSG_TYPE_PINGREQ_def)
qed

theorem keepalive_ping_witness:
  "\<exists>c'. ticks False True 3 (demo_in MQTT_DATA) = Some c' \<and>
        cl_trace c' = [Ev_post, Ev_send (packet MQTT_MSG_TYPE_PINGREQ 0 0 0 []), Ev_post]"
proof -
  have l: "client_live demo_env (demo_in MQTT_DATA)" by (rule demo_in_live) (simp add: used_states_def)
  from keepalive_ping [OF l, of 2 False] show ?thesis by (auto simp del: ticks.simps)
qed

text \<open>
  C23: the first segment of a PUBLISH packet of 65536 bytes makes the receive callback loop for
  ever: the 16-bit \<open>message_length\<close> of the packet is 0, so the loop \<open>READPACKET\<close> goes on with the same
  bytes. The packet is legal, so any publisher of a subscribed topic can hang the device.
\<close>

theorem recv_hangs:
  assumes "client_ready c" and "cl_connState c = MQTT_DATA"
    and "bytes = 0x30 # 0xFC # 0xFF # 0x03 # xs" and "length bytes < MQTT_BUF_SIZE"
  shows "mqtt_tcpclient_recv fuel ssl (of_nat (length bytes)) bytes c = Out_of_fuel"
  using assms by (rule hang)

theorem recv_hangs_witness:
  "mqtt_tcpclient_recv 1000 False 6 [0x30, 0xFC, 0xFF, 0x03, 0, 1] (demo_in MQTT_DATA) = Out_of_fuel"
proof -
  have l: "client_ready (demo_in MQTT_DATA)" by (rule live_ready [OF demo_in_live]) (simp add: used_states_def)
  from recv_hangs [OF l _ refl, of "[0, 1]" 1000 False] show ?thesis by (simp add: MQTT_BUF_SIZE_def)
qed

text \<open>
  A segment that starts with a SUBACK, UNSUBACK, PUBACK, PUBCOMP or PINGRESP packet is dropped
  with everything behind it: nothing is delivered and nothing is queued, even if the confirmation
  is followed by PUBLISH packets (as it is when a subscribed topic has a retained message).
\<close>

theorem confirmation_drops_segment:
  assumes "client_ready c" and "cl_connState c = MQTT_DATA"
    and "length bytes < MQTT_BUF_SIZE" "bytes \<noteq> []" and "prefix_ok bytes (length bytes)"
    and "uint (hd bytes) div 16 \<in> {MQTT_MSG_TYPE_PUBACK, MQTT_MSG_TYPE_PUBCOMP, MQTT_MSG_TYPE_SUBACK,
           MQTT_MSG_TYPE_UNSUBACK, MQTT_MSG_TYPE_PINGRESP}"
  shows "\<exists>c'. mqtt_tcpclient_recv (Suc fuel) ssl (of_nat (length bytes)) bytes c = Returns c' \<and>
     cl_connState c' = MQTT_DATA \<and> cl_trace c' = cl_trace c @ [Ev_post] \<and> cl_msgQueue c' = cl_msgQueue c"
  using recv_confirmation [OF assms(1-5)] assms(6) by (auto simp: msg_type_defs)

theorem confirmation_drops_segment_witness:
  "\<exists>c'. mqtt_tcpclient_recv 1 False (of_nat (length ([0x90, 3, 0, 1, 0] @ pub_packet ([97], [1], 1, 7, 0))))
      ([0x90, 3, 0, 1, 0] @ pub_packet ([97], [1], 1, 7, 0)) (demo_in MQTT_DATA) = Returns c' \<and>
    cl_trace c' = [Ev_post, Ev_post]"
proof -
  let ?b = "[0x90, 3, 0, 1, 0] @ pub_packet ([97], [1], 1, 7, 0)"
  have l: "client_ready (demo_in MQTT_DATA)" by (rule live_ready [OF demo_in_live]) (simp add: used_states_def)
  have p: "prefix_ok ?b (length ?b)"
    by (rule prefix_ok_short) (auto intro!: bexI [of _ 1])
  have len: "length ?b < MQTT_BUF_SIZE"
    by (simp add: packet_def publish_payload_def rem_len_def MQTT_BUF_SIZE_def)
  from confirmation_drops_segment [OF l _ len _ p, of 0 False] show ?thesis
    by (auto simp: msg_type_defs)
qed

end
