(* ===== verification/Airkiss.thy ===== *)
theory Airkiss
  imports Prelude
begin

text \<open>
  The decoder of lib/airkiss/airkiss.c. A phone that wants to tell the device the password of its
  network sends broadcast frames whose contents the device cannot read; the information is in the
  lengths of the frames. The state is the file's static variables, and one call of \<open>airkiss_recv\<close>
  handles one frame. \<open>None\<close> is undefined behaviour.
\<close>

section \<open>State\<close>

datatype air_kiss_state =
  AIRKISS_STATE_STOPED | AIRKISS_STATE_IDLE | AIRKISS_STATE_SRC_LOCKED
| AIRKISS_STATE_MAGIC_CODE_COMPLETE | AIRKISS_STATE_PREFIX_CODE_COMPLETE | AIRKISS_STATE_COMPLETE

datatype airkiss_status =
  AIRKISS_STATUS_CONTINUE | AIRKISS_STATUS_CHANNEL_LOCKED | AIRKISS_STATUS_COMPLETE

definition PASSWORD_MAX_LEN :: u8 where "PASSWORD_MAX_LEN = 32"
definition USR_DATA_BUFF_MAX_SIZE :: nat where "USR_DATA_BUFF_MAX_SIZE = 65"
definition MAX_GUIDE_RECORD :: nat where "MAX_GUIDE_RECORD = 4"
definition MAX_MAGIC_CODE_RECORD :: nat where "MAX_MAGIC_CODE_RECORD = 4"
definition MAX_PREFIX_CODE_RECORD :: nat where "MAX_PREFIX_CODE_RECORD = 4"
definition MAX_SEQ_CODE_RECORD :: nat where "MAX_SEQ_CODE_RECORD = 6"

record airkiss_context =
  ctx_dummyap :: "int list"
  ctx_dummy :: "int list"

text \<open>
  The union \<open>data\<close> of four structs that each hold an array of 16-bit numbers is the longest of the
  arrays. The pointer \<open>pwd\<close> is null or points to \<open>usr_data\<close>, the pointer \<open>ssid\<close> is never set.
\<close>

record airkiss_local_context =
  ak_pwd :: bool
  ak_pswd_len :: u8
  ak_ssid_len :: u8
  ak_random_num :: u8
  ak_ssid_crc :: u8
  ak_usr_data :: "u8 list"
  ak_airkiss_state :: air_kiss_state
  ak_need_seq :: u8
  ak_base_len :: u8
  ak_total_len :: u8
  ak_pswd_lencrc :: u8
  ak_seq_success_map :: u16
  ak_seq_success_map_cmp :: u16
  ak_data :: "u16 list"

text \<open>The static variables: the pointer to the caller's context (null at first) and the local context.\<close>

record airkiss =
  akcontex :: "airkiss_context option"
  akl :: airkiss_local_context

section \<open>Checksums\<close>

text \<open>\<open>i\<close> counts the rounds that are left.\<close>

fun crc_loop :: "nat \<Rightarrow> u8 \<Rightarrow> u8 \<Rightarrow> u8" where
  "crc_loop 0 crc abyte = crc"
| "crc_loop (Suc i) crc abyte =
     (let crc = (if (crc XOR abyte) AND 0x01 \<noteq> 0
                 then drop_bit 1 (crc XOR 0x18) OR 0x80 else drop_bit 1 crc)
      in crc_loop i crc (drop_bit 1 abyte))"

definition calcrc_1byte :: "u8 \<Rightarrow> u8" where
  "calcrc_1byte abyte = crc_loop 8 0 abyte"

fun crc_bytes_loop :: "u8 \<Rightarrow> u8 list \<Rightarrow> u8" where
  "crc_bytes_loop crc [] = crc"
| "crc_bytes_loop crc (b # bs) = crc_bytes_loop (calcrc_1byte (crc XOR b)) bs"

definition calcrc_bytes :: "u8 list \<Rightarrow> u8" where
  "calcrc_bytes p = crc_bytes_loop 0 p"

section \<open>Filters\<close>

text \<open>
  \<open>frame\<close> is what can be read at the pointer, \<open>sz\<close> the length the caller gives (a sniffer passes
  the length of the frame on the air with a shorter buffer). The address fields are the bytes 4 to
  21; the frame's header is kept in \<open>dummy\<close> even when it does not match.
\<close>

definition airkiss_filter :: "u8 list \<Rightarrow> int \<Rightarrow> airkiss \<Rightarrow> (int \<times> airkiss) option" where
  "airkiss_filter frame sz s =
     (if sz < 24 then Some (0, s)
      else do { hdr \<leftarrow> rd_seg frame 0 24;
                ctx \<leftarrow> akcontex s;
                dummy \<leftarrow> wr_seg (ctx_dummy ctx) 0 (map uint hdr);
                here \<leftarrow> rd_seg dummy 4 18;
                ap \<leftarrow> rd_seg (ctx_dummyap ctx) 4 18;
                Some (if here = ap then 1 else 0, s\<lparr>akcontex := Some (ctx\<lparr>ctx_dummy := dummy\<rparr>)\<rparr>) })"

definition airkiss_discover_filter :: "u8 list \<Rightarrow> int \<Rightarrow> int" where
  "airkiss_discover_filter frame sz = (if sz < 50 then 0 else 1)"

section \<open>Records of lengths\<close>

text \<open>\<open>i\<close> is the loop variable, the second argument the number of rounds left.\<close>

fun move_ones_loop :: "nat \<Rightarrow> nat \<Rightarrow> u16 list \<Rightarrow> u16 list option" where
  "move_ones_loop i 0 r = Some r"
| "move_ones_loop i (Suc k) r = do { x \<leftarrow> rd r (i + 1); r \<leftarrow> wr r i x; move_ones_loop (i + 1) k r }"

definition airkiss_record_move_ones :: "u16 list \<Rightarrow> nat \<Rightarrow> u16 list option" where
  "airkiss_record_move_ones record_base record_num = move_ones_loop 0 record_num record_base"

text \<open>The first two statements of the four handlers: a new entry at the end, and the shift.\<close>

definition record_length :: "nat \<Rightarrow> u16 \<Rightarrow> airkiss_local_context \<Rightarrow> airkiss_local_context option" where
  "record_length n len c =
     do { d \<leftarrow> wr (ak_data c) n len;
          d \<leftarrow> airkiss_record_move_ones d n;
          Some (c\<lparr>ak_data := d\<rparr>) }"

definition resest_airkiss_data :: "airkiss_local_context \<Rightarrow> airkiss_local_context" where
  "resest_airkiss_data c = c\<lparr>ak_data := replicate 7 0\<rparr>"

definition set_ak_state :: "air_kiss_state \<Rightarrow> airkiss_local_context \<Rightarrow> airkiss_local_context" where
  "set_ak_state st c = c\<lparr>ak_airkiss_state := st\<rparr>"

definition airkiss_add_seq_data ::
  "u8 list \<Rightarrow> nat \<Rightarrow> airkiss_local_context \<Rightarrow> airkiss_local_context option" where
  "airkiss_add_seq_data data seq c =
     (if seq < unat (ak_need_seq c) \<and> seq * 4 + 4 \<le> USR_DATA_BUFF_MAX_SIZE \<and>
         ak_seq_success_map c AND push_bit seq 1 = 0
      then do { bytes \<leftarrow> rd_seg data 0 4;
                ud \<leftarrow> wr_seg (ak_usr_data c) (seq * 4) bytes;
                Some (c\<lparr>ak_usr_data := ud,
                        ak_seq_success_map := ak_seq_success_map c OR push_bit seq 1\<rparr>) }
      else Some c)"

section \<open>The handlers\<close>

definition zero_local :: airkiss_local_context where
  "zero_local =
     \<lparr>ak_pwd = False, ak_pswd_len = 0, ak_ssid_len = 0, ak_random_num = 0, ak_ssid_crc = 0,
      ak_usr_data = replicate 65 0, ak_airkiss_state = AIRKISS_STATE_STOPED, ak_need_seq = 0,
      ak_base_len = 0, ak_total_len = 0, ak_pswd_lencrc = 0, ak_seq_success_map = 0,
      ak_seq_success_map_cmp = 0, ak_data = replicate 7 0\<rparr>"

text \<open>A null \<open>context\<close> is None; \<open>config\<close> tells whether the configuration is given.\<close>

definition airkiss_init :: "airkiss_context option \<Rightarrow> bool \<Rightarrow> airkiss \<Rightarrow> int \<times> airkiss" where
  "airkiss_init context config s =
     (if context = None \<or> \<not> config then (-1, s)
      else (0, \<lparr>akcontex = context, akl = set_ak_state AIRKISS_STATE_IDLE zero_local\<rparr>))"

definition airkiss_recv_discover :: "u8 list \<Rightarrow> u16 \<Rightarrow> airkiss \<Rightarrow> airkiss option" where
  "airkiss_recv_discover frame len s =
     do { c \<leftarrow> record_length MAX_GUIDE_RECORD len (akl s);
          let r = (\<lambda>i. uint (ak_data c ! i));
          if r 1 - r 0 = 1 \<and> r 2 - r 1 = 1 \<and> r 3 - r 2 = 1 then
            do { let c = c\<lparr>ak_base_len := word_of_int (r 0 - 1)\<rparr>;
                 let c = resest_airkiss_data (set_ak_state AIRKISS_STATE_SRC_LOCKED c);
                 hdr \<leftarrow> rd_seg frame 0 24;
                 ctx \<leftarrow> akcontex s;
                 ap \<leftarrow> wr_seg (ctx_dummyap ctx) 0 (map uint hdr);
                 Some (s\<lparr>akl := c, akcontex := Some (ctx\<lparr>ctx_dummyap := ap\<rparr>)\<rparr>) }
          else Some (s\<lparr>akl := c\<rparr>) }"

text \<open>Two 4-bit halves of a byte in two records.\<close>

definition nibbles :: "u16 \<Rightarrow> u16 \<Rightarrow> u8" where
  "nibbles hi lo = ucast (push_bit 4 (hi AND 0x000F) + (lo AND 0x000F))"

definition airkiss_process_magic_code ::
  "u16 \<Rightarrow> airkiss_local_context \<Rightarrow> airkiss_local_context option" where
  "airkiss_process_magic_code len c =
     do { c \<leftarrow> record_length MAX_MAGIC_CODE_RECORD (len - ucast (ak_base_len c)) c;
          let r = (\<lambda>i. ak_data c ! i);
          Some (if r 0 AND 0x01f0 = 0x0000 \<and> r 1 AND 0x01f0 = 0x0010 \<and>
                   r 2 AND 0x01f0 = 0x0020 \<and> r 3 AND 0x01f0 = 0x0030
                then resest_airkiss_data (set_ak_state AIRKISS_STATE_MAGIC_CODE_COMPLETE
                       (c\<lparr>ak_total_len := nibbles (r 0) (r 1), ak_ssid_crc := nibbles (r 2) (r 3)\<rparr>))
                else c) }"

definition airkiss_process_prefix_code ::
  "u16 \<Rightarrow> airkiss_local_context \<Rightarrow> airkiss_local_context option" where
  "airkiss_process_prefix_code len c =
     do { c \<leftarrow> record_length MAX_PREFIX_CODE_RECORD (len - ucast (ak_base_len c)) c;
          let r = (\<lambda>i. ak_data c ! i);
          Some (if r 0 AND 0x01f0 = 0x0040 \<and> r 1 AND 0x01f0 = 0x0050 \<and>
                   r 2 AND 0x01f0 = 0x0060 \<and> r 3 AND 0x01f0 = 0x0070
                then
                  (let l = nibbles (r 0) (r 1);
                       l = (if l > PASSWORD_MAX_LEN then 0 else l);
                       c = c\<lparr>ak_pswd_len := l, ak_pswd_lencrc := nibbles (r 2) (r 3)\<rparr>
                   in if calcrc_1byte (ak_pswd_len c) = ak_pswd_lencrc c
                      then
                        (let c = set_ak_state AIRKISS_STATE_PREFIX_CODE_COMPLETE c;
                             n = (uint (ak_pswd_len c) + 1 + 3) div 4
                         in resest_airkiss_data
                              (c\<lparr>ak_need_seq := word_of_int n,
                                 ak_seq_success_map_cmp :=
                                   word_of_int (push_bit (nat n) 1 - 1)\<rparr>))
                      else resest_airkiss_data c)
                else c) }"

definition airkiss_process_sequence ::
  "u16 \<Rightarrow> airkiss_local_context \<Rightarrow> airkiss_local_context option" where
  "airkiss_process_sequence len c =
     do { c \<leftarrow> record_length MAX_SEQ_CODE_RECORD (len - ucast (ak_base_len c)) c;
          let r = (\<lambda>i. ak_data c ! i);
          if r 0 AND 0x180 = 0x80 \<and> r 1 AND 0x180 = 0x80 \<and> r 2 AND 0x0100 = 0x0100 \<and>
             r 3 AND 0x0100 = 0x0100 \<and> r 4 AND 0x0100 = 0x0100 \<and> r 5 AND 0x0100 = 0x0100 \<and>
             uint (r 1 AND 0x7F) \<le> uint (drop_bit 2 (ak_total_len c)) + 1
          then
            (let tempBuffer = [ucast (r 0 AND 0x7F), ucast (r 1 AND 0x7F), ucast (r 2 AND 0xFF),
                               ucast (r 3 AND 0xFF), ucast (r 4 AND 0xFF), ucast (r 5 AND 0xFF)] :: u8 list
             in if tempBuffer ! 0 = calcrc_bytes (tl tempBuffer) AND 0x7F
                then
                  do { c \<leftarrow> airkiss_add_seq_data (drop 2 tempBuffer) (unat (tempBuffer ! 1)) c;
                       let c = resest_airkiss_data c;
                       if ak_seq_success_map_cmp c = ak_seq_success_map c
                       then do { rnd \<leftarrow> rd (ak_usr_data c) (unat (ak_pswd_len c));
                                 ud \<leftarrow> wr (ak_usr_data c) (unat (ak_pswd_len c)) 0;
                                 Some (set_ak_state AIRKISS_STATE_COMPLETE
                                         (c\<lparr>ak_random_num := rnd, ak_usr_data := ud, ak_pwd := True\<rparr>)) }
                       else Some c }
                else Some c)
          else Some c }"

definition with_local ::
  "(airkiss_local_context \<Rightarrow> airkiss_local_context option) \<Rightarrow> airkiss \<Rightarrow> airkiss option" where
  "with_local f s = do { c \<leftarrow> f (akl s); Some (s\<lparr>akl := c\<rparr>) }"

definition airkiss_recv :: "u8 list \<Rightarrow> u16 \<Rightarrow> airkiss \<Rightarrow> (airkiss_status \<times> airkiss) option" where
  "airkiss_recv frame len s =
     do { (ok, s) \<leftarrow> (if ak_airkiss_state (akl s) \<noteq> AIRKISS_STATE_IDLE
                      then airkiss_filter frame (uint len) s else Some (1, s));
          if ok = 0 then Some (AIRKISS_STATUS_CONTINUE, s)
          else
            (case ak_airkiss_state (akl s) of
               AIRKISS_STATE_IDLE \<Rightarrow>
                 if airkiss_discover_filter frame (uint len) \<noteq> 0
                 then do { s \<leftarrow> airkiss_recv_discover frame len s;
                           Some (if ak_airkiss_state (akl s) = AIRKISS_STATE_SRC_LOCKED
                                 then AIRKISS_STATUS_CHANNEL_LOCKED else AIRKISS_STATUS_CONTINUE, s) }
                 else Some (AIRKISS_STATUS_CONTINUE, s)
             | AIRKISS_STATE_SRC_LOCKED \<Rightarrow>
                 do { s \<leftarrow> with_local (airkiss_process_magic_code len) s;
                      Some (AIRKISS_STATUS_CONTINUE, s) }
             | AIRKISS_STATE_MAGIC_CODE_COMPLETE \<Rightarrow>
                 do { s \<leftarrow> with_local (airkiss_process_prefix_code len) s;
                      Some (AIRKISS_STATUS_CONTINUE, s) }
             | AIRKISS_STATE_PREFIX_CODE_COMPLETE \<Rightarrow>
                 do { s \<leftarrow> with_local (airkiss_process_sequence len) s;
                      Some (if ak_airkiss_state (akl s) = AIRKISS_STATE_COMPLETE
                            then AIRKISS_STATUS_COMPLETE else AIRKISS_STATUS_CONTINUE, s) }
             | _ \<Rightarrow> Some (AIRKISS_STATUS_CONTINUE, s\<lparr>akl := set_ak_state AIRKISS_STATE_IDLE (akl s)\<rparr>)) }"

text \<open>
  The result is a copy of the first fields of the local context; the password is what a reader of
  the string finds at \<open>pwd\<close>.
\<close>

record airkiss_result =
  res_pwd :: "cstring option"
  res_pwd_length :: u8
  res_ssid_length :: u8
  res_random :: u8
  res_reserved :: u8

definition airkiss_get_result :: "airkiss \<Rightarrow> int \<times> airkiss_result" where
  "airkiss_get_result s =
     (let c = akl s
      in (0, \<lparr>res_pwd = (if ak_pwd c then Some (takeWhile (\<lambda>b. b \<noteq> 0) (ak_usr_data c)) else None),
              res_pwd_length = ak_pswd_len c, res_ssid_length = ak_ssid_len c,
              res_random = ak_random_num c, res_reserved = ak_ssid_crc c\<rparr>))"

text \<open>The caller passes the context it passed to \<open>airkiss_init\<close>.\<close>

definition airkiss_change_channel :: "airkiss \<Rightarrow> airkiss option" where
  "airkiss_change_channel s =
     do { ctx \<leftarrow> akcontex s;
          Some (s\<lparr>akcontex := Some \<lparr>ctx_dummyap = replicate 26 0, ctx_dummy = replicate 32 0\<rparr>,
                  akl := resest_airkiss_data (akl s)\<rparr>) }"

end
