(* ===== verification/Airkiss_Decode.thy ===== *)
theory Airkiss_Decode
  imports Airkiss
begin

text \<open>
  What the decoder of \<open>Airkiss\<close> does: the records as bit fields, the sender's codes and the steps
  they cause, the collection of the packets, the frames of other sources, the guide code; then the
  theorems on the password, on long base lengths, on the checksum and on memory safety.
\<close>

section \<open>Bit fields of a length\<close>

lemma u16_field: "unat ((w :: u16) AND push_bit k (mask n)) = (unat w div 2 ^ k mod 2 ^ n) * 2 ^ k" if "k + n \<le> 16"
proof -
  have "w AND push_bit k (mask n) = push_bit k (take_bit n (drop_bit k w))"
    by (rule bit_word_eqI) (auto simp: bit_simps)
  moreover have "take_bit 16 (unat w) = unat w"
    using unat_u16_bound [of w] by (simp add: take_bit_nat_eq_self_iff)
  ultimately have "unat (w AND push_bit k (mask n)) = take_bit 16 (push_bit k (take_bit n (drop_bit k (unat w))))"
    by (simp add: unsigned_push_bit_eq unsigned_take_bit_eq unsigned_drop_bit_eq)
  also have "take_bit n (drop_bit k (unat w)) < 2 ^ n" by simp
  then have "push_bit k (take_bit n (drop_bit k (unat w))) < 2 ^ (k + n)"
    by (simp add: push_bit_eq_mult power_add)
  then have "push_bit k (take_bit n (drop_bit k (unat w))) < 2 ^ 16"
    by (rule less_le_trans) (rule power_increasing [OF that], simp)
  then have "take_bit 16 (push_bit k (take_bit n (drop_bit k (unat w)))) = push_bit k (take_bit n (drop_bit k (unat w)))"
    by (simp only: take_bit_nat_eq_self)
  finally show ?thesis by (simp add: push_bit_eq_mult take_bit_eq_mod drop_bit_eq_div)
qed

lemma airkiss_masks:
  "(0x01f0 :: u16) = push_bit 4 (mask 5)" "(0x000F :: u16) = push_bit 0 (mask 4)"
  "(0x180 :: u16) = push_bit 7 (mask 2)" "(0x0100 :: u16) = push_bit 8 (mask 1)"
  "(0x7F :: u16) = push_bit 0 (mask 7)" "(0xFF :: u16) = push_bit 0 (mask 8)"
  by (simp_all add: mask_eq_exp_minus_1)

lemma unat_fields:
  fixes w :: u16
  shows "unat (w AND 0x01f0) = (unat w div 16 mod 32) * 16" "unat (w AND 0x000F) = unat w mod 16"
    "unat (w AND 0x180) = (unat w div 128 mod 4) * 128" "unat (w AND 0x0100) = (unat w div 256 mod 2) * 256"
    "unat (w AND 0x7F) = unat w mod 128" "unat (w AND 0xFF) = unat w mod 256"
  unfolding airkiss_masks by (simp_all only: u16_field) simp_all

lemma test_fields:
  fixes w :: u16
  shows "w AND 0x01f0 = 0x0000 \<longleftrightarrow> unat w div 16 mod 32 = 0" "w AND 0x01f0 = 0x0010 \<longleftrightarrow> unat w div 16 mod 32 = 1"
    "w AND 0x01f0 = 0x0020 \<longleftrightarrow> unat w div 16 mod 32 = 2" "w AND 0x01f0 = 0x0030 \<longleftrightarrow> unat w div 16 mod 32 = 3"
    "w AND 0x01f0 = 0x0040 \<longleftrightarrow> unat w div 16 mod 32 = 4" "w AND 0x01f0 = 0x0050 \<longleftrightarrow> unat w div 16 mod 32 = 5"
    "w AND 0x01f0 = 0x0060 \<longleftrightarrow> unat w div 16 mod 32 = 6" "w AND 0x01f0 = 0x0070 \<longleftrightarrow> unat w div 16 mod 32 = 7"
    "w AND 0x180 = 0x80 \<longleftrightarrow> unat w div 128 mod 4 = 1" "w AND 0x0100 = 0x0100 \<longleftrightarrow> unat w div 256 mod 2 = 1"
  by (simp_all only: word_unat_eq_iff unat_fields) simp_all

text \<open>What the handlers see of a frame of length \<open>b + v\<close> with base length \<open>b\<close>.\<close>

lemma net_length:
  "b < 256 \<Longrightarrow> of_nat (b + v) - ucast (of_nat b :: u8) = (of_nat v :: u16)"
proof -
  assume "b < 256"
  then have "ucast (of_nat b :: u8) = (of_nat b :: u16)"
    by (simp add: word_unat_eq_iff unsigned_ucast_eq unat_of_nat take_bit_eq_mod)
  then show ?thesis by simp
qed

lemma nibbles_value: "nibbles hi lo = of_nat (16 * (unat hi mod 16) + unat lo mod 16)"
proof -
  let ?x = "unat hi mod 16" and ?y = "unat lo mod 16"
  have b: "?x < 16" "?y < 16" by simp_all
  have "unat (push_bit 4 (hi AND 0x000F)) = 16 * ?x"
    using b by (simp only: unsigned_push_bit_eq unat_fields) (simp add: push_bit_eq_mult take_bit_eq_mod)
  moreover have "16 * ?x + ?y < 65536" using b by linarith
  ultimately have "unat (push_bit 4 (hi AND 0x000F) + (lo AND 0x000F)) = 16 * ?x + ?y"
    by (simp add: unat_word_ariths unat_fields)
  then show ?thesis
    by (simp only: nibbles_def word_unat_eq_iff unsigned_ucast_eq unat_u8_of_nat) (simp add: take_bit_eq_mod)
qed

text \<open>The shift of the records.\<close>

lemma record_length_4:
  "ak_data c = [d0, d1, d2, d3, d4, d5, d6] \<Longrightarrow>
   record_length 4 len c = Some (c\<lparr>ak_data := [d1, d2, d3, len, len, d5, d6]\<rparr>)"
  by (simp add: record_length_def airkiss_record_move_ones_def numeral_eq_Suc rd_def wr_def)

lemma record_length_6:
  "ak_data c = [d0, d1, d2, d3, d4, d5, d6] \<Longrightarrow>
   record_length 6 len c = Some (c\<lparr>ak_data := [d1, d2, d3, d4, d5, len, len]\<rparr>)"
  by (simp add: record_length_def airkiss_record_move_ones_def numeral_eq_Suc rd_def wr_def)

text \<open>What one frame of the locked source does to the local context.\<close>

definition local_step :: "u16 \<Rightarrow> airkiss_local_context \<Rightarrow> airkiss_local_context option" where
  "local_step len c =
     (case ak_airkiss_state c of
        AIRKISS_STATE_SRC_LOCKED \<Rightarrow> airkiss_process_magic_code len c
      | AIRKISS_STATE_MAGIC_CODE_COMPLETE \<Rightarrow> airkiss_process_prefix_code len c
      | AIRKISS_STATE_PREFIX_CODE_COMPLETE \<Rightarrow> airkiss_process_sequence len c
      | _ \<Rightarrow> None)"

fun local_run :: "u16 list \<Rightarrow> airkiss_local_context \<Rightarrow> airkiss_local_context option" where
  "local_run [] c = Some c"
| "local_run (l # ls) c =
     (if ak_airkiss_state c = AIRKISS_STATE_COMPLETE then Some c
      else do { c \<leftarrow> local_step l c; local_run ls c })"

lemma local_run_append:
  "local_run (xs @ ys) c = do { c \<leftarrow> local_run xs c; local_run ys c }"
proof (induction xs arbitrary: c)
  case (Cons x xs)
  have "ak_airkiss_state c = AIRKISS_STATE_COMPLETE \<Longrightarrow> local_run ys c = Some c" for c
    by (cases ys) auto
  with Cons show ?case by (auto intro: Option.bind_cong)
qed simp

text \<open>The sender: the numbers that are added to the base length.\<close>

definition magic_code :: "nat \<Rightarrow> nat \<Rightarrow> nat list" where
  "magic_code tot crc = [tot div 16, 0x10 + tot mod 16, 0x20 + crc div 16, 0x30 + crc mod 16]"

definition prefix_code :: "nat \<Rightarrow> nat list" where
  "prefix_code n = (let k = unat (calcrc_1byte (of_nat n))
     in [0x40 + n div 16, 0x50 + n mod 16, 0x60 + k div 16, 0x70 + k mod 16])"

definition seq_code :: "nat \<Rightarrow> u8 list \<Rightarrow> nat list" where
  "seq_code i bs =
     [0x80 + unat (calcrc_bytes (of_nat i # bs)) mod 128, 0x80 + i] @ map (\<lambda>d. 0x100 + unat d) bs"

definition on_air :: "nat \<Rightarrow> nat list \<Rightarrow> u16 list" where
  "on_air b = map (\<lambda>v. of_nat (b + v))"

lemma length_7E:
  assumes "length d = 7"
  obtains d0 d1 d2 d3 d4 d5 d6 where "d = [d0, d1, d2, d3, d4, d5, d6]"
  using assms by (auto simp: numeral_eq_Suc length_Suc_conv)

lemma magic_step_net:
  assumes "ak_data c = [d0, d1, d2, d3, d4, d5, d6]" and "len - ucast (ak_base_len c) = w"
  shows "airkiss_process_magic_code len c = Some
     (if unat d1 div 16 mod 32 = 0 \<and> unat d2 div 16 mod 32 = 1 \<and> unat d3 div 16 mod 32 = 2 \<and> unat w div 16 mod 32 = 3
      then c\<lparr>ak_total_len := nibbles d1 d2, ak_ssid_crc := nibbles d3 w,
             ak_airkiss_state := AIRKISS_STATE_MAGIC_CODE_COMPLETE, ak_data := replicate 7 0\<rparr>
      else c\<lparr>ak_data := [d1, d2, d3, w, w, d5, d6]\<rparr>)"
  using assms
  by (simp add: airkiss_process_magic_code_def record_length_4 MAX_MAGIC_CODE_RECORD_def test_fields
      resest_airkiss_data_def set_ak_state_def Let_def)

lemma magic_step:
  assumes "ak_data c = [d0, d1, d2, d3, d4, d5, d6]" and "b < 256" and "ak_base_len c = of_nat b"
  shows "airkiss_process_magic_code (of_nat (b + v)) c = Some
     (if unat d1 div 16 mod 32 = 0 \<and> unat d2 div 16 mod 32 = 1 \<and> unat d3 div 16 mod 32 = 2 \<and>
         unat (of_nat v :: u16) div 16 mod 32 = 3
      then c\<lparr>ak_total_len := nibbles d1 d2, ak_ssid_crc := nibbles d3 (of_nat v),
             ak_airkiss_state := AIRKISS_STATE_MAGIC_CODE_COMPLETE, ak_data := replicate 7 0\<rparr>
      else c\<lparr>ak_data := [d1, d2, d3, of_nat v, of_nat v, d5, d6]\<rparr>)"
  using assms net_length [of b v] by (intro magic_step_net) (simp_all del: of_nat_add)

lemma prefix_step:
  assumes "ak_data c = [d0, d1, d2, d3, d4, d5, d6]" and "b < 256" and "ak_base_len c = of_nat b"
  shows "airkiss_process_prefix_code (of_nat (b + v)) c = Some
     (if unat d1 div 16 mod 32 = 4 \<and> unat d2 div 16 mod 32 = 5 \<and> unat d3 div 16 mod 32 = 6 \<and>
         unat (of_nat v :: u16) div 16 mod 32 = 7
      then (let l = (if nibbles d1 d2 > PASSWORD_MAX_LEN then 0 else nibbles d1 d2);
                k = nibbles d3 (of_nat v);
                c = c\<lparr>ak_pswd_len := l, ak_pswd_lencrc := k, ak_data := replicate 7 0\<rparr>;
                n = (uint l + 4) div 4
            in if calcrc_1byte l = k
               then c\<lparr>ak_airkiss_state := AIRKISS_STATE_PREFIX_CODE_COMPLETE, ak_need_seq := word_of_int n,
                       ak_seq_success_map_cmp := word_of_int (push_bit (nat n) 1 - 1)\<rparr>
               else c)
      else c\<lparr>ak_data := [d1, d2, d3, of_nat v, of_nat v, d5, d6]\<rparr>)"
  using assms net_length [of b v]
  by (simp add: airkiss_process_prefix_code_def record_length_4 MAX_PREFIX_CODE_RECORD_def test_fields
      resest_airkiss_data_def set_ak_state_def Let_def add.assoc del: of_nat_add)

definition seq_fit :: "u16 list \<Rightarrow> bool" where
  "seq_fit r \<longleftrightarrow> unat (r ! 0) div 128 mod 4 = 1 \<and> unat (r ! 1) div 128 mod 4 = 1 \<and>
     unat (r ! 2) div 256 mod 2 = 1 \<and> unat (r ! 3) div 256 mod 2 = 1 \<and>
     unat (r ! 4) div 256 mod 2 = 1 \<and> unat (r ! 5) div 256 mod 2 = 1"

lemma seq_shift:
  assumes "ak_data c = [d0, d1, d2, d3, d4, d5, d6]" and "b < 256" and "ak_base_len c = of_nat b"
    and "\<not> seq_fit [d1, d2, d3, d4, d5, of_nat v]"
  shows "airkiss_process_sequence (of_nat (b + v)) c = Some (c\<lparr>ak_data := [d1, d2, d3, d4, d5, of_nat v, of_nat v]\<rparr>)"
proof -
  define r where "r = [d1, d2, d3, d4, d5, of_nat v :: u16, of_nat v]"
  have c: "record_length 6 (of_nat (b + v) - ucast (ak_base_len c)) c = Some (c\<lparr>ak_data := r\<rparr>)"
    using assms(1-3) net_length [of b v] by (simp add: record_length_6 r_def del: of_nat_add)
  define c' where "c' = c\<lparr>ak_data := r\<rparr>"
  have d: "ak_data c' = r" by (simp add: c'_def)
  have no: "\<not> (r ! 0 AND 0x180 = 0x80 \<and> r ! 1 AND 0x180 = 0x80 \<and> r ! 2 AND 0x0100 = 0x0100 \<and>
      r ! 3 AND 0x0100 = 0x0100 \<and> r ! 4 AND 0x0100 = 0x0100 \<and> r ! 5 AND 0x0100 = 0x0100 \<and> P)" for P
    unfolding test_fields using assms(4) by (auto simp: seq_fit_def r_def)
  have "airkiss_process_sequence (of_nat (b + v)) c = Some c'"
    unfolding airkiss_process_sequence_def MAX_SEQ_CODE_RECORD_def c c'_def [symmetric]
    by (simp only: Option.bind.simps Let_def d if_not_P [OF no])
  then show ?thesis by (simp add: c'_def r_def)
qed

text \<open>A complete packet.\<close>

definition packet_done :: "nat \<Rightarrow> u8 list \<Rightarrow> airkiss_local_context \<Rightarrow> airkiss_local_context option" where
  "packet_done i bs c =
     do { c \<leftarrow> airkiss_add_seq_data bs i c;
          let c = resest_airkiss_data c;
          if ak_seq_success_map_cmp c = ak_seq_success_map c
          then do { rnd \<leftarrow> rd (ak_usr_data c) (unat (ak_pswd_len c));
                    ud \<leftarrow> wr (ak_usr_data c) (unat (ak_pswd_len c)) 0;
                    Some (set_ak_state AIRKISS_STATE_COMPLETE
                            (c\<lparr>ak_random_num := rnd, ak_usr_data := ud, ak_pwd := True\<rparr>)) }
          else Some c }"

lemma seq_match:
  assumes "ak_data c = [d0, d1, d2, d3, d4, d5, d6]" and "b < 256" and "ak_base_len c = of_nat b"
    and "[d1, d2, d3, d4, d5, of_nat v] = map of_nat (seq_code i bs)" and "i < 128" and "length bs = 4"
    and "i \<le> unat (ak_total_len c) div 4 + 1"
  shows "airkiss_process_sequence (of_nat (b + v)) c = packet_done i bs (c\<lparr>ak_data := [d1, d2, d3, d4, d5, of_nat v, of_nat v]\<rparr>)"
proof -
  define r where "r = [d1, d2, d3, d4, d5, of_nat v :: u16, of_nat v]"
  have c: "record_length 6 (of_nat (b + v) - ucast (ak_base_len c)) c = Some (c\<lparr>ak_data := r\<rparr>)"
    using assms(1-3) net_length [of b v] by (simp add: record_length_6 r_def del: of_nat_add)
  obtain b0 b1 b2 b3 where bs: "bs = [b0, b1, b2, b3]"
    using assms(6) by (auto simp: numeral_eq_Suc length_Suc_conv)
  define k where "k = unat (calcrc_bytes (of_nat i # bs)) mod 128"
  have k: "k < 128" by (simp add: k_def)
  have r: "r ! 0 = of_nat (128 + k)" "r ! 1 = of_nat (128 + i)" "r ! 2 = of_nat (256 + unat b0)"
     "r ! 3 = of_nat (256 + unat b1)" "r ! 4 = of_nat (256 + unat b2)" "r ! 5 = of_nat (256 + unat b3)"
    using assms(4) by (simp_all add: r_def seq_code_def bs k_def)
  have u: "unat (r ! 0) = 128 + k" "unat (r ! 1) = 128 + i" "unat (r ! 2) = 256 + unat b0"
     "unat (r ! 3) = 256 + unat b1" "unat (r ! 4) = 256 + unat b2" "unat (r ! 5) = 256 + unat b3"
    unfolding r using k assms(5) unat_u8_bound [of b0] unat_u8_bound [of b1] unat_u8_bound [of b2] unat_u8_bound [of b3]
    by (simp_all only: unat_u16_of_nat) simp_all
  have fit: "unat (r ! 0) div 128 mod 4 = 1" "unat (r ! 1) div 128 mod 4 = 1"
     "unat (r ! 2) div 256 mod 2 = 1" "unat (r ! 3) div 256 mod 2 = 1"
     "unat (r ! 4) div 256 mod 2 = 1" "unat (r ! 5) div 256 mod 2 = 1"
    unfolding u using k assms(5) unat_u8_bound [of b0] unat_u8_bound [of b1] unat_u8_bound [of b2] unat_u8_bound [of b3]
    by simp_all
  have idx: "uint (r ! 1 AND 0x7F) \<le> uint (drop_bit 2 (ak_total_len c)) + 1"
  proof -
    have "unat (drop_bit 2 (ak_total_len c)) = unat (ak_total_len c) div 4"
      using unat_u8_bound [of "ak_total_len c"]
      by (simp only: unsigned_drop_bit_eq) (simp add: drop_bit_eq_div take_bit_eq_mod)
    then show ?thesis
      using assms(5,7) u(2) by (simp add: uint_nat unat_fields del: of_nat_unat)
  qed
  have t: "ucast (r ! 0 AND 0x7F) = (of_nat k :: u8)" "ucast (r ! 1 AND 0x7F) = (of_nat i :: u8)"
     "ucast (r ! 2 AND 0xFF) = b0" "ucast (r ! 3 AND 0xFF) = b1" "ucast (r ! 4 AND 0xFF) = b2" "ucast (r ! 5 AND 0xFF) = b3"
    using k assms(5) u unat_u8_bound [of b0] unat_u8_bound [of b1] unat_u8_bound [of b2] unat_u8_bound [of b3]
    by (simp_all add: word_unat_eq_iff unsigned_ucast_eq unat_fields unat_u8_of_nat take_bit_eq_mod)
  have crc: "of_nat k = calcrc_bytes (of_nat i # bs) AND (0x7F :: u8)"
  proof -
    have "w AND 0x7F = take_bit 7 w" for w :: u8 by (simp add: take_bit_eq_mask mask_eq_exp_minus_1)
    then have "unat (calcrc_bytes (of_nat i # bs) AND (0x7F :: u8)) = k"
      by (simp only: unsigned_take_bit_eq) (simp add: k_def take_bit_eq_mod)
    then show ?thesis using k by (simp only: word_unat_eq_iff unat_u8_of_nat) simp
  qed
  define c' where "c' = c\<lparr>ak_data := r\<rparr>"
  have d: "ak_data c' = r" "ak_total_len c' = ak_total_len c" by (simp_all add: c'_def)
  have yes: "r ! 0 AND 0x180 = 0x80 \<and> r ! 1 AND 0x180 = 0x80 \<and> r ! 2 AND 0x0100 = 0x0100 \<and>
      r ! 3 AND 0x0100 = 0x0100 \<and> r ! 4 AND 0x0100 = 0x0100 \<and> r ! 5 AND 0x0100 = 0x0100 \<and>
      uint (r ! 1 AND 0x7F) \<le> uint (drop_bit 2 (ak_total_len c)) + 1"
    unfolding test_fields using fit idx by blast
  have i: "unat (of_nat i :: u8) = i" using assms(5) by (simp add: unat_u8_of_nat)
  have nth: "[of_nat k, of_nat i, b0, b1, b2, b3] ! 0 = (of_nat k :: u8)"
    "[of_nat k, of_nat i, b0, b1, b2, b3] ! 1 = (of_nat i :: u8)"
    "tl [of_nat k, of_nat i, b0, b1, b2, b3] = (of_nat i :: u8) # bs"
    "drop 2 [of_nat k, of_nat i, b0, b1, b2, b3] = bs" by (simp_all add: bs)
  show ?thesis
    unfolding r_def [symmetric] airkiss_process_sequence_def MAX_SEQ_CODE_RECORD_def c c'_def [symmetric]
    by (simp only: Option.bind.simps Let_def d if_P [OF yes] t nth i if_P [OF crc] packet_done_def)
qed

lemma u16_small: "v < 65536 \<Longrightarrow> unat (of_nat v :: u16) = v"
  by (simp add: unat_u16_of_nat)

lemma nibbles_parts:
  assumes "n < 256" and "p < 32" and "q < 32"
  shows "nibbles (of_nat (16 * p + n div 16)) (of_nat (16 * q + n mod 16)) = of_nat n"
proof -
  have "n div 16 < 16" using assms(1) by (simp add: less_mult_imp_div_less)
  then have "(16 * p + n div 16) mod 16 = n div 16" "(16 * q + n mod 16) mod 16 = n mod 16" by simp_all
  moreover have "16 * p + n div 16 < 65536" "16 * q + n mod 16 < 65536"
    using assms \<open>n div 16 < 16\<close> by simp_all
  ultimately show ?thesis
    by (simp add: nibbles_value u16_small del: of_nat_add of_nat_mult)
qed

lemma magic_group:
  assumes "ak_airkiss_state c = AIRKISS_STATE_SRC_LOCKED" and "length (ak_data c) = 7" and "b < 256"
    and "ak_base_len c = of_nat b" and "tot < 256" and "crc < 256"
  shows "local_run (on_air b (magic_code tot crc)) c =
     Some (c\<lparr>ak_total_len := of_nat tot, ak_ssid_crc := of_nat crc,
             ak_airkiss_state := AIRKISS_STATE_MAGIC_CODE_COMPLETE, ak_data := replicate 7 0\<rparr>)"
proof -
  obtain d0 d1 d2 d3 d4 d5 d6 where d: "ak_data c = [d0, d1, d2, d3, d4, d5, d6]"
    using assms(2) by (rule length_7E)
  define v0 v1 v2 v3 where "v0 = tot div 16" and "v1 = 16 + tot mod 16" and "v2 = 32 + crc div 16" and "v3 = 48 + crc mod 16"
  note v = v0_def v1_def v2_def v3_def
  have f: "unat (of_nat v0 :: u16) div 16 mod 32 = 0" "unat (of_nat v1 :: u16) div 16 mod 32 = 1"
    "unat (of_nat v2 :: u16) div 16 mod 32 = 2" "unat (of_nat v3 :: u16) div 16 mod 32 = 3"
    using assms(5,6) by (simp_all add: u16_small v del: of_nat_add)
  have n: "nibbles (of_nat v0) (of_nat v1) = of_nat tot" "nibbles (of_nat v2) (of_nat v3) = of_nat crc"
    using nibbles_parts [of tot 0 1] nibbles_parts [of crc 2 3] assms(5,6) by (simp_all add: v del: of_nat_add of_nat_mult)
  show ?thesis
    using assms(1) f unfolding magic_code_def on_air_def
    by (simp add: v [symmetric] local_step_def magic_step [where b = b] d assms(3,4) n del: of_nat_add)
qed

text \<open>Numbers that are no fourth part of a magic or prefix code leave the decoder where it is.\<close>

lemma magic_noise:
  assumes "ak_airkiss_state c = AIRKISS_STATE_SRC_LOCKED" and "length (ak_data c) = 7" and "b < 256"
    and "ak_base_len c = of_nat b" and "\<forall>v\<in>set vs. v < 512 \<and> v div 16 \<noteq> 3"
  shows "\<exists>d. local_run (on_air b vs) c = Some (c\<lparr>ak_data := d\<rparr>) \<and> length d = 7"
  using assms
proof (induction vs arbitrary: c)
  case Nil
  then show ?case by (simp add: on_air_def exI [where x = "ak_data c"])
next
  case (Cons v vs)
  obtain d0 d1 d2 d3 d4 d5 d6 where d: "ak_data c = [d0, d1, d2, d3, d4, d5, d6]"
    using Cons.prems(2) by (rule length_7E)
  define d' where "d' = [d1, d2, d3, of_nat v, of_nat v, d5, d6]"
  have "unat (of_nat v :: u16) div 16 mod 32 \<noteq> 3"
    using Cons.prems(5) by (auto simp: u16_small less_mult_imp_div_less mod_less)
  then have "local_step (of_nat (b + v)) c = Some (c\<lparr>ak_data := d'\<rparr>)"
    using Cons.prems(1) magic_step [OF d Cons.prems(3,4), of v]
    by (simp add: local_step_def d'_def del: of_nat_add)
  moreover have "\<exists>d. local_run (on_air b vs) (c\<lparr>ak_data := d'\<rparr>) = Some (c\<lparr>ak_data := d'\<rparr>\<lparr>ak_data := d\<rparr>) \<and> length d = 7"
    using Cons.prems by (intro Cons.IH) (simp_all add: d'_def)
  ultimately show ?case
    using Cons.prems(1) by (auto simp: on_air_def simp del: of_nat_add)
qed

lemma prefix_noise:
  assumes "ak_airkiss_state c = AIRKISS_STATE_MAGIC_CODE_COMPLETE" and "length (ak_data c) = 7" and "b < 256"
    and "ak_base_len c = of_nat b" and "\<forall>v\<in>set vs. v < 512 \<and> v div 16 \<noteq> 7"
  shows "\<exists>d. local_run (on_air b vs) c = Some (c\<lparr>ak_data := d\<rparr>) \<and> length d = 7"
  using assms
proof (induction vs arbitrary: c)
  case Nil
  then show ?case by (simp add: on_air_def exI [where x = "ak_data c"])
next
  case (Cons v vs)
  obtain d0 d1 d2 d3 d4 d5 d6 where d: "ak_data c = [d0, d1, d2, d3, d4, d5, d6]"
    using Cons.prems(2) by (rule length_7E)
  define d' where "d' = [d1, d2, d3, of_nat v, of_nat v, d5, d6]"
  have "unat (of_nat v :: u16) div 16 mod 32 \<noteq> 7"
    using Cons.prems(5) by (auto simp: u16_small less_mult_imp_div_less mod_less)
  then have "local_step (of_nat (b + v)) c = Some (c\<lparr>ak_data := d'\<rparr>)"
    using Cons.prems(1) prefix_step [OF d Cons.prems(3,4), of v]
    by (simp add: local_step_def d'_def del: of_nat_add)
  moreover have "\<exists>d. local_run (on_air b vs) (c\<lparr>ak_data := d'\<rparr>) = Some (c\<lparr>ak_data := d'\<rparr>\<lparr>ak_data := d\<rparr>) \<and> length d = 7"
    using Cons.prems by (intro Cons.IH) (simp_all add: d'_def)
  ultimately show ?case
    using Cons.prems(1) by (auto simp: on_air_def simp del: of_nat_add)
qed

lemma prefix_group:
  assumes "ak_airkiss_state c = AIRKISS_STATE_MAGIC_CODE_COMPLETE" and "length (ak_data c) = 7" and "b < 256"
    and "ak_base_len c = of_nat b" and "n \<le> 32"
  shows "local_run (on_air b (prefix_code n)) c =
     Some (c\<lparr>ak_pswd_len := of_nat n, ak_pswd_lencrc := calcrc_1byte (of_nat n), ak_data := replicate 7 0,
             ak_airkiss_state := AIRKISS_STATE_PREFIX_CODE_COMPLETE, ak_need_seq := of_nat ((n + 4) div 4),
             ak_seq_success_map_cmp := mask ((n + 4) div 4)\<rparr>)"
proof -
  obtain d0 d1 d2 d3 d4 d5 d6 where d: "ak_data c = [d0, d1, d2, d3, d4, d5, d6]"
    using assms(2) by (rule length_7E)
  define k where "k = unat (calcrc_1byte (of_nat n))"
  have k: "k < 256" unfolding k_def by (rule unat_u8_bound)
  define v0 v1 v2 v3 where "v0 = 64 + n div 16" and "v1 = 80 + n mod 16" and "v2 = 96 + k div 16" and "v3 = 112 + k mod 16"
  note v = v0_def v1_def v2_def v3_def
  have f: "unat (of_nat v0 :: u16) div 16 mod 32 = 4" "unat (of_nat v1 :: u16) div 16 mod 32 = 5"
    "unat (of_nat v2 :: u16) div 16 mod 32 = 6" "unat (of_nat v3 :: u16) div 16 mod 32 = 7"
    using assms(5) k by (simp_all add: u16_small v del: of_nat_add)
  have n: "nibbles (of_nat v0) (of_nat v1) = of_nat n" "nibbles (of_nat v2) (of_nat v3) = of_nat k"
    using nibbles_parts [of n 4 5] nibbles_parts [of k 6 7] assms(5) k by (simp_all add: v del: of_nat_add of_nat_mult)
  have crc: "calcrc_1byte (of_nat n) = of_nat k" by (simp add: k_def)
  have small: "\<not> (of_nat n > PASSWORD_MAX_LEN)"
    using assms(5) by (simp add: PASSWORD_MAX_LEN_def word_less_nat_alt unat_u8_of_nat)
  have u: "uint (of_nat n :: u8) = int n" using assms(5) by (simp add: uint_u8_of_nat)
  have q: "(int n + 4) div 4 = int ((n + 4) div 4)" by simp
  define m where "m = (n + 4) div 4"
  have m: "word_of_int (push_bit m 1 - 1) = (mask m :: u16)"
    by (simp add: mask_eq_exp_minus_1 push_bit_eq_mult)
  have step: "airkiss_process_prefix_code (of_nat (b + v3)) c' = Some
     (c'\<lparr>ak_pswd_len := of_nat n, ak_pswd_lencrc := of_nat k, ak_data := replicate 7 0,
             ak_airkiss_state := AIRKISS_STATE_PREFIX_CODE_COMPLETE, ak_need_seq := of_nat m,
             ak_seq_success_map_cmp := mask m\<rparr>)"
    if "ak_data c' = [e0, of_nat v0, of_nat v1, of_nat v2, e4, e5, e6]" "ak_base_len c' = of_nat b" for c' e0 e4 e5 e6
    using prefix_step [OF that(1) assms(3) that(2), of v3]
    by (simp only: f n crc u q m_def [symmetric] nat_int m Let_def if_True simp_thms small if_False of_int_of_nat_eq)
  have shift: "airkiss_process_prefix_code (of_nat (b + w)) c' =
      Some (c'\<lparr>ak_data := [e1, e2, e3, of_nat w, of_nat w, e5, e6]\<rparr>)"
    if "ak_data c' = [e0, e1, e2, e3, e4, e5, e6]" "ak_base_len c' = of_nat b"
      "unat (of_nat w :: u16) div 16 mod 32 \<noteq> 7" for w c' e0 e1 e2 e3 e4 e5 e6
    using prefix_step [OF that(1) assms(3) that(2), of w] that(3) by (simp del: of_nat_add)
  show ?thesis
    using assms(1) f unfolding prefix_code_def on_air_def Let_def k_def [symmetric] v [symmetric]
    unfolding crc m_def [symmetric]
    by (simp add: v [symmetric] local_step_def shift step d assms(3,4) del: of_nat_add)
qed

lemma local_run_Nil: "local_run [] = Some"
  by (rule ext) simp

lemma seq_noise:
  assumes "ak_airkiss_state c = AIRKISS_STATE_PREFIX_CODE_COMPLETE" and "length (ak_data c) = 7" and "b < 256"
    and "ak_base_len c = of_nat b" and "v < 256"
  shows "\<exists>d. local_run (on_air b [v]) c = Some (c\<lparr>ak_data := d\<rparr>) \<and> length d = 7"
proof -
  obtain d0 d1 d2 d3 d4 d5 d6 where d: "ak_data c = [d0, d1, d2, d3, d4, d5, d6]"
    using assms(2) by (rule length_7E)
  have "\<not> seq_fit [d1, d2, d3, d4, d5, of_nat v]"
    using assms(5) by (simp add: seq_fit_def u16_small)
  from seq_shift [OF d assms(3,4) this] assms(1)
  have "local_run (on_air b [v]) c = Some (c\<lparr>ak_data := [d1, d2, d3, d4, d5, of_nat v, of_nat v]\<rparr>)"
    by (simp add: on_air_def local_step_def del: of_nat_add)
  moreover have "length [d1, d2, d3, d4, d5, of_nat v, of_nat v] = 7" by simp
  ultimately show ?thesis by blast
qed

lemma packet_done_data: "packet_done i bs (c\<lparr>ak_data := d\<rparr>) = packet_done i bs c"
  by (simp add: packet_done_def airkiss_add_seq_data_def resest_airkiss_data_def Let_def bind_assoc
      cong: if_cong Option.bind_cong)

lemma seq_group:
  assumes "ak_airkiss_state c = AIRKISS_STATE_PREFIX_CODE_COMPLETE" and "length (ak_data c) = 7" and "b < 256"
    and "ak_base_len c = of_nat b" and "i < 128" and "length bs = 4" and "i \<le> unat (ak_total_len c) div 4 + 1"
  shows "local_run (on_air b (seq_code i bs)) c = packet_done i bs c"
proof -
  obtain d0 d1 d2 d3 d4 d5 d6 where d: "ak_data c = [d0, d1, d2, d3, d4, d5, d6]"
    using assms(2) by (rule length_7E)
  obtain b0 b1 b2 b3 where bs: "bs = [b0, b1, b2, b3]"
    using assms(6) by (auto simp: numeral_eq_Suc length_Suc_conv)
  define k where "k = 0x80 + unat (calcrc_bytes (of_nat i # bs)) mod 128"
  define x where "x = 0x80 + i"
  define y0 y1 y2 y3 where "y0 = 0x100 + unat b0" and "y1 = 0x100 + unat b1" and "y2 = 0x100 + unat b2" and "y3 = 0x100 + unat b3"
  have code: "seq_code i bs = [k, x, y0, y1, y2, y3]"
    by (simp add: seq_code_def k_def x_def y0_def y1_def y2_def y3_def bs)
  have small: "k < 256" "x < 256" using assms(5) by (simp_all add: k_def x_def)
  then have hi: "unat (of_nat k :: u16) div 256 mod 2 = 0" "unat (of_nat x :: u16) div 256 mod 2 = 0"
    by (simp_all add: u16_small)
  have shift: "airkiss_process_sequence (of_nat (b + w)) c' =
      Some (c'\<lparr>ak_data := [e1, e2, e3, e4, e5, of_nat w, of_nat w]\<rparr>)"
    if "ak_data c' = [e0, e1, e2, e3, e4, e5, e6]" "ak_base_len c' = of_nat b"
      "e3 = of_nat k \<or> e3 = of_nat x \<or> e4 = of_nat k \<or> e5 = of_nat k \<or> of_nat w = (of_nat k :: u16) \<or> of_nat w = (of_nat x :: u16)"
    for w c' e0 e1 e2 e3 e4 e5 e6
    by (rule seq_shift [OF that(1) assms(3) that(2)]) (use that(3) hi in \<open>auto simp: seq_fit_def\<close>)
  have last: "airkiss_process_sequence (of_nat (b + y3)) c' = packet_done i bs c'"
    if "ak_data c' = [e0, of_nat k, of_nat x, of_nat y0, of_nat y1, of_nat y2, e6]"
      "ak_base_len c' = of_nat b" "ak_total_len c' = ak_total_len c" for c' e0 e6
    using seq_match [OF that(1) assms(3) that(2) _ assms(5,6), of y3] assms(7) that(3)
    by (simp add: code packet_done_data del: of_nat_add)
  show ?thesis
    using assms(1) unfolding code on_air_def
    by (simp add: local_step_def shift last packet_done_data local_run_Nil d assms(4) del: of_nat_add)
qed

text \<open>What the sender sends of a password: the password, a random byte and more in packets of four bytes.\<close>

definition chunk :: "u8 list \<Rightarrow> nat \<Rightarrow> u8 list" where
  "chunk payload i = take 4 (drop (4 * i) (payload @ [0, 0, 0]))"

lemma chunk_length: "4 * i < length payload \<Longrightarrow> length (chunk payload i) = 4"
  by (simp add: chunk_def)

lemma chunk_nth: "4 * i < length payload \<Longrightarrow> j < 4 \<Longrightarrow> chunk payload i ! j = (payload @ [0, 0, 0]) ! (4 * i + j)"
  by (simp add: chunk_def del: take_append drop_append)

fun item_code :: "u8 list \<Rightarrow> nat + nat \<Rightarrow> nat list" where
  "item_code payload (Inl v) = [v]"
| "item_code payload (Inr i) = seq_code i (chunk payload i)"

definition item_ok :: "u8 list \<Rightarrow> nat + nat \<Rightarrow> bool" where
  "item_ok payload x = (case x of Inl v \<Rightarrow> v < 256 | Inr i \<Rightarrow> 4 * i < length payload)"

text \<open>The local context while the packets \<open>S\<close> have been received.\<close>

definition collecting :: "nat \<Rightarrow> nat \<Rightarrow> u8 \<Rightarrow> u8 list \<Rightarrow> nat set \<Rightarrow> airkiss_local_context \<Rightarrow> bool" where
  "collecting b n crc payload S c \<longleftrightarrow>
     ak_airkiss_state c = AIRKISS_STATE_PREFIX_CODE_COMPLETE \<and> length (ak_data c) = 7 \<and>
     ak_base_len c = of_nat b \<and> ak_total_len c = of_nat (length payload) \<and> ak_ssid_crc c = crc \<and>
     ak_ssid_len c = 0 \<and> ak_pswd_len c = of_nat n \<and> ak_need_seq c = of_nat ((n + 4) div 4) \<and>
     ak_seq_success_map_cmp c = mask ((n + 4) div 4) \<and> length (ak_usr_data c) = 65 \<and>
     S \<subset> {..<(n + 4) div 4} \<and> (\<forall>k<16. bit (ak_seq_success_map c) k \<longleftrightarrow> k \<in> S) \<and>
     (\<forall>k\<in>S. \<forall>j<4. ak_usr_data c ! (4 * k + j) = (payload @ [0, 0, 0]) ! (4 * k + j))"

definition decoded :: "u8 list \<Rightarrow> u8 \<Rightarrow> u8 \<Rightarrow> airkiss_local_context \<Rightarrow> bool" where
  "decoded pwd rnd crc c \<longleftrightarrow>
     ak_airkiss_state c = AIRKISS_STATE_COMPLETE \<and> ak_pwd c \<and> ak_pswd_len c = of_nat (length pwd) \<and>
     ak_ssid_len c = 0 \<and> ak_random_num c = rnd \<and> ak_ssid_crc c = crc \<and> takeWhile (\<lambda>b. b \<noteq> 0) (ak_usr_data c) = pwd"

lemma map_complete:
  assumes "\<forall>k<16. bit (m :: u16) k \<longleftrightarrow> k \<in> S" and "S \<subseteq> {..<q}" and "q \<le> 16"
  shows "mask q = m \<longleftrightarrow> S = {..<q}"
proof -
  have "mask q = m \<longleftrightarrow> (\<forall>k<16. k < q \<longleftrightarrow> k \<in> S)"
    using assms(1) by (auto simp: bit_eq_iff bit_mask_iff possible_bit_word)
  then show ?thesis using assms(2,3) by (auto simp: subset_iff) (meson less_le_trans lessThan_iff)+
qed

lemma map_insert:
  assumes "\<forall>k<16. bit (m :: u16) k \<longleftrightarrow> k \<in> S"
  shows "\<forall>k<16. bit (m OR push_bit i 1) k \<longleftrightarrow> k \<in> insert i S"
  using assms by (auto simp: bit_simps)

lemma map_test:
  assumes "i < 16"
  shows "(m :: u16) AND push_bit i 1 = 0 \<longleftrightarrow> \<not> bit m i"
proof -
  have "m AND push_bit i 1 = (if bit m i then push_bit i 1 else 0)"
    by (rule bit_word_eqI) (auto simp: bit_and_iff bit_push_bit_iff bit_1_iff bit_exp_iff)
  moreover have "bit (push_bit i 1 :: u16) i" using assms by (simp add: bit_push_bit_iff bit_exp_iff)
  then have "push_bit i 1 \<noteq> (0 :: u16)" by (metis bit_0_eq bot_apply bot_bool_def)
  ultimately show ?thesis by simp
qed

lemma collecting_noise:
  assumes "collecting b n crc payload S c" and "b < 256" and "v < 256"
  shows "\<exists>c'. local_run (on_air b [v]) c = Some c' \<and> collecting b n crc payload S c'"
proof -
  obtain d where "local_run (on_air b [v]) c = Some (c\<lparr>ak_data := d\<rparr>)" "length d = 7"
    using seq_noise [OF _ _ assms(2) _ assms(3), of c] assms(1) by (auto simp: collecting_def)
  moreover have "collecting b n crc payload S (c\<lparr>ak_data := d\<rparr>)"
    using assms(1) \<open>length d = 7\<close> by (simp add: collecting_def)
  ultimately show ?thesis by blast
qed

lemma chunk_stored:
  assumes "length data = 65" "4 * i < length payload" "4 * i + 4 \<le> 65" "insert i S \<subseteq> {..<q}" "q \<le> 9"
    and "\<forall>k\<in>S. \<forall>j<4. data ! (4 * k + j) = (payload @ [0, 0, 0]) ! (4 * k + j)"
  shows "\<forall>k\<in>insert i S. \<forall>j<4. (take (4 * i) data @ chunk payload i @ drop (4 * i + 4) data) ! (4 * k + j) =
     (payload @ [0, 0, 0]) ! (4 * k + j)"
proof (intro ballI allI impI)
  note bs = chunk_length [OF assms(2)]
  fix k j assume k: "k \<in> insert i S" and j: "j < (4 :: nat)"
  show "(take (4 * i) data @ chunk payload i @ drop (4 * i + 4) data) ! (4 * k + j) = (payload @ [0, 0, 0]) ! (4 * k + j)"
  proof (cases "k = i")
    case True
    then show ?thesis using assms(1,3) bs j chunk_nth [OF assms(2) j] by (simp add: nth_append)
  next
    case False
    have "k < q" using k assms(4) by auto
    then have "(take (4 * i) data @ chunk payload i @ drop (4 * i + 4) data) ! (4 * k + j) = data ! (4 * k + j)"
      using False j assms(1,3,5) bs by (auto simp: nth_append)
    with False k j assms(6) show ?thesis by simp
  qed
qed

lemma chunks_cover:
  assumes "\<forall>k\<in>{..<q}. \<forall>j<4. xs ! (4 * k + j) = ys ! (4 * k + j)" and "k < 4 * q"
  shows "xs ! k = ys ! k"
proof -
  have "k div 4 < q" using assms(2) by (simp add: less_mult_imp_div_less mult.commute)
  then have "xs ! (4 * (k div 4) + k mod 4) = ys ! (4 * (k div 4) + k mod 4)"
    by (intro assms(1) [rule_format]) simp_all
  then show ?thesis by (simp only: mult_div_mod_eq)
qed

lemma collecting_packet:
  assumes "collecting b n crc payload S c" and "b < 256" and "4 * i < length payload"
    and "length payload < 256" and "n \<le> 32" and "n < length payload" and "n = length pwd" and "0 \<notin> set pwd"
    and "take n payload = pwd"
  shows "(i \<notin> S \<and> insert i S = {..<(n + 4) div 4} \<and>
          (\<exists>c'. local_run (on_air b (seq_code i (chunk payload i))) c = Some c' \<and> decoded pwd (payload ! n) crc c')) \<or>
         (\<exists>c'. local_run (on_air b (seq_code i (chunk payload i))) c = Some c' \<and>
            collecting b n crc payload (S \<union> ({i} \<inter> {..<(n + 4) div 4})) c')"
proof -
  define q where "q = (n + 4) div 4"
  have q: "q \<le> 9" "n < 4 * q" "4 * (q - 1) \<le> n" using assms(5) by (simp_all add: q_def)
  note c = assms(1) [unfolded collecting_def q_def [symmetric]]
  have tot: "unat (ak_total_len c) = length payload" and need: "unat (ak_need_seq c) = q"
    and pl: "unat (ak_pswd_len c) = n"
    using c assms(4,5) q(1) by (simp_all add: unat_u8_of_nat)
  let ?bs = "chunk payload i"
  have bs: "length ?bs = 4" by (rule chunk_length [OF assms(3)])
  have run: "local_run (on_air b (seq_code i ?bs)) c = packet_done i ?bs c"
  proof (rule seq_group)
    show "i \<le> unat (ak_total_len c) div 4 + 1" unfolding tot using assms(3) by simp
  qed (use c assms(2-4) bs in simp_all)
  have idle: "packet_done i ?bs c = Some (resest_airkiss_data c)" and same: "collecting b n crc payload S (resest_airkiss_data c)"
    if "\<not> i < q \<or> i \<in> S"
  proof -
    have "airkiss_add_seq_data ?bs i c = Some c"
      using that c q(1) need map_test [of i "ak_seq_success_map c"] by (auto simp: airkiss_add_seq_data_def)
    moreover have "ak_seq_success_map_cmp c \<noteq> ak_seq_success_map c"
      using c map_complete [of "ak_seq_success_map c" S q] q(1) by auto
    ultimately show "packet_done i ?bs c = Some (resest_airkiss_data c)"
      by (simp add: packet_done_def resest_airkiss_data_def)
    show "collecting b n crc payload S (resest_airkiss_data c)"
      using assms(1) by (simp add: collecting_def resest_airkiss_data_def)
  qed
  show ?thesis
  proof (cases "i < q \<and> i \<notin> S")
    case False
    then have "S \<union> ({i} \<inter> {..<q}) = S" using c by auto
    with False run idle same show ?thesis by (auto simp: q_def [symmetric])
  next
    case True
    define ud where "ud = take (4 * i) (ak_usr_data c) @ ?bs @ drop (4 * i + 4) (ak_usr_data c)"
    define m where "m = ak_seq_success_map c OR push_bit i 1"
    have l: "length (ak_usr_data c) = 65" "i < q" "i \<notin> S" using c True by auto
    then have i: "4 * i + 4 \<le> 65" using q(1) by simp
    have ud_len: "length ud = 65" using i l(1) bs by (simp add: ud_def)
    have add: "airkiss_add_seq_data ?bs i c = Some (c\<lparr>ak_usr_data := ud, ak_seq_success_map := m\<rparr>)"
      using True c q(1) need map_test [of i "ak_seq_success_map c"] bs i
      by (auto simp: airkiss_add_seq_data_def USR_DATA_BUFF_MAX_SIZE_def rd_seg_def wr_seg_def ud_def m_def mult.commute)
    have bits: "\<forall>k<16. bit m k \<longleftrightarrow> k \<in> insert i S"
      unfolding m_def by (rule map_insert) (use c in blast)
    have sub: "insert i S \<subseteq> {..<q}" using c l(2) by auto
    have data: "\<forall>k\<in>insert i S. \<forall>j<4. ud ! (4 * k + j) = (payload @ [0, 0, 0]) ! (4 * k + j)"
      unfolding ud_def by (rule chunk_stored [OF l(1) assms(3) i sub q(1)]) (use c in blast)
    have at: "ud ! k = (payload @ [0, 0, 0]) ! k" if "insert i S = {..<q}" "k < 4 * q" for k
      using chunks_cover [of q ud "payload @ [0, 0, 0]" k] data that by simp
    show ?thesis
    proof (cases "insert i S = {..<q}")
      case True
      define c' where "c' = c\<lparr>ak_usr_data := ud[n := 0], ak_seq_success_map := m, ak_random_num := payload ! n,
        ak_pwd := True, ak_airkiss_state := AIRKISS_STATE_COMPLETE, ak_data := replicate 7 0\<rparr>"
      have n: "n < length ud" using ud_len assms(5) by simp
      have rnd: "ud ! n = payload ! n" using at [OF True q(2)] assms(6) by (simp add: nth_append)
      have "take n ud = pwd"
      proof (rule nth_equalityI)
        fix k assume "k < length (take n ud)"
        then have "k < n" by simp
        then have "ud ! k = payload ! k" using at [OF True, of k] q(2) assms(6) by (simp add: nth_append)
        moreover have "payload ! k = pwd ! k" using \<open>k < n\<close> by (simp add: assms(9) [symmetric])
        ultimately show "take n ud ! k = pwd ! k" using \<open>k < n\<close> by simp
      qed (use n assms(7) in simp)
      then have "takeWhile (\<lambda>b. b \<noteq> 0) (ud[n := 0]) = pwd"
        using n assms(8) by (simp add: upd_conv_take_nth_drop takeWhile_append)
      moreover have "packet_done i ?bs c = Some c'"
        using map_complete [OF bits sub] q(1) True c n pl rnd
        by (simp add: packet_done_def add resest_airkiss_data_def set_ak_state_def rd_def wr_def c'_def)
      ultimately have "local_run (on_air b (seq_code i ?bs)) c = Some c'" "decoded pwd (payload ! n) crc c'"
        using run c assms(7) by (simp_all add: decoded_def c'_def)
      then show ?thesis using True l(3) by (auto simp: q_def [symmetric])
    next
      case False
      define c' where "c' = c\<lparr>ak_usr_data := ud, ak_seq_success_map := m, ak_data := replicate 7 0\<rparr>"
      have "packet_done i ?bs c = Some c'"
        using map_complete [OF bits sub] q(1) False c
        by (simp add: packet_done_def add resest_airkiss_data_def c'_def)
      moreover have "collecting b n crc payload (insert i S) c'"
        using c bits data sub False ud_len by (simp add: collecting_def c'_def q_def [symmetric] psubset_eq)
      moreover have "S \<union> ({i} \<inter> {..<q}) = insert i S" using l(2) by auto
      ultimately show ?thesis using run by (auto simp: q_def [symmetric])
    qed
  qed
qed

lemma local_run_complete: "ak_airkiss_state c = AIRKISS_STATE_COMPLETE \<Longrightarrow> local_run ls c = Some c"
  by (cases ls) auto

lemma on_air_append: "on_air b (xs @ ys) = on_air b xs @ on_air b ys"
  by (simp add: on_air_def)

lemma collecting_items:
  assumes "collecting b n crc payload S c" and "b < 256" and "length payload < 256" and "n \<le> 32"
    and "n < length payload" and "n = length pwd" and "0 \<notin> set pwd" and "take n payload = pwd"
    and "\<forall>x\<in>set items. item_ok payload x" and "{..<(n + 4) div 4} \<subseteq> S \<union> {i. Inr i \<in> set items}"
  shows "\<exists>c'. local_run (on_air b (concat (map (item_code payload) items))) c = Some c' \<and> decoded pwd (payload ! n) crc c'"
  using assms(1,9,10)
proof (induction items arbitrary: S c)
  case Nil
  then show ?case by (auto simp: collecting_def)
next
  case (Cons x items)
  let ?rest = "on_air b (concat (map (item_code payload) items))"
  have run: "local_run (on_air b (concat (map (item_code payload) (x # items)))) c =
      do { c \<leftarrow> local_run (on_air b (item_code payload x)) c; local_run ?rest c }"
    by (simp add: on_air_append local_run_append)
  show ?case
  proof (cases x)
    case (Inl v)
    then have "v < 256" using Cons.prems(2) by (simp add: item_ok_def)
    from collecting_noise [OF Cons.prems(1) assms(2) this] obtain c1 where c1:
      "local_run (on_air b [v]) c = Some c1" "collecting b n crc payload S c1" by blast
    from Cons.IH [OF c1(2)] Cons.prems Inl
    have "\<exists>c'. local_run ?rest c1 = Some c' \<and> decoded pwd (payload ! n) crc c'" by auto
    then show ?thesis using run Inl c1(1) by simp
  next
    case (Inr i)
    then have "4 * i < length payload" using Cons.prems(2) by (simp add: item_ok_def)
    from collecting_packet [OF Cons.prems(1) assms(2) this assms(3-8)]
    consider (full) c1 where "local_run (on_air b (seq_code i (chunk payload i))) c = Some c1" "decoded pwd (payload ! n) crc c1"
      | (more) c1 where "local_run (on_air b (seq_code i (chunk payload i))) c = Some c1"
          "collecting b n crc payload (S \<union> ({i} \<inter> {..<(n + 4) div 4})) c1" by blast
    then show ?thesis
    proof cases
      case full
      then show ?thesis using run Inr by (simp add: local_run_complete decoded_def)
    next
      case more
      from Cons.IH [OF more(2)] Cons.prems Inr
      have "\<exists>c'. local_run ?rest c1 = Some c' \<and> decoded pwd (payload ! n) crc c'" by auto
      then show ?thesis using run Inr more(1) by simp
    qed
  qed
qed

text \<open>
  Everything a sender transmits after the guide code, with other numbers before the magic code,
  before the prefix code and between the packets.
\<close>

definition transmission :: "nat list \<Rightarrow> nat \<Rightarrow> nat list \<Rightarrow> nat \<Rightarrow> u8 list \<Rightarrow> (nat + nat) list \<Rightarrow> nat list" where
  "transmission gs crc ms n payload items =
     gs @ magic_code (length payload) crc @ ms @ prefix_code n @ concat (map (item_code payload) items)"

definition locked :: "nat \<Rightarrow> airkiss_local_context \<Rightarrow> bool" where
  "locked b c \<longleftrightarrow>
     ak_airkiss_state c = AIRKISS_STATE_SRC_LOCKED \<and> length (ak_data c) = 7 \<and>
     ak_base_len c = of_nat b \<and> length (ak_usr_data c) = 65 \<and> ak_seq_success_map c = 0 \<and> ak_ssid_len c = 0"

definition sendable :: "nat list \<Rightarrow> nat \<Rightarrow> nat list \<Rightarrow> u8 list \<Rightarrow> u8 list \<Rightarrow> (nat + nat) list \<Rightarrow> bool" where
  "sendable gs crc ms pwd payload items \<longleftrightarrow>
     length pwd \<le> 32 \<and> 0 \<notin> set pwd \<and> length payload < 256 \<and> crc < 256 \<and>
     length pwd < length payload \<and> take (length pwd) payload = pwd \<and>
     (\<forall>v\<in>set gs. v < 512 \<and> v div 16 \<noteq> 3) \<and> (\<forall>v\<in>set ms. v < 512 \<and> v div 16 \<noteq> 7) \<and>
     (\<forall>x\<in>set items. item_ok payload x) \<and> (\<forall>i \<le> length pwd div 4. Inr i \<in> set items)"

lemma locked_decodes:
  assumes "locked b c" and "b < 256" and "sendable gs crc ms pwd payload items"
  shows "\<exists>c'. local_run (on_air b (transmission gs crc ms (length pwd) payload items)) c = Some c' \<and>
     decoded pwd (payload ! length pwd) (of_nat crc) c'"
proof -
  let ?n = "length pwd"
  note c = assms(1) [unfolded locked_def] and s = assms(3) [unfolded sendable_def]
  obtain d1 where d1: "local_run (on_air b gs) c = Some (c\<lparr>ak_data := d1\<rparr>)" "length d1 = 7"
    using magic_noise [of c b gs] c s assms(2) by blast
  define c2 where "c2 = c\<lparr>ak_total_len := of_nat (length payload), ak_ssid_crc := of_nat crc,
    ak_airkiss_state := AIRKISS_STATE_MAGIC_CODE_COMPLETE, ak_data := replicate 7 0\<rparr>"
  have r2: "local_run (on_air b (magic_code (length payload) crc)) (c\<lparr>ak_data := d1\<rparr>) = Some c2"
    using magic_group [of "c\<lparr>ak_data := d1\<rparr>" b "length payload" crc] c s d1(2) assms(2) by (simp add: c2_def)
  have "\<exists>d. local_run (on_air b ms) c2 = Some (c2\<lparr>ak_data := d\<rparr>) \<and> length d = 7"
    by (rule prefix_noise) (use c s assms(2) in \<open>simp_all add: c2_def\<close>)
  then obtain d3 where d3: "local_run (on_air b ms) c2 = Some (c2\<lparr>ak_data := d3\<rparr>)" "length d3 = 7" by blast
  have "0 \<in> {..<(?n + 4) div 4}" by simp
  then have pos: "{} \<subset> {..<(?n + 4) div 4}" by blast
  obtain c4 where r4: "local_run (on_air b (prefix_code ?n)) (c2\<lparr>ak_data := d3\<rparr>) = Some c4"
    and c4: "collecting b ?n (of_nat crc) payload {} c4"
    using prefix_group [of "c2\<lparr>ak_data := d3\<rparr>" b ?n] c s d3(2) assms(2) pos
    by (auto simp: c2_def collecting_def)
  have "{..<(?n + 4) div 4} \<subseteq> {} \<union> {i. Inr i \<in> set items}" using s by auto
  from collecting_items [OF c4 assms(2) _ _ _ refl _ _ _ this] s
  have "\<exists>c'. local_run (on_air b (concat (map (item_code payload) items))) c4 = Some c' \<and>
     decoded pwd (payload ! ?n) (of_nat crc) c'" by blast
  then show ?thesis
    by (simp add: transmission_def on_air_append local_run_append d1(1) r2 d3(1) r4)
qed

section \<open>Frames on the air\<close>

definition same_source :: "u8 list \<Rightarrow> u8 list \<Rightarrow> bool" where
  "same_source hdr f \<longleftrightarrow> take 18 (drop 4 f) = take 18 (drop 4 hdr)"

text \<open>The sniffer's loop: frames until the decoder is done.\<close>

fun airkiss_listen :: "(u8 list \<times> u16) list \<Rightarrow> airkiss \<Rightarrow> (airkiss_status \<times> airkiss) option" where
  "airkiss_listen [] s = Some (AIRKISS_STATUS_CONTINUE, s)"
| "airkiss_listen (f # fs) s =
     do { (st, s) \<leftarrow> airkiss_recv (fst f) (snd f) s;
          if st = AIRKISS_STATUS_COMPLETE then Some (st, s) else airkiss_listen fs s }"

definition tuned :: "u8 list \<Rightarrow> airkiss \<Rightarrow> bool" where
  "tuned hdr s \<longleftrightarrow>
     (\<exists>ctx. akcontex s = Some ctx \<and> length (ctx_dummy ctx) = 32 \<and> length (ctx_dummyap ctx) = 26 \<and>
        take 18 (drop 4 (ctx_dummyap ctx)) = map uint (take 18 (drop 4 hdr)))"

lemma filter_tuned:
  assumes "tuned hdr s" and "24 \<le> length f"
  shows "\<exists>s'. airkiss_filter f sz s = Some (if 24 \<le> sz \<and> same_source hdr f then 1 else 0, s') \<and>
     tuned hdr s' \<and> akl s' = akl s"
proof -
  obtain ctx where ctx: "akcontex s = Some ctx" "length (ctx_dummy ctx) = 32" "length (ctx_dummyap ctx) = 26"
     "take 18 (drop 4 (ctx_dummyap ctx)) = map uint (take 18 (drop 4 hdr))"
    using assms(1) by (auto simp: tuned_def)
  define dm where "dm = map uint (take 24 f) @ drop 24 (ctx_dummy ctx)"
  have dm: "length dm = 32" "take 18 (drop 4 dm) = map uint (take 18 (drop 4 f))"
    using assms(2) ctx(2) by (simp_all add: dm_def take_map drop_map take_drop)
  have "inj (uint :: u8 \<Rightarrow> int)" by (rule injI) (simp only: word_uint_eq_iff)
  then have same: "map uint (take 18 (drop 4 f)) = map uint (take 18 (drop 4 hdr)) \<longleftrightarrow> same_source hdr f"
    by (simp add: same_source_def inj_map_eq_map)
  show ?thesis
  proof (cases "sz < 24")
    case False
    have "airkiss_filter f sz s = Some (if same_source hdr f then 1 else 0, s\<lparr>akcontex := Some (ctx\<lparr>ctx_dummy := dm\<rparr>)\<rparr>)"
      using False assms(2) ctx dm same
      by (simp add: airkiss_filter_def rd_seg_def wr_seg_def dm_def [symmetric])
    moreover have "tuned hdr (s\<lparr>akcontex := Some (ctx\<lparr>ctx_dummy := dm\<rparr>)\<rparr>)"
      using ctx dm by (simp add: tuned_def)
    ultimately show ?thesis using False by auto
  qed (use assms in \<open>simp add: airkiss_filter_def\<close>)
qed

definition receiving :: "airkiss_local_context \<Rightarrow> bool" where
  "receiving c \<longleftrightarrow> ak_airkiss_state c \<in>
     {AIRKISS_STATE_SRC_LOCKED, AIRKISS_STATE_MAGIC_CODE_COMPLETE, AIRKISS_STATE_PREFIX_CODE_COMPLETE}"

lemma recv_foreign:
  assumes "tuned hdr s" and "24 \<le> length f" and "receiving (akl s)" and "\<not> same_source hdr f"
  shows "\<exists>s'. airkiss_recv f len s = Some (AIRKISS_STATUS_CONTINUE, s') \<and> tuned hdr s' \<and> akl s' = akl s"
  using filter_tuned [OF assms(1,2), of "uint len"] assms(3,4)
  by (auto simp: airkiss_recv_def receiving_def)

lemma record_length_state: "record_length n len c = Some c' \<Longrightarrow> ak_airkiss_state c' = ak_airkiss_state c"
  by (auto simp: record_length_def bind_eq_Some_conv)

lemma if_both: "Q a \<Longrightarrow> Q b \<Longrightarrow> Q (if P then a else b)"
  by simp

lemma process_magic_state:
  assumes "airkiss_process_magic_code len c = Some c'"
  shows "ak_airkiss_state c' \<in> {ak_airkiss_state c, AIRKISS_STATE_MAGIC_CODE_COMPLETE}"
proof -
  let ?Q = "\<lambda>c'. ak_airkiss_state c' \<in> {ak_airkiss_state c, AIRKISS_STATE_MAGIC_CODE_COMPLETE}"
  have "pred_option ?Q (airkiss_process_magic_code len c)"
    unfolding airkiss_process_magic_code_def Let_def
    by (cases "record_length MAX_MAGIC_CODE_RECORD (len - ucast (ak_base_len c)) c")
      (simp, simp only: Option.bind.simps option.pred_inject, rule if_both [where Q = ?Q],
       simp add: resest_airkiss_data_def set_ak_state_def, simp add: record_length_state)
  with assms show ?thesis by simp
qed

lemma process_prefix_state:
  assumes "airkiss_process_prefix_code len c = Some c'"
  shows "ak_airkiss_state c' \<in> {ak_airkiss_state c, AIRKISS_STATE_PREFIX_CODE_COMPLETE}"
proof -
  let ?Q = "\<lambda>c'. ak_airkiss_state c' \<in> {ak_airkiss_state c, AIRKISS_STATE_PREFIX_CODE_COMPLETE}"
  have "pred_option ?Q (airkiss_process_prefix_code len c)"
    unfolding airkiss_process_prefix_code_def Let_def
    by (cases "record_length MAX_PREFIX_CODE_RECORD (len - ucast (ak_base_len c)) c")
      (simp, simp only: Option.bind.simps option.pred_inject, intro if_both [where Q = ?Q],
       simp_all add: resest_airkiss_data_def set_ak_state_def record_length_state)
  with assms show ?thesis by simp
qed

lemma recv_own:
  assumes "tuned hdr s" and "24 \<le> length f" and "receiving (akl s)" and "same_source hdr f" and "24 \<le> unat len"
    and "local_step len (akl s) = Some c"
  shows "\<exists>s'. airkiss_recv f len s = Some (if ak_airkiss_state c = AIRKISS_STATE_COMPLETE then AIRKISS_STATUS_COMPLETE
       else AIRKISS_STATUS_CONTINUE, s') \<and> tuned hdr s' \<and> akl s' = c"
proof -
  have "int 24 \<le> int (unat len)" using assms(5) by (simp only: of_nat_le_iff)
  then have "24 \<le> uint len" by simp
  then have own: "24 \<le> uint len \<and> same_source hdr f" using assms(4) ..
  from filter_tuned [OF assms(1,2), of "uint len"] obtain s1 where
    s1: "airkiss_filter f (uint len) s = Some (1, s1)" "tuned hdr s1" "akl s1 = akl s"
    unfolding if_P [OF own] by blast
  have t: "tuned hdr (s1\<lparr>akl := c\<rparr>)" using s1(2) by (simp add: tuned_def)
  consider "ak_airkiss_state (akl s) = AIRKISS_STATE_SRC_LOCKED"
    | "ak_airkiss_state (akl s) = AIRKISS_STATE_MAGIC_CODE_COMPLETE"
    | "ak_airkiss_state (akl s) = AIRKISS_STATE_PREFIX_CODE_COMPLETE"
    using assms(3) by (auto simp: receiving_def)
  then show ?thesis
  proof cases
    case 1
    then have m: "airkiss_process_magic_code len (akl s) = Some c" using assms(6) by (simp add: local_step_def)
    then show ?thesis using 1 s1 t process_magic_state [OF m] m
      by (auto simp: airkiss_recv_def with_local_def)
  next
    case 2
    then have m: "airkiss_process_prefix_code len (akl s) = Some c" using assms(6) by (simp add: local_step_def)
    then show ?thesis using 2 s1 t process_prefix_state [OF m] m
      by (auto simp: airkiss_recv_def with_local_def)
  next
    case 3
    then have m: "airkiss_process_sequence len (akl s) = Some c" using assms(6) by (simp add: local_step_def)
    then show ?thesis using 3 s1 t m by (simp add: airkiss_recv_def with_local_def)
  qed
qed

lemma add_seq_data_state: "airkiss_add_seq_data bs i c = Some c' \<Longrightarrow> ak_airkiss_state c' = ak_airkiss_state c"
  by (auto simp: airkiss_add_seq_data_def bind_eq_Some_conv split: if_splits)

lemma process_sequence_state:
  assumes "airkiss_process_sequence len c = Some c'"
  shows "ak_airkiss_state c' \<in> {ak_airkiss_state c, AIRKISS_STATE_COMPLETE}"
proof -
  let ?Q = "\<lambda>c'. ak_airkiss_state c' \<in> {ak_airkiss_state c, AIRKISS_STATE_COMPLETE}"
  have "pred_option ?Q (airkiss_process_sequence len c)"
  proof (cases "record_length MAX_SEQ_CODE_RECORD (len - ucast (ak_base_len c)) c")
    case (Some c1)
    have c1: "?Q c1" using record_length_state [OF Some] by simp
    have fin: "pred_option ?Q
        (do { c \<leftarrow> airkiss_add_seq_data bs i c1;
              if P (resest_airkiss_data c)
              then do { rnd \<leftarrow> rd (f c) (g c); ud \<leftarrow> wr (f c) (g c) 0;
                        Some (set_ak_state AIRKISS_STATE_COMPLETE
                           (resest_airkiss_data c\<lparr>ak_random_num := rnd, ak_usr_data := ud, ak_pwd := True\<rparr>)) }
              else Some (resest_airkiss_data c) })" for bs i P f g
    proof (cases "airkiss_add_seq_data bs i c1")
      case (Some c2)
      then have "?Q c2" using add_seq_data_state c1 by auto
      then show ?thesis
        using Some by (auto simp: option.pred_set bind_eq_Some_conv resest_airkiss_data_def set_ak_state_def)
    qed simp
    show ?thesis
      unfolding airkiss_process_sequence_def Let_def Some Option.bind.simps
      by (intro if_both [where Q = "pred_option ?Q"] fin) (simp_all only: option.pred_inject c1)
  qed (simp add: airkiss_process_sequence_def)
  with assms show ?thesis by simp
qed

lemma local_step_state:
  assumes "local_step l c = Some c'" and "receiving c"
  shows "ak_airkiss_state c' = AIRKISS_STATE_COMPLETE \<or> receiving c'"
proof -
  consider "ak_airkiss_state c = AIRKISS_STATE_SRC_LOCKED"
    | "ak_airkiss_state c = AIRKISS_STATE_MAGIC_CODE_COMPLETE"
    | "ak_airkiss_state c = AIRKISS_STATE_PREFIX_CODE_COMPLETE"
    using assms(2) by (auto simp: receiving_def)
  then show ?thesis
    using assms(1) by cases (auto simp: local_step_def receiving_def dest: process_magic_state
      process_prefix_state process_sequence_state)
qed

lemma local_step_receiving:
  assumes "local_run (l # ls) c = Some c'" and "receiving c"
  obtains c1 where "local_step l c = Some c1" "local_run ls c1 = Some c'"
     "ak_airkiss_state c1 = AIRKISS_STATE_COMPLETE \<or> receiving c1"
proof -
  have "ak_airkiss_state c \<noteq> AIRKISS_STATE_COMPLETE" using assms(2) by (auto simp: receiving_def)
  with assms(1) obtain c1 where "local_step l c = Some c1" "local_run ls c1 = Some c'"
    by (auto simp: bind_eq_Some_conv)
  with local_step_state assms(2) that show thesis by blast
qed

lemma listen_run:
  assumes "tuned hdr s" and "receiving (akl s)" and "\<forall>(f, len)\<in>set fs. 24 \<le> length f"
    and "\<forall>(f, len)\<in>set fs. same_source hdr f \<longrightarrow> 24 \<le> unat len"
    and "local_run (map snd (filter (\<lambda>(f, len). same_source hdr f) fs)) (akl s) = Some c'"
  shows "\<exists>s'. airkiss_listen fs s = Some (if ak_airkiss_state c' = AIRKISS_STATE_COMPLETE
      then AIRKISS_STATUS_COMPLETE else AIRKISS_STATUS_CONTINUE, s') \<and> akl s' = c'"
  using assms
proof (induction fs arbitrary: s)
  case Nil
  then show ?case by (auto simp: receiving_def)
next
  case (Cons fl fs)
  obtain f len where fl: "fl = (f, len)" by (cases fl)
  have f: "24 \<le> length f" using Cons.prems(3) fl by simp
  show ?case
  proof (cases "same_source hdr f")
    case False
    from recv_foreign [OF Cons.prems(1) f Cons.prems(2) False, of len] obtain s1 where
      "airkiss_recv f len s = Some (AIRKISS_STATUS_CONTINUE, s1)" "tuned hdr s1" "akl s1 = akl s" by blast
    then show ?thesis using Cons.IH [of s1] Cons.prems False by (simp add: fl)
  next
    case True
    have len: "24 \<le> unat len" using Cons.prems(4) True fl by simp
    obtain c1 where c1: "local_step len (akl s) = Some c1"
      "local_run (map snd (filter (\<lambda>(f, len). same_source hdr f) fs)) c1 = Some c'"
      "ak_airkiss_state c1 = AIRKISS_STATE_COMPLETE \<or> receiving c1"
      using local_step_receiving [OF _ Cons.prems(2), of len "map snd (filter (\<lambda>(f, len). same_source hdr f) fs)" c']
        Cons.prems(5) True by (simp add: fl del: local_run.simps) blast
    from recv_own [OF Cons.prems(1) f Cons.prems(2) True len c1(1)] obtain s1 where s1:
      "airkiss_recv f len s = Some (if ak_airkiss_state c1 = AIRKISS_STATE_COMPLETE then AIRKISS_STATUS_COMPLETE
       else AIRKISS_STATUS_CONTINUE, s1)" "tuned hdr s1" "akl s1 = c1" by blast
    show ?thesis
    proof (cases "ak_airkiss_state c1 = AIRKISS_STATE_COMPLETE")
      case True
      then show ?thesis using s1 c1(2) by (simp add: fl local_run_complete)
    next
      case False
      then show ?thesis using s1 c1(2,3) Cons.IH [of s1] Cons.prems by (simp add: fl)
    qed
  qed
qed

text \<open>The guide code locks the decoder on the source of its fourth frame.\<close>

lemma guide_locks:
  assumes "49 \<le> b" and "b < 60000" and "map snd guide = on_air b [1, 2, 3, 4]"
    and "\<forall>(f, len)\<in>set guide. 24 \<le> length f"
    and "length (ctx_dummyap ctx) = 26" and "length (ctx_dummy ctx) = 32"
  shows "\<exists>s'. airkiss_listen (guide @ fs) \<lparr>akcontex = Some ctx, akl = set_ak_state AIRKISS_STATE_IDLE zero_local\<rparr> =
       airkiss_listen fs s' \<and> tuned (fst (guide ! 3)) s' \<and> locked b (akl s')"
proof -
  obtain f1 f2 f3 f4 where guide: "guide = [(f1, of_nat (b + 1)), (f2, of_nat (b + 2)), (f3, of_nat (b + 3)), (f4, of_nat (b + 4))]"
    using assms(3) by (auto simp: on_air_def map_eq_Cons_conv)
  have g3: "guide ! 3 = (f4, of_nat (b + 4))" by (simp add: guide numeral_3_eq_3)
  define l1 l2 l3 l4 :: u16 where "l1 = of_nat (b + 1)" and "l2 = of_nat (b + 2)" and "l3 = of_nat (b + 3)" and "l4 = of_nat (b + 4)"
  have gen: "uint (of_nat (b + k) :: u16) = int b + int k" if "k < 10" for k
    using assms(2) that by (simp add: unsigned_of_nat take_bit_nat_eq_self del: of_nat_add)
  have u: "uint l1 = int b + 1" "uint l2 = int b + 2" "uint l3 = int b + 3" "uint l4 = int b + 4"
    using gen [of 1] gen [of 2] gen [of 3] gen [of 4] unfolding l1_def l2_def l3_def l4_def by simp_all
  have b: "\<not> int b < 49" using assms(1) by simp
  define c0 where "c0 = set_ak_state AIRKISS_STATE_IDLE zero_local"
  have disc: "airkiss_recv f l \<lparr>akcontex = Some ctx, akl = c\<rparr> =
      map_option (\<lambda>s. (if ak_airkiss_state (akl s) = AIRKISS_STATE_SRC_LOCKED then AIRKISS_STATUS_CHANNEL_LOCKED
         else AIRKISS_STATUS_CONTINUE, s)) (airkiss_recv_discover f l \<lparr>akcontex = Some ctx, akl = c\<rparr>)"
    if "ak_airkiss_state c = AIRKISS_STATE_IDLE" "50 \<le> uint l" for f l c
    using that by (simp add: airkiss_recv_def airkiss_discover_filter_def map_conv_bind_option o_def)
  have miss: "airkiss_recv_discover f l \<lparr>akcontex = Some ctx, akl = c\<rparr> =
      Some \<lparr>akcontex = Some ctx, akl = c\<lparr>ak_data := [d1, d2, d3, l, l, d5, d6]\<rparr>\<rparr>"
    if "ak_data c = [d0, d1, d2, d3, d4, d5, d6]" "uint d2 - uint d1 \<noteq> 1" for f l c d0 d1 d2 d3 d4 d5 d6
    using that by (simp add: airkiss_recv_discover_def MAX_GUIDE_RECORD_def record_length_4 [OF that(1)])
  have hit: "airkiss_recv_discover f4 l4 \<lparr>akcontex = Some ctx, akl = c\<rparr> =
      Some \<lparr>akcontex = Some (ctx\<lparr>ctx_dummyap := map uint (take 24 f4) @ drop 24 (ctx_dummyap ctx)\<rparr>),
             akl = c\<lparr>ak_base_len := of_nat b, ak_airkiss_state := AIRKISS_STATE_SRC_LOCKED, ak_data := replicate 7 0\<rparr>\<rparr>"
    if "ak_data c = [d0, l1, l2, l3, d4, d5, d6]" for c d0 d4 d5 d6
    using assms(4,5) by (simp add: guide airkiss_recv_discover_def MAX_GUIDE_RECORD_def record_length_4 [OF that]
      u resest_airkiss_data_def set_ak_state_def rd_seg_def wr_seg_def)
  have d: "ak_data c0 = [0, 0, 0, 0, 0, 0, 0]" "ak_airkiss_state c0 = AIRKISS_STATE_IDLE"
    by (simp_all add: c0_def zero_local_def set_ak_state_def eval_nat_numeral)
  define s' where "s' = \<lparr>akcontex = Some (ctx\<lparr>ctx_dummyap := map uint (take 24 f4) @ drop 24 (ctx_dummyap ctx)\<rparr>),
    akl = c0\<lparr>ak_base_len := of_nat b, ak_airkiss_state := AIRKISS_STATE_SRC_LOCKED, ak_data := replicate 7 0\<rparr>\<rparr>"
  have "airkiss_listen (guide @ fs) \<lparr>akcontex = Some ctx, akl = c0\<rparr> = airkiss_listen fs s'"
    unfolding guide l1_def [symmetric] l2_def [symmetric] l3_def [symmetric] l4_def [symmetric]
    using assms(1) by (simp add: disc d u miss hit s'_def)
  moreover have "tuned (fst (guide ! 3)) s'"
    using assms(4-6) unfolding g3 by (simp add: guide tuned_def s'_def take_map drop_map take_drop)
  moreover have "locked b (akl s')"
    by (simp add: s'_def locked_def c0_def zero_local_def set_ak_state_def)
  ultimately show ?thesis unfolding c0_def by blast
qed

lemma transmission_small:
  assumes "sendable gs crc ms pwd payload items" and "v \<in> set (transmission gs crc ms (length pwd) payload items)"
  shows "v < 512"
proof -
  note s = assms(1) [unfolded sendable_def]
  have m: "w mod 16 < 16" for w :: nat by simp
  have d: "w < 256 \<Longrightarrow> w div 16 < 16" for w :: nat by (simp add: less_mult_imp_div_less)
  have magic: "v < 512" if "v \<in> set (magic_code (length payload) crc)"
    using that s d [of "length payload"] d [of crc] m [of "length payload"] m [of crc]
    by (auto simp: magic_code_def simp del: mod_less_divisor)
  have "v < 512" if "v \<in> set (prefix_code (length pwd))"
  proof -
    define k where "k = unat (calcrc_1byte (of_nat (length pwd)))"
    have "k < 256" unfolding k_def by (rule unat_u8_bound)
    then show ?thesis
      using that s d [of k] d [of "length pwd"] m [of k] m [of "length pwd"]
      by (auto simp: prefix_code_def Let_def k_def [symmetric] simp del: mod_less_divisor)
  qed
  moreover have "v < 512" if "x \<in> set items" "v \<in> set (item_code payload x)" for x
  proof (cases x)
    case (Inr i)
    then have "i < 64" using that(1) s by (auto simp: item_ok_def)
    then show ?thesis
      using that(2) Inr unat_u8_bound
      by (auto simp: seq_code_def intro: less_le_trans [OF add_strict_left_mono, of _ 256 _ 256])
         (use mod_less_divisor [of 128] in \<open>fastforce simp: less_Suc_eq_le\<close>)?
  qed (use that s in \<open>auto simp: item_ok_def\<close>)
  ultimately show ?thesis using assms(2) s magic by (auto simp: transmission_def)
qed

lemma on_air_lengths:
  assumes "49 \<le> b" and "b < 256" and "sendable gs crc ms pwd payload items"
    and "len \<in> set (on_air b (transmission gs crc ms (length pwd) payload items))"
  shows "24 \<le> unat len"
proof -
  obtain v where v: "v \<in> set (transmission gs crc ms (length pwd) payload items)" "len = of_nat (b + v)"
    using assms(4) by (auto simp: on_air_def)
  have "v < 512" by (rule transmission_small [OF assms(3) v(1)])
  then have "unat len = b + v" using assms(2) unfolding v(2) by (intro u16_small) simp
  then show ?thesis using assms(1) by simp
qed

section \<open>A password is received\<close>

text \<open>
  C10: a phone sends the guide code and then its transmission, in frames whose lengths are the
  base length plus the numbers, from one source and with any frames of other sources in between;
  the packets of the password come in any order, as often as the phone likes, and with other numbers
  before and after them. If every packet of the password is among them, the decoder reports
  completion and its result is the password and the random byte.
\<close>

theorem airkiss_decodes:
  assumes "49 \<le> b" and "b < 256" and "sendable gs crc ms pwd payload items"
    and "map snd guide = on_air b [1, 2, 3, 4]"
    and "map snd (filter (\<lambda>(f, len). same_source (fst (guide ! 3)) f) frames) =
      on_air b (transmission gs crc ms (length pwd) payload items)"
    and "\<forall>(f, len)\<in>set (guide @ frames). 24 \<le> length f"
    and "length (ctx_dummyap ctx) = 26" and "length (ctx_dummy ctx) = 32"
    and "airkiss_init (Some ctx) True s0 = (0, s)"
  shows "\<exists>s'. airkiss_listen (guide @ frames) s = Some (AIRKISS_STATUS_COMPLETE, s') \<and>
     airkiss_get_result s' = (0, \<lparr>res_pwd = Some pwd, res_pwd_length = of_nat (length pwd), res_ssid_length = 0,
       res_random = payload ! length pwd, res_reserved = of_nat crc\<rparr>)"
proof -
  have s: "s = \<lparr>akcontex = Some ctx, akl = set_ak_state AIRKISS_STATE_IDLE zero_local\<rparr>"
    using assms(9) by (simp add: airkiss_init_def)
  have "b < 60000" using assms(2) by simp
  moreover have "\<forall>(f, len)\<in>set guide. 24 \<le> length f" "\<forall>(f, len)\<in>set frames. 24 \<le> length f"
    using assms(6) by auto
  ultimately obtain s1 where s1: "airkiss_listen (guide @ frames) s = airkiss_listen frames s1"
    "tuned (fst (guide ! 3)) s1" "locked b (akl s1)"
    using guide_locks [OF assms(1) _ assms(4) _ assms(7,8), of frames] unfolding s by blast
  obtain c where c: "local_run (on_air b (transmission gs crc ms (length pwd) payload items)) (akl s1) = Some c"
    "decoded pwd (payload ! length pwd) (of_nat crc) c"
    using locked_decodes [OF s1(3) assms(2,3)] by blast
  have "\<exists>s'. airkiss_listen frames s1 = Some (if ak_airkiss_state c = AIRKISS_STATE_COMPLETE
      then AIRKISS_STATUS_COMPLETE else AIRKISS_STATUS_CONTINUE, s') \<and> akl s' = c"
  proof (rule listen_run [OF s1(2)])
    show "receiving (akl s1)" using s1(3) by (simp add: receiving_def locked_def)
    show "\<forall>(f, len)\<in>set frames. same_source (fst (guide ! 3)) f \<longrightarrow> 24 \<le> unat len"
    proof safe
      fix f len assume "(f, len) \<in> set frames" "same_source (fst (guide ! 3)) f"
      then have "len \<in> set (map snd (filter (\<lambda>(f, len). same_source (fst (guide ! 3)) f) frames))"
        by force
      then have "len \<in> set (on_air b (transmission gs crc ms (length pwd) payload items))"
        by (simp only: assms(5))
      then show "24 \<le> unat len" by (rule on_air_lengths [OF assms(1,2,3)])
    qed
  qed (use c assms(5) \<open>\<forall>(f, len)\<in>set frames. 24 \<le> length f\<close> in \<open>simp_all add: decoded_def\<close>)
  then show ?thesis
    using c(2) s1(1) by (auto simp: airkiss_get_result_def decoded_def Let_def)
qed


definition frame_of :: "u8 \<Rightarrow> u16 \<Rightarrow> u8 list \<times> u16" where
  "frame_of mac len = (replicate 24 mac, len)"

definition air :: "(u8 list \<times> u16) list" where
  "air = frame_of 9 80 # map (frame_of 7) (on_air 60
     (transmission [1, 2, 3, 4] 0xA5 [] 3 [0x61, 0x62, 0x63, 0x5C, 0x78] [Inl 3, Inr 1, Inr 0]))"

theorem airkiss_decodes_witness:
  "\<exists>s'. airkiss_listen (map (frame_of 7) (on_air 60 [1, 2, 3, 4]) @ air)
      (snd (airkiss_init (Some \<lparr>ctx_dummyap = replicate 26 0, ctx_dummy = replicate 32 0\<rparr>) True \<lparr>akcontex = None, akl = zero_local\<rparr>)) =
      Some (AIRKISS_STATUS_COMPLETE, s') \<and>
     airkiss_get_result s' = (0, \<lparr>res_pwd = Some [0x61, 0x62, 0x63], res_pwd_length = of_nat (length [0x61, 0x62, 0x63 :: u8]), res_ssid_length = 0,
       res_random = [0x61, 0x62, 0x63, 0x5C, 0x78] ! length [0x61, 0x62, 0x63 :: u8], res_reserved = of_nat 0xA5\<rparr>)"
proof (rule airkiss_decodes [where gs = "[1, 2, 3, 4]" and ms = "[]" and items = "[Inl 3, Inr 1, Inr 0]" and b = 60])
  show "map snd (filter (\<lambda>(f, len). same_source (fst (map (frame_of 7) (on_air 60 [1, 2, 3, 4]) ! 3)) f) air) =
      on_air 60 (transmission [1, 2, 3, 4] 0xA5 [] (length [0x61, 0x62, 0x63 :: u8]) [0x61, 0x62, 0x63, 0x5C, 0x78] [Inl 3, Inr 1, Inr 0])"
    by (simp add: air_def frame_of_def same_source_def on_air_def comp_def numeral_3_eq_3)
qed (auto simp: sendable_def item_ok_def frame_of_def air_def airkiss_init_def on_air_def less_Suc_eq_le le_Suc_eq)

section \<open>Base lengths that do not fit eight bits\<close>

text \<open>
  Cut to eight bits, a base length \<open>256 * q + r\<close> is \<open>r\<close>, and the number the decoder computes from
  a frame is too large by \<open>256 * q\<close>. The masks of the magic code keep the bits 4 to 8, so the
  mistake shows exactly when \<open>q\<close> is odd.
\<close>

lemma net_length_wide:
  "of_nat (b + v) - ucast (of_nat b :: u8) = (of_nat (256 * (b div 256) + v) :: u16)"
proof -
  have "ucast (of_nat b :: u8) = (of_nat (b mod 256) :: u16)"
    by (simp add: word_unat_eq_iff unsigned_ucast_eq unat_of_nat take_bit_eq_mod mod_mod_cancel)
  moreover have "(of_nat b :: u16) = of_nat (256 * (b div 256)) + of_nat (b mod 256)"
    unfolding of_nat_add [symmetric] by simp
  ultimately show ?thesis by (simp only: of_nat_add) simp
qed

lemma wide_not_3:
  assumes "odd q" and "v < 256"
  shows "(256 * q + v) div 16 mod 32 \<noteq> (3 :: nat)"
proof -
  have "v div 16 < 16" using assms(2) by (auto simp: less_mult_imp_div_less)
  moreover obtain k where "q = 2 * k + 1" using assms(1) by (rule oddE)
  then have "(256 * q + v) div 16 = 32 * k + (16 + v div 16)" by simp
  ultimately show ?thesis by simp
qed

lemma wide_noise:
  assumes "ak_airkiss_state c = AIRKISS_STATE_SRC_LOCKED" and "length (ak_data c) = 7" and "odd (b div 256)" and "b < 60000"
    and "ak_base_len c = of_nat b" and "\<forall>v\<in>set vs. v < 256"
  shows "\<exists>d. local_run (on_air b vs) c = Some (c\<lparr>ak_data := d\<rparr>) \<and> length d = 7"
  using assms
proof (induction vs arbitrary: c)
  case Nil
  then show ?case by (simp add: on_air_def exI [where x = "ak_data c"])
next
  case (Cons v vs)
  obtain d0 d1 d2 d3 d4 d5 d6 where d: "ak_data c = [d0, d1, d2, d3, d4, d5, d6]"
    using Cons.prems(2) by (rule length_7E)
  define w :: u16 where "w = of_nat (256 * (b div 256) + v)"
  define d' where "d' = [d1, d2, d3, w, w, d5, d6]"
  have v: "v < 256" using Cons.prems(6) by simp
  have "unat w = 256 * (b div 256) + v"
    unfolding w_def using v Cons.prems(4) by (intro u16_small) simp
  then have "unat w div 16 mod 32 \<noteq> 3" using wide_not_3 [OF Cons.prems(3) v] by simp
  moreover have "of_nat (b + v) - ucast (ak_base_len c) = w"
    using net_length_wide Cons.prems(5) by (simp only: w_def)
  ultimately have "local_step (of_nat (b + v)) c = Some (c\<lparr>ak_data := d'\<rparr>)"
    using Cons.prems(1) magic_step_net [OF d] by (simp add: local_step_def d'_def del: of_nat_add)
  moreover have "\<exists>d. local_run (on_air b vs) (c\<lparr>ak_data := d'\<rparr>) = Some (c\<lparr>ak_data := d'\<rparr>\<lparr>ak_data := d\<rparr>) \<and> length d = 7"
    using Cons.prems by (intro Cons.IH) (simp_all add: d'_def)
  ultimately show ?case
    using Cons.prems(1) by (auto simp: on_air_def simp del: of_nat_add)
qed

text \<open>
  C25: the base length is kept in eight bits. When bit 8 of the real one is set (a base length from
  256 to 511, from 768 to 1023, and so on), the decoder locks on the source and then understands
  nothing: neither the magic code nor any other numbers below 256 take it any further, however
  often they are sent.
\<close>

theorem airkiss_base_too_long:
  assumes "odd (b div 256)" and "b < 60000" and "\<forall>v\<in>set vs. v < 256"
    and "map snd guide = on_air b [1, 2, 3, 4]"
    and "map snd (filter (\<lambda>(f, len). same_source (fst (guide ! 3)) f) frames) = on_air b vs"
    and "\<forall>(f, len)\<in>set (guide @ frames). 24 \<le> length f"
    and "length (ctx_dummyap ctx) = 26" and "length (ctx_dummy ctx) = 32"
    and "airkiss_init (Some ctx) True s0 = (0, s)"
  shows "\<exists>s'. airkiss_listen (guide @ frames) s = Some (AIRKISS_STATUS_CONTINUE, s') \<and>
     ak_airkiss_state (akl s') = AIRKISS_STATE_SRC_LOCKED"
proof -
  have s: "s = \<lparr>akcontex = Some ctx, akl = set_ak_state AIRKISS_STATE_IDLE zero_local\<rparr>"
    using assms(9) by (simp add: airkiss_init_def)
  have b: "256 \<le> b" using assms(1) by (cases "b < 256") auto
  then have "49 \<le> b" by simp
  moreover note assms(2)
  moreover have fr: "\<forall>(f, len)\<in>set guide. 24 \<le> length f" "\<forall>(f, len)\<in>set frames. 24 \<le> length f"
    using assms(6) by auto
  ultimately obtain s1 where s1: "airkiss_listen (guide @ frames) s = airkiss_listen frames s1"
    "tuned (fst (guide ! 3)) s1" "locked b (akl s1)"
    using guide_locks [OF _ _ assms(4) _ assms(7,8), of frames] unfolding s by blast
  obtain d where d: "local_run (on_air b vs) (akl s1) = Some (akl s1\<lparr>ak_data := d\<rparr>)"
    using wide_noise [OF _ _ assms(1,2) _ assms(3), of "akl s1"] s1(3) by (auto simp: locked_def)
  have "receiving (akl s1)" using s1(3) by (simp add: receiving_def locked_def)
  moreover have "\<forall>(f, len)\<in>set frames. same_source (fst (guide ! 3)) f \<longrightarrow> 24 \<le> unat len"
  proof safe
    fix f len assume "(f, len) \<in> set frames" "same_source (fst (guide ! 3)) f"
    then have "len \<in> set (map snd (filter (\<lambda>(f, len). same_source (fst (guide ! 3)) f) frames))"
      by force
    then have "len \<in> set (on_air b vs)" by (simp only: assms(5))
    then obtain v where v: "v < 256" "len = of_nat (b + v)" using assms(3) by (auto simp: on_air_def)
    then have "unat len = b + v" using assms(2) unfolding v(2) by (intro u16_small) simp
    then show "24 \<le> unat len" using b by simp
  qed
  ultimately show ?thesis
    using listen_run [OF s1(2) _ fr(2), of "akl s1\<lparr>ak_data := d\<rparr>"] assms(5) d s1(1,3)
    by (auto simp: locked_def)
qed

theorem airkiss_base_too_long_witness:
  "\<exists>s'. airkiss_listen (map (frame_of 7) (on_air 300 [1, 2, 3, 4]) @ map (frame_of 7) (on_air 300 (magic_code 5 0xA5)))
      (snd (airkiss_init (Some \<lparr>ctx_dummyap = replicate 26 0, ctx_dummy = replicate 32 0\<rparr>) True \<lparr>akcontex = None, akl = zero_local\<rparr>)) =
      Some (AIRKISS_STATUS_CONTINUE, s') \<and> ak_airkiss_state (akl s') = AIRKISS_STATE_SRC_LOCKED"
proof (rule airkiss_base_too_long [where b = 300 and vs = "magic_code 5 0xA5"])
  show "map snd (filter (\<lambda>(f, len). same_source (fst (map (frame_of 7) (on_air 300 [1, 2, 3, 4]) ! 3)) f)
      (map (frame_of 7) (on_air 300 (magic_code 5 0xA5)))) = on_air 300 (magic_code 5 0xA5)"
    by (simp add: frame_of_def same_source_def on_air_def comp_def numeral_3_eq_3)
qed (auto simp: magic_code_def frame_of_def airkiss_init_def on_air_def)

section \<open>The checksum\<close>

definition crc_round :: "u8 \<Rightarrow> u8" where
  "crc_round x = drop_bit 1 x XOR (if bit x 0 then 0x8C else 0)"

lemma crc_masks:
  "(0x18 :: u8) = push_bit 4 1 OR push_bit 3 1" "(0x80 :: u8) = push_bit 7 1"
  "(0x8C :: u8) = push_bit 7 1 OR push_bit 3 1 OR push_bit 2 1"
  by simp_all

lemma crc_bits:
  "bit (0x18 :: u8) n \<longleftrightarrow> n = 4 \<or> n = 3" "bit (0x80 :: u8) n \<longleftrightarrow> n = 7"
  "bit (0x8C :: u8) n \<longleftrightarrow> n = 7 \<or> n = 3 \<or> n = 2"
  unfolding crc_masks by (simp_all only: bit_or_iff bit_push_bit_iff bit_1_iff possible_bit_word) auto

lemma bit_u8: "bit (w :: u8) n \<Longrightarrow> n < 8"
  by (drule bit_imp_le_length) simp

lemma crc_hit: "(drop_bit 1 (crc XOR 0x18) OR 0x80) XOR drop_bit 1 a = drop_bit 1 (crc XOR a) XOR (0x8C :: u8)"
proof (rule bit_word_eqI)
  fix n assume "n < LENGTH(8)"
  show "bit ((drop_bit 1 (crc XOR 0x18) OR 0x80) XOR drop_bit 1 a) n \<longleftrightarrow> bit (drop_bit 1 (crc XOR a) XOR (0x8C :: u8)) n"
    by (simp only: bit_or_iff bit_xor_iff bit_drop_bit_eq crc_bits o_apply) (auto dest: bit_u8)
qed

lemma crc_loop_rounds: "crc_loop i crc a XOR drop_bit i a = (crc_round ^^ i) (crc XOR a)"
proof (induction i arbitrary: crc a)
  case (Suc i)
  define crc' where "crc' = (if (crc XOR a) AND 0x01 \<noteq> 0 then drop_bit 1 (crc XOR 0x18) OR 0x80 else drop_bit 1 crc)"
  have "bit ((crc XOR a) AND 0x01) n \<longleftrightarrow> n = 0 \<and> bit (crc XOR a) 0" for n
    by (auto simp: bit_simps)
  then have t: "(crc XOR a) AND 0x01 \<noteq> 0 \<longleftrightarrow> bit (crc XOR a) 0"
    by (metis bit_eqI bit_0_eq bot_apply bot_bool_def)
  have "crc' XOR drop_bit 1 a = crc_round (crc XOR a)"
  proof (cases "bit (crc XOR a) 0")
    case True
    then show ?thesis unfolding crc'_def crc_round_def t by (simp only: if_True crc_hit)
  next
    case False
    then show ?thesis unfolding crc'_def crc_round_def t by (simp only: if_False drop_bit_xor xor.right_neutral)
  qed
  moreover have "crc_loop (Suc i) crc a XOR drop_bit (Suc i) a = crc_loop i crc' (drop_bit 1 a) XOR drop_bit i (drop_bit 1 a)"
    by (simp add: crc'_def Let_def)
  ultimately show ?case by (simp only: Suc.IH funpow_Suc_right o_apply)
qed simp

lemma calcrc_1byte_rounds: "calcrc_1byte b = (crc_round ^^ 8) b"
proof -
  have "drop_bit 8 b = 0" by (rule bit_word_eqI) (auto simp: bit_simps)
  then show ?thesis using crc_loop_rounds [of 8 0 b] by (simp add: calcrc_1byte_def del: crc_loop.simps)
qed

lemma crc_round_inj: "inj crc_round"
proof (rule injI)
  fix x y assume xy: "crc_round x = crc_round y"
  have top: "bit (crc_round z) 7 \<longleftrightarrow> bit z 0" for z
    unfolding crc_round_def by (auto simp: bit_or_iff bit_xor_iff bit_drop_bit_eq crc_bits dest: bit_u8)
  then have z: "bit x 0 \<longleftrightarrow> bit y 0" using xy by metis
  have "drop_bit 1 z = crc_round z XOR (if bit z 0 then 0x8C else 0)" for z
    by (simp add: crc_round_def xor.assoc)
  then have "drop_bit 1 x = drop_bit 1 y" using xy z by simp
  then have "bit x (Suc n) \<longleftrightarrow> bit y (Suc n)" for n
    by (metis bit_drop_bit_eq comp_apply plus_1_eq_Suc)
  with z show "x = y" by (intro bit_word_eqI) (metis not0_implies_Suc)
qed


lemma calcrc_1byte_inj: "inj calcrc_1byte"
proof -
  have "calcrc_1byte = crc_round ^^ 8" by (rule ext) (rule calcrc_1byte_rounds)
  then show ?thesis using inj_fn [OF crc_round_inj, of 8] by simp
qed

lemma crc_bytes_inj: "crc_bytes_loop c bs = crc_bytes_loop c' bs \<longleftrightarrow> c = c'"
proof (induction bs arbitrary: c c')
  case (Cons b bs)
  have "c XOR b = c' XOR b \<longleftrightarrow> c = c'"
    by (metis xor.assoc xor.right_neutral xor_self_eq)
  then show ?case using Cons.IH inj_eq [OF calcrc_1byte_inj] by simp
qed simp

text \<open>
  The checksum of a byte is the eight rounds of the reflected CRC-8 with polynomial 0x8C, a
  one-to-one map, so two strings that differ in one byte never have the same checksum.
\<close>

theorem calcrc_bytes_detects:
  "calcrc_1byte b = (crc_round ^^ 8) b \<and>
   (calcrc_bytes (xs @ b # ys) = calcrc_bytes (xs @ b' # ys) \<longleftrightarrow> b = b')"
proof -
  have loop: "crc_bytes_loop c (xs @ zs) = crc_bytes_loop (crc_bytes_loop c xs) zs" for c zs
    by (induction xs arbitrary: c) simp_all
  have "c XOR b = c XOR b' \<longleftrightarrow> b = b'" for c
    by (metis xor.assoc xor.left_neutral xor_self_eq)
  then show ?thesis
    by (simp add: calcrc_1byte_rounds calcrc_bytes_def loop crc_bytes_inj inj_eq [OF calcrc_1byte_inj] flip: calcrc_1byte_rounds)
qed

section \<open>Memory safety\<close>

datatype airkiss_op = Recv "u8 list" u16 | Change_channel

fun airkiss_run :: "airkiss_op list \<Rightarrow> airkiss \<Rightarrow> airkiss option" where
  "airkiss_run [] s = Some s"
| "airkiss_run (Recv frame len # ops) s = do { (st, s) \<leftarrow> airkiss_recv frame len s; airkiss_run ops s }"
| "airkiss_run (Change_channel # ops) s = do { s \<leftarrow> airkiss_change_channel s; airkiss_run ops s }"

text \<open>The last byte of the buffer for the user's data is never written.\<close>

definition local_wf :: "airkiss_local_context \<Rightarrow> bool" where
  "local_wf c \<longleftrightarrow> length (ak_data c) = 7 \<and> length (ak_usr_data c) = 65 \<and> ak_usr_data c ! 64 = 0 \<and> unat (ak_pswd_len c) \<le> 32"

definition airkiss_wf :: "airkiss \<Rightarrow> bool" where
  "airkiss_wf s \<longleftrightarrow> local_wf (akl s) \<and>
     (\<exists>ctx. akcontex s = Some ctx \<and> length (ctx_dummyap ctx) = 26 \<and> length (ctx_dummy ctx) = 32)"

lemma record_length_fine:
  assumes "local_wf c" and "n = 4 \<or> n = 6"
  shows "fine local_wf (record_length n len c)"
proof -
  obtain d0 d1 d2 d3 d4 d5 d6 where "ak_data c = [d0, d1, d2, d3, d4, d5, d6]"
    using assms(1) by (auto simp: local_wf_def elim: length_7E)
  with assms show ?thesis by (auto simp: fine_def record_length_4 record_length_6 local_wf_def)
qed

lemma local_wf_reset [simp]: "local_wf c \<Longrightarrow> local_wf (resest_airkiss_data c)"
  by (simp add: local_wf_def resest_airkiss_data_def)

lemma local_wf_state [simp]: "local_wf (set_ak_state st c) \<longleftrightarrow> local_wf c"
  by (simp add: local_wf_def set_ak_state_def)

lemma magic_fine: "local_wf c \<Longrightarrow> fine local_wf (airkiss_process_magic_code len c)"
  unfolding airkiss_process_magic_code_def Let_def MAX_MAGIC_CODE_RECORD_def
  by (intro fine_bind [OF record_length_fine] fine_Some if_both [where Q = local_wf] local_wf_reset)
    (simp_all only: local_wf_state, simp_all add: local_wf_def)

lemma prefix_fine: "local_wf c \<Longrightarrow> fine local_wf (airkiss_process_prefix_code len c)"
proof -
  assume c: "local_wf c"
  have small: "\<not> PASSWORD_MAX_LEN < l \<longrightarrow> unat l \<le> 32" for l :: u8
    by (simp add: PASSWORD_MAX_LEN_def word_less_nat_alt)
  show ?thesis
    unfolding airkiss_process_prefix_code_def Let_def MAX_PREFIX_CODE_RECORD_def
    by (intro fine_bind [OF record_length_fine] fine_Some if_both [where Q = local_wf] local_wf_reset c)
      (simp_all only: local_wf_state, simp_all add: local_wf_def small set_ak_state_def)
qed

lemma add_seq_fine:
  assumes "local_wf c" and "length bs = 4"
  shows "fine local_wf (airkiss_add_seq_data bs i c)"
proof (cases "i < unat (ak_need_seq c) \<and> i * 4 + 4 \<le> USR_DATA_BUFF_MAX_SIZE \<and> ak_seq_success_map c AND push_bit i 1 = 0")
  case True
  then have i: "i * 4 + 4 \<le> 65" by (simp add: USR_DATA_BUFF_MAX_SIZE_def)
  then have "(take (i * 4) u @ bs @ drop (i * 4 + 4) u) ! 64 = u ! 64" if "length u = 65" for u
  proof -
    have "\<not> 64 - i * 4 < 4" "i * 4 \<le> 60" using i by presburger+
    then show ?thesis using that assms(2) by (simp add: nth_append)
  qed
  with True i assms show ?thesis
    by (auto simp: airkiss_add_seq_data_def rd_seg_def wr_seg_def fine_def local_wf_def)
next
  case False
  then show ?thesis using assms(1) unfolding airkiss_add_seq_data_def by (simp only: if_False fine_Some)
qed

lemma sequence_fine:
  assumes "local_wf c"
  shows "fine local_wf (airkiss_process_sequence len c)"
proof -
  have fin: "fine local_wf (do { rnd \<leftarrow> rd (ak_usr_data c) (unat (ak_pswd_len c));
      ud \<leftarrow> wr (ak_usr_data c) (unat (ak_pswd_len c)) 0;
      Some (set_ak_state AIRKISS_STATE_COMPLETE (c\<lparr>ak_random_num := rnd, ak_usr_data := ud, ak_pwd := True\<rparr>)) })"
    if "local_wf c" for c
    using that by (simp add: fine_def rd_def wr_def local_wf_def set_ak_state_def)
  show ?thesis
    unfolding airkiss_process_sequence_def Let_def MAX_SEQ_CODE_RECORD_def
    by (intro fine_bind [OF record_length_fine] fine_bind [OF add_seq_fine] fine_if fine_Some fin local_wf_reset assms)
      (assumption | simp)+
qed

lemma recv_fine:
  assumes "airkiss_wf s" and "24 \<le> length f"
  shows "fine (\<lambda>(st, s). airkiss_wf s) (airkiss_recv f len s)"
proof -
  have loc: "fine (\<lambda>(st, s). airkiss_wf s) (do { s \<leftarrow> with_local g s; Some (st s, s) })"
    if g: "\<And>c. local_wf c \<Longrightarrow> fine local_wf (g c)" and s: "airkiss_wf s" for g st s
  proof -
    obtain c where "g (akl s) = Some c" "local_wf c"
      using g [of "akl s"] s by (auto simp: fine_def airkiss_wf_def)
    with s show ?thesis by (simp add: with_local_def fine_def airkiss_wf_def)
  qed
  have filt: "fine (\<lambda>(st, s). airkiss_wf s) (airkiss_filter f sz s)" for sz
    using assms by (auto simp: airkiss_filter_def fine_def airkiss_wf_def rd_seg_def wr_seg_def)
  have disc: "fine airkiss_wf (airkiss_recv_discover f len s)" if wf: "airkiss_wf s" for s
  proof -
    obtain c where c: "record_length MAX_GUIDE_RECORD len (akl s) = Some c" "local_wf c"
      using record_length_fine [of "akl s" 4 len] wf by (auto simp: fine_def airkiss_wf_def MAX_GUIDE_RECORD_def)
    have "local_wf (c\<lparr>ak_base_len := b\<rparr>)" for b using c(2) by (simp add: local_wf_def)
    with c wf assms(2) show ?thesis
      by (auto simp: airkiss_recv_discover_def Let_def fine_def airkiss_wf_def rd_seg_def wr_seg_def)
  qed
  have first: "fine (\<lambda>(st, s). airkiss_wf s)
      (if ak_airkiss_state (akl s) \<noteq> AIRKISS_STATE_IDLE then airkiss_filter f (uint len) s else Some (1, s))"
    using filt assms(1) by (simp add: fine_def)
  have step: "fine (\<lambda>(st, s). airkiss_wf s)
      (case ak_airkiss_state (akl s1) of
         AIRKISS_STATE_IDLE \<Rightarrow>
           if airkiss_discover_filter f (uint len) \<noteq> 0
           then do { s \<leftarrow> airkiss_recv_discover f len s1;
                     Some (if ak_airkiss_state (akl s) = AIRKISS_STATE_SRC_LOCKED
                           then AIRKISS_STATUS_CHANNEL_LOCKED else AIRKISS_STATUS_CONTINUE, s) }
           else Some (AIRKISS_STATUS_CONTINUE, s1)
       | AIRKISS_STATE_SRC_LOCKED \<Rightarrow>
           do { s \<leftarrow> with_local (airkiss_process_magic_code len) s1; Some (AIRKISS_STATUS_CONTINUE, s) }
       | AIRKISS_STATE_MAGIC_CODE_COMPLETE \<Rightarrow>
           do { s \<leftarrow> with_local (airkiss_process_prefix_code len) s1; Some (AIRKISS_STATUS_CONTINUE, s) }
       | AIRKISS_STATE_PREFIX_CODE_COMPLETE \<Rightarrow>
           do { s \<leftarrow> with_local (airkiss_process_sequence len) s1;
                Some (if ak_airkiss_state (akl s) = AIRKISS_STATE_COMPLETE
                      then AIRKISS_STATUS_COMPLETE else AIRKISS_STATUS_CONTINUE, s) }
       | _ \<Rightarrow> Some (AIRKISS_STATUS_CONTINUE, s1\<lparr>akl := set_ak_state AIRKISS_STATE_IDLE (akl s1)\<rparr>))" if wf: "airkiss_wf s1" for s1
  proof -
    have idle: "fine (\<lambda>(st, s). airkiss_wf s) (Some (AIRKISS_STATUS_CONTINUE, s1))"
      "fine (\<lambda>(st, s). airkiss_wf s) (Some (AIRKISS_STATUS_CONTINUE, s1\<lparr>akl := set_ak_state AIRKISS_STATE_IDLE (akl s1)\<rparr>))"
      using wf by (simp_all add: fine_def airkiss_wf_def)
    have d: "fine (\<lambda>(st, s). airkiss_wf s) (do { s \<leftarrow> airkiss_recv_discover f len s1; Some (st s, s) })" for st
      using disc [OF wf] by (auto simp: fine_def)
    show ?thesis
    proof (cases "ak_airkiss_state (akl s1)")
      case AIRKISS_STATE_IDLE
      show ?thesis unfolding AIRKISS_STATE_IDLE air_kiss_state.case by (intro fine_if idle d)
    next
      case AIRKISS_STATE_SRC_LOCKED
      show ?thesis unfolding AIRKISS_STATE_SRC_LOCKED air_kiss_state.case by (rule loc [OF magic_fine wf])
    next
      case AIRKISS_STATE_MAGIC_CODE_COMPLETE
      show ?thesis unfolding AIRKISS_STATE_MAGIC_CODE_COMPLETE air_kiss_state.case by (rule loc [OF prefix_fine wf])
    next
      case AIRKISS_STATE_PREFIX_CODE_COMPLETE
      show ?thesis unfolding AIRKISS_STATE_PREFIX_CODE_COMPLETE air_kiss_state.case by (rule loc [OF sequence_fine wf])
    qed (simp_all only: air_kiss_state.case idle)
  qed
  show ?thesis
    unfolding airkiss_recv_def
    by (rule fine_bind_pair [OF first]) (rule fine_if [OF fine_Some step], simp_all)
qed

lemma run_fine:
  assumes "airkiss_wf s" and "\<forall>frame len. Recv frame len \<in> set ops \<longrightarrow> 24 \<le> length frame"
  shows "\<exists>s'. airkiss_run ops s = Some s' \<and> airkiss_wf s'"
  using assms
proof (induction ops arbitrary: s)
  case (Cons op ops)
  show ?case
  proof (cases op)
    case (Recv frame len)
    with recv_fine [OF Cons.prems(1), of frame len] Cons.prems(2) obtain st s1
      where "airkiss_recv frame len s = Some (st, s1)" "airkiss_wf s1" by (auto simp: fine_def)
    moreover have "\<forall>frame len. Recv frame len \<in> set ops \<longrightarrow> 24 \<le> length frame" using Cons.prems(2) by simp
    ultimately show ?thesis using Recv Cons.IH [of s1] by simp
  next
    case Change_channel
    obtain s1 where "airkiss_change_channel s = Some s1" "airkiss_wf s1"
      using Cons.prems(1) by (auto simp: airkiss_change_channel_def airkiss_wf_def)
    then show ?thesis using Change_channel Cons.IH [of s1] Cons.prems(2) by simp
  qed
qed simp

text \<open>
  C24: whatever frames a sniffer passes on and whenever the channel is changed, the decoder stays
  inside its buffers, as long as the 24 bytes of a header can be read; the password it returns ends
  inside its buffer.
\<close>

theorem airkiss_safe:
  assumes "airkiss_init (Some ctx) True s0 = (0, s)"
    and "length (ctx_dummyap ctx) = 26" and "length (ctx_dummy ctx) = 32"
    and "\<forall>frame len. Recv frame len \<in> set ops \<longrightarrow> 24 \<le> length frame"
  shows "\<exists>s'. airkiss_run ops s = Some s' \<and>
     (\<forall>p. res_pwd (snd (airkiss_get_result s')) = Some p \<longrightarrow> length p \<le> 64)"
proof -
  have "airkiss_wf s"
    using assms(1-3) by (auto simp: airkiss_init_def airkiss_wf_def local_wf_def zero_local_def set_ak_state_def)
  then obtain s' where s': "airkiss_run ops s = Some s'" "airkiss_wf s'"
    using run_fine assms(4) by blast
  have "length (takeWhile (\<lambda>b. b \<noteq> 0) (ak_usr_data (akl s'))) \<le> 64"
  proof (rule ccontr)
    assume "\<not> ?thesis"
    then have "64 < length (takeWhile (\<lambda>b. b \<noteq> 0) (ak_usr_data (akl s')))" by simp
    then have "takeWhile (\<lambda>b. b \<noteq> 0) (ak_usr_data (akl s')) ! 64 \<noteq> 0"
      by (rule set_takeWhileD [OF nth_mem, THEN conjunct2])
    then have "ak_usr_data (akl s') ! 64 \<noteq> 0"
      using takeWhile_nth [OF \<open>64 < _\<close>] by simp
    then show False using s'(2) by (simp add: airkiss_wf_def local_wf_def)
  qed
  then show ?thesis using s'(1) by (auto simp: airkiss_get_result_def Let_def)
qed

theorem airkiss_safe_witness:
  "\<exists>s'. airkiss_run [Recv (replicate 24 7) 100, Change_channel, Recv (replicate 30 9) 8]
      (snd (airkiss_init (Some \<lparr>ctx_dummyap = replicate 26 0, ctx_dummy = replicate 32 0\<rparr>) True \<lparr>akcontex = None, akl = zero_local\<rparr>)) = Some s' \<and>
     (\<forall>p. res_pwd (snd (airkiss_get_result s')) = Some p \<longrightarrow> length p \<le> 64)"
  by (rule airkiss_safe) (auto simp: airkiss_init_def)

end
