(* ===== verification/Rboot.thy ===== *)
theory Rboot
  imports Prelude
begin

text \<open>
  The boot loader of bootloader/rboot: rboot.c, which chooses a rom and verifies it, and
  rboot-stage2a.c, which copies the sections of the chosen rom to memory. The routines of the boot
  ROM that read, erase and write the flash are a parameter; 'f is the state of the flash. The
  compile-time switches of rboot.h are the fields of a record.
\<close>

section \<open>Flash, options and headers\<close>

text \<open>
  A read yields the bytes that are in the buffer afterwards; the first component tells whether
  the routine returned 0.
\<close>

record 'f spi_flash =
  SPIRead :: "u32 \<Rightarrow> nat \<Rightarrow> 'f \<Rightarrow> bool \<times> u8 list"
  SPIEraseSector :: "u32 \<Rightarrow> 'f \<Rightarrow> bool \<times> 'f"
  SPIWrite :: "u32 \<Rightarrow> u8 list \<Rightarrow> 'f \<Rightarrow> bool \<times> 'f"

record boot_options =
  BOOT_CONFIG_CHKSUM :: bool
  BOOT_BIG_FLASH :: bool
  BOOT_IROM_CHKSUM :: bool

definition CHKSUM_INIT :: u8 where "CHKSUM_INIT = 0xef"
definition SECTOR_SIZE :: u32 where "SECTOR_SIZE = 0x1000"
definition BOOT_CONFIG_SECTOR :: u32 where "BOOT_CONFIG_SECTOR = 1"
definition BOOT_CONFIG_MAGIC :: u8 where "BOOT_CONFIG_MAGIC = 0xe1"
definition BOOT_CONFIG_VERSION :: u8 where "BOOT_CONFIG_VERSION = 0x01"
definition MODE_GPIO_ROM :: u8 where "MODE_GPIO_ROM = 0x01"
definition ROM_MAGIC :: u8 where "ROM_MAGIC = 0xe9"
definition ROM_MAGIC_NEW1 :: u8 where "ROM_MAGIC_NEW1 = 0xea"
definition ROM_MAGIC_NEW2 :: u8 where "ROM_MAGIC_NEW2 = 0x04"
definition BUFFER_SIZE :: u32 where "BUFFER_SIZE = 0x100"

text \<open>
  The headers are read into a buffer: magic and count are the bytes 0 and 1, flags1 and flags2 the
  bytes 2 and 3, the entry point the word at 4 and, in the new header, the length of the irom
  section the word at 12. A section header is an address and a length.
\<close>

section \<open>Verification of an image\<close>

fun xor_bytes :: "u8 \<Rightarrow> u8 list \<Rightarrow> u8" where
  "xor_bytes chksum [] = chksum"
| "xor_bytes chksum (b # bs) = xor_bytes (chksum XOR b) bs"

text \<open>The body of a section is read in blocks. \<open>None\<close>: a read has failed and the image is bad.\<close>

function check_blocks :: "(u32 \<Rightarrow> nat \<Rightarrow> bool \<times> u8 list) \<Rightarrow> u32 \<Rightarrow> u32 \<Rightarrow> u8 \<Rightarrow> (u32 \<times> u8) option" where
  "check_blocks spi readpos remaining chksum =
     (if remaining > 0 then
        let readlen = (if remaining < BUFFER_SIZE then remaining else BUFFER_SIZE);
            (ok, buffer) = spi readpos (unat readlen)
        in if \<not> ok then None
           else check_blocks spi (readpos + readlen) (remaining - readlen) (xor_bytes chksum buffer)
      else Some (readpos, chksum))"
  by pat_completeness auto

lemma readlen_pos:
  "remaining > 0 \<Longrightarrow> readlen = (if remaining < BUFFER_SIZE then remaining else BUFFER_SIZE) \<Longrightarrow>
     unat (remaining - readlen) < unat remaining \<and> readlen \<le> remaining \<and> unat readlen \<le> 256 \<and> readlen > 0"
  by (auto simp: BUFFER_SIZE_def word_less_nat_alt word_le_nat_alt unat_sub_if' split: if_splits)

termination check_blocks
  by (relation "measure (\<lambda>(spi, readpos, remaining, chksum). unat remaining)")
    (auto dest: readlen_pos simp del: split_paired_All)

text \<open>
  The loop over the sections, with \<open>sectcurrent\<close> and \<open>sectcount\<close> of eight bits. With the checksum
  over the irom section the count starts as 0xff and is set when the standard header is reached.
\<close>

function check_sections ::
  "boot_options \<Rightarrow> (u32 \<Rightarrow> nat \<Rightarrow> bool \<times> u8 list) \<Rightarrow> u8 \<Rightarrow> u8 \<Rightarrow> u32 \<Rightarrow> u8 \<Rightarrow> (u32 \<times> u8) option" where
  "check_sections opts spi sectcurrent sectcount readpos chksum =
     (if sectcurrent < sectcount then
        do { let (ok, section) = spi readpos 8;
             (readpos, chksum) \<leftarrow>
               (if ok then check_blocks spi (readpos + 8) (le32 section 4) chksum else None);
             (sectcount, readpos) \<leftarrow>
               (if BOOT_IROM_CHKSUM opts \<and> sectcount = 0xff then
                  (let (ok, header) = spi readpos 8
                   in if ok then Some (header ! 1 + 1, readpos + 8) else None)
                else Some (sectcount, readpos));
             check_sections opts spi (sectcurrent + 1) sectcount readpos chksum }
      else Some (readpos, chksum))"
  by pat_completeness auto
termination
proof (relation "measure (\<lambda>(opts, spi, sectcurrent, sectcount, readpos, chksum). 256 - unat sectcurrent)")
  fix sectcurrent sectcount :: u8
  assume "sectcurrent < sectcount"
  then have "unat sectcurrent < unat sectcount" by (simp add: word_less_nat_alt)
  moreover have "unat sectcount < 256" by (rule unat_u8_bound)
  ultimately have "unat (sectcurrent + 1) = unat sectcurrent + 1" "unat sectcurrent < 256"
    by (simp_all add: unat_word_ariths)
  then show "((opts, spi, sectcurrent + 1, sc, rp, ck), opts, spi, sectcurrent, sectcount, rp', ck')
      \<in> measure (\<lambda>(opts, spi, sectcurrent, sectcount, readpos, chksum). 256 - unat sectcurrent)"
    for opts :: boot_options and spi :: "u32 \<Rightarrow> nat \<Rightarrow> bool \<times> u8 list" and sc :: u8 and rp rp' :: u32 and ck ck' :: u8
    by simp
qed simp

definition check_image :: "boot_options \<Rightarrow> (u32 \<Rightarrow> nat \<Rightarrow> bool \<times> u8 list) \<Rightarrow> u32 \<Rightarrow> u32" where
  "check_image opts spi readpos =
     (if readpos = 0 \<or> readpos = 0xffffffff then 0
      else
        (let (ok, header) = spi readpos 16
         in if \<not> ok then 0
         else
           (case (if header ! 0 = ROM_MAGIC then Some (readpos, readpos + 8, header ! 1)
                  else if header ! 0 = ROM_MAGIC_NEW1 \<and> header ! 1 = ROM_MAGIC_NEW2 then
                    (let romaddr = readpos + le32 header 12 + 16
                     in if BOOT_IROM_CHKSUM opts then Some (romaddr, readpos + 8, 0xff)
                        else (let (ok, header) = spi romaddr 8
                              in if ok then Some (romaddr, romaddr + 8, header ! 1) else None))
                  else None)
            of None \<Rightarrow> 0
             | Some (romaddr, readpos, sectcount) \<Rightarrow>
                 (case check_sections opts spi 0 sectcount readpos CHKSUM_INIT of
                    None \<Rightarrow> 0
                  | Some (readpos, chksum) \<Rightarrow>
                      (let (ok, buffer) = spi (readpos OR 0x0f) 1
                       in if \<not> ok then 0 else if buffer ! 0 \<noteq> chksum then 0 else romaddr)))))"

section \<open>Choice of a rom\<close>

text \<open>\<open>calc_chksum\<close> gets the bytes from \<open>start\<close> up to \<open>end\<close>.\<close>

definition calc_chksum :: "u8 list \<Rightarrow> u8" where
  "calc_chksum bytes = xor_bytes CHKSUM_INIT bytes"

text \<open>
  The boot configuration is the first bytes of a sector-sized buffer: magic, version, mode,
  current_rom, gpio_rom and count are the bytes 0 to 5, the addresses of the roms the words from 8,
  and the checksum, if there is one, the byte 24. \<open>romToBoot\<close> is signed and is not checked against
  the four entries of the array: other values read what else is in the buffer.
\<close>

definition conf_rom :: "u8 list \<Rightarrow> int \<Rightarrow> u32" where
  "conf_rom buffer i = le32 buffer (nat (8 + 4 * i))"

definition conf_size :: "boot_options \<Rightarrow> nat" where
  "conf_size opts = (if BOOT_CONFIG_CHKSUM opts then 28 else 24)"

definition put_chksum :: "boot_options \<Rightarrow> u8 list \<Rightarrow> u8 list" where
  "put_chksum opts buffer =
     (if BOOT_CONFIG_CHKSUM opts then buffer[24 := calc_chksum (take 24 buffer)] else buffer)"

definition default_config :: "boot_options \<Rightarrow> u32 \<Rightarrow> u8 list \<Rightarrow> u8 list" where
  "default_config opts flashsize buffer =
     put_chksum opts
       ([BOOT_CONFIG_MAGIC, BOOT_CONFIG_VERSION, 0, 0, 0, 2, 0, 0]
        @ put32 (SECTOR_SIZE * (BOOT_CONFIG_SECTOR + 1))
        @ put32 (flashsize div 2 + SECTOR_SIZE * (BOOT_CONFIG_SECTOR + 1))
        @ replicate (conf_size opts - 16) 0 @ drop (conf_size opts) buffer)"

text \<open>The messages on the console.\<close>

datatype boot_msg = Msg string | Msg_rom string int

definition flash_size :: "boot_options \<Rightarrow> u8 \<Rightarrow> boot_msg \<times> u32" where
  "flash_size opts flag =
     (if flag = 0 then (Msg ''4 Mbit'', 0x80000)
      else if flag = 1 then (Msg ''2 Mbit'', 0x40000)
      else if flag = 2 then (Msg ''8 Mbit'', 0x100000)
      else if flag = 3 then (Msg ''16 Mbit'', if BOOT_BIG_FLASH opts then 0x200000 else 0x100000)
      else if flag = 4 then (Msg ''32 Mbit'', if BOOT_BIG_FLASH opts then 0x400000 else 0x100000)
      else (Msg ''unknown'', 0x80000))"

definition flash_mode :: "u8 \<Rightarrow> boot_msg" where
  "flash_mode flags1 =
     Msg (if flags1 = 0 then ''QIO'' else if flags1 = 1 then ''QOUT'' else if flags1 = 2 then ''DIO''
          else if flags1 = 3 then ''DOUT'' else ''unknown'')"

definition flash_speed :: "u8 \<Rightarrow> boot_msg" where
  "flash_speed flag =
     Msg (if flag = 0 then ''40 MHz'' else if flag = 1 then ''26.7 MHz'' else if flag = 2 then ''20 MHz''
          else if flag = 0x0f then ''80 MHz'' else ''unknown'')"

definition option_msgs :: "boot_options \<Rightarrow> boot_msg list" where
  "option_msgs opts =
     (if BOOT_BIG_FLASH opts then [Msg ''rBoot Option: Big flash''] else [])
     @ (if BOOT_CONFIG_CHKSUM opts then [Msg ''rBoot Option: Config chksum''] else [])
     @ (if BOOT_IROM_CHKSUM opts then [Msg ''rBoot Option: irom chksum''] else [])"

text \<open>
  The loop that tries the roms: \<open>check\<close> verifies the image at an address. The result is the address
  to run, 0 if none is good, the number of the rom and \<open>updateConfig\<close>. A loop that never ends is \<open>None\<close>.
\<close>

partial_function (option) find_loop ::
  "(u32 \<Rightarrow> u32) \<Rightarrow> u8 list \<Rightarrow> bool \<Rightarrow> int \<Rightarrow> bool \<Rightarrow> boot_msg list \<Rightarrow> (u32 \<times> int \<times> bool \<times> boot_msg list) option" where
  "find_loop check buffer gpio_boot romToBoot updateConfig log =
     (let runAddr = check (conf_rom buffer romToBoot)
      in if runAddr \<noteq> 0 then Some (runAddr, romToBoot, updateConfig, log)
         else
           let log = log @ [Msg_rom ''Rom %d is bad.'' romToBoot]
           in if gpio_boot then Some (0, romToBoot, updateConfig, log @ [Msg ''GPIO boot failed.''])
              else
                let romToBoot = romToBoot - 1;
                    romToBoot = (if romToBoot < 0 then uint (buffer ! 5) - 1 else romToBoot)
                in if romToBoot = uint (buffer ! 3)
                   then Some (0, romToBoot, True, log @ [Msg ''No good rom available.''])
                   else find_loop check buffer gpio_boot romToBoot True log)"

text \<open>
  \<open>gpio16\<close> is the level of the pin. The memory of the loader, a file the build generates, is not
  part of the model: the result is the address to run, the flash and the messages.
\<close>

definition find_image ::
  "boot_options \<Rightarrow> 'f spi_flash \<Rightarrow> u32 \<Rightarrow> 'f \<Rightarrow> (u32 \<times> 'f \<times> boot_msg list) option" where
  "find_image opts io gpio16 f =
     (let header = snd (SPIRead io 0 8 f);
          (size_msg, flashsize) = flash_size opts (drop_bit 4 (header ! 3));
          log = [Msg ''Flash Size:'', size_msg, Msg ''Flash Mode:'', flash_mode (header ! 2),
                 Msg ''Flash Speed:'', flash_speed (header ! 3 AND 0x0f)] @ option_msgs opts;
          buffer = snd (SPIRead io (BOOT_CONFIG_SECTOR * SECTOR_SIZE) (unat SECTOR_SIZE) f);
          (buffer, f, log) =
            (if buffer ! 0 \<noteq> BOOT_CONFIG_MAGIC \<or> buffer ! 1 \<noteq> BOOT_CONFIG_VERSION \<or>
                (BOOT_CONFIG_CHKSUM opts \<and> buffer ! 24 \<noteq> calc_chksum (take 24 buffer))
             then
               (let buffer = default_config opts flashsize buffer;
                    f = snd (SPIEraseSector io BOOT_CONFIG_SECTOR f);
                    f = snd (SPIWrite io (BOOT_CONFIG_SECTOR * SECTOR_SIZE) buffer f)
                in (buffer, f, log @ [Msg ''Writing default boot config.'']))
             else (buffer, f, log));
          (romToBoot, gpio_boot, buffer, updateConfig, log) =
            (if buffer ! 2 AND MODE_GPIO_ROM \<noteq> 0 \<and> gpio16 = 0
             then (uint (buffer ! 4), True, buffer, False, log @ [Msg ''Booting GPIO-selected.''])
             else if buffer ! 3 \<ge> buffer ! 5
             then (0, False, buffer[3 := 0], True, log @ [Msg ''Invalid rom selected, defaulting.''])
             else (uint (buffer ! 3), False, buffer, False, log))
      in do { (runAddr, romToBoot, updateConfig, log) \<leftarrow>
                find_loop (check_image opts (\<lambda>a n. SPIRead io a n f)) buffer gpio_boot romToBoot updateConfig log;
              if runAddr = 0 then Some (0, f, log)
              else
                (let f = (if updateConfig
                          then (let buffer = put_chksum opts (buffer[3 := word_of_int romToBoot]);
                                    f = snd (SPIEraseSector io BOOT_CONFIG_SECTOR f)
                                in snd (SPIWrite io (BOOT_CONFIG_SECTOR * SECTOR_SIZE) buffer f))
                          else f)
                 in Some (runAddr, f, log @ [Msg_rom ''Booting rom %d.'' romToBoot])) })"

section \<open>Loading a rom\<close>

text \<open>Memory is a function from addresses to bytes.\<close>

definition ets_memcpy :: "u32 \<Rightarrow> u8 list \<Rightarrow> (u32 \<Rightarrow> u8) \<Rightarrow> u32 \<Rightarrow> u8" where
  "ets_memcpy dst bytes mem = (\<lambda>a. if unat (a - dst) < length bytes then bytes ! unat (a - dst) else mem a)"

function load_blocks ::
  "(u32 \<Rightarrow> nat \<Rightarrow> bool \<times> u8 list) \<Rightarrow> u32 \<Rightarrow> u32 \<Rightarrow> u32 \<Rightarrow> (u32 \<Rightarrow> u8) \<Rightarrow> u32 \<times> (u32 \<Rightarrow> u8)" where
  "load_blocks spi readpos writepos remaining mem =
     (if remaining > 0 then
        let readlen = (if remaining < BUFFER_SIZE then remaining else BUFFER_SIZE);
            buffer = snd (spi readpos (unat readlen))
        in load_blocks spi (readpos + readlen) (writepos + readlen) (remaining - readlen)
             (ets_memcpy writepos buffer mem)
      else (readpos, mem))"
  by pat_completeness auto
termination
  by (relation "measure (\<lambda>(spi, readpos, writepos, remaining, mem). unat remaining)")
    (auto dest: readlen_pos simp del: split_paired_All)

text \<open>The first argument is \<open>sectcount\<close>, which counts down.\<close>

fun load_sections ::
  "nat \<Rightarrow> (u32 \<Rightarrow> nat \<Rightarrow> bool \<times> u8 list) \<Rightarrow> u32 \<Rightarrow> (u32 \<Rightarrow> u8) \<Rightarrow> (u32 \<Rightarrow> u8)" where
  "load_sections 0 spi readpos mem = mem"
| "load_sections (Suc sectcount) spi readpos mem =
     (let section = snd (spi readpos 8);
          (readpos, mem) = load_blocks spi (readpos + 8) (le32 section 0) (le32 section 4) mem
      in load_sections sectcount spi readpos mem)"

definition load_rom :: "(u32 \<Rightarrow> nat \<Rightarrow> bool \<times> u8 list) \<Rightarrow> u32 \<Rightarrow> (u32 \<Rightarrow> u8) \<Rightarrow> u32 \<times> (u32 \<Rightarrow> u8)" where
  "load_rom spi readpos mem =
     (let header = snd (spi readpos 8)
      in (le32 header 4, load_sections (unat (header ! 1)) spi (readpos + 8) mem))"

end
