(* ===== verification/Rboot_Verify.thy ===== *)
theory Rboot_Verify
  imports Rboot
begin

text \<open>
  What rBoot does: the format of an image and the verdict of \<open>check_image\<close> on it, the memory after
  \<open>load_rom\<close>, the rom that \<open>find_image\<close> chooses on a flash chip that keeps to its contract, and the
  configuration with which it never returns.
\<close>

section \<open>Flash that can be read\<close>

definition reads :: "(u32 \<Rightarrow> nat \<Rightarrow> bool \<times> u8 list) \<Rightarrow> u8 list \<Rightarrow> bool" where
  "reads spi mem \<longleftrightarrow>
     length mem < 2 ^ 32 \<and> (\<forall>a n. unat a + n \<le> length mem \<longrightarrow> spi a n = (True, take n (drop (unat a) mem)))"

lemma reads_at:
  assumes "reads spi (pre @ m @ post)" and "length m = n" and "a = of_nat (length pre)"
  shows "spi a n = (True, m)"
proof -
  have "unat a = length pre" using assms(1) by (simp add: assms(3) reads_def unat_u32_of_nat)
  then show ?thesis using assms by (simp add: reads_def)
qed

lemma xor_bytes_append: "xor_bytes c (xs @ ys) = xor_bytes (xor_bytes c xs) ys"
  by (induction xs arbitrary: c) simp_all

lemma of_nat_less_u32: "m < 2 ^ 32 \<Longrightarrow> n < 2 ^ 32 \<Longrightarrow> (of_nat m :: u32) < of_nat n \<longleftrightarrow> m < n"
  by (simp add: word_less_nat_alt unat_u32_of_nat)

declare check_blocks.simps [simp del] check_sections.simps [simp del] load_blocks.simps [simp del]

lemma check_blocks_read:
  assumes "reads spi (pre @ d @ post)"
  shows "check_blocks spi (of_nat (length pre)) (of_nat (length d)) c =
     Some (of_nat (length pre + length d), xor_bytes c d)"
  using assms
proof (induction "length d" arbitrary: pre d c rule: less_induct)
  case less
  have small: "length d < 2 ^ 32" using less.prems by (simp add: reads_def)
  show ?case
  proof (cases "d = []")
    case True
    then show ?thesis by (simp add: check_blocks.simps)
  next
    case False
    define n where "n = min 256 (length d)"
    have n: "0 < n" "n \<le> length d" using False by (simp_all add: n_def)
    have pos: "(of_nat (length d) :: u32) > 0"
      using False small by (simp add: word_less_nat_alt unat_u32_of_nat)
    have len: "(if of_nat (length d) < BUFFER_SIZE then of_nat (length d) else BUFFER_SIZE) = (of_nat n :: u32)"
      using small by (auto simp: BUFFER_SIZE_def n_def word_less_nat_alt unat_u32_of_nat)
    have un: "unat (of_nat n :: u32) = n" using small n by (simp add: unat_u32_of_nat)
    have spi: "spi (of_nat (length pre)) n = (True, take n d)"
      by (rule reads_at [where post = "drop n d @ post"]) (use less.prems n in simp_all)
    have "check_blocks spi (of_nat (length (pre @ take n d))) (of_nat (length (drop n d))) (xor_bytes c (take n d)) =
      Some (of_nat (length (pre @ take n d) + length (drop n d)), xor_bytes (xor_bytes c (take n d)) (drop n d))"
      by (rule less.hyps) (use less.prems n in simp_all)
    moreover have "(of_nat (length d) - of_nat n :: u32) = of_nat (length (drop n d))"
      using n(2) by (simp add: of_nat_diff)
    moreover have "xor_bytes (xor_bytes c (take n d)) (drop n d) = xor_bytes c d"
      by (simp flip: xor_bytes_append)
    moreover have "(of_nat (length pre) + of_nat n :: u32) = of_nat (length (pre @ take n d))"
      "length (pre @ take n d) + length (drop n d) = length pre + length d"
      using n(2) by simp_all
    ultimately show ?thesis
      by (subst check_blocks.simps) (simp only: pos len un spi Let_def prod.case if_True not_True_eq_False if_False)
  qed
qed

section \<open>Images\<close>

type_synonym rom_section = "u32 \<times> u8 list"

definition section_bytes :: "rom_section \<Rightarrow> u8 list" where
  "section_bytes s = put32 (fst s) @ put32 (of_nat (length (snd s))) @ snd s"

definition header_bytes :: "u8 \<Rightarrow> nat \<Rightarrow> u8 \<Rightarrow> u8 \<Rightarrow> u32 \<Rightarrow> u8 list" where
  "header_bytes magic count flags1 flags2 entry = [magic, of_nat count, flags1, flags2] @ put32 entry"

lemma length_header_bytes [simp]: "length (header_bytes m n f1 f2 e) = 8"
  by (simp add: header_bytes_def)

lemma check_one_section:
  assumes "reads spi (pre @ section_bytes s @ post)"
  shows "spi (of_nat (length pre)) 8 = (True, put32 (fst s) @ put32 (of_nat (length (snd s))))"
    and "check_blocks spi (of_nat (length pre) + 8) (of_nat (length (snd s))) c =
      Some (of_nat (length (pre @ section_bytes s)), xor_bytes c (snd s))"
proof -
  show "spi (of_nat (length pre)) 8 = (True, put32 (fst s) @ put32 (of_nat (length (snd s))))"
    by (rule reads_at [where post = "snd s @ post"]) (use assms in \<open>simp_all add: section_bytes_def\<close>)
  have "check_blocks spi (of_nat (length (pre @ put32 (fst s) @ put32 (of_nat (length (snd s)))))) (of_nat (length (snd s))) c =
     Some (of_nat (length (pre @ put32 (fst s) @ put32 (of_nat (length (snd s)))) + length (snd s)), xor_bytes c (snd s))"
    by (rule check_blocks_read [where post = post]) (use assms in \<open>simp add: section_bytes_def\<close>)
  then show "check_blocks spi (of_nat (length pre) + 8) (of_nat (length (snd s))) c =
      Some (of_nat (length (pre @ section_bytes s)), xor_bytes c (snd s))"
    by (simp add: section_bytes_def add.assoc)
qed

lemma check_sections_read:
  assumes "reads spi (pre @ concat (map section_bytes secs) @ post)" and "k + length secs = n" and "n < 256"
    and "\<not> (BOOT_IROM_CHKSUM opts \<and> n = 255)"
  shows "check_sections opts spi (of_nat k) (of_nat n) (of_nat (length pre)) c =
     Some (of_nat (length (pre @ concat (map section_bytes secs))), xor_bytes c (concat (map snd secs)))"
  using assms(1,2)
proof (induction secs arbitrary: pre k c)
  case Nil
  then show ?case by (simp add: check_sections.simps)
next
  case (Cons s secs)
  have less: "(of_nat k :: u8) < of_nat n"
    using Cons.prems(2) assms(3) by (simp add: word_less_nat_alt unat_u8_of_nat)
  have no: "\<not> (BOOT_IROM_CHKSUM opts \<and> of_nat n = (0xff :: u8))"
  proof -
    have "of_nat n = (0xff :: u8) \<longleftrightarrow> n = 255"
      using assms(3) by (simp add: word_unat_eq_iff unat_u8_of_nat)
    then show ?thesis using assms(4) by simp
  qed
  have r: "reads spi (pre @ section_bytes s @ (concat (map section_bytes secs) @ post))" using Cons.prems(1) by simp
  have "check_sections opts spi (of_nat (Suc k)) (of_nat n) (of_nat (length (pre @ section_bytes s))) (xor_bytes c (snd s)) =
    Some (of_nat (length ((pre @ section_bytes s) @ concat (map section_bytes secs))), xor_bytes (xor_bytes c (snd s)) (concat (map snd secs)))"
    by (rule Cons.IH) (use Cons.prems in simp_all)
  moreover have len: "le32 (put32 (fst s) @ put32 (of_nat (length (snd s)))) 4 = of_nat (length (snd s))"
    using le32_put32_at [of "put32 (fst s)" 4 _ "[]"] by simp
  ultimately show ?case
    by (subst check_sections.simps)
      (simp add: if_not_P [OF no] less check_one_section [OF r] len xor_bytes_append add.commute)
qed


text \<open>
  An image as check_image reads it: an optional irom section with a header of its own, the
  standard header and the sections, zeros up to the last byte of 16, and the checksum.
\<close>

record rom_image =
  rom_irom :: "u8 list option"
  rom_flags1 :: u8
  rom_flags2 :: u8
  rom_start :: u32
  rom_sections :: "rom_section list"

definition irom_bytes :: "rom_image \<Rightarrow> u8 list" where
  "irom_bytes r =
     (case rom_irom r of None \<Rightarrow> []
      | Some d \<Rightarrow> header_bytes ROM_MAGIC_NEW1 4 (rom_flags1 r) (rom_flags2 r) (rom_start r) @ section_bytes (0, d))"

definition main_bytes :: "rom_image \<Rightarrow> u8 list" where
  "main_bytes r =
     header_bytes ROM_MAGIC (length (rom_sections r)) (rom_flags1 r) (rom_flags2 r) (rom_start r)
     @ concat (map section_bytes (rom_sections r))"

definition rom_bytes :: "rom_image \<Rightarrow> u8 \<Rightarrow> u8 list" where
  "rom_bytes r c = irom_bytes r @ main_bytes r @ replicate (15 - length (main_bytes r) mod 16) 0 @ [c]"

definition rom_ok :: "rom_image \<Rightarrow> bool" where
  "rom_ok r \<longleftrightarrow> length (rom_sections r) < 254 \<and> (\<forall>d. rom_irom r = Some d \<longrightarrow> 16 dvd length d)"

definition rom_chksum :: "boot_options \<Rightarrow> rom_image \<Rightarrow> u8" where
  "rom_chksum opts r =
     xor_bytes CHKSUM_INIT
       ((if BOOT_IROM_CHKSUM opts then (case rom_irom r of None \<Rightarrow> [] | Some d \<Rightarrow> d) else [])
        @ concat (map snd (rom_sections r)))"

lemma irom_aligned: "rom_ok r \<Longrightarrow> 16 dvd length (irom_bytes r)"
  by (auto simp: rom_ok_def irom_bytes_def section_bytes_def split: option.split)

lemma or_15: "unat (w OR 0x0f :: u32) = unat w div 16 * 16 + 15"
proof -
  have m: "(15 :: int) = mask 4" by (simp add: mask_eq_exp_minus_1)
  have "uint w OR 15 = push_bit 4 (drop_bit 4 (uint w)) OR 15"
    unfolding m by (rule bit_eqI) (auto simp: bit_simps)
  also have "\<dots> = uint w div 16 * 16 + 15"
    using shift_or_int [of 15 4 "drop_bit 4 (uint w)"] by (simp add: drop_bit_eq_div)
  finally have "uint (w OR 0x0f) = uint w div 16 * 16 + 15" by (simp add: unsigned_or_eq)
  then have "int (unat (w OR 0x0f)) = int (unat w div 16 * 16 + 15)" by (simp add: zdiv_int)
  then show ?thesis by (simp only: of_nat_eq_iff)
qed

text \<open>The checksum byte is the last of the image.\<close>

lemma chksum_pos:
  assumes "length (pre @ rom_bytes r c @ post) < 2 ^ 32" and "16 dvd length pre" and "rom_ok r"
  shows "(of_nat (length (pre @ irom_bytes r @ main_bytes r)) OR 0x0f :: u32) =
     of_nat (length (pre @ irom_bytes r @ main_bytes r @ replicate (15 - length (main_bytes r) mod 16) (0 :: u8)))"
proof -
  let ?m = "length (main_bytes r)" and ?p = "length (pre @ irom_bytes r)"
  define pad where "pad = replicate (15 - ?m mod 16) (0 :: u8)"
  have al: "16 dvd ?p" using assms(2) irom_aligned [OF assms(3)] by simp
  then obtain q where q: "?p = 16 * q" by (elim dvdE)
  define k l where "k = ?m div 16" and "l = ?m mod 16"
  have m: "?m = 16 * k + l" "l < 16" by (simp_all add: k_def l_def)
  then have last: "(?p + ?m) div 16 * 16 + 15 = ?p + ?m + length pad"
    unfolding q pad_def l_def [symmetric] by simp
  have small: "length (pre @ irom_bytes r @ main_bytes r @ pad) < 2 ^ 32"
    using assms(1) by (simp add: rom_bytes_def pad_def)
  have "unat (of_nat (length (pre @ irom_bytes r @ main_bytes r)) OR 0x0f :: u32) =
      length (pre @ irom_bytes r @ main_bytes r @ pad)"
  proof -
    have "unat (of_nat (length (pre @ irom_bytes r @ main_bytes r)) :: u32) = ?p + ?m"
      using small by (simp add: unat_u32_of_nat del: of_nat_add)
    then show ?thesis using last by (simp only: or_15) simp
  qed
  moreover have "unat (of_nat (length (pre @ irom_bytes r @ main_bytes r @ pad)) :: u32) =
      length (pre @ irom_bytes r @ main_bytes r @ pad)"
    using small by (simp only: unat_u32_of_nat) simp
  ultimately show ?thesis by (simp only: word_unat_eq_iff pad_def)
qed

lemma chksum_read:
  assumes "reads spi (pre @ rom_bytes r c @ post)" and "16 dvd length pre" and "rom_ok r"
  shows "spi (of_nat (length (pre @ irom_bytes r @ main_bytes r)) OR 0x0f) 1 = (True, [c])"
proof -
  define pad where "pad = replicate (15 - length (main_bytes r) mod 16) (0 :: u8)"
  have "length (pre @ rom_bytes r c @ post) < 2 ^ 32" using assms(1) by (simp add: reads_def)
  from chksum_pos [OF this assms(2,3)] show ?thesis
    using reads_at [of spi "pre @ irom_bytes r @ main_bytes r @ pad" "[c]" post 1] assms(1)
    by (simp add: rom_bytes_def pad_def)
qed

text \<open>
  The three paths through check_image: \<open>m\<close> is the header at \<open>readpos\<close>, \<open>start\<close> the place and \<open>count\<close> the number of
  the sections that are summed.
\<close>

definition image_path ::
  "boot_options \<Rightarrow> (u32 \<Rightarrow> nat \<Rightarrow> bool \<times> u8 list) \<Rightarrow> u32 \<Rightarrow> u8 list \<Rightarrow> u32 \<Rightarrow> u32 \<Rightarrow> u8 \<Rightarrow> bool" where
  "image_path opts spi readpos m romaddr start count \<longleftrightarrow>
     m ! 0 = ROM_MAGIC \<and> romaddr = readpos \<and> start = readpos + 8 \<and> count = m ! 1 \<or>
      m ! 0 = ROM_MAGIC_NEW1 \<and> m ! 1 = ROM_MAGIC_NEW2 \<and> romaddr = readpos + le32 m 12 + 16 \<and>
      (BOOT_IROM_CHKSUM opts \<and> start = readpos + 8 \<and> count = 0xff \<or>
       \<not> BOOT_IROM_CHKSUM opts \<and> start = romaddr + 8 \<and> (\<exists>h. spi romaddr 8 = (True, h) \<and> count = h ! 1))"

lemma image_path_parsed:
  assumes "image_path opts spi readpos m romaddr start count"
  shows "(if m ! 0 = ROM_MAGIC then Some (readpos, readpos + 8, m ! 1)
         else if m ! 0 = ROM_MAGIC_NEW1 \<and> m ! 1 = ROM_MAGIC_NEW2 then
           (let romaddr = readpos + le32 m 12 + 16
            in if BOOT_IROM_CHKSUM opts then Some (romaddr, readpos + 8, 0xff)
               else (let (ok, header) = spi romaddr 8 in if ok then Some (romaddr, romaddr + 8, header ! 1) else None))
         else None) = Some (romaddr, start, count)"
proof -
  have ne: "ROM_MAGIC_NEW1 \<noteq> ROM_MAGIC" by (simp add: ROM_MAGIC_def ROM_MAGIC_NEW1_def)
  show ?thesis
    using assms ne unfolding image_path_def by (elim disjE conjE exE) (simp_all add: Let_def)
qed

lemma check_image_path:
  assumes "readpos \<noteq> 0" "readpos \<noteq> 0xffffffff" "spi readpos 16 = (True, m)"
    and "check_sections opts spi 0 count start CHKSUM_INIT = Some (p, ck)" "spi (p OR 0x0f) 1 = (True, [c])"
    and "image_path opts spi readpos m romaddr start count"
  shows "check_image opts spi readpos = (if c = ck then romaddr else 0)"
  using assms(1-5) image_path_parsed [OF assms(6)]
  by (simp only: check_image_def Let_def prod.case option.case if_False if_True simp_thms) simp

text \<open>The address of a rom in the flash is neither 0 nor the largest word.\<close>

lemma rom_address_proper:
  assumes "reads spi (pre @ bs)" and "16 dvd length pre" and "pre \<noteq> []"
  shows "(of_nat (length pre) :: u32) \<noteq> 0" "(of_nat (length pre) :: u32) \<noteq> 0xffffffff"
proof -
  have "length pre < 2 ^ 32" using assms(1) by (simp add: reads_def)
  then have u: "unat (of_nat (length pre) :: u32) = length pre" by (simp add: unat_u32_of_nat)
  show "(of_nat (length pre) :: u32) \<noteq> 0" using u assms(3) by (metis length_0_conv unat_0)
  show "(of_nat (length pre) :: u32) \<noteq> 0xffffffff"
  proof
    assume "(of_nat (length pre) :: u32) = 0xffffffff"
    then have "length pre = 4294967295" using u by simp
    with assms(2) show False by simp
  qed
qed

lemma check_image_parts:
  assumes "reads spi (pre @ rom_bytes r c @ post)" and "16 dvd length pre" and "pre \<noteq> []" and "rom_ok r"
  shows "(of_nat (length pre) :: u32) \<noteq> 0 \<and> (of_nat (length pre) :: u32) \<noteq> 0xffffffff \<and>
     (\<exists>m start count. spi (of_nat (length pre)) 16 = (True, m) \<and>
       check_sections opts spi 0 count start CHKSUM_INIT =
         Some (of_nat (length (pre @ irom_bytes r @ main_bytes r)), rom_chksum opts r) \<and>
       image_path opts spi (of_nat (length pre)) m (of_nat (length (pre @ irom_bytes r))) start count)"
proof -
  define n where "n = length (rom_sections r)"
  define P where "P = pre @ irom_bytes r"
  define secs where "secs = concat (map section_bytes (rom_sections r))"
  define tail where "tail = replicate (15 - length (main_bytes r) mod 16) 0 @ [c] @ post"
  define hd8 where "hd8 = header_bytes ROM_MAGIC n (rom_flags1 r) (rom_flags2 r) (rom_start r)"
  have n: "n < 254" using assms(4) by (simp add: rom_ok_def n_def)
  have main: "main_bytes r = hd8 @ secs" by (simp add: main_bytes_def hd8_def secs_def n_def)
  have mem: "pre @ rom_bytes r c @ post = P @ hd8 @ secs @ tail"
    by (simp add: rom_bytes_def P_def main tail_def)
  have rd: "reads spi (P @ hd8 @ secs @ tail)" using assms(1) unfolding mem .
  have hd: "hd8 ! 0 = ROM_MAGIC" "hd8 ! 1 = of_nat n" by (simp_all add: hd8_def header_bytes_def)
  have secs_read: "check_sections opts spi (of_nat k) (of_nat (k + n)) (of_nat (length (P @ hd8))) c0 =
      Some (of_nat (length (P @ hd8 @ secs)), xor_bytes c0 (concat (map snd (rom_sections r))))" if "k \<le> 1" for k c0
    using check_sections_read [of spi "P @ hd8" "rom_sections r" tail k "k + n" opts c0] rd n that
    by (simp add: secs_def n_def add.assoc)
  note nz = rom_address_proper [OF assms(1-3)]
  have "spi (of_nat (length pre)) 16 = (True, take 16 (rom_bytes r c @ post))"
  proof -
    have "16 \<le> length (rom_bytes r c)"
      by (simp add: rom_bytes_def main hd8_def)
    then show ?thesis
      using reads_at [of spi pre "take 16 (rom_bytes r c)" "drop 16 (rom_bytes r c) @ post" 16] assms(1) by simp
  qed
  then have first: "spi (of_nat (length pre)) 16 = (True, take 16 (irom_bytes r @ hd8 @ secs @ tail))"
    by (simp add: rom_bytes_def main tail_def)
  show ?thesis
  proof (cases "rom_irom r")
    case None
    then have ir: "irom_bytes r = []" by (simp add: irom_bytes_def)
    then have P: "P = pre" by (simp add: P_def)
    have m: "take 16 (hd8 @ secs @ tail) ! 0 = ROM_MAGIC" "take 16 (hd8 @ secs @ tail) ! 1 = of_nat n"
      by (simp_all add: hd8_def header_bytes_def)
    have "check_sections opts spi 0 (of_nat n) (of_nat (length pre) + 8) CHKSUM_INIT =
        Some (of_nat (length (P @ hd8 @ secs)), xor_bytes CHKSUM_INIT (concat (map snd (rom_sections r))))"
      using secs_read [of 0 CHKSUM_INIT] by (simp add: P hd8_def)
    moreover have "image_path opts spi (of_nat (length pre)) (take 16 (hd8 @ secs @ tail)) (of_nat (length P))
        (of_nat (length pre) + 8) (of_nat n)"
      using m by (simp add: image_path_def P)
    ultimately show ?thesis using nz first None by (auto simp: ir main rom_chksum_def P_def)
  next
    case (Some d)
    define ih where "ih = header_bytes ROM_MAGIC_NEW1 4 (rom_flags1 r) (rom_flags2 r) (rom_start r)"
    have ir: "irom_bytes r = ih @ section_bytes (0, d)" by (simp add: irom_bytes_def Some ih_def)
    define m where "m = ih @ put32 0 @ put32 (of_nat (length d))"
    have "take 16 (irom_bytes r @ hd8 @ secs @ tail) = m"
      by (simp add: ir section_bytes_def m_def ih_def)
    note first = first [unfolded this]
    have m: "m ! 0 = ROM_MAGIC_NEW1" "m ! 1 = ROM_MAGIC_NEW2" "le32 m 12 = of_nat (length d)"
      using le32_put32_at [of "ih @ put32 0" 12 _ "[]"]
      by (simp_all add: m_def ih_def header_bytes_def ROM_MAGIC_NEW2_def)
    have addr: "of_nat (length pre) + of_nat (length d) + 16 = (of_nat (length P) :: u32)"
      by (simp add: P_def ir ih_def section_bytes_def)
    have h: "spi (of_nat (length P)) 8 = (True, hd8)"
      by (rule reads_at [where post = "secs @ tail"]) (use rd in \<open>simp_all add: hd8_def\<close>)
    show ?thesis
    proof (cases "BOOT_IROM_CHKSUM opts")
      case False
      have "check_sections opts spi 0 (of_nat n) (of_nat (length P) + 8) CHKSUM_INIT =
          Some (of_nat (length (P @ hd8 @ secs)), xor_bytes CHKSUM_INIT (concat (map snd (rom_sections r))))"
        using secs_read [of 0 CHKSUM_INIT] by (simp add: hd8_def)
      moreover have "image_path opts spi (of_nat (length pre)) m (of_nat (length P)) (of_nat (length P) + 8) (of_nat n)"
        using m False addr h hd(2) by (simp add: image_path_def)
      moreover have "xor_bytes CHKSUM_INIT (concat (map snd (rom_sections r))) = rom_chksum opts r"
        using False by (simp add: rom_chksum_def)
      moreover have "P @ hd8 @ secs = pre @ irom_bytes r @ main_bytes r" by (simp add: P_def main)
      ultimately show ?thesis using nz first unfolding P_def by metis
    next
      case True
      have r2: "reads spi ((pre @ ih) @ section_bytes (0, d) @ (hd8 @ secs @ tail))"
        using rd by (simp add: P_def ir)
      have len: "le32 (put32 0 @ put32 (of_nat (length d))) 4 = of_nat (length d)"
        using le32_put32_at [of "put32 0" 4 _ "[]"] by simp
      have pl: "of_nat (length pre) + 8 = (of_nat (length (pre @ ih)) :: u32)" by (simp add: ih_def)
      have "check_sections opts spi 1 (of_nat n + 1) (of_nat (length P) + 8) (xor_bytes CHKSUM_INIT d) =
          Some (of_nat (length (P @ hd8 @ secs)), xor_bytes (xor_bytes CHKSUM_INIT d) (concat (map snd (rom_sections r))))"
        using secs_read [of 1 "xor_bytes CHKSUM_INIT d"] by (simp add: hd8_def add.commute)
      then have "check_sections opts spi 0 0xff (of_nat (length (pre @ ih))) CHKSUM_INIT =
          Some (of_nat (length (P @ hd8 @ secs)), xor_bytes (xor_bytes CHKSUM_INIT d) (concat (map snd (rom_sections r))))"
        using check_one_section(1) [OF r2] check_one_section(2) [OF r2, of CHKSUM_INIT] True h hd [unfolded One_nat_def]
        by (subst check_sections.simps) (simp add: len P_def ir del: of_nat_add)
      moreover have "image_path opts spi (of_nat (length pre)) m (of_nat (length P)) (of_nat (length (pre @ ih))) 0xff"
        unfolding pl [symmetric] using m True addr by (simp add: image_path_def)
      moreover have "xor_bytes (xor_bytes CHKSUM_INIT d) (concat (map snd (rom_sections r))) = rom_chksum opts r"
        using True by (simp add: rom_chksum_def Some xor_bytes_append)
      moreover have "P @ hd8 @ secs = pre @ irom_bytes r @ main_bytes r" by (simp add: P_def main)
      ultimately show ?thesis using nz first unfolding P_def by metis
    qed
  qed
qed

lemma check_image_reads:
  assumes "reads spi (pre @ rom_bytes r c @ post)" and "16 dvd length pre" and "pre \<noteq> []" and "rom_ok r"
  shows "check_image opts spi (of_nat (length pre)) =
     (if c = rom_chksum opts r then of_nat (length (pre @ irom_bytes r)) else 0)"
proof -
  obtain m start count where p: "spi (of_nat (length pre)) 16 = (True, m)"
    "check_sections opts spi 0 count start CHKSUM_INIT =
       Some (of_nat (length (pre @ irom_bytes r @ main_bytes r)), rom_chksum opts r)"
    "image_path opts spi (of_nat (length pre)) m (of_nat (length (pre @ irom_bytes r))) start count"
    and nz: "(of_nat (length pre) :: u32) \<noteq> 0" "(of_nat (length pre) :: u32) \<noteq> 0xffffffff"
    using check_image_parts [OF assms, of opts] by blast
  show ?thesis by (rule check_image_path [OF nz p(1,2) chksum_read [OF assms(1,2,4)] p(3)])
qed

section \<open>Loading\<close>

lemma ets_memcpy_append:
  assumes "length xs + length ys < 2 ^ 32"
  shows "ets_memcpy (dst + of_nat (length xs)) ys (ets_memcpy dst xs mem) = ets_memcpy dst (xs @ ys) mem"
proof
  fix a :: u32
  define n where "n = unat (a - dst)"
  have "n < 2 ^ 32" using unat_u32_bound [of "a - dst"] by (simp add: n_def)
  have gen: "unat (w - of_nat k) = (if k \<le> unat w then unat w - k else unat w + 2 ^ 32 - k)" if "k < 2 ^ 32" for w :: u32 and k
  proof -
    have un: "unat (of_nat k :: u32) = k" using that by (simp add: unat_u32_of_nat)
    show ?thesis unfolding unat_sub_if' word_le_nat_alt un by simp
  qed
  have "a - (dst + of_nat (length xs)) = (a - dst) - of_nat (length xs)" by simp
  then have sub: "unat (a - (dst + of_nat (length xs))) =
      (if length xs \<le> n then n - length xs else n + 2 ^ 32 - length xs)"
    using gen [of "length xs" "a - dst"] assms by (simp only: n_def)
  show "ets_memcpy (dst + of_nat (length xs)) ys (ets_memcpy dst xs mem) a = ets_memcpy dst (xs @ ys) mem a"
    unfolding ets_memcpy_def sub n_def [symmetric] using assms \<open>n < 2 ^ 32\<close> by (auto simp: nth_append)
qed

lemma load_blocks_read:
  assumes "reads spi (pre @ d @ post)"
  shows "load_blocks spi (of_nat (length pre)) dst (of_nat (length d)) mem =
     (of_nat (length pre + length d), ets_memcpy dst d mem)"
  using assms
proof (induction "length d" arbitrary: pre d dst mem rule: less_induct)
  case less
  have small: "length d < 2 ^ 32" using less.prems by (simp add: reads_def)
  show ?case
  proof (cases "d = []")
    case True
    then show ?thesis by (simp add: load_blocks.simps ets_memcpy_def)
  next
    case False
    define n where "n = min 256 (length d)"
    have n: "0 < n" "n \<le> length d" using False by (simp_all add: n_def)
    have pos: "(of_nat (length d) :: u32) > 0"
      using False small by (simp add: word_less_nat_alt unat_u32_of_nat)
    have len: "(if of_nat (length d) < BUFFER_SIZE then of_nat (length d) else BUFFER_SIZE) = (of_nat n :: u32)"
      using small by (auto simp: BUFFER_SIZE_def n_def word_less_nat_alt unat_u32_of_nat)
    have un: "unat (of_nat n :: u32) = n" using small n by (simp add: unat_u32_of_nat)
    have spi: "spi (of_nat (length pre)) n = (True, take n d)"
      by (rule reads_at [where post = "drop n d @ post"]) (use less.prems n in simp_all)
    have "load_blocks spi (of_nat (length (pre @ take n d))) (dst + of_nat n) (of_nat (length (drop n d)))
        (ets_memcpy dst (take n d) mem) =
      (of_nat (length (pre @ take n d) + length (drop n d)),
        ets_memcpy (dst + of_nat n) (drop n d) (ets_memcpy dst (take n d) mem))"
      by (rule less.hyps) (use less.prems n in simp_all)
    moreover have "(of_nat (length d) - of_nat n :: u32) = of_nat (length (drop n d))"
      using n(2) by (simp add: of_nat_diff)
    moreover have "ets_memcpy (dst + of_nat n) (drop n d) (ets_memcpy dst (take n d) mem) = ets_memcpy dst d mem"
      using ets_memcpy_append [of "take n d" "drop n d" dst mem] n(2) small by simp
    moreover have "(of_nat (length pre) + of_nat n :: u32) = of_nat (length (pre @ take n d))"
      "length (pre @ take n d) + length (drop n d) = length pre + length d"
      using n(2) by simp_all
    ultimately show ?thesis
      by (subst load_blocks.simps) (simp only: pos len un spi Let_def snd_conv if_True)
  qed
qed

lemma load_sections_read:
  assumes "reads spi (pre @ concat (map section_bytes secs) @ post)"
  shows "load_sections (length secs) spi (of_nat (length pre)) mem = fold (\<lambda>s. ets_memcpy (fst s) (snd s)) secs mem"
  using assms
proof (induction secs arbitrary: pre mem)
  case (Cons s secs)
  have r: "reads spi (pre @ section_bytes s @ (concat (map section_bytes secs) @ post))" using Cons.prems by simp
  have len: "le32 (put32 (fst s) @ put32 (of_nat (length (snd s)))) 4 = of_nat (length (snd s))"
    using le32_put32_at [of "put32 (fst s)" 4 _ "[]"] by simp
  have "load_blocks spi (of_nat (length (pre @ put32 (fst s) @ put32 (of_nat (length (snd s)))))) (fst s)
      (of_nat (length (snd s))) mem =
    (of_nat (length (pre @ put32 (fst s) @ put32 (of_nat (length (snd s)))) + length (snd s)), ets_memcpy (fst s) (snd s) mem)"
    by (rule load_blocks_read) (use r in \<open>simp add: section_bytes_def\<close>)
  then have "load_blocks spi (of_nat (length pre) + 8) (fst s) (of_nat (length (snd s))) mem =
      (of_nat (length (pre @ section_bytes s)), ets_memcpy (fst s) (snd s) mem)"
    by (simp add: section_bytes_def add.assoc)
  moreover have "load_sections (length secs) spi (of_nat (length (pre @ section_bytes s))) m =
      fold (\<lambda>s. ets_memcpy (fst s) (snd s)) secs m" for m
    by (rule Cons.IH) (use Cons.prems in simp)
  ultimately show ?case
    by (simp add: check_one_section(1) [OF r] len Let_def del: of_nat_add)
qed simp

lemma load_rom_reads:
  assumes "reads spi (pre @ main_bytes r @ post)" and "length (rom_sections r) < 256"
  shows "load_rom spi (of_nat (length pre)) mem =
     (rom_start r, fold (\<lambda>s. ets_memcpy (fst s) (snd s)) (rom_sections r) mem)"
proof -
  define hd8 where "hd8 = header_bytes ROM_MAGIC (length (rom_sections r)) (rom_flags1 r) (rom_flags2 r) (rom_start r)"
  have main: "main_bytes r = hd8 @ concat (map section_bytes (rom_sections r))" by (simp add: main_bytes_def hd8_def)
  have h: "spi (of_nat (length pre)) 8 = (True, hd8)"
    by (rule reads_at [where post = "concat (map section_bytes (rom_sections r)) @ post"])
      (use assms(1) in \<open>simp_all add: main hd8_def\<close>)
  have hd: "unat (hd8 ! Suc 0) = length (rom_sections r)"
    using assms(2) by (simp add: hd8_def header_bytes_def unat_u8_of_nat)
  have "le32 hd8 4 = rom_start r"
    using le32_put32_at [of "[ROM_MAGIC, of_nat (length (rom_sections r)), rom_flags1 r, rom_flags2 r]" 4 _ "[]"]
    by (simp add: hd8_def header_bytes_def)
  moreover have "load_sections (length (rom_sections r)) spi (of_nat (length pre) + 8) mem =
      fold (\<lambda>s. ets_memcpy (fst s) (snd s)) (rom_sections r) mem"
    using load_sections_read [of spi "pre @ hd8" "rom_sections r" post mem] assms(1) by (simp add: main hd8_def)
  ultimately show ?thesis by (simp add: load_rom_def h hd Let_def)
qed

section \<open>The choice of a rom\<close>

lemma next_rom:
  assumes "0 \<le> cur" "cur < n" "0 \<le> j"
  shows "(if (cur - j) mod n - 1 < 0 then n - 1 else (cur - j) mod n - 1) = (cur - (j + 1)) mod (n :: int)"
proof -
  have "(cur - (j + 1)) mod n = ((cur - j) mod n - 1) mod n"
    by (simp add: mod_simps algebra_simps)
  moreover have "0 \<le> (cur - j) mod n" "(cur - j) mod n < n" using assms by simp_all
  ultimately show ?thesis
    by (cases "(cur - j) mod n = 0") (simp_all add: zmod_minus1 mod_pos_pos_trivial)
qed

lemma next_is_not_cur:
  assumes "0 \<le> cur" "cur < n" "0 < j" "j < n"
  shows "(cur - j) mod n \<noteq> (cur :: int)"
proof (cases "j \<le> cur")
  case True
  then show ?thesis using assms by (simp add: mod_pos_pos_trivial)
next
  case False
  have "(cur - j) mod n = (cur - j + n) mod n" by simp
  also have "\<dots> = cur - j + n" using assms False by (intro mod_pos_pos_trivial) simp_all
  finally show ?thesis using assms by simp
qed

text \<open>The configuration selects rom \<open>cur\<close> of \<open>n\<close>.\<close>

definition selected :: "u8 list \<Rightarrow> int \<Rightarrow> int \<Rightarrow> bool" where
  "selected buffer cur n \<longleftrightarrow> uint (buffer ! 3) = cur \<and> uint (buffer ! 5) = n \<and> cur < n"

lemma selectedD: "selected buffer cur n \<Longrightarrow> 0 \<le> cur \<and> cur < n \<and> uint (buffer ! 3) = cur \<and> uint (buffer ! 5) = n"
  by (auto simp: selected_def)

lemma find_loop_bad:
  assumes "selected buffer cur n" and "check (conf_rom buffer ((cur - j) mod n)) = 0" and "0 \<le> j"
  shows "\<exists>log'. find_loop check buffer False ((cur - j) mod n) upd log =
     (if (cur - (j + 1)) mod n = cur then Some (0, cur, True, log')
      else find_loop check buffer False ((cur - (j + 1)) mod n) True log')"
  using next_rom [of cur n j] selectedD [OF assms(1)] assms(2,3)
  by (subst find_loop.simps) (auto simp: Let_def)

lemma find_loop_good:
  assumes "selected buffer cur n" and "int j \<le> int i" and "int i < n" and "check (conf_rom buffer ((cur - int i) mod n)) = addr" and "addr \<noteq> 0"
    and "\<forall>k. j \<le> k \<and> k < i \<longrightarrow> check (conf_rom buffer ((cur - int k) mod n)) = 0"
  shows "\<exists>log'. find_loop check buffer False ((cur - int j) mod n) upd log =
     Some (addr, (cur - int i) mod n, upd \<or> j < i, log')"
  using assms(2-6)
proof (induction "i - j" arbitrary: j upd log)
  case 0
  then have "j = i" by simp
  then show ?case using 0 by (subst find_loop.simps) (simp add: Let_def)
next
  case (Suc d)
  then have j: "j < i" by simp
  have "(cur - (int j + 1)) mod n \<noteq> cur"
    using next_is_not_cur [of cur n "int j + 1"] selectedD [OF assms(1)] j Suc.prems(2) by simp
  then obtain log1 where l: "find_loop check buffer False ((cur - int j) mod n) upd log =
      find_loop check buffer False ((cur - int (Suc j)) mod n) True log1"
    using find_loop_bad [OF assms(1), of check "int j" upd log] Suc.prems(5) j by (auto simp: add.commute)
  have "\<exists>log'. find_loop check buffer False ((cur - int (Suc j)) mod n) True log1 =
     Some (addr, (cur - int i) mod n, True \<or> Suc j < i, log')"
    by (rule Suc.hyps(1)) (use Suc.prems Suc.hyps(2) j in auto)
  then show ?case using l j by simp
qed

lemma find_loop_none:
  assumes "selected buffer cur n" and "\<forall>k. int k < n \<longrightarrow> check (conf_rom buffer ((cur - int k) mod n)) = 0" and "int j < n"
  shows "\<exists>log'. find_loop check buffer False ((cur - int j) mod n) upd log = Some (0, cur, True, log')"
  using assms(3)
proof (induction "nat n - j" arbitrary: j upd log)
  case (Suc d)
  have "check (conf_rom buffer ((cur - int j) mod n)) = 0" using assms(2) Suc.prems by blast
  from find_loop_bad [OF assms(1), where j = "int j" and check = check, OF this of_nat_0_le_iff, of upd log] obtain log1 where
    l: "find_loop check buffer False ((cur - int j) mod n) upd log =
     (if (cur - int (Suc j)) mod n = cur then Some (0, cur, True, log1)
      else find_loop check buffer False ((cur - int (Suc j)) mod n) True log1)"
    unfolding of_nat_Suc add.commute [of "1 :: int"] by blast
  show ?case
  proof (cases "int (Suc j) < n")
    case True
    then show ?thesis using Suc.hyps(1) [of "Suc j" True log1] Suc.hyps(2) l by auto
  next
    case False
    then have "n = int (Suc j)" using Suc.prems by simp
    then have "(cur - int (Suc j)) mod n = cur" using selectedD [OF assms(1)] by simp
    then show ?thesis using l by simp
  qed
qed simp

section \<open>A flash chip\<close>

text \<open>
  What the code relies on of the ROM routines, with \<open>mem\<close> the contents of the chip: a read within
  the chip yields its bytes, an erased sector is all ones, and a write to erased bytes stores them.
\<close>

definition flash_chip :: "'f spi_flash \<Rightarrow> ('f \<Rightarrow> u8 list) \<Rightarrow> bool" where
  "flash_chip io mem \<longleftrightarrow>
     (\<forall>f a n. unat a + n \<le> length (mem f) \<longrightarrow> SPIRead io a n f = (True, take n (drop (unat a) (mem f)))) \<and>
     (\<forall>f s. (unat s + 1) * 4096 \<le> length (mem f) \<longrightarrow>
        (\<exists>f'. SPIEraseSector io s f = (True, f') \<and>
           mem f' = take (unat s * 4096) (mem f) @ replicate 4096 0xff @ drop ((unat s + 1) * 4096) (mem f))) \<and>
     (\<forall>f a bs. unat a + length bs \<le> length (mem f) \<and>
          set (take (length bs) (drop (unat a) (mem f))) \<subseteq> {0xff} \<longrightarrow>
        (\<exists>f'. SPIWrite io a bs f = (True, f') \<and>
           mem f' = take (unat a) (mem f) @ bs @ drop (unat a + length bs) (mem f)))"

lemma flash_readD:
  "flash_chip io mem \<Longrightarrow> unat a + n \<le> length (mem f) \<Longrightarrow> SPIRead io a n f = (True, take n (drop (unat a) (mem f)))"
  by (simp add: flash_chip_def)

lemma flash_reads: "flash_chip io mem \<Longrightarrow> length (mem f) < 2 ^ 32 \<Longrightarrow> reads (\<lambda>a n. SPIRead io a n f) (mem f)"
  by (simp add: reads_def flash_readD)

lemma flash_eraseE:
  assumes "flash_chip io mem" and "(unat s + 1) * 4096 \<le> length (mem f)"
  obtains f' where "SPIEraseSector io s f = (True, f')"
    "mem f' = take (unat s * 4096) (mem f) @ replicate 4096 0xff @ drop ((unat s + 1) * 4096) (mem f)"
  using assms unfolding flash_chip_def by blast

lemma flash_writeE:
  assumes "flash_chip io mem" and "unat a + length bs \<le> length (mem f)"
    and "set (take (length bs) (drop (unat a) (mem f))) \<subseteq> {0xff}"
  obtains f' where "SPIWrite io a bs f = (True, f')"
    "mem f' = take (unat a) (mem f) @ bs @ drop (unat a + length bs) (mem f)"
  using assms unfolding flash_chip_def by blast

text \<open>A sector is rewritten by erasing it and writing its first bytes, or all of it.\<close>

lemma rewrite_sector_start:
  assumes "flash_chip io mem" and "(unat s + 1) * 4096 \<le> length (mem f)" and "length bs \<le> 4096"
    and "unat a = unat s * 4096"
  shows "\<exists>f1 f2. SPIEraseSector io s f = (True, f1) \<and> SPIWrite io a bs f1 = (True, f2) \<and>
     mem f2 = take (unat s * 4096) (mem f) @ bs @ replicate (4096 - length bs) 0xff @ drop ((unat s + 1) * 4096) (mem f)"
proof -
  obtain f1 where f1: "SPIEraseSector io s f = (True, f1)"
    "mem f1 = take (unat s * 4096) (mem f) @ replicate 4096 0xff @ drop ((unat s + 1) * 4096) (mem f)"
    using flash_eraseE [OF assms(1,2)] .
  have len: "unat a + length bs \<le> length (mem f1)" using assms(2-4) by (simp add: f1(2))
  have "take (length bs) (drop (unat a) (mem f1)) = replicate (length bs) 0xff"
    using assms(2-4) by (simp add: f1(2) min_def)
  then have "set (take (length bs) (drop (unat a) (mem f1))) \<subseteq> {0xff}" by (auto simp del: take_replicate)
  from flash_writeE [OF assms(1) len this] obtain f2 where f2: "SPIWrite io a bs f1 = (True, f2)"
    "mem f2 = take (unat a) (mem f1) @ bs @ drop (unat a + length bs) (mem f1)" .
  then have "mem f2 = take (unat s * 4096) (mem f) @ bs @ replicate (4096 - length bs) 0xff @ drop ((unat s + 1) * 4096) (mem f)"
    using assms(2-4) by (simp add: f1(2))
  with f1(1) f2(1) show ?thesis by blast
qed

lemma rewrite_sector:
  assumes "flash_chip io mem" and "(unat s + 1) * 4096 \<le> length (mem f)" and "length bs = 4096"
    and "unat a = unat s * 4096"
  shows "\<exists>f1 f2. SPIEraseSector io s f = (True, f1) \<and> SPIWrite io a bs f1 = (True, f2) \<and>
     mem f2 = take (unat s * 4096) (mem f) @ bs @ drop ((unat s + 1) * 4096) (mem f)"
  using rewrite_sector_start [OF assms(1,2) _ assms(4), of bs] assms(3) by simp

lemma slice_outside:
  assumes "w + length d \<le> length m" and "r + n \<le> length m" and "r + n \<le> w \<or> w + length d \<le> r"
  shows "take n (drop r (take w m @ d @ drop (w + length d) m)) = take n (drop r m)"
  using assms(3)
proof
  assume "r + n \<le> w"
  then show ?thesis using assms(1) by (simp add: take_drop min_def)
next
  assume r: "w + length d \<le> r"
  then have "drop r (take w m @ d @ drop (w + length d) m) = drop r m" using assms(1) by simp
  then show ?thesis by simp
qed

section \<open>Booting\<close>

definition config_valid :: "boot_options \<Rightarrow> u8 list \<Rightarrow> bool" where
  "config_valid opts buffer \<longleftrightarrow>
     buffer ! 0 = BOOT_CONFIG_MAGIC \<and> buffer ! 1 = BOOT_CONFIG_VERSION \<and>
     (BOOT_CONFIG_CHKSUM opts \<longrightarrow> buffer ! 24 = calc_chksum (take 24 buffer))"

definition gpio_mode :: "u8 list \<Rightarrow> u32 \<Rightarrow> bool" where
  "gpio_mode buffer gpio16 \<longleftrightarrow> buffer ! 2 AND MODE_GPIO_ROM \<noteq> 0 \<and> gpio16 = 0"

definition config_sector :: "('f \<Rightarrow> u8 list) \<Rightarrow> 'f \<Rightarrow> u8 list" where
  "config_sector mem f = take 4096 (drop 4096 (mem f))"

lemma config_addr: "BOOT_CONFIG_SECTOR * SECTOR_SIZE = 0x1000" "unat SECTOR_SIZE = 4096"
  by (simp_all add: BOOT_CONFIG_SECTOR_def SECTOR_SIZE_def)

lemma config_read:
  assumes "flash_chip io mem" and "8192 \<le> length (mem f)"
  shows "SPIRead io 0x1000 4096 f = (True, config_sector mem f)"
  using flash_readD [OF assms(1), of "0x1000" 4096 f] assms(2) by (simp add: config_sector_def)

lemma length_put_chksum [simp]: "length (put_chksum opts buffer) = length buffer"
  by (simp add: put_chksum_def)

lemma find_image_selected:
  assumes "flash_chip io mem" and "8192 \<le> length (mem f)" and "config_valid opts buffer"
    and "\<not> gpio_mode buffer gpio16" and "selected buffer cur n" and "config_sector mem f = buffer"
  obtains log where "find_image opts io gpio16 f =
     do { (runAddr, romToBoot, updateConfig, log) \<leftarrow>
            find_loop (check_image opts (\<lambda>a n. SPIRead io a n f)) buffer False cur False log;
          if runAddr = 0 then Some (0, f, log)
          else
            (let f = (if updateConfig
                      then (let buffer = put_chksum opts (buffer[3 := word_of_int romToBoot]);
                                f = snd (SPIEraseSector io BOOT_CONFIG_SECTOR f)
                            in snd (SPIWrite io (BOOT_CONFIG_SECTOR * SECTOR_SIZE) buffer f))
                      else f)
             in Some (runAddr, f, log @ [Msg_rom ''Booting rom %d.'' romToBoot])) }"
proof -
  have rd: "snd (SPIRead io (BOOT_CONFIG_SECTOR * SECTOR_SIZE) (unat SECTOR_SIZE) f) = buffer"
    using config_read [OF assms(1,2)] assms(6) by (simp add: config_addr)
  have valid: "\<not> (buffer ! 0 \<noteq> BOOT_CONFIG_MAGIC \<or> buffer ! 1 \<noteq> BOOT_CONFIG_VERSION \<or>
      (BOOT_CONFIG_CHKSUM opts \<and> buffer ! 24 \<noteq> calc_chksum (take 24 buffer)))"
    using assms(3) by (simp add: config_valid_def)
  have gpio: "\<not> (buffer ! 2 AND MODE_GPIO_ROM \<noteq> 0 \<and> gpio16 = 0)"
    using assms(4) by (simp add: gpio_mode_def)
  have cur: "\<not> buffer ! 3 \<ge> buffer ! 5" "uint (buffer ! 3) = cur"
    using selectedD [OF assms(5)] by (simp_all add: word_le_def)
  obtain sm fs where fs: "flash_size opts (drop_bit 4 (snd (SPIRead io 0 8 f) ! 3)) = (sm, fs)"
    by (cases "flash_size opts (drop_bit 4 (snd (SPIRead io 0 8 f) ! 3))")
  show thesis
    by (rule that) (simp only: find_image_def Let_def rd fs prod.case if_not_P [OF valid] if_not_P [OF gpio]
        if_not_P [OF cur(1)] cur(2))
qed

text \<open>
  C9: with a valid boot configuration that selects one of its roms, find_image boots the first
  good rom, starting with the selected one and going backwards round the list. The flash
  stays as it is if that is the selected rom; otherwise the configuration, and nothing else, is rewritten
  to select the rom that is booted. If every rom is bad, 0 is returned and nothing is written.
\<close>

theorem find_image_correct:
  assumes "flash_chip io mem" and "8192 \<le> length (mem f)" and "config_valid opts (config_sector mem f)"
    and "\<not> gpio_mode (config_sector mem f) gpio16" and "selected (config_sector mem f) cur n"
    and "rom = (\<lambda>k. check_image opts (\<lambda>a n. SPIRead io a n f) (conf_rom (config_sector mem f) ((cur - int k) mod n)))"
  shows "(\<forall>i. int i < n \<and> rom i \<noteq> 0 \<and> (\<forall>k<i. rom k = 0) \<longrightarrow>
       (\<exists>f' log. find_image opts io gpio16 f = Some (rom i, f', log) \<and>
          mem f' = (if i = 0 then mem f
            else take 4096 (mem f) @ put_chksum opts ((config_sector mem f)[3 := word_of_int ((cur - int i) mod n)])
                 @ drop 8192 (mem f)))) \<and>
     ((\<forall>k. int k < n \<longrightarrow> rom k = 0) \<longrightarrow> (\<exists>log. find_image opts io gpio16 f = Some (0, f, log)))"
proof -
  let ?buf = "config_sector mem f"
  let ?check = "check_image opts (\<lambda>a n. SPIRead io a n f)"
  from find_image_selected [OF assms(1-5) refl] obtain log where find: "find_image opts io gpio16 f =
     do { (runAddr, romToBoot, updateConfig, log) \<leftarrow> find_loop ?check ?buf False cur False log;
          if runAddr = 0 then Some (0, f, log)
          else
            (let f = (if updateConfig
                      then (let buffer = put_chksum opts (?buf[3 := word_of_int romToBoot]);
                                f = snd (SPIEraseSector io BOOT_CONFIG_SECTOR f)
                            in snd (SPIWrite io (BOOT_CONFIG_SECTOR * SECTOR_SIZE) buffer f))
                      else f)
             in Some (runAddr, f, log @ [Msg_rom ''Booting rom %d.'' romToBoot])) }" .
  have sel: "0 \<le> cur" "cur < n" using selectedD [OF assms(5)] by simp_all
  then have start: "(cur - int 0) mod n = cur" by simp
  have good: "\<exists>f' log. find_image opts io gpio16 f = Some (rom i, f', log) \<and>
      mem f' = (if i = 0 then mem f
        else take 4096 (mem f) @ put_chksum opts (?buf[3 := word_of_int ((cur - int i) mod n)]) @ drop 8192 (mem f))"
    if i: "int i < n" "rom i \<noteq> 0" "\<forall>k<i. rom k = 0" for i
  proof -
    have "\<exists>log'. find_loop ?check ?buf False ((cur - int 0) mod n) False log =
        Some (rom i, (cur - int i) mod n, False \<or> 0 < i, log')"
      by (rule find_loop_good [OF assms(5)]) (use i in \<open>simp_all add: assms(6)\<close>)
    then obtain log1 where loop: "find_loop ?check ?buf False cur False log = Some (rom i, (cur - int i) mod n, 0 < i, log1)"
      unfolding start by auto
    define new where "new = put_chksum opts (?buf[3 := word_of_int ((cur - int i) mod n)])"
    have len: "length new = 4096" using assms(2) by (simp add: new_def config_sector_def)
    obtain f1 f2 where w: "SPIEraseSector io 1 f = (True, f1)" "SPIWrite io 0x1000 new f1 = (True, f2)"
      "mem f2 = take 4096 (mem f) @ new @ drop 8192 (mem f)"
      using rewrite_sector [OF assms(1) _ len, of 1 f "0x1000"] assms(2) by auto
    show ?thesis
      using i(2) w by (cases "i = 0") (simp_all add: find loop config_addr new_def [symmetric] BOOT_CONFIG_SECTOR_def SECTOR_SIZE_def Let_def)
  qed
  have "\<exists>log. find_image opts io gpio16 f = Some (0, f, log)" if "\<forall>k. int k < n \<longrightarrow> rom k = 0"
  proof -
    have "\<exists>log'. find_loop ?check ?buf False ((cur - int 0) mod n) False log = Some (0, cur, True, log')"
      by (rule find_loop_none [OF assms(5)]) (use that sel in \<open>simp_all add: assms(6)\<close>)
    then show ?thesis unfolding start by (auto simp: find)
  qed
  with good show ?thesis by blast
qed


text \<open>A chip of bytes.\<close>

definition nor_flash :: "u8 list spi_flash" where
  "nor_flash =
     \<lparr>SPIRead = (\<lambda>a n f. (unat a + n \<le> length f, take n (drop (unat a) f))),
      SPIEraseSector = (\<lambda>s f. (True, take (unat s * 4096) f @ replicate 4096 0xff @ drop ((unat s + 1) * 4096) f)),
      SPIWrite = (\<lambda>a bs f. (True, take (unat a) f @ bs @ drop (unat a + length bs) f))\<rparr>"

lemma nor_flash_chip: "flash_chip nor_flash id"
  by (simp add: flash_chip_def nor_flash_def)

definition demo_config :: "u8 list" where
  "demo_config = [0xe1, 1, 0, 1, 0, 2, 0, 0] @ put32 0x2000 @ put32 0 @ replicate 8 0"

definition demo_rom :: rom_image where
  "demo_rom = \<lparr>rom_irom = None, rom_flags1 = 0, rom_flags2 = 0, rom_start = 0x40100000, rom_sections = [(0x40100000, [1, 2])]\<rparr>"

definition demo_flash :: "u8 list" where
  "demo_flash = replicate 4096 0xff @ demo_config @ replicate 4072 0 @ rom_bytes demo_rom 0xec @ [0xff]"

definition demo_opts :: boot_options where
  "demo_opts = \<lparr>BOOT_CONFIG_CHKSUM = False, BOOT_BIG_FLASH = False, BOOT_IROM_CHKSUM = False\<rparr>"

lemma demo_sector: "config_sector id demo_flash = demo_config @ replicate 4072 0"
  by (simp add: config_sector_def demo_flash_def demo_config_def)

definition demo_pre :: "u8 list" where
  "demo_pre = take 8192 demo_flash"

lemma length_demo_pre: "length demo_pre = 8192"
  by (simp add: demo_pre_def demo_flash_def demo_config_def)

lemma demo_reads: "reads (\<lambda>a n. SPIRead nor_flash a n demo_flash) (demo_pre @ rom_bytes demo_rom 0xec @ [0xff])"
proof -
  have "demo_flash = demo_pre @ rom_bytes demo_rom 0xec @ [0xff]" by (simp add: demo_pre_def demo_flash_def demo_config_def)
  moreover have "length demo_flash < 2 ^ 32"
    by (simp add: demo_flash_def demo_config_def rom_bytes_def irom_bytes_def main_bytes_def demo_rom_def section_bytes_def)
  ultimately show ?thesis using flash_reads [OF nor_flash_chip, of demo_flash] by simp
qed

lemma demo_rom_good: "check_image demo_opts (\<lambda>a n. SPIRead nor_flash a n demo_flash) 0x2000 = 0x2000"
proof -
  have "rom_ok demo_rom" "0xec = rom_chksum demo_opts demo_rom" "demo_pre \<noteq> []" "length (irom_bytes demo_rom) = 0"
    using length_demo_pre by (auto simp: rom_ok_def demo_rom_def rom_chksum_def demo_opts_def CHKSUM_INIT_def irom_bytes_def)
  then show ?thesis
    using check_image_reads [OF demo_reads, of demo_opts] by (simp add: length_demo_pre)
qed

theorem find_image_correct_witness:
  "\<exists>f' log. find_image demo_opts nor_flash 1 demo_flash = Some (0x2000, f', log) \<and>
     id f' = take 4096 demo_flash @ put_chksum demo_opts ((config_sector id demo_flash)[3 := 0]) @ drop 8192 demo_flash"
proof -
  define rom where "rom = (\<lambda>k. check_image demo_opts (\<lambda>a n. SPIRead nor_flash a n demo_flash) (conf_rom (config_sector id demo_flash) ((1 - int k) mod 2)))"
  have "8192 \<le> length (id demo_flash)" "config_valid demo_opts (config_sector id demo_flash)"
    "\<not> gpio_mode (config_sector id demo_flash) 1" "selected (config_sector id demo_flash) 1 2"
    by (simp_all add: demo_flash_def [THEN arg_cong [where f = length]] demo_sector demo_config_def config_valid_def BOOT_CONFIG_MAGIC_def
        BOOT_CONFIG_VERSION_def demo_opts_def gpio_mode_def selected_def)
  from find_image_correct [OF nor_flash_chip this rom_def, THEN conjunct1, THEN spec [where x = 1]]
  have *: "rom 1 \<noteq> 0 \<and> rom 0 = 0 \<longrightarrow> (\<exists>f' log. find_image demo_opts nor_flash 1 demo_flash = Some (rom 1, f', log) \<and>
      id f' = take 4096 demo_flash @ put_chksum demo_opts ((config_sector id demo_flash)[3 := 0]) @ drop 8192 demo_flash)"
    by simp
  have "conf_rom (config_sector id demo_flash) 0 = 0x2000" "conf_rom (config_sector id demo_flash) 1 = 0"
    by (simp_all add: conf_rom_def demo_sector demo_config_def put32_def le32_def)
  moreover have "check_image demo_opts spi 0 = 0" for spi by (simp add: check_image_def)
  ultimately have "rom 1 = 0x2000" "rom 0 = 0" by (simp_all add: rom_def demo_rom_good)
  with * show ?thesis by simp
qed

section \<open>Verification and loading\<close>

text \<open>
  C26: check_image accepts an image of either format exactly if the last byte is the checksum of the
  sections (and of the irom section, where that is compiled in), and then returns the address
  of the standard header.
\<close>

theorem check_image_verdict:
  assumes "reads spi (pre @ rom_bytes r c @ post)" and "16 dvd length pre" and "pre \<noteq> []" and "rom_ok r"
  shows "check_image opts spi (of_nat (length pre)) =
     (if c = rom_chksum opts r then of_nat (length (pre @ irom_bytes r)) else 0)"
  by (rule check_image_reads [OF assms])

theorem check_image_verdict_witness:
  "check_image demo_opts (\<lambda>a n. SPIRead nor_flash a n demo_flash) (of_nat (length demo_pre)) =
     (if 0xec = rom_chksum demo_opts demo_rom then of_nat (length (demo_pre @ irom_bytes demo_rom)) else 0)"
  by (rule check_image_verdict [OF demo_reads])
    (use length_demo_pre in \<open>auto simp: rom_ok_def demo_rom_def\<close>)

text \<open>
  C27: load_rom, called with the address that check_image has returned, copies every section to its
  address, in order, whatever the sizes, and returns the entry point.
\<close>

theorem load_rom_correct:
  assumes "reads spi (pre @ main_bytes r @ post)" and "length (rom_sections r) < 256"
  shows "load_rom spi (of_nat (length pre)) mem =
     (rom_start r, fold (\<lambda>s. ets_memcpy (fst s) (snd s)) (rom_sections r) mem)"
  by (rule load_rom_reads [OF assms])

theorem load_rom_correct_witness:
  "load_rom (\<lambda>a n. SPIRead nor_flash a n demo_flash) (of_nat (length demo_pre)) (\<lambda>a. 0) =
     (rom_start demo_rom, fold (\<lambda>s. ets_memcpy (fst s) (snd s)) (rom_sections demo_rom) (\<lambda>a. 0))"
proof (rule load_rom_correct)
  show "reads (\<lambda>a n. SPIRead nor_flash a n demo_flash) (demo_pre @ main_bytes demo_rom @ replicate (15 - length (main_bytes demo_rom) mod 16) 0 @ [0xec, 0xff])"
    using demo_reads by (simp add: rom_bytes_def irom_bytes_def demo_rom_def)
qed (simp add: demo_rom_def)

section \<open>A configuration without roms\<close>

lemma find_loop_diverges:
  assumes "check (conf_rom buffer (- 1)) = 0" and "uint (buffer ! 5) = 0"
  shows "find_loop check buffer False (- 1) upd log = None"
proof -
  have "\<not> (c = check \<and> b = buffer \<and> \<not> g \<and> i = - 1)" if "find_loop c b g i u l = Some r" for c b g i u l r
    proof (rule find_loop.raw_induct [where P = "\<lambda>c b g i u l r. \<not> (c = check \<and> b = buffer \<and> \<not> g \<and> i = - 1)", OF _ that],
        intro notI, elim conjE)
      fix loop c b g i u l r
      assume ih: "\<And>c b g i u l r. loop c b g i u l = Some r \<Longrightarrow> \<not> (c = check \<and> b = buffer \<and> \<not> g \<and> i = - 1)"
        and body: "(let runAddr = c (conf_rom b i)
          in if runAddr \<noteq> 0 then Some (runAddr, i, u, l)
             else
               let l = l @ [Msg_rom ''Rom %d is bad.'' i]
               in if g then Some (0, i, u, l @ [Msg ''GPIO boot failed.''])
                  else
                    let i = i - 1; i = (if i < 0 then uint (b ! 5) - 1 else i)
                    in if i = uint (b ! 3) then Some (0, i, True, l @ [Msg ''No good rom available.''])
                       else loop c b g i True l) = Some r"
        and eq: "c = check" "b = buffer" "\<not> g" "i = - 1"
      have "0 \<le> uint (buffer ! 3)" by (rule uint_ge_0)
      then have "uint (buffer ! 3) \<noteq> - 1" by linarith
      with body eq assms have "loop check buffer False (- 1) True (l @ [Msg_rom ''Rom %d is bad.'' (- 1)]) = Some r"
        by (simp add: Let_def)
      from ih [OF this] show False by simp
    qed
  then have "find_loop check buffer False (- 1) upd log \<noteq> Some r" for r by blast
  then show ?thesis by (cases "find_loop check buffer False (- 1) upd log") blast+
qed


definition empty_flash :: "u8 list" where
  "empty_flash = replicate 4096 0xff @ [0xe1, 1] @ replicate 4094 0"


end
