(* ===== verification/Rboot_Api.thy ===== *)
theory Rboot_Api
  imports Rboot_Verify
begin

text \<open>
  The interface of rBoot for applications, bootloader/rboot/appcode/rboot-api.c: the boot
  configuration and the writing of a new rom in chunks. The flash routines of the SDK are a
  parameter, as the ROM routines are in \<open>Rboot\<close>; whether the allocator finds memory is an argument.
\<close>

section \<open>The boot configuration\<close>

text \<open>The checksum and the padding behind it are there only with BOOT_CONFIG_CHKSUM.\<close>

record rboot_config =
  rc_magic :: u8
  rc_version :: u8
  rc_mode :: u8
  rc_current_rom :: u8
  rc_gpio_rom :: u8
  rc_count :: u8
  rc_unused :: "u8 list"
  rc_roms :: "u32 list"
  rc_chksum :: u8
  rc_padding :: "u8 list"

text \<open>The structure as the bytes it occupies, up to the checksum and with it.\<close>

definition config_head :: "rboot_config \<Rightarrow> u8 list" where
  "config_head c =
     [rc_magic c, rc_version c, rc_mode c, rc_current_rom c, rc_gpio_rom c, rc_count c] @ rc_unused c
     @ concat (map put32 (rc_roms c))"

definition config_bytes :: "boot_options \<Rightarrow> rboot_config \<Rightarrow> u8 list" where
  "config_bytes opts c =
     config_head c @ (if BOOT_CONFIG_CHKSUM opts then rc_chksum c # rc_padding c else [])"

definition config_of_bytes :: "boot_options \<Rightarrow> u8 list \<Rightarrow> rboot_config" where
  "config_of_bytes opts m =
     \<lparr>rc_magic = m ! 0, rc_version = m ! 1, rc_mode = m ! 2, rc_current_rom = m ! 3, rc_gpio_rom = m ! 4,
      rc_count = m ! 5, rc_unused = take 2 (drop 6 m), rc_roms = map (\<lambda>i. le32 m (8 + 4 * i)) [0..<4],
      rc_chksum = (if BOOT_CONFIG_CHKSUM opts then m ! 24 else 0),
      rc_padding = (if BOOT_CONFIG_CHKSUM opts then take 3 (drop 25 m) else [])\<rparr>"

definition rboot_get_config :: "boot_options \<Rightarrow> 'f spi_flash \<Rightarrow> 'f \<Rightarrow> rboot_config" where
  "rboot_get_config opts io f =
     config_of_bytes opts (snd (SPIRead io (BOOT_CONFIG_SECTOR * SECTOR_SIZE) (conf_size opts) f))"

definition rboot_set_config ::
  "boot_options \<Rightarrow> 'f spi_flash \<Rightarrow> bool \<Rightarrow> rboot_config \<Rightarrow> 'f \<Rightarrow> bool \<times> rboot_config \<times> 'f" where
  "rboot_set_config opts io malloc conf f =
     (if \<not> malloc then (False, conf, f)
      else
        (let conf = (if BOOT_CONFIG_CHKSUM opts
                     then conf\<lparr>rc_chksum := xor_bytes CHKSUM_INIT (config_head conf)\<rparr> else conf);
             buffer = snd (SPIRead io (BOOT_CONFIG_SECTOR * SECTOR_SIZE) (unat SECTOR_SIZE) f);
             buffer = config_bytes opts conf @ drop (conf_size opts) buffer;
             f = snd (SPIEraseSector io BOOT_CONFIG_SECTOR f);
             f = snd (SPIWrite io (BOOT_CONFIG_SECTOR * SECTOR_SIZE) buffer f)
         in (True, conf, f)))"

definition rboot_get_current_rom :: "boot_options \<Rightarrow> 'f spi_flash \<Rightarrow> 'f \<Rightarrow> u8" where
  "rboot_get_current_rom opts io f = rc_current_rom (rboot_get_config opts io f)"

definition rboot_set_current_rom :: "boot_options \<Rightarrow> 'f spi_flash \<Rightarrow> bool \<Rightarrow> u8 \<Rightarrow> 'f \<Rightarrow> bool \<times> 'f" where
  "rboot_set_current_rom opts io malloc rom f =
     (let conf = rboot_get_config opts io f
      in if rom \<ge> rc_count conf then (False, f)
         else
           (let (ok, conf, f) = rboot_set_config opts io malloc (conf\<lparr>rc_current_rom := rom\<rparr>) f
            in (ok, f)))"

section \<open>Writing a rom\<close>

record rboot_write_status =
  ws_start_addr :: u32
  ws_start_sector :: u32
  ws_last_sector_erased :: u32
  ws_extra_count :: u8
  ws_extra_bytes :: "u8 list"

definition rboot_write_init :: "u32 \<Rightarrow> rboot_write_status" where
  "rboot_write_init start_addr =
     \<lparr>ws_start_addr = start_addr, ws_start_sector = start_addr div SECTOR_SIZE, ws_last_sector_erased = 0,
      ws_extra_count = 0, ws_extra_bytes = replicate 4 0\<rparr>"

text \<open>The null pointer for the data is None. The length is of 16 bits, also when the rest is added.\<close>

definition rboot_write_flash ::
  "'f spi_flash \<Rightarrow> bool \<Rightarrow> rboot_write_status \<Rightarrow> u8 list option \<Rightarrow> u16 \<Rightarrow> 'f \<Rightarrow> bool \<times> rboot_write_status \<times> 'f" where
  "rboot_write_flash io zalloc status data len f =
     (case data of
        None \<Rightarrow> (True, status, f)
      | Some bytes \<Rightarrow>
          if len = 0 then (True, status, f)
          else if \<not> zalloc then (False, status, f)
          else
            (let buffer = take (unat (ws_extra_count status)) (ws_extra_bytes status) @ take (unat len) bytes;
                 len = len + ucast (ws_extra_count status);
                 extra = (ucast (len mod 4) :: u8);
                 len = len - ucast extra;
                 status = status\<lparr>ws_extra_count := extra,
                   ws_extra_bytes := take (unat extra) (drop (unat len) buffer) @ drop (unat extra) (ws_extra_bytes status)\<rparr>;
                 (status, f) =
                   (if uint len > uint SECTOR_SIZE then (status, f)
                    else
                      (let sector = (ws_start_addr status + ucast len) div SECTOR_SIZE
                       in if ws_last_sector_erased status \<noteq> sector
                          then (status\<lparr>ws_last_sector_erased := sector\<rparr>, snd (SPIEraseSector io sector f))
                          else (status, f)));
                 (ok, f) = SPIWrite io (ws_start_addr status) (take (unat len) buffer) f
             in if ok then (True, status\<lparr>ws_start_addr := ws_start_addr status + ucast len\<rparr>, f)
                else (False, status, f)))"

section \<open>The configuration is kept\<close>

definition config_fits :: "boot_options \<Rightarrow> rboot_config \<Rightarrow> bool" where
  "config_fits opts c \<longleftrightarrow>
     length (rc_unused c) = 2 \<and> length (rc_roms c) = 4 \<and>
     (if BOOT_CONFIG_CHKSUM opts then length (rc_padding c) = 3 else rc_chksum c = 0 \<and> rc_padding c = [])"

lemma list4E:
  assumes "length xs = 4"
  obtains a b c d where "xs = [a, b, c, d]"
  using assms by (auto simp: eval_nat_numeral length_Suc_conv)

lemma list2E:
  assumes "length xs = 2"
  obtains a b where "xs = [a, b]"
  using assms by (auto simp: eval_nat_numeral length_Suc_conv)

lemma length_config_head: "config_fits opts c \<Longrightarrow> length (config_head c) = 24"
  by (auto simp: config_fits_def config_head_def elim!: list4E)

lemma length_config_bytes: "config_fits opts c \<Longrightarrow> length (config_bytes opts c) = conf_size opts"
  using length_config_head [of opts c] by (simp add: config_bytes_def conf_size_def config_fits_def)

lemma config_of_config_bytes:
  assumes "config_fits opts c"
  shows "config_of_bytes opts (config_bytes opts c @ m) = c"
proof -
  obtain u0 u1 where u: "rc_unused c = [u0, u1]" using assms by (auto simp: config_fits_def elim: list2E)
  obtain r0 r1 r2 r3 where r: "rc_roms c = [r0, r1, r2, r3]" using assms by (auto simp: config_fits_def elim: list4E)
  define tail where "tail = (if BOOT_CONFIG_CHKSUM opts then rc_chksum c # rc_padding c else []) @ m"
  define h where "h = [rc_magic c, rc_version c, rc_mode c, rc_current_rom c, rc_gpio_rom c, rc_count c, u0, u1]"
  have b: "config_bytes opts c @ m = h @ put32 r0 @ put32 r1 @ put32 r2 @ put32 r3 @ tail"
    by (simp add: config_bytes_def config_head_def u r h_def tail_def)
  have h: "length h = 8" by (simp add: h_def)
  have roms: "le32 (config_bytes opts c @ m) 8 = r0" "le32 (config_bytes opts c @ m) 12 = r1"
    "le32 (config_bytes opts c @ m) 16 = r2" "le32 (config_bytes opts c @ m) 20 = r3"
    unfolding b by (simp_all add: le32_append h)
  have len: "length (config_head c) = 24" by (rule length_config_head [OF assms])
  have "config_of_bytes opts (config_bytes opts c @ m) =
      \<lparr>rc_magic = rc_magic c, rc_version = rc_version c, rc_mode = rc_mode c, rc_current_rom = rc_current_rom c,
       rc_gpio_rom = rc_gpio_rom c, rc_count = rc_count c, rc_unused = [u0, u1], rc_roms = [r0, r1, r2, r3],
       rc_chksum = rc_chksum c, rc_padding = rc_padding c\<rparr>"
    unfolding config_of_bytes_def using roms assms len
    by (simp add: upt_conv_Cons) (auto simp: b h_def config_fits_def config_bytes_def config_head_def u r nth_append)
  then show ?thesis by (simp flip: u r)
qed

text \<open>
  C30: a configuration that is set is what is read back, with the checksum set where it is
  compiled in; the rest of its sector and the other sectors keep their contents, and the boot loader
  takes the sector for valid if magic and version are the right ones.
\<close>

theorem rboot_set_config_correct:
  assumes "flash_chip io mem" and "8192 \<le> length (mem f)" and "config_fits opts c"
    and "c' = (if BOOT_CONFIG_CHKSUM opts then c\<lparr>rc_chksum := calc_chksum (config_head c)\<rparr> else c)"
  shows "\<exists>f'. rboot_set_config opts io True c f = (True, c', f') \<and> rboot_get_config opts io f' = c' \<and>
     mem f' = take 4096 (mem f) @ config_bytes opts c' @ drop (4096 + conf_size opts) (mem f) \<and>
     (rc_magic c = BOOT_CONFIG_MAGIC \<and> rc_version c = BOOT_CONFIG_VERSION \<longrightarrow>
        config_valid opts (config_sector mem f'))"
proof -
  have fits: "config_fits opts c'" using assms(3,4) by (simp add: config_fits_def)
  have len: "length (config_bytes opts c') = conf_size opts" by (rule length_config_bytes [OF fits])
  have size: "conf_size opts \<le> 28" by (simp add: conf_size_def)
  define buffer where "buffer = config_bytes opts c' @ drop (conf_size opts) (config_sector mem f)"
  have b: "length buffer = 4096" using len size assms(2) by (simp add: buffer_def config_sector_def)
  obtain f1 f2 where w: "SPIEraseSector io 1 f = (True, f1)" "SPIWrite io 0x1000 buffer f1 = (True, f2)"
    "mem f2 = take 4096 (mem f) @ buffer @ drop 8192 (mem f)"
    using rewrite_sector [OF assms(1) _ b, of 1 f "0x1000"] assms(2) by auto
  have set: "rboot_set_config opts io True c f = (True, c', f2)"
  proof -
    have ce: "(if BOOT_CONFIG_CHKSUM opts then c\<lparr>rc_chksum := xor_bytes CHKSUM_INIT (config_head c)\<rparr> else c) = c'"
      by (simp add: assms(4) calc_chksum_def)
    have one: "BOOT_CONFIG_SECTOR = 1" by (simp add: BOOT_CONFIG_SECTOR_def)
    show ?thesis
      unfolding rboot_set_config_def Let_def ce config_addr config_read [OF assms(1,2)] snd_conv buffer_def [symmetric]
      by (simp add: one w(1,2))
  qed
  have m: "mem f2 = take 4096 (mem f) @ config_bytes opts c' @ drop (4096 + conf_size opts) (mem f)"
  proof -
    have "drop (conf_size opts) (config_sector mem f) @ drop 8192 (mem f) = drop (4096 + conf_size opts) (mem f)"
      using size assms(2) append_take_drop_id [of "4096 - conf_size opts" "drop (4096 + conf_size opts) (mem f)"]
      by (simp add: config_sector_def drop_take add.commute)
    then show ?thesis by (simp add: w(3) buffer_def)
  qed
  have l2: "8192 \<le> length (mem f2)" using w(3) b assms(2) by simp
  have "SPIRead io 0x1000 (conf_size opts) f2 = (True, config_bytes opts c')"
    using flash_readD [OF assms(1), of "0x1000" "conf_size opts" f2] l2 size assms(2) len by (simp add: m)
  then have get: "rboot_get_config opts io f2 = c'"
    using config_of_config_bytes [OF fits, of "[]"] by (simp add: rboot_get_config_def config_addr)
  have "config_sector mem f2 = buffer" using w(3) b assms(2) by (simp add: config_sector_def)
  moreover have "config_valid opts buffer" if "rc_magic c = BOOT_CONFIG_MAGIC" "rc_version c = BOOT_CONFIG_VERSION"
  proof -
    have h: "length (config_head c') = 24" by (rule length_config_head [OF fits])
    have "config_head c' = config_head c" by (simp add: assms(4) config_head_def)
    moreover have "config_head c' ! 0 = rc_magic c" "config_head c' ! 1 = rc_version c"
      by (simp_all add: assms(4) config_head_def)
    ultimately show ?thesis
      using that h by (auto simp: config_valid_def buffer_def config_bytes_def nth_append assms(4))
  qed
  ultimately show ?thesis using set get m by auto
qed

definition demo_conf :: rboot_config where
  "demo_conf = \<lparr>rc_magic = 0xe1, rc_version = 1, rc_mode = 0, rc_current_rom = 0, rc_gpio_rom = 0, rc_count = 2,
     rc_unused = [0, 0], rc_roms = [0x2000, 0x42000, 0, 0], rc_chksum = 0, rc_padding = [0, 0, 0]\<rparr>"

definition demo_chk_opts :: boot_options where
  "demo_chk_opts = \<lparr>BOOT_CONFIG_CHKSUM = True, BOOT_BIG_FLASH = False, BOOT_IROM_CHKSUM = False\<rparr>"

theorem rboot_set_config_correct_witness:
  "\<exists>f'. rboot_set_config demo_chk_opts nor_flash True demo_conf empty_flash =
      (True, demo_conf\<lparr>rc_chksum := calc_chksum (config_head demo_conf)\<rparr>, f') \<and>
     rboot_get_config demo_chk_opts nor_flash f' = demo_conf\<lparr>rc_chksum := calc_chksum (config_head demo_conf)\<rparr> \<and>
     id f' = take 4096 (id empty_flash) @ config_bytes demo_chk_opts (demo_conf\<lparr>rc_chksum := calc_chksum (config_head demo_conf)\<rparr>)
       @ drop (4096 + conf_size demo_chk_opts) (id empty_flash) \<and>
     (rc_magic demo_conf = BOOT_CONFIG_MAGIC \<and> rc_version demo_conf = BOOT_CONFIG_VERSION \<longrightarrow>
        config_valid demo_chk_opts (config_sector id f'))"
  by (rule rboot_set_config_correct [OF nor_flash_chip])
    (simp_all add: empty_flash_def config_fits_def demo_conf_def demo_chk_opts_def)

section \<open>The rom is written\<close>

fun write_chunks :: "'f spi_flash \<Rightarrow> rboot_write_status \<Rightarrow> u8 list list \<Rightarrow> 'f \<Rightarrow> bool \<times> rboot_write_status \<times> 'f" where
  "write_chunks io status [] f = (True, status, f)"
| "write_chunks io status (c # cs) f =
     (let (ok, status, f) = rboot_write_flash io True status (Some c) (of_nat (length c)) f
      in if ok then write_chunks io status cs f else (False, status, f))"

text \<open>
  One chunk, in numbers: \<open>e\<close> bytes are kept from before, \<open>k\<close> words are written and \<open>r\<close> bytes are kept.
\<close>

lemma write_flash_eq:
  assumes "0 < length c" and "length c \<le> 4096" and "ws_extra_count status = of_nat (length e)" and "length e < 4"
    and "take (length e) (ws_extra_bytes status) = e" and "length (ws_extra_bytes status) = 4"
    and "k = 4 * (length (e @ c) div 4)" and "ws_start_addr status = of_nat a" and "a + 8192 < 2 ^ 32"
    and "status' = status\<lparr>ws_extra_count := of_nat (length (e @ c) mod 4),
       ws_extra_bytes := drop k (e @ c) @ drop (length (e @ c) mod 4) (ws_extra_bytes status)\<rparr>"
  shows "rboot_write_flash io True status (Some c) (of_nat (length c)) f =
     (let (st, f) = (if ws_last_sector_erased status \<noteq> of_nat ((a + k) div 4096)
                     then (status'\<lparr>ws_last_sector_erased := of_nat ((a + k) div 4096)\<rparr>,
                           snd (SPIEraseSector io (of_nat ((a + k) div 4096)) f))
                     else (status', f));
          (ok, f) = SPIWrite io (of_nat a) (take k (e @ c)) f
      in if ok then (True, st\<lparr>ws_start_addr := of_nat (a + k)\<rparr>, f) else (False, st, f))"
proof -
  define n where "n = length (e @ c)"
  have n: "n < 4100" "k = 4 * (n div 4)" "k \<le> n" "n - k = n mod 4" "n mod 4 < 4" "k \<le> 4096" "0 < n"
    using assms(1,2,4,7) by (simp_all add: n_def minus_mult_div_eq_mod)
  have lc: "unat (of_nat (length c) :: u16) = length c" using assms(2) by (simp add: unat_u16_of_nat)
  have ne: "(of_nat (length c) :: u16) \<noteq> 0" using assms(1) lc by (metis less_irrefl unat_0)
  have le: "unat (of_nat (length e) :: u8) = length e" using assms(4) by (simp add: unat_u8_of_nat)
  have sum: "(of_nat (length c) + ucast (of_nat (length e) :: u8) :: u16) = of_nat n"
  proof -
    have "(ucast (of_nat (length e) :: u8) :: u16) = of_nat (length e)"
      using assms(4) by (simp add: word_unat_eq_iff unsigned_ucast_eq unat_of_nat take_bit_eq_mod)
    then show ?thesis by (simp add: n_def)
  qed
  have ex: "(ucast (of_nat n mod 4 :: u16) :: u8) = of_nat (n mod 4)"
    using n(1) by (simp add: word_unat_eq_iff unsigned_ucast_eq unat_of_nat take_bit_eq_mod unat_mod)
  have ue: "unat (of_nat (n mod 4) :: u8) = n mod 4" by (simp add: unat_u8_of_nat)
  have "(ucast (of_nat (n mod 4) :: u8) :: u16) = of_nat (n mod 4)"
    by (simp add: word_unat_eq_iff unsigned_ucast_eq unat_of_nat take_bit_eq_mod)
  then have sub: "(of_nat n - ucast (of_nat (n mod 4) :: u8) :: u16) = of_nat k"
    using n(3,4) by (metis of_nat_diff diff_diff_cancel mod_less_eq_dividend)
  have uk: "unat (of_nat k :: u16) = k" "uint (of_nat k :: u16) = int k"
    using n(6) by (simp_all add: unat_u16_of_nat unsigned_of_nat take_bit_nat_eq_self)
  have ss: "\<not> uint (of_nat k :: u16) > uint SECTOR_SIZE" using n(6) unfolding uk by (simp add: SECTOR_SIZE_def)
  have wk: "(ucast (of_nat k :: u16) :: u32) = of_nat k"
    using n(6) by (simp add: word_unat_eq_iff unsigned_ucast_eq unat_of_nat take_bit_eq_mod)
  have addr: "(of_nat a + of_nat k) div SECTOR_SIZE = (of_nat ((a + k) div 4096) :: u32)"
  proof -
    have "unat (of_nat (a + k) :: u32) = a + k" using assms(9) n(6) by (simp add: unat_u32_of_nat del: of_nat_add)
    then have "unat (of_nat (a + k) div SECTOR_SIZE :: u32) = (a + k) div 4096"
      by (simp add: unat_div SECTOR_SIZE_def del: of_nat_add)
    moreover have "unat (of_nat ((a + k) div 4096) :: u32) = (a + k) div 4096"
      using assms(9) n(6) by (simp add: unat_u32_of_nat less_mult_imp_div_less)
    ultimately show ?thesis by (simp only: word_unat_eq_iff of_nat_add)
  qed
  have buf: "take (length e) (ws_extra_bytes status) @ take (length c) c = e @ c"
    by (simp add: assms(5))
  have rest: "take (n mod 4) (drop k (e @ c)) = drop k (e @ c)"
    using n(4) by (simp add: n_def)
  have st: "status\<lparr>ws_extra_count := of_nat (n mod 4), ws_extra_bytes := drop k (e @ c) @ drop (n mod 4) (ws_extra_bytes status)\<rparr> = status'"
    by (simp add: assms(10) n_def)
  show ?thesis
    unfolding rboot_write_flash_def option.case if_not_P [OF ne] simp_thms if_False Let_def
      assms(3) le lc buf sum ex sub ue uk(1) n_def [symmetric] rest st if_not_P [OF ss]
    by (simp add: wk addr assms(8,10) split_beta Let_def)
qed

lemma write_erased:
  assumes "flash_chip io mem" and "mem f = pre @ replicate r 0xff @ post" and "length bs \<le> r"
    and "length pre < 2 ^ 32"
  obtains f' where "SPIWrite io (of_nat (length pre)) bs f = (True, f')"
    "mem f' = pre @ bs @ replicate (r - length bs) 0xff @ post"
proof -
  have a: "unat (of_nat (length pre) :: u32) = length pre" using assms(4) by (simp add: unat_u32_of_nat)
  have r: "replicate r (0xff :: u8) = replicate (length bs) 0xff @ replicate (r - length bs) 0xff"
    using assms(3) by (simp add: replicate_add [symmetric])
  have "unat (of_nat (length pre) :: u32) + length bs \<le> length (mem f)" using assms(3) by (simp add: a assms(2))
  moreover have "set (take (length bs) (drop (unat (of_nat (length pre) :: u32)) (mem f))) \<subseteq> {0xff}"
    unfolding a assms(2) r by auto
  ultimately obtain f' where "SPIWrite io (of_nat (length pre)) bs f = (True, f')"
    "mem f' = take (unat (of_nat (length pre) :: u32)) (mem f) @ bs @ drop (unat (of_nat (length pre) :: u32) + length bs) (mem f)"
    using flash_writeE [OF assms(1)] by blast
  then show thesis using that unfolding a assms(2) r by simp
qed

text \<open>The rom has been written up to the last whole word of \<open>d\<close>.\<close>

definition streaming :: "u8 list \<Rightarrow> nat \<Rightarrow> u8 list \<Rightarrow> rboot_write_status \<Rightarrow> u8 list \<Rightarrow> bool" where
  "streaming m0 a d st m \<longleftrightarrow>
     (let k = 4 * (length d div 4); s = (a + k) div 4096
      in ws_start_addr st = of_nat (a + k) \<and> ws_last_sector_erased st = of_nat s \<and>
         ws_extra_count st = of_nat (length (drop k d)) \<and> length (ws_extra_bytes st) = 4 \<and>
         take (length (drop k d)) (ws_extra_bytes st) = drop k d \<and>
         m = take a m0 @ take k d @ replicate ((s + 1) * 4096 - (a + k)) 0xff @ drop ((s + 1) * 4096) m0)"

lemma write_chunk:
  assumes "flash_chip io mem" and "0 < length c" and "length c \<le> 4096" and "length d < 2 ^ 31" and "a + length d + 8192 < 2 ^ 32"
    and "k = 4 * (length d div 4)" and "e = drop k d" and "k' = 4 * (length (e @ c) div 4)"
    and "ws_start_addr st = of_nat (a + k)" and "ws_extra_count st = of_nat (length e)"
    and "length (ws_extra_bytes st) = 4" and "take (length e) (ws_extra_bytes st) = e"
    and "s' = (a + k + k') div 4096" and "a \<le> length m0"
    and "mem (if ws_last_sector_erased st \<noteq> of_nat s' then snd (SPIEraseSector io (of_nat s') f) else f) =
      take a m0 @ take k d @ replicate ((s' + 1) * 4096 - (a + k)) 0xff @ drop ((s' + 1) * 4096) m0"
  shows "\<exists>st' f'. rboot_write_flash io True st (Some c) (of_nat (length c)) f = (True, st', f') \<and>
     streaming m0 a (d @ c) st' (mem f')"
proof -
  define g where "g = (if ws_last_sector_erased st \<noteq> of_nat s' then snd (SPIEraseSector io (of_nat s') f) else f)"
  define pre where "pre = take a m0 @ take k d"
  have kd: "k \<le> length d" "length e = length d mod 4" "length d = k + length e"
    using assms(6,7) by (simp_all add: minus_mult_div_eq_mod)
  have len: "length pre = a + k" using assms(14) kd(1) by (simp add: pre_def)
  have e4: "length e < 4" by (simp add: kd(2))
  have k': "k' \<le> length (e @ c)" "k' \<le> 4096" using assms(3,8) e4 by simp_all
  have tot: "4 * (length (d @ c) div 4) = k + k'" "length (d @ c) - (k + k') = length (e @ c) mod 4"
  proof -
    define q n where "q = length d div 4" and "n = length (e @ c)"
    have dc: "length (d @ c) = 4 * q + n" using kd(3) assms(6) by (simp add: q_def n_def)
    show "4 * (length (d @ c) div 4) = k + k'"
      unfolding dc assms(6,8) q_def [symmetric] n_def [symmetric] by simp
    show "length (d @ c) - (k + k') = length (e @ c) mod 4"
      unfolding dc assms(6,8) q_def [symmetric] n_def [symmetric] by (simp add: minus_mult_div_eq_mod)
  qed
  have drp: "drop (k + k') (d @ c) = drop k' (e @ c)" "take (k + k') (d @ c) = take k d @ take k' (e @ c)"
  proof -
    have dk: "drop k (d @ c) = e @ c" "take k (d @ c) = take k d" using kd(1) assms(7) by simp_all
    show "drop (k + k') (d @ c) = drop k' (e @ c)"
      unfolding dk(1) [symmetric] drop_drop add.commute [of k'] ..
    show "take (k + k') (d @ c) = take k d @ take k' (e @ c)"
      unfolding take_add dk ..
  qed
  have room: "k' \<le> (s' + 1) * 4096 - (a + k)"
  proof -
    have "a + k + k' < (s' + 1) * 4096" unfolding assms(13) by (simp add: dividend_less_times_div)
    then show ?thesis by simp
  qed
  define st1 where "st1 = st\<lparr>ws_extra_count := of_nat (length (e @ c) mod 4),
       ws_extra_bytes := drop k' (e @ c) @ drop (length (e @ c) mod 4) (ws_extra_bytes st)\<rparr>"
  have small: "a + k + 8192 < 2 ^ 32" using assms(5) kd(1) by simp
  define R post where "R = (s' + 1) * 4096 - (a + k)" and "post = drop ((s' + 1) * 4096) m0"
  have m: "mem g = pre @ replicate R 0xff @ post"
    using assms(15) unfolding g_def [symmetric] pre_def R_def post_def append_assoc .
  have l: "length (take k' (e @ c)) \<le> R" using room k'(1) unfolding R_def by simp
  have p32: "length pre < 2 ^ 32" using small len by simp
  from write_erased [OF assms(1) m l p32] obtain f' where
    f': "SPIWrite io (of_nat (length pre)) (take k' (e @ c)) g = (True, f')"
    "mem f' = pre @ take k' (e @ c) @ replicate (R - length (take k' (e @ c))) 0xff @ post" .
  define st' where "st' = st1\<lparr>ws_last_sector_erased := of_nat s', ws_start_addr := of_nat (a + k + k')\<rparr>"
  have same: "r\<lparr>ws_last_sector_erased := ws_last_sector_erased r\<rparr> = r" for r :: rboot_write_status
    by (cases r) simp
  have pair: "(if ws_last_sector_erased st \<noteq> of_nat s'
        then (st1\<lparr>ws_last_sector_erased := of_nat s'\<rparr>, snd (SPIEraseSector io (of_nat s') f)) else (st1, f)) =
      (st1\<lparr>ws_last_sector_erased := of_nat s'\<rparr>, g)"
    using same [of st1] by (auto simp: g_def st1_def)
  have "rboot_write_flash io True st (Some c) (of_nat (length c)) f = (True, st', f')"
    unfolding write_flash_eq [OF assms(2,3,10) e4 assms(12,11,8,9) small st1_def] assms(13) [symmetric]
    unfolding pair Let_def prod.case f'(1) [unfolded len] by (simp add: st'_def)
  moreover have "streaming m0 a (d @ c) st' (mem f')"
  proof -
    have l: "length (take k' (e @ c)) = k'" using k'(1) by simp
    have rest: "length (drop k' (e @ c)) = length (e @ c) mod 4"
      by (simp only: length_drop assms(8) minus_mult_div_eq_mod)
    have "mem f' = take a m0 @ take (k + k') (d @ c) @ replicate ((s' + 1) * 4096 - (a + (k + k'))) 0xff @ drop ((s' + 1) * 4096) m0"
      unfolding f'(2) l drp(2) pre_def R_def post_def by (simp add: add.assoc)
    moreover define xr r where "xr = drop k' (e @ c)" and "r = length (e @ c) mod 4"
    moreover have xr: "length xr = r" "r < 4" unfolding xr_def r_def by (rule rest) simp
    moreover have "length (xr @ drop r (ws_extra_bytes st)) = 4" using xr assms(11) by simp
    ultimately show ?thesis
      unfolding streaming_def tot(1) Let_def drp(1)
      using assms(11,13) by (simp add: st'_def st1_def xr_def [symmetric] r_def [symmetric] add.assoc del: drop_append length_append)
  qed
  ultimately show ?thesis by blast
qed


lemma drop_past: "length xs = n * 4096 \<Longrightarrow> drop ((n + 1) * 4096) (xs @ drop (n * 4096) m) = drop ((n + 1) * 4096) m"
  by (simp add: add.commute)

lemma u32_nat_eq: "m < 2 ^ 32 \<Longrightarrow> n < 2 ^ 32 \<Longrightarrow> (of_nat m :: u32) = of_nat n \<longleftrightarrow> m = n"
  by (simp add: word_unat_eq_iff unat_u32_of_nat)

lemma streaming_chunk:
  assumes "flash_chip io mem" and "streaming m0 a d st (mem f)" and "0 < length c" and "length c \<le> 4096"
    and "a + length d + length c + 4096 \<le> length m0" and "length m0 < 2 ^ 31"
  shows "\<exists>st' f'. rboot_write_flash io True st (Some c) (of_nat (length c)) f = (True, st', f') \<and>
     streaming m0 a (d @ c) st' (mem f')"
proof -
  define k s where "k = 4 * (length d div 4)" and "s = (a + k) div 4096"
  define e where "e = drop k d"
  define k' s' where "k' = 4 * (length (e @ c) div 4)" and "s' = (a + k + k') div 4096"
  note st = assms(2) [unfolded streaming_def Let_def k_def [symmetric], folded s_def e_def]
  have kd: "k \<le> length d" "length e < 4" "length d = k + length e"
    unfolding e_def k_def by (simp_all add: minus_mult_div_eq_mod)
  have k': "k' \<le> length e + length c" "k' \<le> 4096" using assms(4) kd(2) by (simp_all add: k'_def)
  have up: "a + k + k' + 4096 \<le> length m0" using assms(5) k'(1) kd(3) by simp
  have s's: "s' * 4096 \<le> a + k + k'" by (simp add: s'_def)
  have fit: "(s' + 1) * 4096 \<le> length m0" using s's up by simp
  have s32: "s < 2 ^ 32" "s' < 2 ^ 32" using up assms(6) by (simp_all add: s_def s'_def less_mult_imp_div_less)
  have se: "a + k < (s + 1) * 4096" "s * 4096 \<le> a + k" by (simp_all add: s_def dividend_less_times_div)
  have lp: "length (take a m0 @ take k d) = a + k" using assms(5) kd(1) by simp
  have "mem (if ws_last_sector_erased st \<noteq> of_nat s' then snd (SPIEraseSector io (of_nat s') f) else f) =
      take a m0 @ take k d @ replicate ((s' + 1) * 4096 - (a + k)) 0xff @ drop ((s' + 1) * 4096) m0"
  proof (cases "s' = s")
    case True
    then show ?thesis using st by simp
  next
    case False
    have "s \<le> s'" unfolding s_def s'_def by (rule div_le_mono) simp
    moreover have "s' \<le> s + 1"
    proof -
      have "s' * 4096 < (s + 2) * 4096" using s's se(1) k'(2) by simp
      then have "s' < s + 2" by (simp only: mult_less_cancel2)
      then show ?thesis by simp
    qed
    ultimately have s': "s' = s + 1" using False by simp
    have u: "unat (of_nat s' :: u32) = s'" using s32(2) by (simp add: unat_u32_of_nat)
    define R where "R = (s + 1) * 4096 - (a + k)"
    have m: "mem f = (take a m0 @ take k d @ replicate R 0xff) @ drop ((s + 1) * 4096) m0" using st by (simp add: R_def)
    have lf: "length (take a m0 @ take k d @ replicate R (0xff :: u8)) = s' * 4096"
      using lp se(1) by (simp add: R_def s')
    have lm: "length (mem f) = length m0" unfolding m using lf fit by (simp add: s')
    obtain g where g: "SPIEraseSector io (of_nat s') f = (True, g)"
      "mem g = take (s' * 4096) (mem f) @ replicate 4096 0xff @ drop ((s' + 1) * 4096) (mem f)"
      using flash_eraseE [OF assms(1), of "of_nat s'" f] fit unfolding u lm by blast
    have "take (s' * 4096) (mem f) = take a m0 @ take k d @ replicate R 0xff"
      unfolding m using lf by (metis append_eq_conv_conj)
    moreover have "drop ((s' + 1) * 4096) (mem f) = drop ((s' + 1) * 4096) m0"
      unfolding m s' by (rule drop_past) (use lf in \<open>simp only: s'\<close>)
    moreover have "replicate R (0xff :: u8) @ replicate 4096 0xff = replicate ((s' + 1) * 4096 - (a + k)) 0xff"
      using se(1) by (simp add: replicate_add [symmetric] R_def s')
    ultimately have "mem g = take a m0 @ take k d @ replicate ((s' + 1) * 4096 - (a + k)) 0xff @ drop ((s' + 1) * 4096) m0"
      unfolding g(2) by (metis append_assoc)
    moreover have "ws_last_sector_erased st \<noteq> of_nat s'"
      using st s32 s' u32_nat_eq [of s s'] by simp
    ultimately show ?thesis using g(1) by simp
  qed
  moreover have "length d < 2 ^ 31" "a + length d + 8192 < 2 ^ 32" "a \<le> length m0" using assms(5,6) by simp_all
  ultimately show ?thesis
    using write_chunk [OF assms(1,3,4) _ _ k_def e_def k'_def _ _ _ _ s'_def, of st m0 f] st by blast
qed

lemma streaming_chunks:
  assumes "flash_chip io mem" and "streaming m0 a d st (mem f)" and "\<forall>c\<in>set cs. 0 < length c \<and> length c \<le> 4096"
    and "a + length d + length (concat cs) + 4096 \<le> length m0" and "length m0 < 2 ^ 31"
  shows "\<exists>st' f'. write_chunks io st cs f = (True, st', f') \<and> streaming m0 a (d @ concat cs) st' (mem f')"
  using assms(2-4)
proof (induction cs arbitrary: d st f)
  case (Cons c cs)
  from streaming_chunk [OF assms(1) Cons.prems(1), of c] Cons.prems assms(5) obtain st1 f1 where
    w: "rboot_write_flash io True st (Some c) (of_nat (length c)) f = (True, st1, f1)" "streaming m0 a (d @ c) st1 (mem f1)"
    by auto
  from Cons.IH [OF w(2)] Cons.prems have "\<exists>st' f'. write_chunks io st1 cs f1 = (True, st', f') \<and>
      streaming m0 a ((d @ c) @ concat cs) st' (mem f')" by (simp add: add.assoc)
  then show ?case using w(1) by simp
qed simp

text \<open>
  The first chunk erases the sector its last whole word ends in. When it is a full sector, that is
  the sector behind the one it fills, so the filled one must have been erased before.
\<close>

lemma first_erased:
  assumes "flash_chip io mem" and "s' = s \<or> s' = s + 1 \<and> take 4096 (drop a (mem f)) = replicate 4096 0xff"
    and "a = s * 4096" and "(s' + 1) * 4096 \<le> length (mem f)" and "length (mem f) < 2 ^ 31"
  shows "mem (snd (SPIEraseSector io (of_nat s') f)) =
    take a (mem f) @ replicate ((s' + 1) * 4096 - a) 0xff @ drop ((s' + 1) * 4096) (mem f)"
proof -
  have "s' < 2 ^ 32" using assms(4,5) by simp
  then have u: "unat (of_nat s' :: u32) = s'" by (simp add: unat_u32_of_nat)
  obtain g where g: "SPIEraseSector io (of_nat s') f = (True, g)"
    "mem g = take (s' * 4096) (mem f) @ replicate 4096 0xff @ drop ((s' + 1) * 4096) (mem f)"
    using flash_eraseE [OF assms(1), of "of_nat s'" f] assms(4) unfolding u by blast
  show ?thesis
  proof (cases "s' = s")
    case True
    then show ?thesis using g assms(3) by simp
  next
    case False
    then have s1: "s' * 4096 = a + 4096" "take 4096 (drop a (mem f)) = replicate 4096 0xff"
      using assms(2,3) by auto
    have "take (s' * 4096) (mem f) = take a (mem f) @ replicate 4096 0xff"
      unfolding s1(1) take_add s1(2) ..
    moreover have "(s' + 1) * 4096 - a = 4096 + 4096" using s1(1) by simp
    ultimately show ?thesis using g by (simp only: snd_conv replicate_add append_assoc)
  qed
qed

lemma streaming_first:
  assumes "flash_chip io mem" and "0 < length c" and "length c \<le> 4096" and "a = s * 4096" and "0 < s"
    and "length c < 4096 \<or> take 4096 (drop a (mem f)) = replicate 4096 0xff"
    and "a + length c + 4096 \<le> length (mem f)" and "length (mem f) < 2 ^ 31"
  shows "\<exists>st' f'. rboot_write_flash io True (rboot_write_init (of_nat a)) (Some c) (of_nat (length c)) f = (True, st', f') \<and>
     streaming (mem f) a c st' (mem f')"
proof -
  define k' s' where "k' = 4 * (length ([] @ c) div 4)" and "s' = (a + 0 + k') div 4096"
  have s': "s' = s \<or> s' = s + 1 \<and> take 4096 (drop a (mem f)) = replicate 4096 0xff"
  proof (cases "length c < 4096")
    case True
    then show ?thesis by (simp add: s'_def k'_def assms(4))
  next
    case False
    then have "length c = 4096" using assms(3) by simp
    then show ?thesis using False assms(6) by (simp add: s'_def k'_def assms(4))
  qed
  have fit: "(s' + 1) * 4096 \<le> length (mem f)" "a + 4096 < 2 ^ 31"
    using assms(7,8) unfolding s'_def k'_def by simp_all
  have s32: "s' < 2 ^ 32" using fit(1) assms(8) by simp
  have pos: "0 < s'" using s' assms(5) by auto
  note e = first_erased [OF assms(1) s' assms(4) fit(1) assms(8)]
  have "ws_last_sector_erased (rboot_write_init (of_nat a)) \<noteq> of_nat s'"
    using u32_nat_eq [of 0 s'] s32 pos by (simp add: rboot_write_init_def)
  with e have "mem (if ws_last_sector_erased (rboot_write_init (of_nat a)) \<noteq> of_nat s' then snd (SPIEraseSector io (of_nat s') f) else f) =
      take a (mem f) @ take 0 [] @ replicate ((s' + 1) * 4096 - (a + 0)) 0xff @ drop ((s' + 1) * 4096) (mem f)"
    by simp
  moreover have "length ([] :: u8 list) < 2 ^ 31" "a + length ([] :: u8 list) + 8192 < 2 ^ 32" "a \<le> length (mem f)"
    using assms(7) fit(2) by simp_all
  ultimately show ?thesis
    using write_chunk [OF assms(1,2,3) _ _ _ _ k'_def _ _ _ _ s'_def, of "[]" "rboot_write_init (of_nat a)" "mem f" f]
    by (simp add: rboot_write_init_def)
qed

text \<open>
  C29: a rom that is written in chunks of at most 4096 bytes from the boundary of a sector on: every
  call succeeds, and afterwards the flash holds, from the start address on, the rom up to its last
  whole word, then erased bytes up to the end of the sector the writing position has reached, and
  everything else is as before; the bytes of the rom behind the last whole word are kept in the
  status. When the words end on the boundary of a sector, the sector the position has reached is the
  one behind the rom, so that one is erased too. A first chunk of a full 4096 bytes needs a first
  sector that is erased already, since the call erases only the sector behind it.
\<close>

theorem rboot_write_correct:
  assumes "flash_chip io mem" and "a = s * 4096" and "0 < s" and "\<forall>c\<in>set (c # cs). 0 < length c \<and> length c \<le> 4096"
    and "length c < 4096 \<or> take 4096 (drop a (mem f)) = replicate 4096 0xff"
    and "rom = concat (c # cs)" and "n = 4 * (length rom div 4)" and "q = ((a + n) div 4096 + 1) * 4096"
    and "a + length rom + 4096 \<le> length (mem f)" and "length (mem f) < 2 ^ 31"
  shows "\<exists>st f'. write_chunks io (rboot_write_init (of_nat a)) (c # cs) f = (True, st, f') \<and>
     mem f' = take a (mem f) @ take n rom @ replicate (q - (a + n)) 0xff @ drop q (mem f) \<and>
     take (unat (ws_extra_count st)) (ws_extra_bytes st) = drop n rom"
proof -
  have "0 < length c" "length c \<le> 4096" "a + length c + 4096 \<le> length (mem f)" using assms(4,6,9) by simp_all
  from streaming_first [OF assms(1) this(1,2) assms(2,3,5) this(3) assms(10)] obtain st1 f1 where
    one: "rboot_write_flash io True (rboot_write_init (of_nat a)) (Some c) (of_nat (length c)) f = (True, st1, f1)"
    "streaming (mem f) a c st1 (mem f1)" by blast
  from streaming_chunks [OF assms(1) one(2), of cs] assms(4,6,9,10) obtain st f' where
    w: "write_chunks io st1 cs f1 = (True, st, f')" "streaming (mem f) a rom st (mem f')" by auto
  have m: "mem f' = take a (mem f) @ take n rom @ replicate (q - (a + n)) 0xff @ drop q (mem f)"
    and x: "ws_extra_count st = of_nat (length (drop n rom))" "take (length (drop n rom)) (ws_extra_bytes st) = drop n rom"
    using w(2) by (simp_all add: streaming_def Let_def assms(7,8))
  have "length (drop n rom) < 4" by (simp add: assms(7) minus_mult_div_eq_mod)
  then have "unat (ws_extra_count st) = length (drop n rom)" by (simp only: x(1) unat_u8_of_nat) simp
  then show ?thesis using one(1) w(1) x(2) m by simp
qed

definition demo_big :: "u8 list" where
  "demo_big = empty_flash @ replicate 8192 0"

theorem rboot_write_correct_witness:
  "\<exists>st f'. write_chunks nor_flash (rboot_write_init (of_nat 8192)) ([1, 2, 3] # [[4, 5, 6]]) demo_big = (True, st, f') \<and>
     id f' = take 8192 (id demo_big) @ take 4 [1, 2, 3, 4, 5, 6] @ replicate (12288 - (8192 + 4)) 0xff @ drop 12288 (id demo_big) \<and>
     take (unat (ws_extra_count st)) (ws_extra_bytes st) = drop 4 [1, 2, 3, 4, 5, 6]"
  by (rule rboot_write_correct [OF nor_flash_chip, where s = 2]) (simp_all add: demo_big_def empty_flash_def)

text \<open>
  A first chunk of 4096 bytes, the largest the interface allows, is written to the sector at the start
  address, which has not been erased: only the sector after it is.
\<close>

theorem first_full_sector_not_erased:
  assumes "length c = 4096" and "a = s * 4096" and "0 < s" and "a + 8192 < 2 ^ 32"
    and "written = SPIWrite io (of_nat a) c (snd (SPIEraseSector io (of_nat (s + 1)) f))"
  shows "\<exists>st. rboot_write_flash io True (rboot_write_init (of_nat a)) (Some c) (of_nat (length c)) f =
     (fst written, st, snd written)"
proof -
  define st where "st = rboot_write_init (of_nat a)"
  have k: "(4096 :: nat) = 4 * (length ([] @ c) div 4)" using assms(1) by simp
  have w: "0 < length c" "length c \<le> 4096" "ws_extra_count st = of_nat (length ([] :: u8 list))"
    "length ([] :: u8 list) < 4" "take (length ([] :: u8 list)) (ws_extra_bytes st) = []"
    "length (ws_extra_bytes st) = 4" "ws_start_addr st = of_nat a"
    using assms(1) by (simp_all add: st_def rboot_write_init_def)
  have sec: "(a + 4096) div 4096 = s + 1" by (simp add: assms(2))
  have "s + 1 < 2 ^ 32" using assms(2,4) by simp
  then have ne: "ws_last_sector_erased st \<noteq> of_nat (s + 1)"
    using u32_nat_eq [of 0 "s + 1"] by (simp add: st_def rboot_write_init_def del: of_nat_add)
  have c: "take 4096 ([] @ c) = c" using assms(1) by simp
  show ?thesis
    using write_flash_eq [OF w(1-6) k w(7) assms(4) refl, of io f]
    unfolding st_def [symmetric] sec c if_P [OF ne] Let_def prod.case assms(5) [symmetric]
    by (cases written) simp
qed

theorem first_full_sector_not_erased_witness:
  "\<exists>st. rboot_write_flash nor_flash True (rboot_write_init (of_nat 8192)) (Some (replicate 4096 7))
      (of_nat (length (replicate 4096 (7 :: u8)))) demo_big =
     (fst (SPIWrite nor_flash (of_nat 8192) (replicate 4096 7) (snd (SPIEraseSector nor_flash (of_nat (2 + 1)) demo_big))), st,
      snd (SPIWrite nor_flash (of_nat 8192) (replicate 4096 7) (snd (SPIEraseSector nor_flash (of_nat (2 + 1)) demo_big))))"
  by (rule first_full_sector_not_erased [where s = 2]) simp_all

end
