(* ===== verification/Esptool.thy ===== *)
theory Esptool
  imports Prelude
begin

text \<open>
  The image builder of bootloader/esp-bootloader/esptool2: esptool2_elf.c, which reads the sections
  of an ELF file, and esptool2.c, which writes them to a rom image, a library or a C header. The files
  are lists of bytes, \<open>malloc\<close> tells which sizes can be allocated, and \<open>space\<close> is the largest size
  of a file that can be written. The host has 64-bit pointers and 32-bit ints. Messages are left out, except for
  the text of the C header.
\<close>

section \<open>Outcomes and files\<close>

text \<open>A function of the program may run into undefined behaviour, report a failure, or succeed.\<close>

datatype 'a outcome = Undefined | Failed | Done 'a

fun and_then :: "'a outcome \<Rightarrow> ('a \<Rightarrow> 'b outcome) \<Rightarrow> 'b outcome" where
  "and_then Undefined f = Undefined"
| "and_then Failed f = Failed"
| "and_then (Done x) f = f x"

text \<open>An access outside an array is undefined, a missing result is a failure.\<close>

definition access :: "'a option \<Rightarrow> 'a outcome" where
  "access m = (case m of None \<Rightarrow> Undefined | Some x \<Rightarrow> Done x)"

definition require :: "'a option \<Rightarrow> 'a outcome" where
  "require m = (case m of None \<Rightarrow> Failed | Some x \<Rightarrow> Done x)"

definition ensure :: "bool \<Rightarrow> 'a outcome \<Rightarrow> 'a outcome" where
  "ensure b m = (if b then m else Failed)"

definition fread :: "u8 list \<Rightarrow> nat \<Rightarrow> nat \<Rightarrow> u8 list option" where
  "fread file pos n = (if pos + n \<le> length file then Some (take n (drop pos file)) else None)"

definition fwrite :: "nat \<Rightarrow> u8 list \<Rightarrow> u8 list \<Rightarrow> u8 list outcome" where
  "fwrite space out bytes = (if length out + length bytes \<le> space then Done (out @ bytes) else Failed)"

section \<open>The ELF file\<close>

text \<open>A name is the position in the string table where it starts.\<close>

record elf_section =
  sec_offset :: u32
  sec_address :: u32
  sec_size :: u32
  sec_name :: u32

text \<open>
  The header and the section headers are kept as bytes, with the fields at the positions of the structures.
  A section whose header could not be read is not initialised: None.
\<close>

record elf_file =
  elf_fd :: "u8 list"
  elf_header :: "u8 list"
  elf_strings :: "u8 list"
  elf_sections :: "elf_section option list"

definition e_entry :: "u8 list \<Rightarrow> u32" where "e_entry h = le32 h 24"
definition e_shoff :: "u8 list \<Rightarrow> u32" where "e_shoff h = le32 h 32"
definition e_shentsize :: "u8 list \<Rightarrow> u16" where "e_shentsize h = le16 h 46"
definition e_shnum :: "u8 list \<Rightarrow> u16" where "e_shnum h = le16 h 48"
definition e_shstrndx :: "u8 list \<Rightarrow> u16" where "e_shstrndx h = le16 h 50"
definition sh_name :: "u8 list \<Rightarrow> u32" where "sh_name s = le32 s 0"
definition sh_addr :: "u8 list \<Rightarrow> u32" where "sh_addr s = le32 s 12"
definition sh_offset :: "u8 list \<Rightarrow> u32" where "sh_offset s = le32 s 16"
definition sh_size :: "u8 list \<Rightarrow> u32" where "sh_size s = le32 s 20"

text \<open>Where the header of section \<open>i\<close> is; the product is of type int and must not overflow.\<close>

definition section_pos :: "u8 list \<Rightarrow> nat \<Rightarrow> nat option" where
  "section_pos h i =
     (let n = unat (e_shentsize h) * i
      in if n < 2 ^ 31 then Some (unat (e_shoff h + of_nat n)) else None)"

text \<open>\<open>n\<close> headers from number \<open>i\<close> on; the loop ends at the first that cannot be read.\<close>

fun read_sections :: "u8 list \<Rightarrow> u8 list \<Rightarrow> nat \<Rightarrow> nat \<Rightarrow> elf_section option list outcome" where
  "read_sections fd h i 0 = Done []"
| "read_sections fd h i (Suc n) =
     and_then (access (section_pos h i)) (\<lambda>pos.
       (case fread fd pos 40 of
          None \<Rightarrow> Done (replicate (Suc n) None)
        | Some temp \<Rightarrow>
            and_then (read_sections fd h (i + 1) n) (\<lambda>secs.
              Done (Some \<lparr>sec_offset = sh_offset temp, sec_address = sh_addr temp, sec_size = sh_size temp,
                          sec_name = sh_name temp\<rparr> # secs))))"

definition LoadElf :: "(nat \<Rightarrow> bool) \<Rightarrow> u8 list option \<Rightarrow> elf_file outcome" where
  "LoadElf malloc infile =
     ensure (malloc 80)
      (and_then (require infile) (\<lambda>fd.
       and_then (require (fread fd 0 52)) (\<lambda>h.
       ensure (take 4 h = [0x7f, 0x45, 0x4c, 0x46] \<and> e_shstrndx h \<noteq> 0)
        (and_then (access (section_pos h (unat (e_shstrndx h)))) (\<lambda>pos.
         and_then (require (fread fd pos 40)) (\<lambda>temp.
         ensure (sh_size temp \<noteq> 0 \<and> malloc (unat (sh_size temp)))
          (and_then (require (fread fd (unat (sh_offset temp)) (unat (sh_size temp)))) (\<lambda>strings.
           ensure (malloc (24 * unat (e_shnum h)))
            (and_then (read_sections fd h 1 (unat (e_shnum h) - 1)) (\<lambda>secs.
             Done \<lparr>elf_fd = fd, elf_header = h, elf_strings = strings, elf_sections = secs\<rparr>))))))))))"

text \<open>strcmp of a string with the characters from a position of the string table on.\<close>

fun name_is :: "u8 list \<Rightarrow> nat \<Rightarrow> u8 list \<Rightarrow> bool outcome" where
  "name_is strings pos [] = and_then (access (rd strings pos)) (\<lambda>c. Done (c = 0))"
| "name_is strings pos (x # xs) =
     and_then (access (rd strings pos)) (\<lambda>c. if c = x then name_is strings (pos + 1) xs else Done False)"

fun find_section :: "u8 list \<Rightarrow> u8 list \<Rightarrow> elf_section option list \<Rightarrow> elf_section outcome" where
  "find_section strings name [] = Failed"
| "find_section strings name (s # ss) =
     and_then (access s) (\<lambda>sec.
     and_then (name_is strings (unat (sec_name sec)) name) (\<lambda>eq.
       if eq then Done sec else find_section strings name ss))"

definition GetElfSection :: "elf_file \<Rightarrow> u8 list \<Rightarrow> elf_section outcome" where
  "GetElfSection elf name = find_section (elf_strings elf) name (elf_sections elf)"

definition GetElfSectionData :: "(nat \<Rightarrow> bool) \<Rightarrow> elf_file \<Rightarrow> elf_section \<Rightarrow> u8 list outcome" where
  "GetElfSectionData malloc elf sec =
     ensure (sec_size sec \<noteq> 0 \<and> sec_offset sec \<noteq> 0 \<and> malloc (unat (sec_size sec)))
       (require (fread (elf_fd elf) (unat (sec_offset sec)) (unat (sec_size sec))))"

section \<open>Images\<close>

definition IMAGE_PADDING :: nat where "IMAGE_PADDING = 16"
definition SECTION_PADDING :: nat where "SECTION_PADDING = 4"
definition CHECKSUM_INIT :: u8 where "CHECKSUM_INIT = 0xEF"
definition BIN_MAGIC_IROM :: u8 where "BIN_MAGIC_IROM = 0xEA"
definition BIN_MAGIC_FLASH :: u8 where "BIN_MAGIC_FLASH = 0xE9"

record image_header =
  ih_magic :: u8
  ih_count :: u8
  ih_byte2 :: u8
  ih_byte3 :: u8
  ih_entry :: u32

definition image_header_bytes :: "image_header \<Rightarrow> u8 list" where
  "image_header_bytes h = [ih_magic h, ih_count h, ih_byte2 h, ih_byte3 h] @ put32 (ih_entry h)"

fun add_chksum :: "u8 \<Rightarrow> u8 list \<Rightarrow> u8" where
  "add_chksum chksum [] = chksum"
| "add_chksum chksum (b # bs) = add_chksum (chksum XOR b) bs"

text \<open>
  A section is written with a header of its own if \<open>headed\<close>, padded with zeros to a multiple of
  \<open>padto\<close>; \<open>chksum\<close> is None where the caller passes 0. The loop over the data compares with the
  size as an int.
\<close>

definition WriteElfSection ::
  "(nat \<Rightarrow> bool) \<Rightarrow> nat \<Rightarrow> elf_file \<Rightarrow> u8 list \<Rightarrow> u8 list \<Rightarrow> bool \<Rightarrow> bool \<Rightarrow> nat \<Rightarrow> u8 option \<Rightarrow>
     (u8 list \<times> u8 option) outcome" where
  "WriteElfSection malloc space elf out name headed zeroaddr padto chksum =
     and_then (GetElfSection elf name) (\<lambda>sect.
       let addr = (if zeroaddr then 0 else sec_address sect);
           pad = (if padto = 0 then 0
                  else let p = unat (sec_size sect) mod padto in if p > 0 then padto - p else 0);
           sz = sec_size sect + of_nat pad
       in and_then (GetElfSectionData malloc elf sect) (\<lambda>bindata.
          and_then (if headed then fwrite space out (put32 addr @ put32 sz) else Done out) (\<lambda>out.
          and_then (fwrite space out bindata) (\<lambda>out.
          and_then (if pad > 0 then fwrite space out (replicate pad 0) else Done out) (\<lambda>out.
          Done (out, map_option (\<lambda>c. add_chksum c (take (nat (sint (sec_size sect))) bindata)) chksum))))))"

fun write_sections ::
  "(nat \<Rightarrow> bool) \<Rightarrow> nat \<Rightarrow> elf_file \<Rightarrow> u8 list list \<Rightarrow> u8 list \<Rightarrow> u8 \<Rightarrow> (u8 list \<times> u8) outcome" where
  "write_sections malloc space elf [] out chksum = Done (out, chksum)"
| "write_sections malloc space elf (name # names) out chksum =
     and_then (WriteElfSection malloc space elf out name True False SECTION_PADDING (Some chksum)) (\<lambda>r.
       write_sections malloc space elf names (fst r) (the (snd r)))"

text \<open>The name of the library section, .irom0.text.\<close>

definition irom_name :: "u8 list" where
  "irom_name = [0x2e, 0x69, 0x72, 0x6f, 0x6d, 0x30, 0x2e, 0x74, 0x65, 0x78, 0x74]"

definition ExportElfSection ::
  "(nat \<Rightarrow> bool) \<Rightarrow> nat option \<Rightarrow> u8 list option \<Rightarrow> u8 list \<Rightarrow> u8 list outcome" where
  "ExportElfSection malloc space infile name =
     and_then (LoadElf malloc infile) (\<lambda>elf.
     and_then (require space) (\<lambda>space.
     and_then (WriteElfSection malloc space elf [] name False False 0 None) (\<lambda>(out, chksum). Done out)))"

text \<open>The parts of CreateBinFile: the extra header and the library of boot v1.2, with the checksum so far.\<close>

definition boot2_header ::
  "(nat \<Rightarrow> bool) \<Rightarrow> nat \<Rightarrow> elf_file \<Rightarrow> int \<Rightarrow> image_header \<Rightarrow> bool \<Rightarrow> (u8 list \<times> u8) outcome" where
  "boot2_header malloc space elf bootver imghead iromchksum =
     (if bootver = 2 then
        and_then (fwrite space [] (image_header_bytes (imghead\<lparr>ih_magic := BIN_MAGIC_IROM, ih_count := 4\<rparr>))) (\<lambda>out.
        and_then (WriteElfSection malloc space elf out irom_name True True IMAGE_PADDING
                    (if iromchksum then Some CHECKSUM_INIT else None)) (\<lambda>r.
        Done (fst r, case snd r of None \<Rightarrow> CHECKSUM_INIT | Some chksum \<Rightarrow> chksum)))
      else Done ([], CHECKSUM_INIT))"

text \<open>
  The padding, which leaves the last of 16 bytes for the checksum; the length is an int, and the remainder
  of a negative one is not positive.
\<close>

definition finish_image :: "nat \<Rightarrow> u8 list \<Rightarrow> u8 \<Rightarrow> u8 list outcome" where
  "finish_image space out chksum =
     (let len = sint (of_nat (length out + 1) :: u32);
          pad = (if len < 0 then 0 else nat len mod IMAGE_PADDING)
      in and_then (if pad > 0 then fwrite space out (replicate (IMAGE_PADDING - pad) 0) else Done out) (\<lambda>out.
         fwrite space out [chksum]))"

text \<open>
  For boot v1.1 the library follows at 64 KB. The spacer is allocated without a check; an image of
  more than 64 KB makes its length negative.
\<close>

definition boot1_library :: "(nat \<Rightarrow> bool) \<Rightarrow> nat \<Rightarrow> elf_file \<Rightarrow> int \<Rightarrow> u8 list \<Rightarrow> u8 list outcome" where
  "boot1_library malloc space elf bootver out =
     (if bootver = 1 then
        (let len = sint (0x10000 - of_nat (length out) :: u32)
         in if len < 0 \<or> \<not> malloc (nat len) then Undefined
            else
              and_then (fwrite space out (replicate (nat len) 0xff)) (\<lambda>out.
              and_then (WriteElfSection malloc space elf out irom_name False False 0 None) (\<lambda>r.
              Done (fst r))))
      else Done out)"

text \<open>\<open>space\<close> is None where the output file cannot be opened.\<close>

definition CreateBinFile ::
  "(nat \<Rightarrow> bool) \<Rightarrow> nat option \<Rightarrow> u8 list option \<Rightarrow> int \<Rightarrow> u8 \<Rightarrow> u8 \<Rightarrow> u8 \<Rightarrow> bool \<Rightarrow> u8 list list \<Rightarrow> u8 list outcome" where
  "CreateBinFile malloc space elffile bootver mode clock sz iromchksum sects =
     and_then (LoadElf malloc elffile) (\<lambda>elf.
     and_then (require space) (\<lambda>space.
       let imghead = \<lparr>ih_magic = 0, ih_count = 0, ih_byte2 = mode, ih_byte3 = push_bit 4 sz OR clock,
                      ih_entry = e_entry (elf_header elf)\<rparr>
       in and_then (boot2_header malloc space elf bootver imghead iromchksum) (\<lambda>r.
          and_then (fwrite space (fst r) (image_header_bytes
                     (imghead\<lparr>ih_magic := BIN_MAGIC_FLASH, ih_count := of_nat (length sects)\<rparr>))) (\<lambda>out.
          and_then (write_sections malloc space elf sects out (snd r)) (\<lambda>r.
          and_then (finish_image space (fst r) (snd r)) (\<lambda>out.
          boot1_library malloc space elf bootver out))))))"

section \<open>C headers\<close>

text \<open>Numbers as printf writes them, in hexadecimal with leading zeros and in decimal.\<close>

fun digits :: "nat \<Rightarrow> nat \<Rightarrow> nat list" where
  "digits b n = (if b \<le> 1 \<or> n < b then [n] else digits b (n div b) @ [n mod b])"

definition digit_char :: "nat \<Rightarrow> u8" where
  "digit_char d = of_nat (if d < 10 then 48 + d else 87 + d)"

definition print_hex :: "nat \<Rightarrow> nat \<Rightarrow> u8 list" where
  "print_hex width n = (let ds = map digit_char (digits 16 n) in replicate (width - length ds) 48 @ ds)"

definition print_dec :: "int \<Rightarrow> u8 list" where
  "print_dec n = (if n < 0 then [45] else []) @ map digit_char (digits 10 (nat (abs n)))"

text \<open>The bytes of a section, sixteen in a line; \<open>j\<close> is the number of the first.\<close>

fun print_data :: "nat \<Rightarrow> u8 list \<Rightarrow> u8 list" where
  "print_data j [] = []"
| "print_data j (b # bs) =
     (if j mod 16 = 0 then [13, 10] @ ascii ''  0x'' else ascii '' 0x'') @ print_hex 2 (unat b) @ ascii '',''
     @ print_data (j + 1) bs"

text \<open>The name is copied to an array of 31 characters, which has room for the final NUL only if it is shorter.\<close>

fun print_sections :: "(nat \<Rightarrow> bool) \<Rightarrow> elf_file \<Rightarrow> u8 list list \<Rightarrow> u8 list outcome" where
  "print_sections malloc elf [] = Done []"
| "print_sections malloc elf (s # ss) =
     and_then (GetElfSection elf s) (\<lambda>sect.
     if length s \<ge> 31 then Undefined
     else
       let name = map (\<lambda>c. if c = 0x2e then 0x5f else c) s
       in and_then (GetElfSectionData malloc elf sect) (\<lambda>bindata.
          and_then (print_sections malloc elf ss) (\<lambda>rest.
          Done ([13, 10] @ ascii ''const uint32 '' @ name @ ascii ''_addr = 0x'' @ print_hex 8 (unat (sec_address sect))
                @ ascii '';'' @ [13, 10] @ ascii ''const uint32 '' @ name @ ascii ''_len = '' @ print_dec (sint (sec_size sect))
                @ ascii '';'' @ [13, 10] @ ascii ''const uint8  '' @ name @ ascii ''_data[] = {''
                @ print_data 0 bindata @ [13, 10] @ ascii ''};'' @ [13, 10] @ rest))))"

text \<open>The results of fprintf are not looked at, so a full disk is not noticed.\<close>

definition CreateHeaderFile ::
  "(nat \<Rightarrow> bool) \<Rightarrow> nat option \<Rightarrow> u8 list option \<Rightarrow> u8 list list \<Rightarrow> u8 list outcome" where
  "CreateHeaderFile malloc space elffile sects =
     and_then (LoadElf malloc elffile) (\<lambda>elf.
     and_then (require space) (\<lambda>space.
     and_then (print_sections malloc elf sects) (\<lambda>text.
     Done (take space (ascii ''const uint32 entry_addr = 0x'' @ print_hex 8 (unat (e_entry (elf_header elf)))
             @ ascii '';'' @ [13, 10] @ text)))))"

section \<open>The command line\<close>

record tool_options =
  opt_binfile :: bool
  opt_libfile :: bool
  opt_headerfile :: bool
  opt_iromchksum :: bool
  opt_bootver :: int
  opt_mode :: u8
  opt_size :: u8
  opt_clock :: u8
  opt_opts :: int
  opt_quieton :: bool
  opt_debugon :: bool

definition initial_options :: tool_options where
  "initial_options =
     \<lparr>opt_binfile = False, opt_libfile = False, opt_headerfile = False, opt_iromchksum = False, opt_bootver = 0,
      opt_mode = 0, opt_size = 0, opt_clock = 0, opt_opts = 0, opt_quieton = False, opt_debugon = False\<rparr>"

definition set_option :: "u8 list \<Rightarrow> tool_options \<Rightarrow> tool_options option" where
  "set_option arg r =
     (if arg = ascii ''-bin'' then Some (r\<lparr>opt_binfile := True, opt_opts := opt_opts r + 1\<rparr>)
      else if arg = ascii ''-lib'' then Some (r\<lparr>opt_libfile := True, opt_opts := opt_opts r + 1\<rparr>)
      else if arg = ascii ''-header'' then Some (r\<lparr>opt_headerfile := True, opt_opts := opt_opts r + 1\<rparr>)
      else if arg = ascii ''-quiet'' then Some (r\<lparr>opt_quieton := True\<rparr>)
      else if arg = ascii ''-debug'' then Some (r\<lparr>opt_debugon := True\<rparr>)
      else if arg = ascii ''-boot0'' then Some (r\<lparr>opt_bootver := 0\<rparr>)
      else if arg = ascii ''-boot1'' then Some (r\<lparr>opt_bootver := 1\<rparr>)
      else if arg = ascii ''-boot2'' then Some (r\<lparr>opt_bootver := 2\<rparr>)
      else if arg = ascii ''-qio'' then Some (r\<lparr>opt_mode := 0\<rparr>)
      else if arg = ascii ''-qout'' then Some (r\<lparr>opt_mode := 1\<rparr>)
      else if arg = ascii ''-dio'' then Some (r\<lparr>opt_mode := 2\<rparr>)
      else if arg = ascii ''-dout'' then Some (r\<lparr>opt_mode := 3\<rparr>)
      else if arg = ascii ''-256'' then Some (r\<lparr>opt_size := 1\<rparr>)
      else if arg = ascii ''-512'' then Some (r\<lparr>opt_size := 0\<rparr>)
      else if arg = ascii ''-1024'' then Some (r\<lparr>opt_size := 2\<rparr>)
      else if arg = ascii ''-2048'' then Some (r\<lparr>opt_size := 3\<rparr>)
      else if arg = ascii ''-4096'' then Some (r\<lparr>opt_size := 4\<rparr>)
      else if arg = ascii ''-20'' then Some (r\<lparr>opt_clock := 2\<rparr>)
      else if arg = ascii ''-26.7'' then Some (r\<lparr>opt_clock := 1\<rparr>)
      else if arg = ascii ''-40'' then Some (r\<lparr>opt_clock := 0\<rparr>)
      else if arg = ascii ''-80'' then Some (r\<lparr>opt_clock := 15\<rparr>)
      else if arg = ascii ''-iromchksum'' then Some (r\<lparr>opt_iromchksum := True\<rparr>)
      else None)"

text \<open>The options, the arguments that follow them, and whether an option is not known.\<close>

fun parse_options :: "u8 list list \<Rightarrow> tool_options \<Rightarrow> tool_options \<times> u8 list list \<times> bool" where
  "parse_options [] r = (r, [], False)"
| "parse_options (arg # args) r =
     (case set_option arg r of
        Some r' \<Rightarrow> parse_options args r'
      | None \<Rightarrow>
          if arg = ascii ''--'' then (r, args, False)
          else if arg \<noteq> [] \<and> hd arg = 0x2d then (r, arg # args, True)
          else (r, arg # args, False))"

text \<open>
  \<open>args\<close> are the arguments behind the name of the program, \<open>fs\<close> the files, \<open>space\<close> the room for
  each. Arguments contain no NUL. A failure removes the output file. Input and output are different files.
\<close>

definition esptool_main ::
  "(nat \<Rightarrow> bool) \<Rightarrow> (u8 list \<Rightarrow> nat option) \<Rightarrow> (u8 list \<Rightarrow> u8 list option) \<Rightarrow> u8 list list \<Rightarrow>
     (int \<times> (u8 list \<Rightarrow> u8 list option)) outcome" where
  "esptool_main malloc space fs args =
     (let (r, params, paramerror) = parse_options args initial_options
      in if paramerror \<or> args = [] \<or> opt_opts r \<noteq> 1 \<or> (opt_quieton r \<and> opt_debugon r) then Done (-1, fs)
         else if opt_libfile r \<and> length params < 2 \<or> (opt_binfile r \<or> opt_headerfile r) \<and> length params < 3
         then Done (-1, fs)
         else if opt_libfile r \<and> length params > 2 then Done (-1, fs)
         else
           (let infile = params ! 0; outfile = params ! 1; sects = drop 2 params;
                result =
                  (if opt_binfile r then
                     CreateBinFile malloc (space outfile) (fs infile) (opt_bootver r) (opt_mode r) (opt_clock r)
                       (opt_size r) (opt_iromchksum r) sects
                   else if opt_headerfile r then CreateHeaderFile malloc (space outfile) (fs infile) sects
                   else ExportElfSection malloc (space outfile) (fs infile) irom_name)
            in (case result of
                  Undefined \<Rightarrow> Undefined
                | Failed \<Rightarrow> Done (-1, fs(outfile := None))
                | Done bytes \<Rightarrow> Done (0, fs(outfile := Some bytes)))))"

end
