(* ===== verification/Esptool_Boot.thy ===== *)
theory Esptool_Boot
  imports Esptool Rboot_Verify
begin

text \<open>
  What esptool2 writes is what rBoot accepts: an image that CreateBinFile has made from an ELF file, for boot
  v1.2 or without a library, passes check_image and load_rom copies the sections of the ELF file to memory.
\<close>

section \<open>Inversion\<close>

named_theorems outcome_simps "when a step of the program has succeeded"

lemma and_then_Done [outcome_simps]: "and_then m f = Done y \<longleftrightarrow> (\<exists>x. m = Done x \<and> f x = Done y)"
  by (cases m) simp_all

lemma ensure_Done [outcome_simps]: "ensure b m = Done y \<longleftrightarrow> b \<and> m = Done y"
  by (simp add: ensure_def)

lemma require_Done [outcome_simps]: "require m = Done x \<longleftrightarrow> m = Some x"
  by (simp add: require_def split: option.split)

lemma access_Done [outcome_simps]: "access m = Done x \<longleftrightarrow> m = Some x"
  by (simp add: access_def split: option.split)

lemma fwrite_Done [outcome_simps]: "fwrite space out bytes = Done r \<longleftrightarrow> length out + length bytes \<le> space \<and> r = out @ bytes"
  by (auto simp: fwrite_def)

lemma fread_length: "fread file pos n = Some bs \<Longrightarrow> length bs = n"
  by (auto simp: fread_def split: if_splits)

lemma sint_small: "unat w < 2 ^ 31 \<Longrightarrow> sint (w :: u32) = int (unat w)"
proof -
  assume "unat w < 2 ^ 31"
  then have "int (unat w) < int (2 ^ 31)" by (simp only: of_nat_less_iff)
  then have "uint w < 2 ^ 31" by simp
  then have "signed_take_bit 31 (uint w) = uint w" by (intro signed_take_bit_int_eq_self order_trans [OF _ uint_ge_0]) simp_all
  then show ?thesis by (simp add: sint_uint)
qed

lemma add_chksum_xor: "add_chksum c bs = xor_bytes c bs"
  by (induction bs arbitrary: c) simp_all

lemma xor_zeros: "xor_bytes c (replicate n 0) = c"
  by (induction n) simp_all

text \<open>A section of the ELF file as it stands in the image, padded to a multiple of \<open>m\<close>.\<close>

definition padded :: "nat \<Rightarrow> u8 list \<Rightarrow> u8 list" where
  "padded m bin = bin @ replicate (if length bin mod m > 0 then m - length bin mod m else 0) 0"

lemma padded_dvd: "0 < m \<Longrightarrow> m dvd length (padded m bin)"
proof -
  assume "0 < m"
  then have "length bin mod m < m" by simp
  have "length bin + (m - length bin mod m) = m * (length bin div m) + m"
    using \<open>length bin mod m < m\<close> mult_div_mod_eq [of m "length bin"] by linarith
  then show ?thesis by (auto simp: padded_def)
qed

definition elf_data :: "(nat \<Rightarrow> bool) \<Rightarrow> elf_file \<Rightarrow> u8 list \<Rightarrow> u32 \<Rightarrow> u8 list \<Rightarrow> bool" where
  "elf_data malloc elf name addr bin \<longleftrightarrow>
     (\<exists>sect. GetElfSection elf name = Done sect \<and> GetElfSectionData malloc elf sect = Done bin \<and> addr = sec_address sect)"

lemma WriteElfSection_headed:
  assumes "WriteElfSection malloc space elf out name True zeroaddr m chksum = Done (out', chksum')" and "0 < m"
    and "length out' < 2 ^ 31"
  shows "\<exists>addr bin. elf_data malloc elf name addr bin \<and>
     out' = out @ section_bytes (if zeroaddr then 0 else addr, padded m bin) \<and>
     chksum' = map_option (\<lambda>c. xor_bytes c (padded m bin)) chksum"
proof -
  obtain sect bin where s: "GetElfSection elf name = Done sect" "GetElfSectionData malloc elf sect = Done bin"
    and out: "out' = out @ (put32 (if zeroaddr then 0 else sec_address sect)
         @ put32 (sec_size sect + of_nat (if unat (sec_size sect) mod m > 0 then m - unat (sec_size sect) mod m else 0)))
         @ bin @ replicate (if unat (sec_size sect) mod m > 0 then m - unat (sec_size sect) mod m else 0) 0"
    and ck: "chksum' = map_option (\<lambda>c. add_chksum c (take (nat (sint (sec_size sect))) bin)) chksum"
    using assms(1,2) by (auto simp: WriteElfSection_def outcome_simps Let_def split: if_splits)
  have len: "length bin = unat (sec_size sect)"
    using s(2) by (auto simp: GetElfSectionData_def outcome_simps dest: fread_length)
  have "length bin < 2 ^ 31" using assms(3) unfolding out by simp
  then have "sint (sec_size sect) = int (length bin)"
    unfolding len by (rule sint_small)
  then have "take (nat (sint (sec_size sect))) bin = bin" by simp
  then have "chksum' = map_option (\<lambda>c. xor_bytes c (padded m bin)) chksum"
    by (simp add: ck add_chksum_xor padded_def xor_bytes_append xor_zeros)
  moreover have "out' = out @ section_bytes (if zeroaddr then 0 else sec_address sect, padded m bin)"
    by (simp add: out section_bytes_def padded_def len)
  moreover have "elf_data malloc elf name (sec_address sect) bin" using s by (auto simp: elf_data_def)
  ultimately show ?thesis by blast
qed

definition image_section :: "(nat \<Rightarrow> bool) \<Rightarrow> elf_file \<Rightarrow> u8 list \<Rightarrow> rom_section \<Rightarrow> bool" where
  "image_section malloc elf name s \<longleftrightarrow> (\<exists>bin. elf_data malloc elf name (fst s) bin \<and> snd s = padded 4 bin)"

lemma write_sections_image:
  assumes "write_sections malloc space elf names out c = Done (out', chksum')" and "length out' < 2 ^ 31"
  shows "\<exists>secs. list_all2 (image_section malloc elf) names secs \<and> out' = out @ concat (map section_bytes secs) \<and>
     chksum' = xor_bytes c (concat (map snd secs))"
  using assms
proof (induction names arbitrary: out c)
  case (Cons name names)
  obtain out1 ck1 where w: "WriteElfSection malloc space elf out name True False SECTION_PADDING (Some c) = Done (out1, ck1)"
    and rest: "write_sections malloc space elf names out1 (the ck1) = Done (out', chksum')"
    using Cons.prems(1) by (auto simp: outcome_simps)
  have le: "length o1 \<le> length o2" if "write_sections malloc space elf ns o1 c1 = Done (o2, c2)" for ns o1 c1 o2 c2
    using that
  proof (induction ns arbitrary: o1 c1)
    case (Cons n ns)
    then obtain o3 c3 where "WriteElfSection malloc space elf o1 n True False SECTION_PADDING (Some c1) = Done (o3, c3)"
      "length o3 \<le> length o2" by (auto simp: outcome_simps)
    then show ?case by (auto simp: WriteElfSection_def outcome_simps Let_def split: if_splits)
  qed simp
  have "length out1 < 2 ^ 31" using le [OF rest] Cons.prems(2) by simp
  from WriteElfSection_headed [OF w _ this] obtain addr bin where
    one: "elf_data malloc elf name addr bin" "out1 = out @ section_bytes (addr, padded 4 bin)"
    "ck1 = Some (xor_bytes c (padded 4 bin))" by (auto simp: SECTION_PADDING_def)
  from Cons.IH [OF rest [unfolded one(3) option.sel] Cons.prems(2)] obtain secs where
    "list_all2 (image_section malloc elf) names secs" "out' = out1 @ concat (map section_bytes secs)"
    "chksum' = xor_bytes (xor_bytes c (padded 4 bin)) (concat (map snd secs))" by blast
  with one show ?case
  proof (intro exI [where x = "(addr, padded 4 bin) # secs"] conjI)
    show "list_all2 (image_section malloc elf) (name # names) ((addr, padded 4 bin) # secs)"
      using one(1) \<open>list_all2 _ names secs\<close> by (auto simp: image_section_def)
  qed (simp_all add: xor_bytes_append)
qed simp




text \<open>The parts of an image, as check_image sees it.\<close>

lemma boot2_header_image:
  assumes "boot2_header malloc space elf bootver imghead iromchksum = Done (out, c)" and "bootver = 2"
    and "length out < 2 ^ 31"
  shows "\<exists>addr bin. elf_data malloc elf irom_name addr bin \<and>
     out = header_bytes ROM_MAGIC_NEW1 4 (ih_byte2 imghead) (ih_byte3 imghead) (ih_entry imghead) @ section_bytes (0, padded 16 bin) \<and>
     c = xor_bytes CHKSUM_INIT (if iromchksum then padded 16 bin else [])"
proof -
  define h where "h = image_header_bytes (imghead\<lparr>ih_magic := BIN_MAGIC_IROM, ih_count := 4\<rparr>)"
  obtain r where w: "WriteElfSection malloc space elf h irom_name True True 16 (if iromchksum then Some CHECKSUM_INIT else None) = Done r"
    and r: "out = fst r" "c = (case snd r of None \<Rightarrow> CHECKSUM_INIT | Some chksum \<Rightarrow> chksum)"
    using assms(1,2) unfolding boot2_header_def h_def [symmetric] IMAGE_PADDING_def
    by (auto simp: outcome_simps)
  obtain o1 c1 where r1: "r = (o1, c1)" by (cases r)
  from WriteElfSection_headed [OF w [unfolded r1]] assms(3) r(1) obtain addr bin where
    "elf_data malloc elf irom_name addr bin" "o1 = h @ section_bytes (0, padded 16 bin)"
    "c1 = map_option (\<lambda>c. xor_bytes c (padded 16 bin)) (if iromchksum then Some CHECKSUM_INIT else None)"
    by (auto simp: r1)
  moreover have "h = header_bytes ROM_MAGIC_NEW1 4 (ih_byte2 imghead) (ih_byte3 imghead) (ih_entry imghead)"
    by (simp add: h_def image_header_bytes_def header_bytes_def BIN_MAGIC_IROM_def ROM_MAGIC_NEW1_def)
  ultimately show ?thesis using r by (auto simp: r1 CHECKSUM_INIT_def CHKSUM_INIT_def)
qed

lemma finish_image_pads:
  assumes "finish_image space out c = Done out'" and "length out' < 2 ^ 31"
  shows "out' = out @ replicate (15 - length out mod 16) 0 @ [c]"
proof -
  define n where "n = length out mod 16"
  have n: "n < 16" by (simp add: n_def)
  have m: "(length out + 1) mod 16 = (if n = 15 then 0 else n + 1)"
    using n mod_Suc [of "length out" 16] by (auto simp: n_def)
  define w where "w = (of_nat (length out + 1) :: u32)"
  have "length out < length out'"
    using assms(1) by (auto simp: finish_image_def Let_def outcome_simps split: if_splits)
  then have l: "length out + 1 < 2 ^ 31" using assms(2) by simp
  then have "unat w = length out + 1" unfolding w_def by (simp add: unat_of_nat del: of_nat_Suc of_nat_add)
  then have s: "sint w = int (length out + 1)" using l sint_small [of w] by simp
  show ?thesis
    using assms(1) n unfolding finish_image_def IMAGE_PADDING_def Let_def w_def [symmetric] s nat_int m n_def [symmetric]
    by (auto simp: outcome_simps split: if_splits)
qed

lemma CreateBinFile_image:
  assumes "CreateBinFile malloc space elffile bootver mode clock sz iromchksum sects = Done out"
    and "bootver = 0 \<or> bootver = 2" and "bootver = 2 \<longrightarrow> iromchksum = BOOT_IROM_CHKSUM opts"
    and "length sects < 254" and "length out < 2 ^ 31"
  shows "\<exists>elf r. LoadElf malloc elffile = Done elf \<and> list_all2 (image_section malloc elf) sects (rom_sections r) \<and>
     rom_start r = e_entry (elf_header elf) \<and> rom_ok r \<and> out = rom_bytes r (rom_chksum opts r) \<and>
     (bootver = 0 \<longrightarrow> rom_irom r = None) \<and>
     (bootver = 2 \<longrightarrow> (\<exists>addr bin. elf_data malloc elf irom_name addr bin \<and> rom_irom r = Some (padded 16 bin)))"
proof -
  define b3 where "b3 = push_bit 4 sz OR clock"
  obtain elf sp where elf: "LoadElf malloc elffile = Done elf" "space = Some sp"
    using assms(1) unfolding CreateBinFile_def and_then_Done require_Done by blast
  define ih where "ih = \<lparr>ih_magic = 0, ih_count = 0, ih_byte2 = mode, ih_byte3 = b3, ih_entry = e_entry (elf_header elf)\<rparr>"
  define hd where "hd = image_header_bytes (ih\<lparr>ih_magic := BIN_MAGIC_FLASH, ih_count := of_nat (length sects)\<rparr>)"
  have "boot1_library malloc sp elf bootver m = Done m" for m
    using assms(2) by (auto simp: boot1_library_def)
  then obtain r1 r2 where one: "boot2_header malloc sp elf bootver ih iromchksum = Done r1"
    and two: "write_sections malloc sp elf sects (fst r1 @ hd) (snd r1) = Done r2"
    and three: "finish_image sp (fst r2) (snd r2) = Done out"
    using assms(1) unfolding CreateBinFile_def elf b3_def [symmetric] and_then.simps require_def option.case Let_def ih_def [symmetric]
      hd_def [symmetric] and_then_Done fwrite_Done by auto
  obtain o2 c2 where r2: "r2 = (o2, c2)" by (cases r2)
  have out: "out = o2 @ replicate (15 - length o2 mod 16) 0 @ [c2]"
    using finish_image_pads [OF three assms(5)] by (simp add: r2)
  have "length o2 < 2 ^ 31" using assms(5) unfolding out by simp
  from write_sections_image [OF two [unfolded r2] this] obtain secs where
    secs: "list_all2 (image_section malloc elf) sects secs" "o2 = (fst r1 @ hd) @ concat (map section_bytes secs)"
    "c2 = xor_bytes (snd r1) (concat (map snd secs))" by (auto simp del: append_assoc)
  have ls: "length secs = length sects" using secs(1) by (simp add: list_all2_lengthD)
  have hd: "hd = header_bytes ROM_MAGIC (length secs) mode b3 (e_entry (elf_header elf))"
    by (simp add: hd_def ih_def image_header_bytes_def header_bytes_def BIN_MAGIC_FLASH_def ROM_MAGIC_def ls)
  show ?thesis
  proof (cases "bootver = 2")
    case True
    have "length (fst r1) < 2 ^ 31" using assms(5) secs(2) out by simp
    with boot2_header_image [of malloc sp elf bootver ih iromchksum "fst r1" "snd r1"] one True obtain addr bin where
      irom: "elf_data malloc elf irom_name addr bin"
      "fst r1 = header_bytes ROM_MAGIC_NEW1 4 mode b3 (e_entry (elf_header elf)) @ section_bytes (0, padded 16 bin)"
      "snd r1 = xor_bytes CHKSUM_INIT (if iromchksum then padded 16 bin else [])" by (auto simp: ih_def)
    define r where "r = \<lparr>rom_irom = Some (padded 16 bin), rom_flags1 = mode, rom_flags2 = b3,
      rom_start = e_entry (elf_header elf), rom_sections = secs\<rparr>"
    have ok: "rom_ok r" using assms(4) ls padded_dvd [of 16 bin] by (simp add: rom_ok_def r_def)
    have "fst r1 = irom_bytes r" by (simp add: irom(2) irom_bytes_def r_def)
    moreover have main: "hd @ concat (map section_bytes secs) = main_bytes r" by (simp add: main_bytes_def r_def hd)
    moreover have "c2 = rom_chksum opts r"
      using assms(3) True by (simp add: secs(3) irom(3) rom_chksum_def r_def xor_bytes_append)
    moreover have "length o2 mod 16 = length (main_bytes r) mod 16"
      using irom_aligned [OF ok] calculation(1) main secs(2) by (auto simp: mod_add_eq elim: dvdE)
    ultimately have "out = rom_bytes r (rom_chksum opts r)"
      using out secs(2) by (simp add: rom_bytes_def)
    then show ?thesis using elf(1) secs(1) ok True irom(1) by (intro exI [where x = elf] exI [where x = r]) (auto simp: r_def)
  next
    case False
    then have r1: "r1 = ([], CHECKSUM_INIT)" using one by (simp add: boot2_header_def)
    define r where "r = \<lparr>rom_irom = None, rom_flags1 = mode, rom_flags2 = b3,
      rom_start = e_entry (elf_header elf), rom_sections = secs\<rparr>"
    have "out = rom_bytes r (rom_chksum opts r)"
      by (simp add: out secs(2,3) r1 hd rom_bytes_def irom_bytes_def main_bytes_def rom_chksum_def r_def
          CHECKSUM_INIT_def CHKSUM_INIT_def)
    moreover have "rom_ok r" using assms(4) ls by (simp add: rom_ok_def r_def)
    ultimately show ?thesis using elf(1) secs(1) False by (intro exI [where x = elf] exI [where x = r]) (auto simp: r_def)
  qed
qed

section \<open>Built images boot\<close>

text \<open>
  C8: whatever CreateBinFile succeeds in building (bootver 0 or 2, fewer than 254 sections, under 2 GB, the library
  in the checksum just if the boot loader expects it), flashed at any non-zero multiple of 16, passes check_image,
  and load_rom at the address that check_image returns gives the entry point of the ELF file after copying its
  sections, each padded to whole words, to their addresses.
\<close>

theorem esptool_image_boots:
  assumes "CreateBinFile malloc space elffile bootver mode clock sz iromchksum sects = Done out"
    and "bootver = 0 \<or> bootver = 2" and "bootver = 2 \<longrightarrow> iromchksum = BOOT_IROM_CHKSUM opts"
    and "length sects < 254" and "length out < 2 ^ 31"
    and "reads spi (pre @ out @ post)" and "16 dvd length pre" and "pre \<noteq> []"
  shows "\<exists>elf secs. LoadElf malloc elffile = Done elf \<and> list_all2 (image_section malloc elf) sects secs \<and>
     check_image opts spi (of_nat (length pre)) \<noteq> 0 \<and>
     load_rom spi (check_image opts spi (of_nat (length pre))) mem =
       (e_entry (elf_header elf), fold (\<lambda>s. ets_memcpy (fst s) (snd s)) secs mem)"
proof -
  obtain elf r where r: "LoadElf malloc elffile = Done elf" "list_all2 (image_section malloc elf) sects (rom_sections r)"
    "rom_start r = e_entry (elf_header elf)" "rom_ok r" "out = rom_bytes r (rom_chksum opts r)"
    using CreateBinFile_image [OF assms(1-5)] by blast
  define P where "P = pre @ irom_bytes r"
  have check: "check_image opts spi (of_nat (length pre)) = of_nat (length P)"
    using check_image_reads [OF assms(6) [unfolded r(5)] assms(7,8) r(4), of opts] by (simp add: P_def)
  obtain tail where tail: "pre @ out @ post = P @ main_bytes r @ tail"
    by (simp add: r(5) rom_bytes_def P_def)
  have len: "length P < 2 ^ 32" "P \<noteq> []"
    using assms(6,8) unfolding tail by (simp_all add: reads_def P_def)
  have "unat (of_nat (length P) :: u32) = length P" using len(1) by (simp add: unat_of_nat)
  then have "check_image opts spi (of_nat (length pre)) \<noteq> 0" using len(2) unfolding check by (metis length_0_conv unat_0)
  moreover have "length (rom_sections r) < 256" using r(4) by (simp add: rom_ok_def)
  ultimately show ?thesis
    using r(1,2) load_rom_reads [OF assms(6) [unfolded tail], of mem] unfolding check r(3) by blast
qed

text \<open>A file with one section of three bytes, .t, at 0x40100000, and its image.\<close>

definition demo_header :: "u8 list" where
  "demo_header =
     [0x7f, 0x45, 0x4c, 0x46, 1, 1, 1, 0, 0, 0, 0, 0, 0, 0, 0, 0, 2, 0, 94, 0, 1, 0, 0, 0, 4, 0, 0x10, 0x40,
      0, 0, 0, 0, 52, 0, 0, 0, 0, 0, 0, 0, 52, 0, 0, 0, 0, 0, 40, 0, 3, 0, 2, 0]"

definition demo_section :: "u8 list" where
  "demo_section =
     [1, 0, 0, 0, 1, 0, 0, 0, 7, 0, 0, 0, 0, 0, 0x10, 0x40, 176, 0, 0, 0, 3, 0, 0, 0, 0, 0, 0, 0, 0, 0, 0, 0,
      4, 0, 0, 0, 0, 0, 0, 0]"

definition demo_strtab :: "u8 list" where
  "demo_strtab =
     [0, 0, 0, 0, 3, 0, 0, 0, 0, 0, 0, 0, 0, 0, 0, 0, 172, 0, 0, 0, 4, 0, 0, 0, 0, 0, 0, 0, 0, 0, 0, 0,
      1, 0, 0, 0, 0, 0, 0, 0]"

definition demo_elf :: "u8 list" where
  "demo_elf = demo_header @ replicate 40 0 @ demo_section @ demo_strtab @ [0, 0x2e, 0x74, 0] @ [1, 2, 4]"

definition demo_image :: "u8 list" where
  "demo_image =
     [0xe9, 1, 0, 0x2f] @ put32 0x40100004 @ put32 0x40100000 @ put32 4 @ [1, 2, 4, 0] @ replicate 11 0 @ [0xe8]"

lemmas demo_bytes = demo_header_def demo_section_def demo_strtab_def

lemma fread_at: "fread (pre @ m @ post) (length pre) (length m) = Some m"
  by (simp add: fread_def)

lemma demo_fread:
  "fread demo_elf 0 52 = Some demo_header" "fread demo_elf 132 40 = Some demo_strtab"
  "fread demo_elf 92 40 = Some demo_section" "fread demo_elf 172 4 = Some [0, 0x2e, 0x74, 0]"
  "fread demo_elf 176 3 = Some [1, 2, 4]"
  by (simp_all add: fread_def demo_elf_def demo_bytes)

lemma demo_fields:
  "e_entry demo_header = 0x40100004" "e_shoff demo_header = 52" "e_shentsize demo_header = 40"
  "e_shnum demo_header = 3" "e_shstrndx demo_header = 2"
  "sh_offset demo_strtab = 172" "sh_size demo_strtab = 4" "sh_name demo_strtab = 0" "sh_addr demo_strtab = 0"
  "sh_offset demo_section = 176" "sh_size demo_section = 3" "sh_name demo_section = 1" "sh_addr demo_section = 0x40100000"
  by (simp_all add: e_entry_def e_shoff_def e_shentsize_def e_shnum_def e_shstrndx_def sh_offset_def sh_size_def
      sh_name_def sh_addr_def le32_def le16_def demo_bytes)

lemma demo_pos: "section_pos demo_header 1 = Some 92" "section_pos demo_header 2 = Some 132"
  by (simp_all add: section_pos_def demo_fields)

definition demo_loaded :: elf_file where
  "demo_loaded =
     \<lparr>elf_fd = demo_elf, elf_header = demo_header, elf_strings = [0, 0x2e, 0x74, 0],
      elf_sections = [Some \<lparr>sec_offset = 176, sec_address = 0x40100000, sec_size = 3, sec_name = 1\<rparr>,
        Some \<lparr>sec_offset = 172, sec_address = 0, sec_size = 4, sec_name = 0\<rparr>]\<rparr>"

lemma demo_read_sections: "read_sections demo_elf demo_header (Suc 0) 2 = Done (elf_sections demo_loaded)"
  unfolding numeral_2_eq_2 read_sections.simps
  by (simp add: demo_pos [simplified] access_def demo_fread demo_fields demo_loaded_def flip: numeral_2_eq_2)

lemma demo_LoadElf: "LoadElf (\<lambda>n. True) (Some demo_elf) = Done demo_loaded"
proof -
  have "take 4 demo_header = [0x7f, 0x45, 0x4c, 0x46]" by (simp add: demo_header_def)
  then show ?thesis
    by (simp add: LoadElf_def ensure_def require_def access_def demo_fread demo_fields demo_pos demo_read_sections)
      (simp add: demo_loaded_def)
qed

lemma demo_write:
  "write_sections (\<lambda>n. True) 4096 demo_loaded [[0x2e, 0x74]] out 0xef =
     (if length out + 12 \<le> 4096 then Done (out @ put32 0x40100000 @ put32 4 @ [1, 2, 4, 0], 0xe8) else Failed)"
proof -
  have "GetElfSection demo_loaded [0x2e, 0x74] = Done (the (hd (elf_sections demo_loaded)))"
    by (simp add: GetElfSection_def demo_loaded_def access_def rd_def)
  then show ?thesis
    by (simp add: WriteElfSection_def demo_loaded_def GetElfSectionData_def ensure_def require_def demo_fread
        fwrite_def SECTION_PADDING_def Let_def)
qed

lemma demo_image_built:
  "CreateBinFile (\<lambda>n. True) (Some 4096) (Some demo_elf) 0 0 15 2 False [[0x2e, 0x74]] = Done demo_image"
proof -
  have h: "elf_header demo_loaded = demo_header" by (simp add: demo_loaded_def)
  show ?thesis
    by (simp add: CreateBinFile_def demo_LoadElf require_def boot2_header_def boot1_library_def fwrite_def
        image_header_bytes_def demo_write demo_fields h BIN_MAGIC_FLASH_def CHECKSUM_INIT_def
        del: write_sections.simps)
      (simp add: finish_image_def IMAGE_PADDING_def fwrite_def demo_image_def)
qed

definition demo_spi :: "u32 \<Rightarrow> nat \<Rightarrow> bool \<times> u8 list" where
  "demo_spi a n = SPIRead nor_flash a n (replicate 4096 0xff @ demo_image @ [0xff])"

lemma demo_spi_reads: "reads demo_spi (replicate 4096 0xff @ demo_image @ [0xff])"
  using flash_reads [OF nor_flash_chip, of "replicate 4096 0xff @ demo_image @ [0xff]"]
  by (simp add: demo_spi_def [abs_def] demo_image_def)

theorem esptool_image_boots_witness:
  "\<exists>elf secs. LoadElf (\<lambda>n. True) (Some demo_elf) = Done elf \<and>
     list_all2 (image_section (\<lambda>n. True) elf) [[0x2e, 0x74]] secs \<and>
     check_image demo_opts demo_spi (of_nat (length (replicate 4096 (0xff :: u8)))) \<noteq> 0 \<and>
     load_rom demo_spi (check_image demo_opts demo_spi (of_nat (length (replicate 4096 (0xff :: u8))))) (\<lambda>a. 0) =
       (e_entry (elf_header elf), fold (\<lambda>s. ets_memcpy (fst s) (snd s)) secs (\<lambda>a. 0))"
  by (rule esptool_image_boots [OF demo_image_built _ _ _ _ demo_spi_reads]) (simp_all add: demo_image_def)

section \<open>A missing input file\<close>

lemma not_option: "hd arg \<noteq> 0x2d \<Longrightarrow> arg \<noteq> ascii (CHR ''-'' # s)"
  by (auto simp: ascii_def)

lemma set_option_name: "hd arg \<noteq> 0x2d \<Longrightarrow> set_option arg r = None"
  by (simp add: set_option_def not_option)

text \<open>
  If the input file cannot be opened, esptool2 fails, and it deletes the output file of an earlier build,
  which it has not opened.
\<close>

theorem missing_input_deletes_output:
  assumes "fs infile = None" and "infile \<noteq> []" and "hd infile \<noteq> 0x2d" and "sects \<noteq> []"
  shows "esptool_main malloc space fs (ascii ''-bin'' # infile # outfile # sects) = Done (-1, fs(outfile := None))"
proof -
  have "set_option (ascii ''-bin'') initial_options = Some (initial_options\<lparr>opt_binfile := True, opt_opts := 1\<rparr>)"
    by (simp add: set_option_def initial_options_def)
  moreover have "infile \<noteq> ascii ''--''" using assms(3) by (rule not_option)
  ultimately have parse: "parse_options (ascii ''-bin'' # infile # outfile # sects) initial_options =
      (initial_options\<lparr>opt_binfile := True, opt_opts := 1\<rparr>, infile # outfile # sects, False)"
    using assms(2,3) set_option_name by simp
  have failed: "CreateBinFile malloc sp None bv mode clock sz ck names = Failed" for sp bv mode clock sz ck names
    by (simp add: CreateBinFile_def LoadElf_def ensure_def require_def)
  have "length (infile # outfile # sects) \<ge> 3" using assms(4) by (cases sects) simp_all
  with assms(4) show ?thesis
    unfolding esptool_main_def parse Let_def prod.case
    by (simp add: assms(1) failed initial_options_def del: length_Cons)
qed

theorem missing_input_deletes_output_witness:
  "esptool_main (\<lambda>n. True) (\<lambda>f. Some 4096) (Map.empty([0x6f] \<mapsto> [0xe9]))
     (ascii ''-bin'' # [0x69] # [0x6f] # [[0x74]]) = Done (-1, (Map.empty([0x6f] \<mapsto> [0xe9]))([0x6f] := None))"
  by (rule missing_input_deletes_output) simp_all

end
