(* ===== verification/Espboot.thy ===== *)
theory Espboot
  imports Rboot
begin

text \<open>
  The boot loader of bootloader/esp-bootloader: src/espboot.c, which installs a new application from one part
  of the flash to another, and src/ram_loader.c, which copies its sections to memory. The routines of the
  boot ROM are the parameter \<open>io\<close>, as for rBoot; \<open>irom_chksum\<close> is the switch BOOT_IROM_CHKSUM of espboot.h.
  Messages are left out.
\<close>

section \<open>Verification of an image\<close>

definition ESP_CHKSUM_INIT :: u8 where "ESP_CHKSUM_INIT = 0xEF"
definition ESP_SECTOR_SIZE :: u32 where "ESP_SECTOR_SIZE = 0x1000"
definition ESP_CONFIG_SECTOR :: u32 where "ESP_CONFIG_SECTOR = 1"
definition ESP_CONFIG_MAGIC :: u32 where "ESP_CONFIG_MAGIC = 0xF01A"
definition DEFAULT_APPROM_ADDR :: u32 where "DEFAULT_APPROM_ADDR = 0x2000"
definition DEFAULT_BACKUPROM_ADDR :: u32 where "DEFAULT_BACKUPROM_ADDR = 0x300000"
definition ESP_MAGIC_FLASH :: u8 where "ESP_MAGIC_FLASH = 0xE9"
definition ESP_MAGIC_IROM :: u8 where "ESP_MAGIC_IROM = 0xEA"
definition ESP_MAGIC_IROM_COUNT :: u8 where "ESP_MAGIC_IROM_COUNT = 0x04"
definition ESP_BUFFER_SIZE :: u32 where "ESP_BUFFER_SIZE = 0x100"

fun esp_chksum :: "u8 \<Rightarrow> u8 list \<Rightarrow> u8" where
  "esp_chksum chksum [] = chksum"
| "esp_chksum chksum (b # bs) = esp_chksum (chksum XOR b) bs"

definition esp_calc_chksum :: "u8 list \<Rightarrow> u8" where
  "esp_calc_chksum bytes = esp_chksum ESP_CHKSUM_INIT bytes"

function esp_check_blocks :: "(u32 \<Rightarrow> nat \<Rightarrow> bool \<times> u8 list) \<Rightarrow> u32 \<Rightarrow> u32 \<Rightarrow> u8 \<Rightarrow> (u32 \<times> u8) option" where
  "esp_check_blocks spi readpos remaining chksum =
     (if remaining > 0 then
        let readlen = (if remaining < ESP_BUFFER_SIZE then remaining else ESP_BUFFER_SIZE);
            (ok, buffer) = spi readpos (unat readlen)
        in if \<not> ok then None
           else esp_check_blocks spi (readpos + readlen) (remaining - readlen) (esp_chksum chksum buffer)
      else Some (readpos, chksum))"
  by pat_completeness auto

lemma ESP_BUFFER_SIZE_eq: "ESP_BUFFER_SIZE = BUFFER_SIZE"
  by (simp add: ESP_BUFFER_SIZE_def BUFFER_SIZE_def)

termination esp_check_blocks
  by (relation "measure (\<lambda>(spi, readpos, remaining, chksum). unat remaining)")
    (auto simp: ESP_BUFFER_SIZE_eq dest: readlen_pos simp del: split_paired_All)

lemma sectcurrent_less:
  assumes "sectcurrent < (sectcount :: u8)"
  shows "256 - unat (sectcurrent + 1) < 256 - unat sectcurrent"
proof -
  have "unat sectcurrent < unat sectcount" using assms by (simp add: word_less_nat_alt)
  moreover have "unat sectcount < 256" by (rule unat_u8_bound)
  ultimately show ?thesis by (simp add: unat_word_ariths)
qed

function esp_check_sections ::
  "bool \<Rightarrow> (u32 \<Rightarrow> nat \<Rightarrow> bool \<times> u8 list) \<Rightarrow> u8 \<Rightarrow> u8 \<Rightarrow> u32 \<Rightarrow> u8 \<Rightarrow> (u32 \<times> u8) option" where
  "esp_check_sections irom_chksum spi sectcurrent sectcount readpos chksum =
     (if sectcurrent < sectcount then
        (case spi readpos 8 of (ok, section) \<Rightarrow>
           if \<not> ok then None
           else (case esp_check_blocks spi (readpos + 8) (le32 section 4) chksum of
             None \<Rightarrow> None
           | Some (readpos, chksum) \<Rightarrow>
               if irom_chksum \<and> sectcount = 0xff then
                 (case spi readpos 8 of (ok, header) \<Rightarrow>
                    if \<not> ok then None
                    else esp_check_sections irom_chksum spi (sectcurrent + 1) (header ! 1 + 1) (readpos + 8) chksum)
               else esp_check_sections irom_chksum spi (sectcurrent + 1) sectcount readpos chksum))
      else Some (readpos, chksum))"
  by pat_completeness auto
termination
  by (relation "measure (\<lambda>(ick, spi, sectcurrent, sectcount, readpos, chksum). 256 - unat sectcurrent)")
    (auto dest: sectcurrent_less simp del: split_paired_All)

text \<open>
  The result and \<open>*totalSize\<close>, which is the start of the image until the checksum has been read.
\<close>

definition esp_check_image :: "bool \<Rightarrow> (u32 \<Rightarrow> nat \<Rightarrow> bool \<times> u8 list) \<Rightarrow> u32 \<Rightarrow> u32 \<times> u32" where
  "esp_check_image irom_chksum spi start =
     (if start = 0 \<or> start = 0xffffffff then (0, start)
      else
        (case spi start 16 of (ok, header) \<Rightarrow>
         if \<not> ok then (0, start)
         else
           (let parsed =
              (if header ! 0 = ESP_MAGIC_FLASH then Some (start, start + 8, header ! 1)
               else if header ! 0 = ESP_MAGIC_IROM \<and> header ! 1 = ESP_MAGIC_IROM_COUNT then
                 (let romaddr = start + le32 header 12 + 16
                  in if irom_chksum then Some (romaddr, start + 8, 0xff)
                     else (case spi romaddr 8 of (ok, header) \<Rightarrow>
                             if \<not> ok then None else Some (romaddr, romaddr + 8, header ! 1)))
               else None)
            in (case parsed of
                  None \<Rightarrow> (0, start)
                | Some (romaddr, readpos, sectcount) \<Rightarrow>
                    (case esp_check_sections irom_chksum spi 0 sectcount readpos ESP_CHKSUM_INIT of
                       None \<Rightarrow> (0, start)
                     | Some (readpos, chksum) \<Rightarrow>
                         (let readpos = readpos OR 0x0f
                          in (case spi readpos 1 of (ok, buffer) \<Rightarrow>
                               if \<not> ok then (0, start)
                               else (if buffer ! 0 \<noteq> chksum then 0 else romaddr, readpos - start + 5))))))))"

section \<open>Installation\<close>

text \<open>The result of an erasure is not looked at; a failed read or write ends the copy.\<close>

function load_app_loop :: "'f spi_flash \<Rightarrow> u32 \<Rightarrow> u32 \<Rightarrow> u32 \<Rightarrow> u32 \<Rightarrow> 'f \<Rightarrow> 'f" where
  "load_app_loop io readpos writepos total_size sector f =
     (if total_size > 0 then
        let f = snd (SPIEraseSector io sector f);
            (ok, buffer) = SPIRead io readpos (unat ESP_SECTOR_SIZE) f
        in if \<not> ok then f
           else
             let (ok, f) = SPIWrite io writepos buffer f
             in if \<not> ok then f
                else load_app_loop io (readpos + ESP_SECTOR_SIZE) (writepos + ESP_SECTOR_SIZE)
                       (if total_size > ESP_SECTOR_SIZE then total_size - ESP_SECTOR_SIZE else 0) (sector + 1) f
      else f)"
  by pat_completeness auto
termination
  by (relation "measure (\<lambda>(io, readpos, writepos, total_size, sector, f). unat total_size)")
    (auto simp: word_less_nat_alt unat_sub_if' ESP_SECTOR_SIZE_def simp del: split_paired_All)

definition load_app :: "'f spi_flash \<Rightarrow> u32 \<Rightarrow> u32 \<Rightarrow> u32 \<Rightarrow> 'f \<Rightarrow> 'f" where
  "load_app io from_addr to_addr total_size f =
     load_app_loop io from_addr to_addr total_size (to_addr div ESP_SECTOR_SIZE) f"

text \<open>\<open>tryCount\<close> counts down; \<open>total_size\<close> is set again by the check of what has been copied.\<close>

fun load_tries :: "bool \<Rightarrow> 'f spi_flash \<Rightarrow> nat \<Rightarrow> u32 \<Rightarrow> u32 \<Rightarrow> u32 \<Rightarrow> 'f \<Rightarrow> u32 \<times> 'f" where
  "load_tries irom_chksum io 0 from_addr to_addr total_size f = (0, f)"
| "load_tries irom_chksum io (Suc tryCount) from_addr to_addr total_size f =
     (let f = load_app io from_addr to_addr total_size f;
          (romaddr, total_size) = esp_check_image irom_chksum (\<lambda>a n. SPIRead io a n f) to_addr
      in if romaddr > 0 then (romaddr, f)
         else load_tries irom_chksum io tryCount from_addr to_addr total_size f)"

definition esp_load :: "bool \<Rightarrow> 'f spi_flash \<Rightarrow> u32 \<Rightarrow> u32 \<Rightarrow> 'f \<Rightarrow> u32 \<times> 'f" where
  "esp_load irom_chksum io from_addr to_addr f =
     (if from_addr = 0 then (0, f)
      else
        let (romaddr, total_size) = esp_check_image irom_chksum (\<lambda>a n. SPIRead io a n f) from_addr
        in if romaddr > 0 then load_tries irom_chksum io 3 from_addr to_addr total_size f else (0, f))"

section \<open>The configuration\<close>

text \<open>The structure has three bytes of padding behind the checksum, which are read and written with it.\<close>

record espboot_cfg =
  cfg_magic :: u32
  app_rom_addr :: u32
  new_rom_addr :: u32
  backup_rom_addr :: u32
  cfg_chksum :: u8
  cfg_padding :: "u8 list"

definition cfg_body :: "espboot_cfg \<Rightarrow> u8 list" where
  "cfg_body cfg = put32 (cfg_magic cfg) @ put32 (app_rom_addr cfg) @ put32 (new_rom_addr cfg) @ put32 (backup_rom_addr cfg)"

definition cfg_bytes :: "espboot_cfg \<Rightarrow> u8 list" where
  "cfg_bytes cfg = cfg_body cfg @ [cfg_chksum cfg] @ cfg_padding cfg"

definition read_cfg :: "u8 list \<Rightarrow> espboot_cfg" where
  "read_cfg bytes =
     \<lparr>cfg_magic = le32 bytes 0, app_rom_addr = le32 bytes 4, new_rom_addr = le32 bytes 8,
      backup_rom_addr = le32 bytes 12, cfg_chksum = bytes ! 16, cfg_padding = drop 17 bytes\<rparr>"

text \<open>The macro ERROR ends in an endless loop: \<open>None\<close>.\<close>

definition save_boot_cfg :: "'f spi_flash \<Rightarrow> espboot_cfg \<Rightarrow> 'f \<Rightarrow> (espboot_cfg \<times> 'f) option" where
  "save_boot_cfg io cfg f =
     (let cfg = cfg\<lparr>cfg_chksum := esp_calc_chksum (cfg_body cfg)\<rparr>;
          (ok, f) = SPIEraseSector io ESP_CONFIG_SECTOR f
      in if \<not> ok then None
         else
           let (ok, f) = SPIWrite io (ESP_CONFIG_SECTOR * ESP_SECTOR_SIZE) (cfg_bytes cfg) f
           in if \<not> ok then None else Some (cfg, f))"

definition load_boot_cfg :: "'f spi_flash \<Rightarrow> 'f \<Rightarrow> (espboot_cfg \<times> 'f) option" where
  "load_boot_cfg io f =
     (let (ok, bytes) = SPIRead io (ESP_CONFIG_SECTOR * ESP_SECTOR_SIZE) 20 f; cfg = read_cfg bytes
      in if \<not> ok then None
         else if cfg_magic cfg \<noteq> ESP_CONFIG_MAGIC \<or> cfg_chksum cfg \<noteq> esp_calc_chksum (cfg_body cfg) then
           save_boot_cfg io
             (cfg\<lparr>cfg_magic := ESP_CONFIG_MAGIC, app_rom_addr := DEFAULT_APPROM_ADDR,
                 backup_rom_addr := DEFAULT_BACKUPROM_ADDR, new_rom_addr := 0x200000\<rparr>) f
         else Some (cfg, f))"

section \<open>Booting\<close>

text \<open>
  The loader ends in an endless loop, or in boot_app with an address. boot_app runs the RAM loader,
  whose code the build generates as a header; an application that returns is not modelled.
\<close>

datatype 'f boot_end = Hangs | Boots u32 'f

fun try_boot :: "bool \<Rightarrow> 'f spi_flash \<Rightarrow> nat \<Rightarrow> u32 \<Rightarrow> 'f \<Rightarrow> 'f boot_end option" where
  "try_boot irom_chksum io 0 addr f = None"
| "try_boot irom_chksum io (Suc boot_try) addr f =
     (let romaddr = fst (esp_check_image irom_chksum (\<lambda>a n. SPIRead io a n f) addr)
      in if romaddr > 0 then Some (Boots romaddr f) else try_boot irom_chksum io boot_try addr f)"

definition save_and_boot :: "'f spi_flash \<Rightarrow> espboot_cfg \<Rightarrow> u32 \<Rightarrow> 'f \<Rightarrow> 'f boot_end" where
  "save_and_boot io cfg romaddr f =
     (case save_boot_cfg io (cfg\<lparr>new_rom_addr := 0\<rparr>) f of None \<Rightarrow> Hangs | Some (cfg, f) \<Rightarrow> Boots romaddr f)"

definition espboot_start :: "bool \<Rightarrow> 'f spi_flash \<Rightarrow> 'f \<Rightarrow> 'f boot_end" where
  "espboot_start irom_chksum io f =
     (case load_boot_cfg io f of
        None \<Rightarrow> Hangs
      | Some (cfg, f) \<Rightarrow>
          if new_rom_addr cfg > 0 then
            (let (romaddr, f) = esp_load irom_chksum io (new_rom_addr cfg) (app_rom_addr cfg) f
             in if romaddr > 0 then save_and_boot io cfg romaddr f
                else
                  let (romaddr, f) = esp_load irom_chksum io (backup_rom_addr cfg) (app_rom_addr cfg) f
                  in if romaddr > 0 then save_and_boot io cfg romaddr f
                     else (case try_boot irom_chksum io 3 (app_rom_addr cfg) f of None \<Rightarrow> Hangs | Some e \<Rightarrow> e))
          else
            (case try_boot irom_chksum io 3 (app_rom_addr cfg) f of
               Some e \<Rightarrow> e
             | None \<Rightarrow>
                 (let (romaddr, f) = esp_load irom_chksum io (backup_rom_addr cfg) (app_rom_addr cfg) f
                  in if romaddr > 0 then Boots romaddr f else Hangs)))"

section \<open>The RAM loader\<close>

function ram_load_blocks ::
  "(u32 \<Rightarrow> nat \<Rightarrow> bool \<times> u8 list) \<Rightarrow> u32 \<Rightarrow> u32 \<Rightarrow> u32 \<Rightarrow> (u32 \<Rightarrow> u8) \<Rightarrow> u32 \<times> (u32 \<Rightarrow> u8)" where
  "ram_load_blocks spi readpos writepos remaining mem =
     (if remaining > 0 then
        let readlen = (if remaining < ESP_BUFFER_SIZE then remaining else ESP_BUFFER_SIZE);
            buffer = snd (spi readpos (unat readlen))
        in ram_load_blocks spi (readpos + readlen) (writepos + readlen) (remaining - readlen)
             (ets_memcpy writepos buffer mem)
      else (readpos, mem))"
  by pat_completeness auto
termination
  by (relation "measure (\<lambda>(spi, readpos, writepos, remaining, mem). unat remaining)")
    (auto simp: ESP_BUFFER_SIZE_eq dest: readlen_pos simp del: split_paired_All)

fun ram_load_sections :: "nat \<Rightarrow> (u32 \<Rightarrow> nat \<Rightarrow> bool \<times> u8 list) \<Rightarrow> u32 \<Rightarrow> (u32 \<Rightarrow> u8) \<Rightarrow> (u32 \<Rightarrow> u8)" where
  "ram_load_sections 0 spi readpos mem = mem"
| "ram_load_sections (Suc sectcount) spi readpos mem =
     (let section = snd (spi readpos 8);
          (readpos, mem) = ram_load_blocks spi (readpos + 8) (le32 section 0) (le32 section 4) mem
      in ram_load_sections sectcount spi readpos mem)"

definition ram_load_rom :: "(u32 \<Rightarrow> nat \<Rightarrow> bool \<times> u8 list) \<Rightarrow> u32 \<Rightarrow> (u32 \<Rightarrow> u8) \<Rightarrow> u32 \<times> (u32 \<Rightarrow> u8)" where
  "ram_load_rom spi readpos mem =
     (let header = snd (spi readpos 8)
      in (le32 header 4, ram_load_sections (unat (header ! 1)) spi (readpos + 8) mem))"

end
