(* ===== verification/Espboot_Verify.thy ===== *)
theory Espboot_Verify
  imports Espboot Rboot_Verify
begin

text \<open>
  What espboot does: its verification and its loader are those of rBoot, an update is installed and booted,
  and a retry after a bad copy uses a wrong size.
\<close>

section \<open>The same verification as in rBoot\<close>

declare esp_check_blocks.simps [simp del] esp_check_sections.simps [simp del] ram_load_blocks.simps [simp del]
  load_app_loop.simps [simp del] check_blocks.simps [simp del] check_sections.simps [simp del] load_blocks.simps [simp del]

lemma esp_chksum_eq: "esp_chksum c bs = xor_bytes c bs"
  by (induction bs arbitrary: c) simp_all

lemma esp_check_blocks_eq: "esp_check_blocks spi readpos remaining chksum = check_blocks spi readpos remaining chksum"
proof (induction spi readpos remaining chksum rule: esp_check_blocks.induct)
  case (1 spi readpos remaining chksum)
  then show ?case
    by (subst esp_check_blocks.simps, subst check_blocks.simps)
      (auto simp: Let_def ESP_BUFFER_SIZE_eq esp_chksum_eq split: prod.splits)
qed

lemma esp_check_sections_eq:
  assumes "BOOT_IROM_CHKSUM opts = irom_chksum"
  shows "esp_check_sections irom_chksum spi cur count readpos chksum = check_sections opts spi cur count readpos chksum"
  using assms
proof (induction irom_chksum spi cur count readpos chksum rule: esp_check_sections.induct)
  case (1 irom_chksum spi cur count readpos chksum)
  then show ?case
    by (subst esp_check_sections.simps, subst check_sections.simps)
      (auto simp: Let_def esp_check_blocks_eq split: prod.splits option.splits)
qed

lemma esp_constants: "ESP_MAGIC_FLASH = ROM_MAGIC" "ESP_MAGIC_IROM = ROM_MAGIC_NEW1" "ESP_MAGIC_IROM_COUNT = ROM_MAGIC_NEW2"
  "ESP_CHKSUM_INIT = CHKSUM_INIT"
  by (simp_all add: ESP_MAGIC_FLASH_def ROM_MAGIC_def ESP_MAGIC_IROM_def ROM_MAGIC_NEW1_def ESP_MAGIC_IROM_COUNT_def
      ROM_MAGIC_NEW2_def ESP_CHKSUM_INIT_def CHKSUM_INIT_def)

lemma esp_check_image_eq:
  assumes "BOOT_IROM_CHKSUM opts = irom_chksum"
  shows "fst (esp_check_image irom_chksum spi start) = check_image opts spi start"
  unfolding esp_check_image_def check_image_def esp_constants esp_check_sections_eq [OF assms] Let_def assms
  by (auto split: prod.splits option.splits)

lemma ram_load_blocks_eq: "ram_load_blocks spi readpos writepos remaining mem = load_blocks spi readpos writepos remaining mem"
proof (induction spi readpos writepos remaining mem rule: ram_load_blocks.induct)
  case (1 spi readpos writepos remaining mem)
  then show ?case
    by (subst ram_load_blocks.simps, subst load_blocks.simps) (simp add: Let_def ESP_BUFFER_SIZE_eq)
qed

lemma ram_load_sections_eq: "ram_load_sections n spi readpos mem = load_sections n spi readpos mem"
  by (induction n arbitrary: readpos mem) (simp_all add: ram_load_blocks_eq Let_def split: prod.split)

lemma ram_load_rom_eq: "ram_load_rom spi readpos mem = load_rom spi readpos mem"
  by (simp add: ram_load_rom_def load_rom_def ram_load_sections_eq)

section \<open>Copying\<close>

text \<open>The sectors that are copied for \<open>n\<close> bytes.\<close>

definition sectors :: "nat \<Rightarrow> nat" where
  "sectors n = (n + 4095) div 4096"

lemma sectors_0: "sectors n = 0 \<longleftrightarrow> n = 0"
  by (auto simp: sectors_def div_eq_0_iff)

lemma sectors_Suc: "sectors n = Suc k \<Longrightarrow> sectors (n - 4096) = k"
proof -
  assume s: "sectors n = Suc k"
  show ?thesis
  proof (cases "4096 \<le> n")
    case True
    then have "n + 4095 = (n - 4096 + 4095) + 4096" by simp
    then have "sectors n = sectors (n - 4096) + 1" unfolding sectors_def by (metis div_add_self2 zero_neq_numeral)
    then show ?thesis using s by simp
  next
    case False
    then have "n + 4095 < 4096 * 2" by simp
    then have "sectors n < 2" unfolding sectors_def by (simp add: div_less_iff_less_mult)
    then show ?thesis using s False by (simp add: sectors_def)
  qed
qed

lemma sectors_bound: "n \<le> 4096 * sectors n"
  using mult_div_mod_eq [of 4096 "n + 4095"] by (simp add: sectors_def)

lemma copy_sector:
  assumes "flash_chip io mem" and "(s + 1) * 4096 \<le> length (mem f)" and "r + 4096 \<le> length (mem f)"
    and "length (mem f) < 2 ^ 32" and "r + 4096 \<le> s * 4096 \<or> (s + 1) * 4096 \<le> r"
  shows "\<exists>f1 f2. SPIEraseSector io (of_nat s) f = (True, f1) \<and> SPIRead io (of_nat r) 4096 f1 = (True, take 4096 (drop r (mem f))) \<and>
     SPIWrite io (of_nat (s * 4096)) (take 4096 (drop r (mem f))) f1 = (True, f2) \<and>
     mem f2 = take (s * 4096) (mem f) @ take 4096 (drop r (mem f)) @ drop ((s + 1) * 4096) (mem f)"
proof -
  have un: "unat (of_nat s :: u32) = s" "unat (of_nat r :: u32) = r" "unat (of_nat (s * 4096) :: u32) = s * 4096"
    using assms(2-4) by (simp_all add: unat_u32_of_nat del: of_nat_mult)
  obtain f1 where f1: "SPIEraseSector io (of_nat s) f = (True, f1)"
    "mem f1 = take (s * 4096) (mem f) @ replicate 4096 0xff @ drop ((s + 1) * 4096) (mem f)"
    using flash_eraseE [OF assms(1), of "of_nat s" f] assms(2) unfolding un by blast
  have "length (mem f1) = length (mem f)" using assms(2) by (simp add: f1(2))
  then have "SPIRead io (of_nat r) 4096 f1 = (True, take 4096 (drop r (mem f1)))"
    using flash_readD [OF assms(1), of "of_nat r" 4096 f1] assms(3) unfolding un by simp
  moreover have "take 4096 (drop r (mem f1)) = take 4096 (drop r (mem f))"
    using slice_outside [of "s * 4096" "replicate 4096 0xff" "mem f" r 4096] assms(2,3,5)
    unfolding f1(2) by (simp add: add.commute)
  moreover obtain f1' f2 where "SPIEraseSector io (of_nat s) f = (True, f1')"
    "SPIWrite io (of_nat (s * 4096)) (take 4096 (drop r (mem f))) f1' = (True, f2)"
    "mem f2 = take (s * 4096) (mem f) @ take 4096 (drop r (mem f)) @ drop ((s + 1) * 4096) (mem f)"
    using rewrite_sector [OF assms(1), of "of_nat s" f "take 4096 (drop r (mem f))" "of_nat (s * 4096)"] assms(2,3)
    unfolding un by auto
  ultimately show ?thesis using f1(1) by auto
qed

lemma load_app_loop_copies:
  assumes "flash_chip io mem" and "sectors (unat total_size) = k" and "s * 4096 + k * 4096 \<le> length (mem f)"
    and "r + k * 4096 \<le> length (mem f)" and "length (mem f) < 2 ^ 32" and "r + k * 4096 \<le> s * 4096 \<or> s * 4096 + k * 4096 \<le> r"
  shows "mem (load_app_loop io (of_nat r) (of_nat (s * 4096)) total_size (of_nat s) f) =
     take (s * 4096) (mem f) @ take (k * 4096) (drop r (mem f)) @ drop (s * 4096 + k * 4096) (mem f)"
  using assms(2-6)
proof (induction k arbitrary: r s total_size f)
  case 0
  then have "total_size = 0" by (simp add: sectors_0 unat_eq_zero)
  then show ?case by (simp add: load_app_loop.simps)
next
  case (Suc k)
  let ?m = "mem f"
  have pos: "total_size > 0" using Suc.prems(1) by (auto simp: sectors_def word_gt_0)
  obtain f1 f2 where c: "SPIEraseSector io (of_nat s) f = (True, f1)" "SPIRead io (of_nat r) 4096 f1 = (True, take 4096 (drop r ?m))"
    "SPIWrite io (of_nat (s * 4096)) (take 4096 (drop r ?m)) f1 = (True, f2)"
    "mem f2 = take (s * 4096) ?m @ take 4096 (drop r ?m) @ drop ((s + 1) * 4096) ?m"
    using copy_sector [OF assms(1), of s f r] Suc.prems by auto
  define t where "t = (if total_size > ESP_SECTOR_SIZE then total_size - ESP_SECTOR_SIZE else 0)"
  have "unat t = unat total_size - 4096"
    by (auto simp: t_def ESP_SECTOR_SIZE_def word_less_nat_alt unat_sub_if')
  then have t: "sectors (unat t) = k" using sectors_Suc [OF Suc.prems(1)] by simp
  have len: "length (mem f2) = length ?m" using Suc.prems by (simp add: c(4))
  have "mem (load_app_loop io (of_nat (r + 4096)) (of_nat ((s + 1) * 4096)) t (of_nat (s + 1)) f2) =
     take ((s + 1) * 4096) (mem f2) @ take (k * 4096) (drop (r + 4096) (mem f2)) @ drop ((s + 1) * 4096 + k * 4096) (mem f2)"
    by (rule Suc.IH [OF t]) (use Suc.prems len in auto)
  moreover have "take ((s + 1) * 4096) (mem f2) = take (s * 4096) ?m @ take 4096 (drop r ?m)"
    using Suc.prems by (simp add: c(4))
  moreover have "drop ((s + 1) * 4096 + k * 4096) (mem f2) = drop ((s + 1) * 4096 + k * 4096) ?m"
    using Suc.prems by (simp add: c(4) ac_simps)
  moreover have "take (k * 4096) (drop (r + 4096) (mem f2)) = take (k * 4096) (drop (r + 4096) ?m)"
    using slice_outside [of "s * 4096" "take 4096 (drop r ?m)" ?m "r + 4096" "k * 4096"] Suc.prems
    unfolding c(4) by (auto simp: add.commute)
  moreover have "take (Suc k * 4096) (drop r ?m) = take 4096 (drop r ?m) @ take (k * 4096) (drop (r + 4096) ?m)"
    using take_add [of 4096 "k * 4096" "drop r ?m"] by (simp add: add.commute)
  moreover have "load_app_loop io (of_nat r) (of_nat (s * 4096)) total_size (of_nat s) f =
     load_app_loop io (of_nat (r + 4096)) (of_nat ((s + 1) * 4096)) t (of_nat (s + 1)) f2"
  proof -
    have "of_nat r + ESP_SECTOR_SIZE = of_nat (r + 4096)" "of_nat (s * 4096) + ESP_SECTOR_SIZE = of_nat ((s + 1) * 4096)"
      "of_nat s + 1 = (of_nat (s + 1) :: u32)" "unat ESP_SECTOR_SIZE = 4096"
      by (simp_all add: ESP_SECTOR_SIZE_def)
    then show ?thesis using c(1-3)
      by (subst load_app_loop.simps)
        (simp only: pos if_True Let_def snd_conv prod.case not_True_eq_False if_False t_def [symmetric])
  qed
  moreover have "s * 4096 + Suc k * 4096 = (s + 1) * 4096 + k * 4096" by simp
  ultimately show ?case by (simp only: append_assoc)
qed

section \<open>Verification of an image and its size\<close>

lemma esp_check_image_reads:
  assumes "reads spi (pre @ rom_bytes r c @ post)" and "16 dvd length pre" and "pre \<noteq> []" and "rom_ok r"
    and "c = rom_chksum opts r" and "BOOT_IROM_CHKSUM opts = irom_chksum"
  shows "esp_check_image irom_chksum spi (of_nat (length pre)) =
     (of_nat (length (pre @ irom_bytes r)), of_nat (length (rom_bytes r c) + 4))"
proof -
  obtain m start count where p: "spi (of_nat (length pre)) 16 = (True, m)"
    "check_sections opts spi 0 count start CHKSUM_INIT =
       Some (of_nat (length (pre @ irom_bytes r @ main_bytes r)), c)"
    "image_path opts spi (of_nat (length pre)) m (of_nat (length (pre @ irom_bytes r))) start count"
    and nz: "(of_nat (length pre) :: u32) \<noteq> 0" "(of_nat (length pre) :: u32) \<noteq> 0xffffffff"
    using check_image_parts [OF assms(1-4), of opts] assms(5) by blast
  have small: "length (pre @ rom_bytes r c @ post) < 2 ^ 32" using assms(1) by (simp add: reads_def)
  have size: "(of_nat (length (pre @ irom_bytes r @ main_bytes r)) OR 0x0f) - of_nat (length pre) + 5 =
      (of_nat (length (rom_bytes r c) + 4) :: u32)"
    unfolding chksum_pos [OF small assms(2,4)] by (simp add: rom_bytes_def)
  have parsed: "(let parsed =
              (if m ! 0 = ROM_MAGIC then Some (of_nat (length pre), of_nat (length pre) + 8, m ! 1)
               else if m ! 0 = ROM_MAGIC_NEW1 \<and> m ! 1 = ROM_MAGIC_NEW2 then
                 (let romaddr = of_nat (length pre) + le32 m 12 + 16
                  in if irom_chksum then Some (romaddr, of_nat (length pre) + 8, 0xff)
                     else (case spi romaddr 8 of (ok, header) \<Rightarrow>
                             if \<not> ok then None else Some (romaddr, romaddr + 8, header ! 1)))
               else None) in parsed) = Some (of_nat (length (pre @ irom_bytes r)), start, count)"
    using image_path_parsed [OF p(3)] assms(6) by (simp add: Let_def split: if_splits prod.splits)
  show ?thesis
    unfolding esp_check_image_def if_not_P [OF nz(1)] esp_constants esp_check_sections_eq [OF assms(6)]
    using nz p(1,2) chksum_read [OF assms(1,2,4)] parsed size
    by (simp del: of_nat_add of_nat_Suc length_append)
qed

section \<open>Installation of an application\<close>

text \<open>The flash after the first \<open>n\<close> sectors from \<open>r\<close> on have been copied to sector \<open>s\<close>.\<close>

definition copied :: "nat \<Rightarrow> nat \<Rightarrow> nat \<Rightarrow> u8 list \<Rightarrow> u8 list" where
  "copied r s n m = take (s * 4096) m @ take (n * 4096) (drop r m) @ drop (s * 4096 + n * 4096) m"

lemma length_copied: "s * 4096 + n * 4096 \<le> length m \<Longrightarrow> r + n * 4096 \<le> length m \<Longrightarrow> length (copied r s n m) = length m"
  by (simp add: copied_def)

lemma drop_copied:
  assumes "2 \<le> s" and "s * 4096 \<le> length m"
  shows "drop 8192 (copied r s n m) =
    take (s * 4096 - 8192) (drop 8192 m) @ take (n * 4096) (drop r m) @ drop (s * 4096 + n * 4096) m"
  using assms by (simp add: copied_def drop_take)

text \<open>
  The sectors espboot copies: those of the image and, when the image ends on the boundary of a
  sector, one more, because \<open>check_image\<close> reports a size that is four bytes too large.
\<close>

definition copied_sectors :: "rom_image \<Rightarrow> nat" where
  "copied_sectors r =
     (let len = length (rom_bytes r 0) in sectors len + (if 4096 dvd len then 1 else 0))"

lemma rom_bytes_aligned: "rom_ok r \<Longrightarrow> 16 dvd length (rom_bytes r c)"
proof -
  assume "rom_ok r"
  define m where "m = length (main_bytes r)"
  define b where "b = m mod 16"
  have b: "b < 16" "m = 16 * (m div 16) + b" by (simp_all add: b_def)
  then have "m + (15 - b) + 1 = 16 * (m div 16 + 1)" by simp
  then have "16 dvd m + (15 - b) + 1" by (metis dvd_triv_left)
  moreover have "length (rom_bytes r c) = length (irom_bytes r) + (m + (15 - b) + 1)"
    by (simp add: rom_bytes_def m_def b_def)
  ultimately show ?thesis using irom_aligned [OF \<open>rom_ok r\<close>] by (simp only: dvd_add)
qed

lemma copied_sectors_eq:
  assumes "rom_ok r"
  shows "copied_sectors r = sectors (length (rom_bytes r 0) + 4)"
proof -
  obtain k where k: "length (rom_bytes r 0) = 16 * k" using rom_bytes_aligned [OF assms] by (rule dvdE)
  define q j where "q = k div 256" and "j = k mod 256"
  have "k = j + 256 * q" "j < 256" by (simp_all add: q_def j_def)
  then have j: "16 * k = 16 * j + q * 4096" "j < 256" by simp_all
  have d: "(16 * j + q * 4096 + e) div 4096 = q + (16 * j + e) div 4096" for e :: nat
    using div_mult_self1 [of 4096 "16 * j + e" q] by (simp add: ac_simps)
  have "(4096 dvd 16 * j + q * 4096) = (j = 0)" using j(2) by (auto dest: dvd_imp_le simp: dvd_add_left_iff)
  moreover have "(16 * j + 4095) div 4096 = (if j = 0 then 0 else 1)" "(16 * j + (4 + 4095)) div 4096 = 1"
    using j(2) by (auto simp: div_nat_eqI)
  ultimately show ?thesis
    unfolding copied_sectors_def sectors_def Let_def k j(1) add.assoc [of _ 4 4095] d by simp
qed

text \<open>
  A good image at \<open>from\<close>, with room for the copied sectors at sector \<open>s\<close>, which do not overlap it.
\<close>

definition installable :: "bool \<Rightarrow> rom_image \<Rightarrow> nat \<Rightarrow> nat \<Rightarrow> nat \<Rightarrow> u8 list \<Rightarrow> bool" where
  "installable irom_chksum r from s n m \<longleftrightarrow>
     rom_ok r \<and> 0 < from \<and> 16 dvd from \<and> 0 < s \<and> length m < 2 ^ 32 \<and>
     (\<exists>post. drop from m = rom_bytes r (rom_chksum \<lparr>BOOT_CONFIG_CHKSUM = False, BOOT_BIG_FLASH = False, BOOT_IROM_CHKSUM = irom_chksum\<rparr> r) @ post) \<and>
     n = copied_sectors r \<and> s * 4096 + n * 4096 \<le> length m \<and> from + n * 4096 \<le> length m \<and>
     (from + n * 4096 \<le> s * 4096 \<or> s * 4096 + n * 4096 \<le> from)"

lemma esp_check_image_at:
  assumes "reads spi m" and "0 < a" and "16 dvd a" and "rom_ok r"
    and "drop a m = rom_bytes r (rom_chksum \<lparr>BOOT_CONFIG_CHKSUM = False, BOOT_BIG_FLASH = False, BOOT_IROM_CHKSUM = irom_chksum\<rparr> r) @ post"
  shows "esp_check_image irom_chksum spi (of_nat a) = (of_nat (a + length (irom_bytes r)), of_nat (length (rom_bytes r 0) + 4))
     \<and> (of_nat (a + length (irom_bytes r)) :: u32) > 0"
proof -
  let ?c = "rom_chksum \<lparr>BOOT_CONFIG_CHKSUM = False, BOOT_BIG_FLASH = False, BOOT_IROM_CHKSUM = irom_chksum\<rparr> r"
  have "m = take a m @ rom_bytes r ?c @ post" by (metis assms(5) append_take_drop_id)
  moreover have "rom_bytes r ?c \<noteq> []" by (simp add: rom_bytes_def)
  then have "a < length m" using assms(5) by (metis append_is_Nil_conv drop_all not_less)
  then have a: "length (take a m) = a" by simp
  ultimately have "esp_check_image irom_chksum spi (of_nat (length (take a m))) =
      (of_nat (length (take a m @ irom_bytes r)), of_nat (length (rom_bytes r ?c) + 4))"
    using assms by (intro esp_check_image_reads [where post = post]) auto
  moreover have "a + length (irom_bytes r) \<le> length m"
    using arg_cong [OF assms(5), of length] \<open>a < length m\<close> by (simp add: rom_bytes_def)
  then have "unat (of_nat (a + length (irom_bytes r)) :: u32) = a + length (irom_bytes r)"
    using assms(1) by (simp add: reads_def unat_u32_of_nat del: of_nat_add)
  moreover have "length (rom_bytes r ?c) = length (rom_bytes r 0)" by (simp add: rom_bytes_def)
  ultimately show ?thesis using a assms(2) by (simp add: word_less_nat_alt del: of_nat_add)
qed

lemma esp_load_installs:
  assumes "flash_chip io mem" and "installable irom_chksum r from s n (mem f)"
  shows "\<exists>f'. esp_load irom_chksum io (of_nat from) (of_nat (s * 4096)) f = (of_nat (s * 4096 + length (irom_bytes r)), f') \<and>
     mem f' = copied from s n (mem f)"
proof -
  let ?c = "rom_chksum \<lparr>BOOT_CONFIG_CHKSUM = False, BOOT_BIG_FLASH = False, BOOT_IROM_CHKSUM = irom_chksum\<rparr> r"
  define T where "T = length (rom_bytes r 0) + 4"
  obtain post where i: "rom_ok r" "0 < from" "16 dvd from" "0 < s" "length (mem f) < 2 ^ 32" "drop from (mem f) = rom_bytes r ?c @ post"
    "n = copied_sectors r" "s * 4096 + n * 4096 \<le> length (mem f)" "from + n * 4096 \<le> length (mem f)"
    "from + n * 4096 \<le> s * 4096 \<or> s * 4096 + n * 4096 \<le> from"
    using assms(2) unfolding installable_def T_def by blast
  have check: "esp_check_image irom_chksum (\<lambda>a n. SPIRead io a n f) (of_nat from) = (of_nat (from + length (irom_bytes r)), of_nat T)"
    "(of_nat (from + length (irom_bytes r)) :: u32) > 0"
    using esp_check_image_at [OF flash_reads [OF assms(1) i(5)] i(2,3,1,6)] unfolding T_def by blast+
  have nT: "n = sectors T" using copied_sectors_eq [OF i(1)] by (simp add: i(7) T_def)
  have T: "T \<le> n * 4096" using sectors_bound [of T] by (simp add: nT)
  then have uT: "unat (of_nat T :: u32) = T" using i(5,8) by (simp add: unat_u32_of_nat)
  define f1 where "f1 = load_app io (of_nat from) (of_nat (s * 4096)) (of_nat T) f"
  have "(of_nat (s * 4096) :: u32) div ESP_SECTOR_SIZE = of_nat s"
  proof -
    have "unat (of_nat (s * 4096) :: u32) = s * 4096" "unat (of_nat s :: u32) = s"
      using i(5,8) by (simp_all add: unat_u32_of_nat del: of_nat_mult)
    then show ?thesis by (simp add: word_unat_eq_iff unat_div ESP_SECTOR_SIZE_def del: of_nat_mult)
  qed
  then have f1: "mem f1 = copied from s n (mem f)"
    using load_app_loop_copies [OF assms(1), of "of_nat T" n s f "from"] nT i(5,8-10)
    by (simp add: f1_def load_app_def copied_def uT del: of_nat_mult)
  have len: "length (mem f1) < 2 ^ 32" using i(5,8,9) by (simp add: f1 length_copied)
  have "length (rom_bytes r ?c) \<le> n * 4096" using T by (simp add: T_def rom_bytes_def)
  then have "drop (s * 4096) (mem f1) = rom_bytes r ?c @ take (n * 4096 - length (rom_bytes r ?c)) post @ drop (s * 4096 + n * 4096) (mem f)"
    using i(8) by (simp add: f1 copied_def i(6))
  from esp_check_image_at [OF flash_reads [OF assms(1) len] _ _ i(1) this] i(4)
  have "esp_check_image irom_chksum (\<lambda>a n. SPIRead io a n f1) (of_nat (s * 4096)) =
      (of_nat (s * 4096 + length (irom_bytes r)), of_nat T)" "(of_nat (s * 4096 + length (irom_bytes r)) :: u32) > 0"
    by (simp_all add: T_def del: of_nat_mult of_nat_add)
  moreover have "(of_nat from :: u32) \<noteq> 0"
  proof -
    have "unat (of_nat from :: u32) = from" using i(5,9) by (simp add: unat_u32_of_nat)
    then show ?thesis using i(2) by (metis less_numeral_extra(3) unat_0)
  qed
  ultimately have "esp_load irom_chksum io (of_nat from) (of_nat (s * 4096)) f = (of_nat (s * 4096 + length (irom_bytes r)), f1)"
    using check by (simp add: esp_load_def f1_def [symmetric] numeral_3_eq_3 Let_def del: of_nat_mult of_nat_add)
  with f1 show ?thesis by blast
qed

section \<open>The configuration\<close>

definition stored_cfg :: "u8 list \<Rightarrow> espboot_cfg" where
  "stored_cfg m = read_cfg (take 20 (drop 4096 m))"

definition cfg_ok :: "espboot_cfg \<Rightarrow> bool" where
  "cfg_ok cfg \<longleftrightarrow> cfg_magic cfg = ESP_CONFIG_MAGIC \<and> cfg_chksum cfg = esp_calc_chksum (cfg_body cfg)"

definition sum_cfg :: "espboot_cfg \<Rightarrow> espboot_cfg" where
  "sum_cfg cfg = cfg\<lparr>cfg_chksum := esp_calc_chksum (cfg_body cfg)\<rparr>"

lemma length_cfg_bytes: "length (cfg_padding cfg) = 3 \<Longrightarrow> length (cfg_bytes cfg) = 20"
  by (simp add: cfg_bytes_def cfg_body_def)

lemma sum_cfg_ok: "cfg_magic cfg = ESP_CONFIG_MAGIC \<Longrightarrow> cfg_ok (sum_cfg cfg)"
  by (simp add: cfg_ok_def sum_cfg_def cfg_body_def)

lemma read_cfg_bytes: "read_cfg (cfg_bytes cfg) = cfg"
proof -
  have "le32 (cfg_bytes cfg) 0 = cfg_magic cfg" "le32 (cfg_bytes cfg) 4 = app_rom_addr cfg"
    "le32 (cfg_bytes cfg) 8 = new_rom_addr cfg" "le32 (cfg_bytes cfg) 12 = backup_rom_addr cfg"
    using le32_put32_at [of "[]" 0 "cfg_magic cfg"]
      le32_put32_at [of "put32 (cfg_magic cfg)" 4 "app_rom_addr cfg"]
      le32_put32_at [of "put32 (cfg_magic cfg) @ put32 (app_rom_addr cfg)" 8 "new_rom_addr cfg"]
      le32_put32_at [of "put32 (cfg_magic cfg) @ put32 (app_rom_addr cfg) @ put32 (new_rom_addr cfg)" 12 "backup_rom_addr cfg"]
    by (simp_all add: cfg_bytes_def cfg_body_def)
  moreover have "cfg_bytes cfg ! 16 = cfg_chksum cfg" "drop 17 (cfg_bytes cfg) = cfg_padding cfg"
    by (simp_all add: cfg_bytes_def cfg_body_def nth_append)
  ultimately show ?thesis by (simp add: read_cfg_def)
qed

lemma esp_config_addr: "ESP_SECTOR_SIZE = 0x1000" "ESP_CONFIG_SECTOR = 1"
  by (simp_all add: ESP_CONFIG_SECTOR_def ESP_SECTOR_SIZE_def)

lemma load_boot_cfg_ok:
  assumes "flash_chip io mem" and "8192 \<le> length (mem f)" and "cfg_ok (stored_cfg (mem f))"
  shows "load_boot_cfg io f = Some (stored_cfg (mem f), f)"
proof -
  have "SPIRead io 0x1000 20 f = (True, take 20 (drop 4096 (mem f)))"
    using flash_readD [OF assms(1), of "0x1000" 20 f] assms(2) by simp
  then show ?thesis using assms(3) by (simp add: load_boot_cfg_def esp_config_addr stored_cfg_def cfg_ok_def)
qed

lemma save_boot_cfg_saves:
  assumes "flash_chip io mem" and "8192 \<le> length (mem f)" and "length (cfg_padding cfg) = 3"
  shows "\<exists>f'. save_boot_cfg io cfg f = Some (sum_cfg cfg, f') \<and>
     mem f' = take 4096 (mem f) @ cfg_bytes (sum_cfg cfg) @ replicate 4076 0xff @ drop 8192 (mem f)"
proof -
  have len: "length (cfg_bytes (sum_cfg cfg)) = 20" using assms(3) by (intro length_cfg_bytes) (simp add: sum_cfg_def)
  obtain f1 f2 where "SPIEraseSector io 1 f = (True, f1)" "SPIWrite io 0x1000 (cfg_bytes (sum_cfg cfg)) f1 = (True, f2)"
    "mem f2 = take 4096 (mem f) @ cfg_bytes (sum_cfg cfg) @ replicate 4076 0xff @ drop 8192 (mem f)"
    using rewrite_sector_start [OF assms(1), of 1 f "cfg_bytes (sum_cfg cfg)" "0x1000"] assms(2) len by auto
  then show ?thesis by (simp add: save_boot_cfg_def esp_config_addr sum_cfg_def)
qed

section \<open>Properties\<close>

text \<open>
  C31: espboot's check_image and its RAM loader are equivalent to those of rBoot, whatever the flash returns: the
  same images are accepted, with the same address, and are loaded to the same memory.
\<close>

theorem espboot_check_as_rboot:
  "fst (esp_check_image (BOOT_IROM_CHKSUM opts) spi start) = check_image opts spi start \<and>
     ram_load_rom spi readpos mem = load_rom spi readpos mem"
  using esp_check_image_eq [OF refl] ram_load_rom_eq by blast

text \<open>The copying of an announced image followed by the writing of a configuration.\<close>

lemma load_and_save:
  assumes chip: "flash_chip io mem" and inst: "installable irom_chksum r from s n (mem f)" and s: "2 \<le> s"
    and pad: "length (cfg_padding cfg) = 3"
  defines "app \<equiv> of_nat (s * 4096 + length (irom_bytes r)) :: u32"
  shows "\<exists>f1 f2. esp_load irom_chksum io (of_nat from) (of_nat (s * 4096)) f = (app, f1) \<and>
     save_boot_cfg io cfg f1 = Some (sum_cfg cfg, f2) \<and>
     mem f2 = take 4096 (mem f) @ cfg_bytes (sum_cfg cfg) @ replicate 4076 0xff @ drop 8192 (copied from s n (mem f)) \<and>
     app > 0 \<and> fst (esp_check_image irom_chksum (\<lambda>a n. SPIRead io a n f2) (of_nat (s * 4096))) = app"
proof -
  let ?c = "rom_chksum \<lparr>BOOT_CONFIG_CHKSUM = False, BOOT_BIG_FLASH = False, BOOT_IROM_CHKSUM = irom_chksum\<rparr> r"
  obtain post where i: "rom_ok r" "length (mem f) < 2 ^ 32" "drop from (mem f) = rom_bytes r ?c @ post"
    "n = copied_sectors r" "s * 4096 + n * 4096 \<le> length (mem f)" "from + n * 4096 \<le> length (mem f)"
    using inst unfolding installable_def by blast
  have "length (rom_bytes r 0) + 4 \<le> n * 4096" using sectors_bound [of "length (rom_bytes r 0) + 4"] by (simp add: i(4) copied_sectors_eq [OF i(1)])
  then have fits: "length (rom_bytes r ?c) \<le> n * 4096" by (simp add: rom_bytes_def)
  have len: "8192 \<le> length (mem f)" using i(5) s by simp
  obtain f1 where f1: "esp_load irom_chksum io (of_nat from) (of_nat (s * 4096)) f = (app, f1)" "mem f1 = copied from s n (mem f)"
    unfolding app_def using esp_load_installs [OF chip inst] by blast
  have len1: "length (mem f1) = length (mem f)" using i(5,6) by (simp add: f1(2) length_copied)
  obtain f2 where f2: "save_boot_cfg io cfg f1 = Some (sum_cfg cfg, f2)"
    "mem f2 = take 4096 (mem f1) @ cfg_bytes (sum_cfg cfg) @ replicate 4076 0xff @ drop 8192 (mem f1)"
    using save_boot_cfg_saves [OF chip _ pad, of f1] len len1 by auto
  have cb: "length (cfg_bytes (sum_cfg cfg)) = 20" using pad by (intro length_cfg_bytes) (simp add: sum_cfg_def)
  have take1: "take 4096 (mem f1) = take 4096 (mem f)" using s len by (simp add: f1(2) copied_def)
  have len2: "length (mem f2) = length (mem f)" using len len1 cb by (simp add: f2(2))
  have "drop (s * 4096) (mem f2) = drop (s * 4096) (mem f1)" using s len cb by (simp add: f2(2) take1)
  also have "\<dots> = rom_bytes r ?c @ take (n * 4096 - length (rom_bytes r ?c)) post @ drop (s * 4096 + n * 4096) (mem f)"
    using fits i(5) by (simp add: f1(2) copied_def i(3))
  finally have image: "drop (s * 4096) (mem f2) =
      rom_bytes r ?c @ take (n * 4096 - length (rom_bytes r ?c)) post @ drop (s * 4096 + n * 4096) (mem f)" .
  have "fst (esp_check_image irom_chksum (\<lambda>a n. SPIRead io a n f2) (of_nat (s * 4096))) = app" "app > 0"
    unfolding app_def using esp_check_image_at [OF flash_reads [OF chip] _ _ i(1) image] len2 i(2) s
    by (simp_all del: of_nat_mult of_nat_add)
  then show ?thesis using f1(1) f2 unfolding take1 unfolding f1(2) by blast
qed

text \<open>
  C32: with a valid configuration that announces a good image at \<open>from\<close>, espboot copies the sectors of
  the image to sector \<open>s\<close>, the place of the application, and one sector more when the image ends on
  the boundary of a sector; it rewrites the configuration sector with the configuration without the
  announcement, followed by erased bytes; every other byte of the flash stays as it is; and it boots
  the copy. A restart boots the copy again and changes nothing.
\<close>

theorem espboot_installs:
  assumes "flash_chip io mem" and "cfg = stored_cfg (mem f)" and "cfg_ok cfg"
    and "new_rom_addr cfg = of_nat from" and "app_rom_addr cfg = of_nat (s * 4096)"
    and "installable irom_chksum r from s n (mem f)" and "2 \<le> s"
  shows "\<exists>f'. espboot_start irom_chksum io f = Boots (of_nat (s * 4096 + length (irom_bytes r))) f' \<and>
     mem f' = take 4096 (mem f) @ cfg_bytes (sum_cfg (cfg\<lparr>new_rom_addr := 0\<rparr>)) @ replicate 4076 0xff
       @ take (s * 4096 - 8192) (drop 8192 (mem f)) @ take (n * 4096) (drop from (mem f))
       @ drop (s * 4096 + n * 4096) (mem f) \<and>
     n = sectors (length (rom_bytes r 0)) + (if 4096 dvd length (rom_bytes r 0) then 1 else 0) \<and>
     espboot_start irom_chksum io f' = Boots (of_nat (s * 4096 + length (irom_bytes r))) f'"
proof -
  let ?cfg = "cfg\<lparr>new_rom_addr := 0\<rparr>" and ?app = "of_nat (s * 4096 + length (irom_bytes r)) :: u32"
  have i: "0 < from" "length (mem f) < 2 ^ 32" "from + n * 4096 \<le> length (mem f)" "s * 4096 + n * 4096 \<le> length (mem f)"
    using assms(6) unfolding installable_def by blast+
  have len: "8192 \<le> length (mem f)" and room: "s * 4096 \<le> length (mem f)" using i(4) assms(7) by simp_all
  have new: "new_rom_addr cfg > 0"
  proof -
    have "unat (of_nat from :: u32) = from" using i(2,3) by (simp add: unat_u32_of_nat)
    then show ?thesis using i(1) assms(4) by (simp add: word_less_nat_alt)
  qed
  have pad: "length (cfg_padding ?cfg) = 3" using len by (simp add: assms(2) stored_cfg_def read_cfg_def)
  obtain f1 f2 where f1: "esp_load irom_chksum io (of_nat from) (of_nat (s * 4096)) f = (?app, f1)"
    and f2: "save_boot_cfg io ?cfg f1 = Some (sum_cfg ?cfg, f2)"
      "mem f2 = take 4096 (mem f) @ cfg_bytes (sum_cfg ?cfg) @ replicate 4076 0xff @ drop 8192 (copied from s n (mem f))"
    and app: "?app > 0" "fst (esp_check_image irom_chksum (\<lambda>a n. SPIRead io a n f2) (of_nat (s * 4096))) = ?app"
    using load_and_save [OF assms(1,6,7) pad] by blast
  have first: "espboot_start irom_chksum io f = Boots ?app f2"
    using load_boot_cfg_ok [OF assms(1) len] assms(2-5) new f1 f2(1) app(1)
    by (simp add: espboot_start_def save_and_boot_def del: of_nat_mult of_nat_add)
  have cb: "length (cfg_bytes (sum_cfg ?cfg)) = 20" using pad by (intro length_cfg_bytes) (simp add: sum_cfg_def)
  have st: "stored_cfg (mem f2) = sum_cfg ?cfg" using len cb by (simp add: stored_cfg_def f2(2) read_cfg_bytes)
  have "cfg_ok (sum_cfg ?cfg)" using assms(3) by (intro sum_cfg_ok) (simp add: cfg_ok_def)
  moreover have "8192 \<le> length (mem f2)" using len cb by (simp add: f2(2))
  ultimately have "load_boot_cfg io f2 = Some (sum_cfg ?cfg, f2)"
    using load_boot_cfg_ok [OF assms(1), of f2] by (simp add: st)
  then have "espboot_start irom_chksum io f2 = Boots ?app f2"
    using app assms(5) by (simp add: espboot_start_def sum_cfg_def numeral_3_eq_3 Let_def del: of_nat_mult of_nat_add)
  moreover have "n = copied_sectors r" using assms(6) by (simp add: installable_def)
  moreover note f2(2) [unfolded drop_copied [OF assms(7) room]]
  ultimately show ?thesis using first by (auto simp: copied_sectors_def)
qed

definition demo_cfg :: espboot_cfg where
  "demo_cfg =
     sum_cfg \<lparr>cfg_magic = 0xf01a, app_rom_addr = 0x2000, new_rom_addr = 0x3000, backup_rom_addr = 0x300000,
       cfg_chksum = 0, cfg_padding = [0, 0, 0]\<rparr>"

definition demo_update :: "u8 list" where
  "demo_update =
     replicate 4096 0xff @ cfg_bytes demo_cfg @ replicate 4076 0 @ replicate 4096 0xff
       @ rom_bytes demo_rom 0xec @ replicate 4096 0xff"

lemma demo_length: "length (cfg_bytes demo_cfg) = 20" "length (rom_bytes demo_rom c) = 32"
  by (simp_all add: length_cfg_bytes demo_cfg_def sum_cfg_def rom_bytes_def irom_bytes_def main_bytes_def demo_rom_def
      section_bytes_def)

lemma demo_irom: "irom_bytes demo_rom = []"
  by (simp add: irom_bytes_def demo_rom_def)

lemma demo_stored: "stored_cfg demo_update = demo_cfg"
  by (simp add: stored_cfg_def demo_update_def demo_length read_cfg_bytes)

lemma demo_chksum: "BOOT_IROM_CHKSUM opts = b \<Longrightarrow> rom_chksum opts demo_rom = 0xec"
  by (simp add: rom_chksum_def demo_rom_def CHKSUM_INIT_def)

lemma demo_installable: "installable False demo_rom 12288 2 1 demo_update"
proof -
  have "drop 12288 demo_update = rom_bytes demo_rom 0xec @ replicate 4096 0xff"
    by (simp add: demo_update_def demo_length)
  moreover have "length demo_update = 16416" by (simp add: demo_update_def demo_length)
  moreover have "rom_ok demo_rom" by (simp add: rom_ok_def demo_rom_def)
  ultimately show ?thesis
    by (auto simp: installable_def copied_sectors_def demo_length sectors_def demo_chksum [OF refl])
qed

theorem espboot_installs_witness:
  "\<exists>f'. espboot_start False nor_flash demo_update = Boots (of_nat (2 * 4096 + length (irom_bytes demo_rom))) f' \<and>
     id f' = take 4096 (id demo_update) @ cfg_bytes (sum_cfg (demo_cfg\<lparr>new_rom_addr := 0\<rparr>)) @ replicate 4076 0xff
       @ take (2 * 4096 - 8192) (drop 8192 (id demo_update)) @ take (1 * 4096) (drop 12288 (id demo_update))
       @ drop (2 * 4096 + 1 * 4096) (id demo_update) \<and>
     1 = sectors (length (rom_bytes demo_rom 0)) + (if 4096 dvd length (rom_bytes demo_rom 0) then 1 else 0) \<and>
     espboot_start False nor_flash f' = Boots (of_nat (2 * 4096 + length (irom_bytes demo_rom))) f'"
proof (rule espboot_installs [OF nor_flash_chip])
  show "demo_cfg = stored_cfg (id demo_update)" by (simp add: demo_stored)
  show "cfg_ok demo_cfg" unfolding demo_cfg_def by (rule sum_cfg_ok) (simp add: ESP_CONFIG_MAGIC_def)
  show "new_rom_addr demo_cfg = of_nat 12288" "app_rom_addr demo_cfg = of_nat (2 * 4096)"
    by (simp_all add: demo_cfg_def sum_cfg_def)
  show "installable False demo_rom 12288 2 1 (id demo_update)" using demo_installable by simp
qed simp

lemma esp_check_image_bad_header:
  "spi start 16 = (True, h) \<Longrightarrow> h ! 0 \<noteq> ESP_MAGIC_FLASH \<Longrightarrow> h ! 0 \<noteq> ESP_MAGIC_IROM \<Longrightarrow> esp_check_image ick spi start = (0, start)"
  by (simp add: esp_check_image_def)

text \<open>
  When the first copy of a good image leaves no header at its destination, because a read or a write has failed,
  the second attempt copies not the image's size but as many bytes as the destination address says.
\<close>

theorem espboot_retry_size:
  assumes "from_addr \<noteq> 0" and "esp_check_image irom_chksum (\<lambda>a n. SPIRead io a n f) from_addr = (romaddr, total_size)"
    and "romaddr > 0" and "f1 = load_app io from_addr to_addr total_size f" and "SPIRead io to_addr 16 f1 = (True, h)"
    and "h ! 0 \<noteq> ESP_MAGIC_FLASH" and "h ! 0 \<noteq> ESP_MAGIC_IROM"
  shows "esp_load irom_chksum io from_addr to_addr f = load_tries irom_chksum io 2 from_addr to_addr to_addr f1"
proof -
  have "esp_check_image irom_chksum (\<lambda>a n. SPIRead io a n f1) to_addr = (0, to_addr)"
    by (rule esp_check_image_bad_header) (use assms in auto)
  then show ?thesis using assms by (simp add: esp_load_def numeral_3_eq_3 numeral_2_eq_2 Let_def)
qed

definition read_only :: "u8 list spi_flash" where
  "read_only = nor_flash\<lparr>SPIWrite := \<lambda>a bs f. (False, f)\<rparr>"

theorem espboot_retry_size_witness:
  "esp_load False read_only 0x3000 0x2000 demo_update =
     load_tries False read_only 2 0x3000 0x2000 0x2000 (load_app read_only 0x3000 0x2000 36 demo_update)"
proof (rule espboot_retry_size)
  have i: "installable False demo_rom 12288 2 1 demo_update" by (rule demo_installable)
  have "reads (\<lambda>a n. SPIRead nor_flash a n demo_update) demo_update"
    using flash_reads [OF nor_flash_chip, of demo_update] i by (simp add: installable_def)
  moreover have "drop 12288 demo_update = rom_bytes demo_rom 0xec @ replicate 4096 0xff"
    by (simp add: demo_update_def demo_length)
  ultimately have "esp_check_image False (\<lambda>a n. SPIRead nor_flash a n demo_update) (of_nat 12288) =
      (of_nat (12288 + length (irom_bytes demo_rom)), of_nat (length (rom_bytes demo_rom 0) + 4))"
    by (intro esp_check_image_at [THEN conjunct1]) (simp_all add: rom_ok_def demo_rom_def demo_chksum [OF refl, unfolded demo_rom_def])
  then show "esp_check_image False (\<lambda>a n. SPIRead read_only a n demo_update) 0x3000 = (0x3000, 36)"
    by (simp add: read_only_def demo_length demo_irom)
  have "load_app read_only 0x3000 0x2000 36 demo_update =
      take 8192 demo_update @ replicate 4096 0xff @ drop 12288 demo_update"
    unfolding load_app_def by (subst load_app_loop.simps)
      (simp add: read_only_def nor_flash_def ESP_SECTOR_SIZE_def demo_update_def demo_length)
  then show "SPIRead read_only 0x2000 16 (load_app read_only 0x3000 0x2000 36 demo_update) = (True, replicate 16 0xff)"
    by (simp add: read_only_def nor_flash_def demo_update_def demo_length)
qed (simp_all add: ESP_MAGIC_FLASH_def ESP_MAGIC_IROM_def)

end
