(* ===== verification/Cron.thy ===== *)
theory Cron
  imports Prelude
begin

text \<open>
  The timer tables of lib/noduino/cron: a sorted linked list of periodic jobs and a list of timeouts, both driven by
  a clock tick. The nodes are in an explicit store, so that a pointer to a freed node is a dangling address;
  \<open>None\<close> is undefined behaviour or a loop that does not end. A function pointer is a number, and the calls are
  returned; the functions that are called do not change the tables. \<open>malloc\<close> is a parameter that yields an
  address for the store at hand.
\<close>

section \<open>State\<close>

text \<open>The nodes of both lists: \<open>n_time\<close> is total_ms of a job and ms_left of a timeout.\<close>

record cron_node =
  n_id :: u8
  n_time :: u32
  n_fn :: nat
  n_next :: "nat option"

type_synonym store = "nat \<rightharpoonup> cron_node"

record cron_borders =
  b_first :: "nat option"
  b_last :: "nat option"

record cron =
  c_jobs :: store
  crontab_ptr :: cron_borders
  c_timeouts :: store
  timeout_ptr :: cron_borders
  nextidentifyer :: u8
  system_ms :: u32
  execution_ms :: u32
  system_days :: u8
  cron_seconds :: u32
  cron_minutes :: u32
  cron_hours :: u32

text \<open>Arithmetic of type int, undefined where it overflows.\<close>

definition c_int :: "int \<Rightarrow> int option" where
  "c_int x = (if - (2 ^ 31) \<le> x \<and> x < 2 ^ 31 then Some x else None)"

definition total_time :: "int \<Rightarrow> int \<Rightarrow> int \<Rightarrow> int \<Rightarrow> u32 option" where
  "total_time ms sec mins hours =
     do { s \<leftarrow> c_int (sec * 1000);
          m \<leftarrow> c_int (mins * 60); m \<leftarrow> c_int (m * 1000);
          h \<leftarrow> c_int (hours * 60); h \<leftarrow> c_int (h * 60); h \<leftarrow> c_int (h * 1000);
          t \<leftarrow> c_int (ms + s); t \<leftarrow> c_int (t + m); t \<leftarrow> c_int (t + h);
          Some (word_of_int t) }"

section \<open>The clock\<close>

definition cron_increment_clock :: "cron \<Rightarrow> cron" where
  "cron_increment_clock c =
     (let c = c\<lparr>system_ms := system_ms c + 1, execution_ms := execution_ms c + 1\<rparr>
      in if system_ms c \<ge> 86400000 then
           let c = c\<lparr>system_ms := 0, system_days := system_days c + 1\<rparr>
           in if system_days c = 255 then c\<lparr>system_days := 0\<rparr> else c
         else c)"

text \<open>The quotients are unsigned and the floor of each is the integer itself.\<close>

definition cron_calculate_uptime_hms :: "cron \<Rightarrow> cron" where
  "cron_calculate_uptime_hms c =
     (let s = system_ms c div 1000;
          h = s div 60 div 60;
          m = (s - h * 60 * 60) div 60
      in c\<lparr>cron_hours := h, cron_minutes := m, cron_seconds := s - (h * 60 * 60 + m * 60)\<rparr>)"

section \<open>Executing\<close>

text \<open>The loop over the jobs; the remainder of a division by a period of 0 is undefined.\<close>

partial_function (option) run_jobs :: "store \<Rightarrow> u32 \<Rightarrow> nat option \<Rightarrow> nat list \<Rightarrow> nat list option" where
  "run_jobs h t current calls =
     (case current of
        None \<Rightarrow> Some calls
      | Some a \<Rightarrow>
          (case h a of
             None \<Rightarrow> None
           | Some n \<Rightarrow>
               if n_time n \<le> t then
                 if n_time n = 0 then None
                 else run_jobs h t (n_next n) (if t mod n_time n = 0 then calls @ [n_fn n] else calls)
               else Some calls))"

definition cron_execute_jobs :: "cron \<Rightarrow> (nat list \<times> cron) option" where
  "cron_execute_jobs c =
     (case b_first (crontab_ptr c) of
        None \<Rightarrow> Some ([], c)
      | Some a \<Rightarrow>
          do { f \<leftarrow> c_jobs c a;
               if execution_ms c < n_time f then Some ([], c)
               else
                 do { b \<leftarrow> b_last (crontab_ptr c);
                      l \<leftarrow> c_jobs c b;
                      let c = (if execution_ms c > n_time l then c\<lparr>execution_ms := 1\<rparr> else c);
                      calls \<leftarrow> run_jobs (c_jobs c) (execution_ms c) (Some a) [];
                      Some (calls, c) } })"

text \<open>A timeout is called when its unsigned counter has just become 0.\<close>

partial_function (option) run_timeouts :: "store \<Rightarrow> nat option \<Rightarrow> nat list \<Rightarrow> (nat list \<times> store) option" where
  "run_timeouts h current calls =
     (case current of
        None \<Rightarrow> Some (calls, h)
      | Some a \<Rightarrow>
          (case h a of
             None \<Rightarrow> None
           | Some n \<Rightarrow>
               let n = n\<lparr>n_time := n_time n - 1\<rparr>
               in run_timeouts (h(a \<mapsto> n)) (n_next n) (if n_time n \<le> 0 then calls @ [n_fn n] else calls)))"

definition cron_execute_timeout :: "cron \<Rightarrow> (nat list \<times> cron) option" where
  "cron_execute_timeout c =
     do { (calls, h) \<leftarrow> run_timeouts (c_timeouts c) (b_first (timeout_ptr c)) [];
          Some (calls, c\<lparr>c_timeouts := h\<rparr>) }"

definition cron_timerfunc :: "cron \<Rightarrow> (nat list \<times> cron) option" where
  "cron_timerfunc c =
     do { (calls, c) \<leftarrow> cron_execute_jobs (cron_increment_clock c);
          (calls', c) \<leftarrow> cron_execute_timeout c;
          Some (calls @ calls', c) }"

section \<open>The tables\<close>

text \<open>cron_init leaves the execution counter as it is, and does not free what it replaces.\<close>

definition cron_init :: "bool \<Rightarrow> bool \<Rightarrow> cron \<Rightarrow> cron option" where
  "cron_init malloc1 malloc2 c =
     (if malloc1 \<and> malloc2 then
        Some (c\<lparr>system_ms := 0, system_days := 0, cron_seconds := 0, cron_minutes := 0, cron_hours := 0,
                nextidentifyer := 1, crontab_ptr := \<lparr>b_first = None, b_last = None\<rparr>,
                timeout_ptr := \<lparr>b_first = None, b_last = None\<rparr>\<rparr>)
      else None)"

text \<open>The search for the place of a new job \<open>a\<close> that is not the last.\<close>

partial_function (option) insert_job ::
  "nat \<Rightarrow> u32 \<Rightarrow> nat option \<Rightarrow> nat option \<Rightarrow> store \<Rightarrow> cron_borders \<Rightarrow> (store \<times> cron_borders) option" where
  "insert_job a t previous current h b =
     (case current of
        None \<Rightarrow> Some (h, b)
      | Some p \<Rightarrow>
          (case h p of
             None \<Rightarrow> None
           | Some n \<Rightarrow>
               if t \<le> n_time n then
                 (case previous of
                    None \<Rightarrow> Some (h(a \<mapsto> (the (h a))\<lparr>n_next := Some p\<rparr>), b\<lparr>b_first := Some a\<rparr>)
                  | Some q \<Rightarrow>
                      (let h = h(q \<mapsto> (the (h q))\<lparr>n_next := Some a\<rparr>)
                       in Some (h(a \<mapsto> (the (h a))\<lparr>n_next := Some p\<rparr>), b)))
               else insert_job a t (Some p) (n_next n) h b))"

definition cron_add_job ::
  "(store \<Rightarrow> nat option) \<Rightarrow> int \<Rightarrow> int \<Rightarrow> int \<Rightarrow> int \<Rightarrow> nat \<Rightarrow> cron \<Rightarrow> (u8 \<times> cron) option" where
  "cron_add_job malloc ms sec mins hours fn c =
     do { a \<leftarrow> malloc (c_jobs c);
          t \<leftarrow> total_time ms sec mins hours;
          let ident = nextidentifyer c;
          let h = (c_jobs c)(a \<mapsto> \<lparr>n_id = ident, n_time = t, n_fn = fn, n_next = None\<rparr>);
          let b = crontab_ptr c;
          (h, b) \<leftarrow>
            (case b_last b of
               None \<Rightarrow> Some (h, b\<lparr>b_last := Some a, b_first := Some a\<rparr>)
             | Some l \<Rightarrow>
                 do { n \<leftarrow> h l;
                      if n_time n < t then Some (h(l \<mapsto> n\<lparr>n_next := Some a\<rparr>), b\<lparr>b_last := Some a\<rparr>)
                      else insert_job a t None (b_first b) h b });
          Some (ident, c\<lparr>nextidentifyer := ident + 1, c_jobs := h, crontab_ptr := b\<rparr>) }"

text \<open>The search for a timeout with the given identifier: its address, if there is one.\<close>

partial_function (option) find_node :: "u8 \<Rightarrow> nat option \<Rightarrow> store \<Rightarrow> nat option option" where
  "find_node ident current h =
     (case current of
        None \<Rightarrow> Some None
      | Some p \<Rightarrow>
          (case h p of
             None \<Rightarrow> None
           | Some n \<Rightarrow> if n_id n = ident then Some (Some p) else find_node ident (n_next n) h))"

definition cron_set_timeout ::
  "(store \<Rightarrow> nat option) \<Rightarrow> u8 \<Rightarrow> int \<Rightarrow> int \<Rightarrow> int \<Rightarrow> int \<Rightarrow> nat \<Rightarrow> cron \<Rightarrow> cron option" where
  "cron_set_timeout malloc ident ms sec mins hours fn c =
     do { t \<leftarrow> total_time ms sec mins hours;
          found \<leftarrow> find_node ident (b_first (timeout_ptr c)) (c_timeouts c);
          (case found of
             Some p \<Rightarrow>
               Some (c\<lparr>c_timeouts := (c_timeouts c)(p \<mapsto> (the (c_timeouts c p))\<lparr>n_time := t, n_fn := fn\<rparr>)\<rparr>)
           | None \<Rightarrow>
               do { a \<leftarrow> malloc (c_timeouts c);
                    let h = (c_timeouts c)(a \<mapsto> \<lparr>n_id = ident, n_time = t, n_fn = fn, n_next = None\<rparr>);
                    let b = timeout_ptr c;
                    (case b_last b of
                       None \<Rightarrow> Some (c\<lparr>c_timeouts := h, timeout_ptr := b\<lparr>b_last := Some a, b_first := Some a\<rparr>\<rparr>)
                     | Some l \<Rightarrow>
                         do { n \<leftarrow> h l;
                              Some (c\<lparr>c_timeouts := h(l \<mapsto> n\<lparr>n_next := Some a\<rparr>),
                                      timeout_ptr := b\<lparr>b_last := Some a\<rparr>\<rparr>) }) }) }"

text \<open>The removal, the same code for both lists; \<open>last\<close> is left alone.\<close>

partial_function (option) remove_node ::
  "u8 \<Rightarrow> nat option \<Rightarrow> nat option \<Rightarrow> store \<Rightarrow> cron_borders \<Rightarrow> (store \<times> cron_borders) option" where
  "remove_node ident previous current h b =
     (case current of
        None \<Rightarrow> Some (h, b)
      | Some p \<Rightarrow>
          (case h p of
             None \<Rightarrow> None
           | Some n \<Rightarrow>
               if n_id n = ident then
                 (if Some p = b_first b then Some (h(p := None), b\<lparr>b_first := n_next n\<rparr>)
                  else
                    do { q \<leftarrow> previous;
                         m \<leftarrow> h q;
                         Some ((h(q \<mapsto> m\<lparr>n_next := n_next n\<rparr>))(p := None), b) })
               else remove_node ident (Some p) (n_next n) h b))"

definition cron_remove_job :: "u8 \<Rightarrow> cron \<Rightarrow> cron option" where
  "cron_remove_job jobid c =
     do { (h, b) \<leftarrow> remove_node jobid None (b_first (crontab_ptr c)) (c_jobs c) (crontab_ptr c);
          Some (c\<lparr>c_jobs := h, crontab_ptr := b\<rparr>) }"

definition cron_remove_timeout :: "u8 \<Rightarrow> cron \<Rightarrow> cron option" where
  "cron_remove_timeout ident c =
     do { (h, b) \<leftarrow> remove_node ident None (b_first (timeout_ptr c)) (c_timeouts c) (timeout_ptr c);
          Some (c\<lparr>c_timeouts := h, timeout_ptr := b\<rparr>) }"

partial_function (option) clear_nodes :: "nat option \<Rightarrow> store \<Rightarrow> store option" where
  "clear_nodes first h =
     (case first of
        None \<Rightarrow> Some h
      | Some p \<Rightarrow> (case h p of None \<Rightarrow> None | Some n \<Rightarrow> clear_nodes (n_next n) (h(p := None))))"

definition cron_clear :: "cron \<Rightarrow> cron option" where
  "cron_clear c =
     do { h \<leftarrow> clear_nodes (b_first (crontab_ptr c)) (c_jobs c);
          Some (c\<lparr>c_jobs := h, crontab_ptr := \<lparr>b_first = None, b_last = None\<rparr>\<rparr>) }"

partial_function (option) count_nodes :: "store \<Rightarrow> nat option \<Rightarrow> int \<Rightarrow> int option" where
  "count_nodes h current cnt =
     (case current of
        None \<Rightarrow> Some cnt
      | Some p \<Rightarrow> (case h p of None \<Rightarrow> None | Some n \<Rightarrow> count_nodes h (n_next n) (cnt + 1)))"

definition cron_count_jobs :: "cron \<Rightarrow> int option" where
  "cron_count_jobs c = count_nodes (c_jobs c) (b_first (crontab_ptr c)) 0"

definition cron_count_timeouts :: "cron \<Rightarrow> int option" where
  "cron_count_timeouts c = count_nodes (c_timeouts c) (b_first (timeout_ptr c)) 0"

end
