(* ===== verification/Cron_Table.thy ===== *)
theory Cron_Table
  imports Cron
begin

text \<open>
  What the timer tables do: the linked lists as lists of nodes, the jobs as a sorted list on which the operations
  act as on an abstract table, the schedule by which the jobs are called, and the dangling \<open>last\<close> pointer.
\<close>

section \<open>Linked lists\<close>

text \<open>The nodes at \<open>as\<close> are linked from \<open>p\<close> on, up to the pointer \<open>q\<close>.\<close>

fun lseg :: "store \<Rightarrow> nat option \<Rightarrow> nat list \<Rightarrow> nat option \<Rightarrow> bool" where
  "lseg h p [] q \<longleftrightarrow> p = q"
| "lseg h p (a # as) q \<longleftrightarrow> p = Some a \<and> (\<exists>n. h a = Some n \<and> lseg h (n_next n) as q)"

lemma lseg_append: "lseg h p (xs @ ys) q \<longleftrightarrow> (\<exists>r. lseg h p xs r \<and> lseg h r ys q)"
  by (induction xs arbitrary: p) auto

lemma lseg_frame [simp]: "a \<notin> set as \<Longrightarrow> lseg (h(a := x)) p as q = lseg h p as q"
  by (induction as arbitrary: p) auto

lemma lseg_snoc: "lseg h p (xs @ [a]) q \<longleftrightarrow> (\<exists>n. lseg h p xs (Some a) \<and> h a = Some n \<and> n_next n = q)"
  by (auto simp: lseg_append)

lemma lseg_dom: "lseg h p as q \<Longrightarrow> set as \<subseteq> dom h"
  by (induction as arbitrary: p) auto

type_synonym job = "u8 \<times> u32 \<times> nat"

definition job_at :: "store \<Rightarrow> nat \<Rightarrow> job" where
  "job_at h a = (n_id (the (h a)), n_time (the (h a)), n_fn (the (h a)))"

abbreviation job_id :: "job \<Rightarrow> u8" where "job_id \<equiv> fst"
abbreviation job_time :: "job \<Rightarrow> u32" where "job_time j \<equiv> fst (snd j)"
abbreviation job_fn :: "job \<Rightarrow> nat" where "job_fn j \<equiv> snd (snd j)"

lemma job_at_frame [simp]: "p \<noteq> a \<Longrightarrow> job_at (h(a := x)) p = job_at h p"
  by (simp add: job_at_def)

lemma map_job_at_frame [simp]: "a \<notin> set as \<Longrightarrow> map (job_at (h(a := x))) as = map (job_at h) as"
  by (induction as) auto

text \<open>The addresses of a list with its borders.\<close>

definition linked :: "store \<Rightarrow> cron_borders \<Rightarrow> nat list \<Rightarrow> bool" where
  "linked h b as \<longleftrightarrow>
     lseg h (b_first b) as None \<and> distinct as \<and> b_last b = (if as = [] then None else Some (last as))"

definition jobs_are :: "cron \<Rightarrow> job list \<Rightarrow> bool" where
  "jobs_are c js \<longleftrightarrow>
     (\<exists>as. linked (c_jobs c) (crontab_ptr c) as \<and> js = map (job_at (c_jobs c)) as) \<and> sorted (map job_time js) \<and>
     finite (dom (c_jobs c))"

section \<open>Adding\<close>

lemma insert_job_links:
  assumes "lseg h (b_first b) xs current" and "lseg h current ys None" and "distinct (xs @ ys)" and "a \<notin> set (xs @ ys)"
    and "previous = (if xs = [] then None else Some (last xs))" and "h a = Some na"
    and "\<exists>y\<in>set ys. t \<le> job_time (job_at h y)"
    and "zs = xs @ takeWhile (\<lambda>y. job_time (job_at h y) < t) ys @ a # dropWhile (\<lambda>y. job_time (job_at h y) < t) ys"
  shows "\<exists>h' b'. insert_job a t previous current h b = Some (h', b') \<and> lseg h' (b_first b') zs None \<and>
     b_last b' = b_last b \<and> (\<forall>p. job_at h' p = job_at h p) \<and> (finite (dom h) \<longrightarrow> finite (dom h'))"
  using assms
proof (induction ys arbitrary: xs current previous)
  case (Cons y ys)
  obtain n where n: "current = Some y" "h y = Some n" "lseg h (n_next n) ys None" using Cons.prems(2) by auto
  show ?case
  proof (cases "t \<le> n_time n")
    case True
    then have "\<not> n_time n < t" by simp
    then have zs: "zs = xs @ a # y # ys" using Cons.prems(8) n(2) by (simp add: job_at_def)
    show ?thesis
    proof (cases xs rule: rev_cases)
      case Nil
      then show ?thesis using True n zs Cons.prems
        by (subst insert_job.simps) (auto simp: job_at_def)
    next
      case (snoc xs' q)
      then obtain m where m: "lseg h (b_first b) xs' (Some q)" "h q = Some m" "n_next m = Some y"
        using Cons.prems(1) n(1) by (auto simp: lseg_snoc)
      then show ?thesis using True n zs Cons.prems snoc
        by (subst insert_job.simps) (auto simp: lseg_append job_at_def Let_def)
    qed
  next
    case False
    have "\<exists>h' b'. insert_job a t (Some y) (n_next n) h b = Some (h', b') \<and> lseg h' (b_first b') zs None \<and>
     b_last b' = b_last b \<and> (\<forall>p. job_at h' p = job_at h p) \<and> (finite (dom h) \<longrightarrow> finite (dom h'))"
      by (rule Cons.IH [of "xs @ [y]"]) (use False Cons.prems n in \<open>auto simp: lseg_snoc job_at_def\<close>)
    then show ?thesis using False n by (subst insert_job.simps) simp
  qed
qed simp

text \<open>What malloc is relied on for: an address that is not in use.\<close>

definition malloc_fresh :: "(store \<Rightarrow> nat option) \<Rightarrow> bool" where
  "malloc_fresh malloc \<longleftrightarrow> (\<forall>h. finite (dom h) \<longrightarrow> (\<exists>a. malloc h = Some a \<and> h a = None))"

definition add_sorted :: "job \<Rightarrow> job list \<Rightarrow> job list" where
  "add_sorted j js = takeWhile (\<lambda>i. job_time i < job_time j) js @ j # dropWhile (\<lambda>i. job_time i < job_time j) js"

lemma add_sorted_Cons: "add_sorted j (i # js) = (if job_time i < job_time j then i # add_sorted j js else j # i # js)"
  by (simp add: add_sorted_def)

lemma set_add_sorted: "set (add_sorted j js) = insert j (set js)"
  by (induction js) (auto simp: add_sorted_Cons add_sorted_def)

lemma sorted_add_sorted:
  assumes "sorted (map job_time js)"
  shows "sorted (map job_time (add_sorted j js))"
  using assms
proof (induction js)
  case Nil
  show ?case by (simp add: add_sorted_def)
next
  case (Cons i js)
  have i: "\<forall>k\<in>set js. job_time i \<le> job_time k" "sorted (map job_time js)" using Cons.prems by simp_all
  show ?case
  proof (cases "job_time i < job_time j")
    case True
    have "\<forall>k\<in>set (add_sorted j js). job_time i \<le> job_time k"
      unfolding set_add_sorted using i(1) less_imp_le [OF True] by blast
    then show ?thesis using Cons.IH [OF i(2)] unfolding add_sorted_Cons if_P [OF True] by simp
  next
    case False
    then have j: "job_time j \<le> job_time i" unfolding not_less .
    then have "\<forall>k\<in>set (i # js). job_time j \<le> job_time k" using i(1) order_trans [OF j] by auto
    then show ?thesis using Cons.prems unfolding add_sorted_Cons if_not_P [OF False] by simp
  qed
qed

lemma last_insert_middle: "ys \<noteq> [] \<Longrightarrow> last (xs @ a # ys) = last (xs @ ys)"
  by simp

lemma distinct_insert_middle: "distinct (xs @ ys) \<Longrightarrow> a \<notin> set (xs @ ys) \<Longrightarrow> distinct (xs @ a # ys)"
  by auto

lemma takeWhile_all_less: "sorted (map job_time js) \<Longrightarrow> js \<noteq> [] \<Longrightarrow> job_time (last js) < t \<Longrightarrow> \<forall>j\<in>set js. job_time j < t"
proof (cases js rule: rev_cases)
  case (snoc xs l)
  assume "sorted (map job_time js)" "job_time (last js) < t"
  then have l: "\<forall>x\<in>set xs. job_time x \<le> job_time l" "job_time l < t" by (simp_all add: snoc sorted_append)
  then show ?thesis using le_less_trans [OF _ l(2)] by (auto simp: snoc)
qed simp

lemma cron_add_job_adds:
  assumes "jobs_are c js" and "malloc_fresh malloc" and "total_time ms sec mins hours = Some t"
  shows "\<exists>c'. cron_add_job malloc ms sec mins hours fn c = Some (nextidentifyer c, c') \<and>
     jobs_are c' (add_sorted (nextidentifyer c, t, fn) js) \<and> nextidentifyer c' = nextidentifyer c + 1"
proof -
  obtain as where as: "linked (c_jobs c) (crontab_ptr c) as" "js = map (job_at (c_jobs c)) as" "sorted (map job_time js)"
    "finite (dom (c_jobs c))"
    using assms(1) by (auto simp: jobs_are_def)
  obtain a where a: "malloc (c_jobs c) = Some a" "c_jobs c a = None" using assms(2) as(4) by (auto simp: malloc_fresh_def)
  let ?j = "(nextidentifyer c, t, fn)" and ?b = "crontab_ptr c"
  define h where "h = (c_jobs c)(a \<mapsto> \<lparr>n_id = nextidentifyer c, n_time = t, n_fn = fn, n_next = None\<rparr>)"
  have fresh: "a \<notin> set as" using as(1) a(2) lseg_dom by (fastforce simp: linked_def)
  have js: "js = map (job_at h) as" using fresh by (simp add: as(2) h_def)
  have link: "lseg h (b_first ?b) as None" "distinct as" "b_last ?b = (if as = [] then None else Some (last as))"
    using as(1) fresh by (simp_all add: linked_def h_def)
  have ja: "job_at h a = ?j" "h a = Some \<lparr>n_id = nextidentifyer c, n_time = t, n_fn = fn, n_next = None\<rparr>"
    by (simp_all add: job_at_def h_def)
  define r where "r = (case b_last ?b of
               None \<Rightarrow> Some (h, ?b\<lparr>b_last := Some a, b_first := Some a\<rparr>)
             | Some l \<Rightarrow>
                 do { n \<leftarrow> h l;
                      if n_time n < t then Some (h(l \<mapsto> n\<lparr>n_next := Some a\<rparr>), ?b\<lparr>b_last := Some a\<rparr>)
                      else insert_job a t None (b_first ?b) h ?b })"
  have fin: "finite (dom h)" using as(4) by (simp add: h_def)
  have "\<exists>h' b' as'. r = Some (h', b') \<and> linked h' b' as' \<and> map (job_at h') as' = add_sorted ?j js \<and> finite (dom h')"
  proof (cases as rule: rev_cases)
    case Nil
    then show ?thesis using link ja js fin by (auto simp: r_def linked_def add_sorted_def intro!: exI [where x = "[a]"])
  next
    case (snoc xs l)
    obtain n where n: "lseg h (b_first ?b) xs (Some l)" "h l = Some n" "n_next n = None"
      using link(1) snoc by (auto simp: lseg_snoc)
    have last: "job_time (last js) = n_time n" using n(2) by (simp add: js snoc job_at_def)
    show ?thesis
    proof (cases "n_time n < t")
      case True
      then have "\<forall>j\<in>set js. job_time j < t" using takeWhile_all_less [OF as(3), of t] last by (simp add: js snoc)
      then have "add_sorted ?j js = js @ [?j]" by (simp add: add_sorted_def takeWhile_eq_all_conv dropWhile_eq_Nil_conv)
      moreover have "r = Some (h(l \<mapsto> n\<lparr>n_next := Some a\<rparr>), ?b\<lparr>b_last := Some a\<rparr>)"
        using True n(2) link(3) snoc by (simp add: r_def)
      moreover have "linked (h(l \<mapsto> n\<lparr>n_next := Some a\<rparr>)) (?b\<lparr>b_last := Some a\<rparr>) (as @ [a])"
        using link n fresh snoc ja(2) by (auto simp: linked_def lseg_append)
      moreover have "job_at (h(l \<mapsto> n\<lparr>n_next := Some a\<rparr>)) = job_at h" using n(2) by (auto simp: job_at_def)
      ultimately show ?thesis using ja(1) js fin by auto
    next
      case False
      define zs where "zs = takeWhile (\<lambda>y. job_time (job_at h y) < t) as @ a # dropWhile (\<lambda>y. job_time (job_at h y) < t) as"
      have ex: "\<exists>y\<in>set as. t \<le> job_time (job_at h y)" using False n(2) snoc by (auto simp: job_at_def)
      obtain h' b' where i: "insert_job a t None (b_first ?b) h ?b = Some (h', b')" "lseg h' (b_first b') zs None"
        "b_last b' = b_last ?b" "\<forall>p. job_at h' p = job_at h p" "finite (dom h')"
        using fin insert_job_links [of h ?b "[]" "b_first ?b" as a None _ t zs] link fresh ja(2) ex by (auto simp: zs_def)
      have "dropWhile (\<lambda>y. job_time (job_at h y) < t) as \<noteq> []" using ex by (auto simp: dropWhile_eq_Nil_conv not_less)
      then have "last zs = last as" unfolding zs_def by (subst last_insert_middle) simp_all
      moreover have "distinct zs"
        unfolding zs_def by (rule distinct_insert_middle; unfold takeWhile_dropWhile_id; rule link(2) fresh)
      moreover have "zs \<noteq> []" by (simp add: zs_def)
      ultimately have "linked h' b' zs" using i(2,3) link(3) snoc by (simp add: linked_def)
      moreover have "map (job_at h') zs = add_sorted ?j js"
        using i(4) ja(1) by (simp add: zs_def add_sorted_def js takeWhile_map dropWhile_map comp_def)
      moreover have "r = Some (h', b')" using False n(2) link(3) snoc i(1) by (simp add: r_def)
      ultimately show ?thesis using i(5) by blast
    qed
  qed
  then obtain h' b' as' where r: "r = Some (h', b')" "linked h' b' as'" "map (job_at h') as' = add_sorted ?j js"
    "finite (dom h')" by blast
  have "cron_add_job malloc ms sec mins hours fn c =
      Some (nextidentifyer c, c\<lparr>nextidentifyer := nextidentifyer c + 1, c_jobs := h', crontab_ptr := b'\<rparr>)"
    by (simp only: cron_add_job_def Let_def a(1) assms(3) Option.bind.bind_lunit prod.case r(1)
        flip: h_def r_def)
  then show ?thesis using r(2-4) sorted_add_sorted [OF as(3), of ?j] by (auto simp: jobs_are_def)
qed

section \<open>Removing\<close>

lemma remove_node_links:
  assumes "lseg h (b_first b) xs current" and "lseg h current ys None" and "distinct (xs @ ys)"
    and "previous = (if xs = [] then None else Some (last xs))" and "\<forall>y\<in>set us. job_id (job_at h y) \<noteq> ident"
    and "ys = us @ y # vs" and "job_id (job_at h y) = ident"
  shows "\<exists>h' b'. remove_node ident previous current h b = Some (h', b') \<and> lseg h' (b_first b') (xs @ us @ vs) None \<and>
     b_last b' = b_last b \<and> (\<forall>p. p \<noteq> y \<longrightarrow> job_at h' p = job_at h p) \<and> h' y = None \<and>
     (finite (dom h) \<longrightarrow> finite (dom h'))"
  using assms
proof (induction us arbitrary: xs ys current previous)
  case Nil
  obtain n where n: "current = Some y" "h y = Some n" "lseg h (n_next n) vs None" using Nil.prems(2,6) by auto
  have eq: "n_id n = ident" using Nil.prems(7) n(2) by (simp add: job_at_def)
  show ?case
  proof (cases xs rule: rev_cases)
    case Nil
    then have fb: "b_first b = Some y" using Nil.prems(1) n(1) by simp
    have "y \<notin> set vs" using Nil.prems(3,6) by simp
    then show ?thesis unfolding n(1) using n(2,3) eq Nil Nil.prems(6)
      by (subst remove_node.simps) (simp add: fb job_at_def)
  next
    case (snoc xs' q)
    then obtain m where m: "lseg h (b_first b) xs' (Some q)" "h q = Some m" "n_next m = Some y"
      using Nil.prems(1) n(1) by (auto simp: lseg_snoc)
    have ne: "Some y \<noteq> b_first b" using m(1) Nil.prems(3,6) snoc by (cases xs') auto
    have "y \<noteq> q" "q \<notin> set xs'" "q \<notin> set vs" "y \<notin> set xs'" "y \<notin> set vs" using Nil.prems(3,6) snoc by auto
    then show ?thesis using n eq ne m Nil.prems(4) snoc
      by (subst remove_node.simps) (auto simp: lseg_append job_at_def)
  qed
next
  case (Cons u us)
  obtain n where n: "current = Some u" "h u = Some n" "lseg h (n_next n) (us @ y # vs) None"
    using Cons.prems(2,6) by (auto simp: lseg_append)
  have "\<exists>h' b'. remove_node ident (Some u) (n_next n) h b = Some (h', b') \<and> lseg h' (b_first b') ((xs @ [u]) @ us @ vs) None \<and>
     b_last b' = b_last b \<and> (\<forall>p. p \<noteq> y \<longrightarrow> job_at h' p = job_at h p) \<and> h' y = None \<and>
     (finite (dom h) \<longrightarrow> finite (dom h'))"
    by (rule Cons.IH [of "xs @ [u]" _ "us @ y # vs"]) (use Cons.prems n in \<open>auto simp: lseg_snoc\<close>)
  moreover have "n_id n \<noteq> ident" using Cons.prems(5) n(2) by (simp add: job_at_def)
  ultimately show ?case using n by (subst remove_node.simps) simp
qed

lemma remove_node_absent:
  assumes "lseg h current ys None" and "\<forall>y\<in>set ys. job_id (job_at h y) \<noteq> ident"
  shows "remove_node ident previous current h b = Some (h, b)"
  using assms
proof (induction ys arbitrary: current previous)
  case Nil
  then show ?case by (subst remove_node.simps) simp
next
  case (Cons y ys)
  then show ?case by (subst remove_node.simps) (auto simp: job_at_def)
qed

text \<open>A list with a first job of the given identifier, or without.\<close>

lemma jobs_splitE:
  assumes "js = map (job_at h) as"
  obtains (absent) "\<forall>y\<in>set as. job_id (job_at h y) \<noteq> ident" "\<forall>j\<in>set js. job_id j \<noteq> ident"
  | (present) us y vs where "as = us @ y # vs" "\<forall>u\<in>set us. job_id (job_at h u) \<noteq> ident" "job_id (job_at h y) = ident"
proof (cases "\<exists>y\<in>set as. job_id (job_at h y) = ident")
  case True
  then show ?thesis using present split_list_first_prop [of as "\<lambda>y. job_id (job_at h y) = ident"] by blast
next
  case False
  then show ?thesis using absent assms by auto
qed

definition remove_first :: "u8 \<Rightarrow> job list \<Rightarrow> job list" where
  "remove_first ident js = takeWhile (\<lambda>j. job_id j \<noteq> ident) js @ tl (dropWhile (\<lambda>j. job_id j \<noteq> ident) js)"

lemma remove_first_split:
  assumes "\<forall>u\<in>set us. job_id (f u) \<noteq> ident" and "job_id (f y) = ident"
  shows "remove_first ident (map f (us @ y # vs)) = map f (us @ vs)"
  using assms by (induction us) (auto simp: remove_first_def)

lemma remove_first_absent: "\<forall>j\<in>set js. job_id j \<noteq> ident \<Longrightarrow> remove_first ident js = js"
  by (induction js) (simp_all add: remove_first_def)

text \<open>The first job of the identifier is the last of the list.\<close>

definition removes_last :: "u8 \<Rightarrow> job list \<Rightarrow> bool" where
  "removes_last ident js \<longleftrightarrow> js \<noteq> [] \<and> job_id (last js) = ident \<and> (\<forall>j\<in>set (butlast js). job_id j \<noteq> ident)"

lemma cron_remove_job_removes:
  assumes "jobs_are c js" and "\<not> removes_last ident js"
  shows "\<exists>c'. cron_remove_job ident c = Some c' \<and> jobs_are c' (remove_first ident js) \<and> nextidentifyer c' = nextidentifyer c"
proof -
  obtain as where as: "linked (c_jobs c) (crontab_ptr c) as" "js = map (job_at (c_jobs c)) as" "sorted (map job_time js)"
    "finite (dom (c_jobs c))"
    using assms(1) by (auto simp: jobs_are_def)
  let ?h = "c_jobs c" and ?b = "crontab_ptr c"
  have l: "lseg ?h (b_first ?b) as None" "distinct as" using as(1) by (simp_all add: linked_def)
  from as(2) show ?thesis
  proof (cases rule: jobs_splitE [where ident = ident])
    case absent
    then show ?thesis using remove_node_absent [OF l(1) absent(1)] assms(1)
      by (simp add: cron_remove_job_def remove_first_absent jobs_are_def)
  next
    case (present us y vs)
    obtain h' b' where r: "remove_node ident None (b_first ?b) ?h ?b = Some (h', b')" "lseg h' (b_first b') (us @ vs) None"
      "b_last b' = b_last ?b" "\<forall>p. p \<noteq> y \<longrightarrow> job_at h' p = job_at ?h p" "finite (dom h')"
      using as(4) remove_node_links [of ?h ?b "[]" "b_first ?b" as None us ident y vs] l present by auto
    have y: "y \<notin> set (us @ vs)" "distinct (us @ vs)" using l(2) present(1) by auto
    have rf: "remove_first ident js = map (job_at ?h) (us @ vs)"
      using remove_first_split [OF present(2,3)] as(2) present(1) by simp
    also have "\<dots> = map (job_at h') (us @ vs)" using r(4) y(1) by (intro map_cong) auto
    finally have maps: "remove_first ident js = map (job_at h') (us @ vs)" .
    have "vs \<noteq> []"
    proof
      assume "vs = []"
      then have "removes_last ident js" using present as(2) by (auto simp: removes_last_def butlast_append)
      with assms(2) show False ..
    qed
    then have "linked h' b' (us @ vs)" using r(2,3) y(2) as(1) present(1) by (simp add: linked_def)
    moreover have "sorted (map job_time (remove_first ident js))"
      unfolding rf using as(3) by (simp add: as(2) present(1) sorted_append)
    ultimately show ?thesis using r(1,5) maps by (auto simp: cron_remove_job_def jobs_are_def)
  qed
qed

section \<open>Calling the jobs\<close>

lemma mod_below:
  assumes "0 < t" and "t < (p :: u32)"
  shows "t mod p \<noteq> 0"
proof -
  have "unat (t mod p) = unat t" using assms(2) by (simp add: unat_mod word_less_nat_alt)
  moreover have "0 < unat t" using assms(1) by (simp add: word_less_nat_alt)
  ultimately show ?thesis by (metis less_numeral_extra(3) unat_0)
qed

lemma run_jobs_calls:
  assumes "lseg h p as None" and "sorted (map job_time (map (job_at h) as))" and "0 < t"
    and "\<forall>a\<in>set as. 0 < job_time (job_at h a)"
  shows "run_jobs h t p calls = Some (calls @ map job_fn (filter (\<lambda>j. t mod job_time j = 0) (map (job_at h) as)))"
  using assms
proof (induction as arbitrary: p calls)
  case Nil
  then show ?case by (subst run_jobs.simps) simp
next
  case (Cons a as)
  obtain n where n: "p = Some a" "h a = Some n" "lseg h (n_next n) as None" using Cons.prems(1) by auto
  have ja: "job_at h a = (n_id n, n_time n, n_fn n)" using n(2) by (simp add: job_at_def)
  have IH: "run_jobs h t (n_next n) cs = Some (cs @ map job_fn (filter (\<lambda>j. t mod job_time j = 0) (map (job_at h) as)))" for cs
    by (rule Cons.IH [OF n(3)]) (use Cons.prems in simp_all)
  show ?case
  proof (cases "n_time n \<le> t")
    case True
    moreover have "n_time n \<noteq> 0" using Cons.prems(4) by (auto simp: ja)
    ultimately show ?thesis using IH by (subst run_jobs.simps) (simp add: n ja)
  next
    case False
    have "t mod job_time (job_at h x) \<noteq> 0" if "x \<in> set (a # as)" for x
    proof -
      have "n_time n \<le> job_time (job_at h x)" using Cons.prems(2) that by (auto simp: ja)
      then have "t < job_time (job_at h x)" using False by simp
      with assms(3) show ?thesis by (rule mod_below)
    qed
    then have "filter (\<lambda>j. t mod job_time j = 0) (map (job_at h) (a # as)) = []" by (simp add: filter_empty_conv)
    then show ?thesis using False by (subst run_jobs.simps) (simp only: n(1,2) option.case if_False list.map append_Nil2)
  qed
qed

definition periods_ok :: "job list \<Rightarrow> bool" where
  "periods_ok js \<longleftrightarrow> js \<noteq> [] \<and> (\<forall>j\<in>set js. 0 < job_time j)"

lemma cron_execute_jobs_calls:
  assumes "jobs_are c js" and "periods_ok js" and "0 < execution_ms c"
    and "t = (if execution_ms c > job_time (last js) then 1 else execution_ms c)"
  shows "cron_execute_jobs c = Some (map job_fn (filter (\<lambda>j. t mod job_time j = 0) js), c\<lparr>execution_ms := t\<rparr>)"
proof -
  obtain as where as: "linked (c_jobs c) (crontab_ptr c) as" "js = map (job_at (c_jobs c)) as" "sorted (map job_time js)"
    "finite (dom (c_jobs c))"
    using assms(1) by (auto simp: jobs_are_def)
  have "as \<noteq> []" using assms(2) as(2) by (simp add: periods_ok_def)
  then obtain a as' xs l where al: "as = a # as'" "as = xs @ [l]" by (meson list.exhaust rev_exhaust)
  have seg: "lseg (c_jobs c) (b_first (crontab_ptr c)) as None" "b_last (crontab_ptr c) = Some l"
    using as(1) al(2) by (simp_all add: linked_def)
  obtain f where f: "b_first (crontab_ptr c) = Some a" "c_jobs c a = Some f" using seg(1) al(1) by auto
  obtain n where n: "c_jobs c l = Some n" using seg(1) unfolding al(2) by (auto simp: lseg_snoc)
  have times: "job_time (hd js) = n_time f" "job_time (last js) = n_time n"
  proof -
    show "job_time (hd js) = n_time f" using f(2) by (simp add: as(2) al(1) job_at_def)
    have "last js = job_at (c_jobs c) l" by (simp add: as(2) al(2))
    then show "job_time (last js) = n_time n" using n by (simp add: job_at_def)
  qed
  have t: "0 < t" using assms(3,4) by auto
  have run: "run_jobs (c_jobs c) t (Some a) [] = Some (map job_fn (filter (\<lambda>j. t mod job_time j = 0) js))"
    using run_jobs_calls [OF seg(1) _ t, of "[]"] as(2,3) assms(2) f(1) by (simp add: periods_ok_def)
  show ?thesis
  proof (cases "execution_ms c < n_time f")
    case True
    have "n_time f \<le> job_time j" if "j \<in> set js" for j
      using as(3) that times(1) by (cases js) auto
    then have lt: "\<forall>j\<in>set js. execution_ms c < job_time j" using True less_le_trans by blast
    then have "execution_ms c < job_time (last js)" using assms(2) by (simp add: periods_ok_def)
    then have "t = execution_ms c" using assms(4) by (simp add: less_not_sym)
    moreover have "filter (\<lambda>j. execution_ms c mod job_time j = 0) js = []"
      using lt mod_below [OF assms(3)] by (simp add: filter_empty_conv)
    ultimately show ?thesis using True f by (simp add: cron_execute_jobs_def)
  next
    case False
    then show ?thesis using f n seg(2) run assms(4) times(2)
      by (auto simp: cron_execute_jobs_def Let_def)
  qed
qed

text \<open>\<open>n\<close> ticks of the timer, with the calls of each.\<close>

fun timer_run :: "nat \<Rightarrow> cron \<Rightarrow> (nat list list \<times> cron) option" where
  "timer_run 0 c = Some ([], c)"
| "timer_run (Suc n) c =
     do { (calls, c) \<leftarrow> cron_timerfunc c; (rest, c) \<leftarrow> timer_run n c; Some (calls # rest, c) }"

lemma increment_fields:
  "c_jobs (cron_increment_clock c) = c_jobs c" "crontab_ptr (cron_increment_clock c) = crontab_ptr c"
  "timeout_ptr (cron_increment_clock c) = timeout_ptr c" "execution_ms (cron_increment_clock c) = execution_ms c + 1"
  by (simp_all add: cron_increment_clock_def Let_def)

lemma timerfunc_calls:
  assumes "jobs_are c js" and "periods_ok js" and "b_first (timeout_ptr c) = None"
    and "L = unat (job_time (last js))" and "unat (execution_ms c) \<le> L" and "L + 1 < 2 ^ 32"
    and "t = unat (execution_ms c) mod L + 1"
  shows "\<exists>c'. cron_timerfunc c = Some (map job_fn (filter (\<lambda>j. t mod unat (job_time j) = 0) js), c') \<and> jobs_are c' js \<and>
     b_first (timeout_ptr c') = None \<and> unat (execution_ms c') = t"
proof -
  let ?c = "cron_increment_clock c"
  define w where "w = (if execution_ms ?c > job_time (last js) then 1 else execution_ms ?c)"
  have e: "unat (execution_ms ?c) = unat (execution_ms c) + 1"
    using assms(5,6) by (simp add: increment_fields unat_word_ariths)
  have "0 < L" using assms(2,4) by (simp add: periods_ok_def word_less_nat_alt)
  have w: "unat w = t"
  proof (cases "unat (execution_ms c) = L")
    case True
    then show ?thesis using e assms(4,7) by (simp add: w_def word_less_nat_alt)
  next
    case False
    then show ?thesis using e assms(4,5,7) by (simp add: w_def word_less_nat_alt)
  qed
  have "0 < execution_ms ?c" using e by (simp add: word_less_nat_alt)
  moreover have jobs: "jobs_are ?c js" using assms(1) by (simp add: jobs_are_def increment_fields)
  ultimately have "cron_execute_jobs ?c = Some (map job_fn (filter (\<lambda>j. w mod job_time j = 0) js), ?c\<lparr>execution_ms := w\<rparr>)"
    using assms(2) w_def by (intro cron_execute_jobs_calls)
  moreover have "w mod job_time j = 0 \<longleftrightarrow> t mod unat (job_time j) = 0" for j :: job
    by (simp add: word_unat_eq_iff unat_mod w)
  moreover have "run_timeouts h None [] = Some ([], h)" for h by (subst run_timeouts.simps) simp
  ultimately show ?thesis using jobs assms(3) w
    by (simp add: cron_timerfunc_def cron_execute_timeout_def increment_fields jobs_are_def)
qed

section \<open>Operations on the table\<close>

text \<open>
  A machine that implements a specification: every step that the specification allows is made, and the two stay
  related.
\<close>

locale table_simulation =
  fixes step :: "'op \<Rightarrow> 'c \<Rightarrow> 'c option" and spec :: "'op \<Rightarrow> 'a \<Rightarrow> 'a option" and related :: "'c \<Rightarrow> 'a \<Rightarrow> bool"
  assumes simulates: "related c a \<Longrightarrow> spec op a = Some a' \<Longrightarrow> \<exists>c'. step op c = Some c' \<and> related c' a'"
begin

lemma run_simulates:
  "related c a \<Longrightarrow> foldr (\<lambda>op k x. Option.bind (spec op x) k) ops Some a = Some a' \<Longrightarrow>
     \<exists>c'. foldr (\<lambda>op k x. Option.bind (step op x) k) ops Some c = Some c' \<and> related c' a'"
proof (induction ops arbitrary: c a)
  case (Cons op ops)
  then obtain a1 where a1: "spec op a = Some a1" "foldr (\<lambda>op k x. Option.bind (spec op x) k) ops Some a1 = Some a'"
    by (auto simp: bind_eq_Some_conv)
  obtain c1 where "step op c = Some c1" "related c1 a1" using simulates [OF Cons.prems(1) a1(1)] by blast
  with Cons.IH [OF _ a1(2)] show ?case by auto
qed simp

end

datatype cron_op = Add_job int int int int nat | Remove_job u8

fun cron_step :: "cron_op \<Rightarrow> (store \<Rightarrow> nat option) \<times> cron \<Rightarrow> ((store \<Rightarrow> nat option) \<times> cron) option" where
  "cron_step (Add_job ms sec mins hours fn) (malloc, c) =
     map_option (\<lambda>(i, c). (malloc, c)) (cron_add_job malloc ms sec mins hours fn c)"
| "cron_step (Remove_job ident) (malloc, c) = map_option (\<lambda>c. (malloc, c)) (cron_remove_job ident c)"

definition run_ops :: "cron_op list \<Rightarrow> (store \<Rightarrow> nat option) \<times> cron \<Rightarrow> ((store \<Rightarrow> nat option) \<times> cron) option" where
  "run_ops ops m = foldr (\<lambda>op k m. Option.bind (cron_step op m) k) ops Some m"

text \<open>The table as a next identifier and a sorted list of jobs. The removal of its last job is not allowed.\<close>

fun table_step :: "cron_op \<Rightarrow> u8 \<times> job list \<Rightarrow> (u8 \<times> job list) option" where
  "table_step (Add_job ms sec mins hours fn) (i, js) =
     map_option (\<lambda>t. (i + 1, add_sorted (i, t, fn) js)) (total_time ms sec mins hours)"
| "table_step (Remove_job ident) (i, js) = (if removes_last ident js then None else Some (i, remove_first ident js))"

definition table_ops :: "cron_op list \<Rightarrow> u8 \<times> job list \<Rightarrow> (u8 \<times> job list) option" where
  "table_ops ops a = foldr (\<lambda>op k a. Option.bind (table_step op a) k) ops Some a"

definition table_is :: "(store \<Rightarrow> nat option) \<times> cron \<Rightarrow> u8 \<times> job list \<Rightarrow> bool" where
  "table_is m a \<longleftrightarrow> malloc_fresh (fst m) \<and> nextidentifyer (snd m) = fst a \<and> jobs_are (snd m) (snd a)"

lemma cron_step_simulates:
  assumes "table_is m a" and "table_step op a = Some a'"
  shows "\<exists>m'. cron_step op m = Some m' \<and> table_is m' a'"
proof -
  obtain malloc c i js where m: "m = (malloc, c)" and a: "a = (i, js)" by (cases m, cases a)
  have c: "jobs_are c js" "nextidentifyer c = i" "malloc_fresh malloc" using assms(1) by (simp_all add: table_is_def m a)
  show ?thesis
  proof (cases op)
    case (Add_job ms sec mins hours fn)
    obtain t where t: "total_time ms sec mins hours = Some t" "a' = (i + 1, add_sorted (i, t, fn) js)"
      using assms(2) by (auto simp: Add_job a)
    from cron_add_job_adds [OF c(1,3) t(1), of fn] c(2,3) show ?thesis
      by (auto simp: Add_job t(2) table_is_def m)
  next
    case (Remove_job ident)
    have r: "\<not> removes_last ident js" "a' = (i, remove_first ident js)"
      using assms(2) by (auto simp: Remove_job a split: if_splits)
    from cron_remove_job_removes [OF c(1) r(1)] c(2,3) show ?thesis
      by (auto simp: Remove_job r(2) table_is_def m)
  qed
qed

interpretation cron_sim: table_simulation cron_step table_step table_is
  by unfold_locales (rule cron_step_simulates)

lemma count_nodes_links: "lseg h p as None \<Longrightarrow> count_nodes h p n = Some (n + int (length as))"
proof (induction as arbitrary: p n)
  case Nil
  then show ?case by (subst count_nodes.simps) simp
next
  case (Cons a as)
  then show ?case by (subst count_nodes.simps) auto
qed

lemma count_jobs_are: "jobs_are c js \<Longrightarrow> cron_count_jobs c = Some (int (length js))"
  by (auto simp: jobs_are_def linked_def cron_count_jobs_def count_nodes_links)

text \<open>An allocator that keeps to its contract: the first address that is free.\<close>

definition first_free :: "store \<Rightarrow> nat option" where
  "first_free h = Some (LEAST a. h a = None)"

lemma first_free_fresh: "malloc_fresh first_free"
  unfolding malloc_fresh_def
proof (intro allI impI)
  fix h :: store
  assume "finite (dom h)"
  then obtain a where "a \<notin> dom h" using ex_new_if_finite [OF infinite_UNIV_nat] by blast
  then have "h a = None" by blast
  then have "h (LEAST a. h a = None) = None" by (rule LeastI)
  then show "\<exists>a. first_free h = Some a \<and> h a = None" by (simp add: first_free_def)
qed

definition empty_cron :: cron where
  "empty_cron =
     \<lparr>c_jobs = Map.empty, crontab_ptr = \<lparr>b_first = None, b_last = None\<rparr>, c_timeouts = Map.empty,
      timeout_ptr = \<lparr>b_first = None, b_last = None\<rparr>, nextidentifyer = 1, system_ms = 0, execution_ms = 0,
      system_days = 0, cron_seconds = 0, cron_minutes = 0, cron_hours = 0\<rparr>"

section \<open>Properties\<close>

text \<open>
  C16: after cron_init, any sequence of cron_add_job and cron_remove_job calls that does not remove the last
  job of the list and whose times do not overflow an int is defined and keeps the linked list as the abstract table: sorted by
  period, each new job before those of the same period, and the count is right.
\<close>

theorem cron_table_refines:
  assumes "cron_init True True c0 = Some c" and "finite (dom (c_jobs c0))" and "malloc_fresh malloc"
    and "table_ops ops (1, []) = Some (i, js)"
  shows "\<exists>c'. run_ops ops (malloc, c) = Some (malloc, c') \<and> jobs_are c' js \<and> cron_count_jobs c' = Some (int (length js))"
proof -
  have "table_is (malloc, c) (1, [])" using assms(1-3) by (auto simp: cron_init_def table_is_def jobs_are_def linked_def)
  from cron_sim.run_simulates [OF this] assms(4) obtain m' where
    m': "run_ops ops (malloc, c) = Some m'" "table_is m' (i, js)" unfolding run_ops_def table_ops_def by blast
  have "fst m' = fst m" if "foldr (\<lambda>op k m. Option.bind (cron_step op m) k) ops Some m = Some m'" for m
    using that
  proof (induction ops arbitrary: m)
    case (Cons op ops)
    then obtain m1 where m1: "cron_step op m = Some m1" "foldr (\<lambda>op k m. Option.bind (cron_step op m) k) ops Some m1 = Some m'"
      by (auto simp: bind_eq_Some_conv)
    have "fst m1 = fst m" using m1(1) by (cases "(op, m)" rule: cron_step.cases) auto
    with Cons.IH [OF m1(2)] show ?case by simp
  qed simp
  then have "fst m' = malloc" using m'(1) unfolding run_ops_def by fastforce
  then obtain c' where "m' = (malloc, c')" by (cases m') simp
  then show ?thesis using m' count_jobs_are by (auto simp: table_is_def)
qed

theorem cron_table_refines_witness:
  "\<exists>c'. run_ops [Add_job 0 2 0 0 7, Add_job 0 1 0 0 8, Remove_job 2] (first_free, empty_cron) = Some (first_free, c') \<and>
     jobs_are c' [(1, 2000, 7)] \<and> cron_count_jobs c' = Some (int (length [(1 :: u8, 2000 :: u32, 7 :: nat)]))"
proof (rule cron_table_refines [OF _ _ first_free_fresh])
  show "cron_init True True empty_cron = Some empty_cron" by (simp add: cron_init_def empty_cron_def)
  show "finite (dom (c_jobs empty_cron))" by (simp add: empty_cron_def)
  show "table_ops [Add_job 0 2 0 0 7, Add_job 0 1 0 0 8, Remove_job 2] (1, []) = Some (3, [(1, 2000, 7)])"
    by (simp add: table_ops_def total_time_def c_int_def add_sorted_def removes_last_def remove_first_def word_less_nat_alt)
qed

text \<open>
  C33: the schedule of the jobs. With at least one job, positive periods and no timeouts, the timer function calls at tick k (from 0)
  exactly the jobs whose period divides ((m + k) mod L) + 1, in the order of the list, where m is the execution counter at the
  start, at most L, and L the longest period. So a job of period p is called only floor(L / p) times in L ticks.
\<close>

theorem cron_schedule:
  assumes "jobs_are c js" and "periods_ok js" and "b_first (timeout_ptr c) = None"
    and "L = unat (job_time (last js))" and "m = unat (execution_ms c)" and "m \<le> L" and "L + 1 < 2 ^ 32"
  shows "\<exists>c'. timer_run n c =
       Some (map (\<lambda>k. map job_fn (filter (\<lambda>j. ((m + k) mod L + 1) mod unat (job_time j) = 0) js)) [0..<n], c') \<and> jobs_are c' js"
  using assms(1,3,5,6)
proof (induction n arbitrary: c m)
  case 0
  then show ?case by simp
next
  case (Suc n)
  define t where "t = m mod L + 1"
  have L: "0 < L" using assms(2,4) by (simp add: periods_ok_def word_less_nat_alt)
  have m: "unat (execution_ms c) \<le> L" "t = unat (execution_ms c) mod L + 1" using Suc.prems(3,4) by (simp_all add: t_def)
  from timerfunc_calls [OF Suc.prems(1) assms(2) Suc.prems(2) assms(4) m(1) assms(7) m(2)] obtain c1 where
    c1: "cron_timerfunc c = Some (map job_fn (filter (\<lambda>j. t mod unat (job_time j) = 0) js), c1)" "jobs_are c1 js"
    "b_first (timeout_ptr c1) = None" "unat (execution_ms c1) = t" by blast
  have "t \<le> L" using L by (simp add: t_def Suc_le_eq)
  from Suc.IH [OF c1(2,3) c1(4) [symmetric] this] obtain c' where
    rest: "timer_run n c1 = Some (map (\<lambda>k. map job_fn (filter (\<lambda>j. ((t + k) mod L + 1) mod unat (job_time j) = 0) js)) [0..<n], c')"
    "jobs_are c' js" by blast
  have shift: "(t + k) mod L = (m + Suc k) mod L" for k
    using mod_add_left_eq [of m L "Suc k"] by (simp add: t_def)
  have split: "map f [0..<Suc n] = f 0 # map (\<lambda>k. f (Suc k)) [0..<n]" for f :: "nat \<Rightarrow> nat list"
    by (simp add: upt_conv_Cons map_Suc_upt [symmetric] del: upt_Suc)
  show ?case unfolding split using c1(1) rest(1) [unfolded shift] rest(2) by (simp add: t_def)
qed

definition demo_cron :: cron where
  "demo_cron = empty_cron\<lparr>
     c_jobs := [0 \<mapsto> \<lparr>n_id = 1, n_time = 2, n_fn = 7, n_next = Some 1\<rparr>, 1 \<mapsto> \<lparr>n_id = 2, n_time = 3, n_fn = 8, n_next = None\<rparr>],
     crontab_ptr := \<lparr>b_first = Some 0, b_last = Some 1\<rparr>\<rparr>"

lemma demo_jobs: "jobs_are demo_cron ([(1, 2, 7)] @ [(2, 3, 8)])"
  by (auto simp: jobs_are_def linked_def demo_cron_def job_at_def intro!: exI [where x = "[0, 1]"])

theorem cron_schedule_witness: "\<exists>c'. timer_run 3 demo_cron = Some ([[], [7], [8]], c') \<and> jobs_are c' ([(1, 2, 7)] @ [(2, 3, 8)])"
proof -
  have "periods_ok ([(1, 2, 7)] @ [(2, 3, 8)])" by (simp add: periods_ok_def)
  moreover have "b_first (timeout_ptr demo_cron) = None" "0 = unat (execution_ms demo_cron)"
    by (simp_all add: demo_cron_def empty_cron_def)
  moreover have "[0..<3] = [0, 1, 2 :: nat]" by code_simp
  ultimately show ?thesis
    using cron_schedule [OF demo_jobs, of 3 0 3] by simp
qed

text \<open>
  cron_remove_job does not move the last pointer. After the last of several jobs has been removed, the next execution reads the
  node that has been freed.
\<close>

theorem cron_last_removed:
  assumes "jobs_are c (js @ [j])" and "\<forall>i\<in>set js. job_id i \<noteq> job_id j" and "js \<noteq> []"
    and "job_time (hd js) \<le> execution_ms c"
  shows "\<exists>c'. cron_remove_job (job_id j) c = Some c' \<and> cron_execute_jobs c' = None"
proof -
  obtain as where as: "linked (c_jobs c) (crontab_ptr c) as" "js @ [j] = map (job_at (c_jobs c)) as"
    using assms(1) by (auto simp: jobs_are_def)
  let ?h = "c_jobs c" and ?b = "crontab_ptr c"
  obtain us l where us: "as = us @ [l]" "js = map (job_at ?h) us" "j = job_at ?h l"
  proof -
    have "as \<noteq> []" using as(2) by auto
    then obtain us l where "as = us @ [l]" by (meson rev_exhaust)
    with as(2) show ?thesis by (intro that [of us l]) simp_all
  qed
  obtain a us' where u: "us = a # us'" using us(2) assms(3) by (cases us) auto
  have link: "lseg ?h (b_first ?b) as None" "distinct as" "b_last ?b = Some l" using as(1) us(1) by (simp_all add: linked_def)
  obtain h' b' where r: "remove_node (job_id j) None (b_first ?b) ?h ?b = Some (h', b')" "lseg h' (b_first b') us None"
    "b_last b' = Some l" "\<forall>p. p \<noteq> l \<longrightarrow> job_at h' p = job_at ?h p" "h' l = None"
  proof -
    have "\<forall>y\<in>set us. job_id (job_at ?h y) \<noteq> job_id j" using assms(2) unfolding us(2) by simp
    moreover have "job_id (job_at ?h l) = job_id j" by (simp only: us(3))
    moreover have "as = us @ l # []" using us(1) by simp
    ultimately obtain h' b' where "remove_node (job_id j) None (b_first ?b) ?h ?b = Some (h', b')" "lseg h' (b_first b') ([] @ us @ []) None"
      "b_last b' = b_last ?b" "\<forall>p. p \<noteq> l \<longrightarrow> job_at h' p = job_at ?h p" "h' l = None"
      using remove_node_links [of ?h ?b "[]" "b_first ?b" as None us "job_id j" l "[]"] link(1,2) by simp blast
    then show ?thesis using that link(3) by simp
  qed
  obtain f where f: "b_first b' = Some a" "h' a = Some f" using r(2) u by auto
  have "a \<noteq> l" using link(2) us(1) u by auto
  then have "job_at h' a = hd js" using r(4) us(2) u by simp
  then have "job_time (hd js) = n_time f" using f(2) by (simp add: job_at_def flip: \<open>job_at h' a = hd js\<close>)
  then have "\<not> execution_ms c < n_time f" using assms(4) by simp
  then have "cron_execute_jobs (c\<lparr>c_jobs := h', crontab_ptr := b'\<rparr>) = None"
    using f r(3,5) by (simp add: cron_execute_jobs_def)
  then show ?thesis using r(1) by (simp add: cron_remove_job_def)
qed

theorem cron_last_removed_witness:
  "\<exists>c'. cron_remove_job (job_id (2, 3, 8)) (demo_cron\<lparr>execution_ms := 2\<rparr>) = Some c' \<and> cron_execute_jobs c' = None"
proof (rule cron_last_removed)
  show "jobs_are (demo_cron\<lparr>execution_ms := 2\<rparr>) ([(1, 2, 7)] @ [(2, 3, 8)])" using demo_jobs by (simp add: jobs_are_def)
qed (simp_all add: demo_cron_def)

end
