(* ===== verification/Key.thy ===== *)
theory Key
  imports Prelude
begin

text \<open>
  The key driver, lib/driver/key.c: keys that pull their pin up or down, debounced with two timers, and the
  plain handler that measures how long the first key is held. The pins are below 32. The GPIO registers and the timers of the
  SDK are state; calls of the installed functions are recorded. \<open>None\<close> is undefined behaviour.
\<close>

unbundle bit_operations_syntax

section \<open>Pins, timers and keys\<close>

datatype gpio_int = INTR_DISABLE | INTR_POSEDGE | INTR_NEGEDGE | INTR_ANYEDGE

datatype handler = No_handler | Pu_handler | Pd_handler | Key_handler

record gpio =
  gp_input :: u32
  gp_status :: u32
  gp_intr :: "u8 \<Rightarrow> gpio_int"
  gp_func :: "u32 \<Rightarrow> u8"
  gp_enable :: u32
  gp_handler :: handler
  gp_masked :: bool

definition pin_bit :: "u8 \<Rightarrow> u32" where
  "pin_bit i = push_bit (unat i) 1"

definition GPIO_INPUT_GET :: "u8 \<Rightarrow> gpio \<Rightarrow> u32" where
  "GPIO_INPUT_GET i g = drop_bit (unat i) (gp_input g) AND 1"

definition intr_state_set :: "u8 \<Rightarrow> gpio_int \<Rightarrow> gpio \<Rightarrow> gpio" where
  "intr_state_set i t g = g\<lparr>gp_intr := (gp_intr g)(i := t)\<rparr>"

text \<open>Writing to GPIO_STATUS_W1TC clears the bits that are set in the value.\<close>

definition status_clear :: "u32 \<Rightarrow> gpio \<Rightarrow> gpio" where
  "status_clear w g = g\<lparr>gp_status := gp_status g AND NOT w\<rparr>"

text \<open>An armed timer has its callback and its time in milliseconds; no timer here repeats.\<close>

datatype key_cb = CB_5s | CB_50ms | CB_long | CB_short

text \<open>\<open>short_press\<close> and \<open>long_press\<close> tell whether the functions are installed.\<close>

record single_key =
  key_level :: u8
  gpio_id :: u8
  gpio_func :: u8
  gpio_name :: u32
  key_5s :: "(key_cb \<times> u32) option"
  key_50ms :: "(key_cb \<times> u32) option"
  short_press :: bool
  long_press :: bool

datatype key_call = Long u8 | Short u8

definition key_init_single :: "bool \<Rightarrow> u8 \<Rightarrow> u32 \<Rightarrow> u8 \<Rightarrow> bool \<Rightarrow> bool \<Rightarrow> single_key option" where
  "key_init_single zalloc i name func long short =
     (if zalloc then
        Some \<lparr>key_level = 0, gpio_id = i, gpio_func = func, gpio_name = name, key_5s = None, key_50ms = None,
              short_press = short, long_press = long\<rparr>
      else None)"

section \<open>Debounced keys\<close>

text \<open>
  The code has every function twice, for keys whose pin is high (pu) or low (pd) when they are not pressed; \<open>idle\<close>
  is that level.
\<close>

definition press_edge :: "u8 \<Rightarrow> gpio_int" where
  "press_edge idle = (if idle = 1 then INTR_NEGEDGE else INTR_POSEDGE)"

definition release_edge :: "u8 \<Rightarrow> gpio_int" where
  "release_edge idle = (if idle = 1 then INTR_POSEDGE else INTR_NEGEDGE)"

text \<open>
  The pin: its function, no interrupt while it is set up, no stale status. The mask of the outputs that are
  disabled is the number of the pin, as the code passes it.
\<close>

definition init_pin :: "gpio_int \<Rightarrow> single_key \<Rightarrow> gpio \<Rightarrow> gpio" where
  "init_pin t k g =
     (let g = g\<lparr>gp_func := (gp_func g)(gpio_name k := gpio_func k)\<rparr>;
          g = g\<lparr>gp_enable := gp_enable g AND NOT (ucast (gpio_id k))\<rparr>;
          g = intr_state_set (gpio_id k) INTR_DISABLE g;
          g = status_clear (pin_bit (gpio_id k)) g
      in intr_state_set (gpio_id k) t g)"

fun init_keys :: "u8 \<Rightarrow> single_key list \<Rightarrow> gpio \<Rightarrow> single_key list \<times> gpio" where
  "init_keys idle [] g = ([], g)"
| "init_keys idle (k # ks) g =
     (let k = k\<lparr>key_level := idle\<rparr>;
          (ks, g) = init_keys idle ks (init_pin (press_edge idle) k g)
      in (k # ks, g))"

definition pu_key_init :: "single_key list \<Rightarrow> gpio \<Rightarrow> single_key list \<times> gpio" where
  "pu_key_init ks g =
     (let (ks, g) = init_keys 1 ks (g\<lparr>gp_handler := Pu_handler, gp_masked := True\<rparr>) in (ks, g\<lparr>gp_masked := False\<rparr>))"

definition pd_key_init :: "single_key list \<Rightarrow> gpio \<Rightarrow> single_key list \<times> gpio" where
  "pd_key_init ks g =
     (let (ks, g) = init_keys 0 ks (g\<lparr>gp_handler := Pd_handler, gp_masked := True\<rparr>) in (ks, g\<lparr>gp_masked := False\<rparr>))"

text \<open>The key is still pressed after five seconds.\<close>

definition key_5s_cb :: "u8 \<Rightarrow> single_key \<Rightarrow> gpio \<Rightarrow> single_key \<times> key_call list" where
  "key_5s_cb idle k g =
     (k\<lparr>key_5s := None\<rparr>,
      if GPIO_INPUT_GET (gpio_id k) g = (if idle = 1 then 0 else 1) \<and> long_press k then [Long (gpio_id k)] else [])"

definition pu_key_5s_cb :: "single_key \<Rightarrow> gpio \<Rightarrow> single_key \<times> key_call list" where
  "pu_key_5s_cb = key_5s_cb 1"

definition pd_key_5s_cb :: "single_key \<Rightarrow> gpio \<Rightarrow> single_key \<times> key_call list" where
  "pd_key_5s_cb = key_5s_cb 0"

definition key_50ms_cb :: "u8 \<Rightarrow> single_key \<Rightarrow> gpio \<Rightarrow> single_key \<times> gpio \<times> key_call list" where
  "key_50ms_cb idle k g =
     (let k = k\<lparr>key_50ms := None\<rparr>
      in if GPIO_INPUT_GET (gpio_id k) g = (if idle = 1 then 1 else 0) then
           (k\<lparr>key_5s := None, key_level := idle\<rparr>, intr_state_set (gpio_id k) (press_edge idle) g,
            if short_press k then [Short (gpio_id k)] else [])
         else (k, intr_state_set (gpio_id k) (release_edge idle) g, []))"

definition pu_key_50ms_cb :: "single_key \<Rightarrow> gpio \<Rightarrow> single_key \<times> gpio \<times> key_call list" where
  "pu_key_50ms_cb = key_50ms_cb 1"

definition pd_key_50ms_cb :: "single_key \<Rightarrow> gpio \<Rightarrow> single_key \<times> gpio \<times> key_call list" where
  "pd_key_50ms_cb = key_50ms_cb 0"

text \<open>One key of the interrupt handler, with the status that was read when it started.\<close>

definition handle_key :: "u8 \<Rightarrow> u32 \<Rightarrow> single_key \<Rightarrow> gpio \<Rightarrow> single_key \<times> gpio" where
  "handle_key idle gpio_status k g =
     (if gpio_status AND pin_bit (gpio_id k) \<noteq> 0 then
        let g = intr_state_set (gpio_id k) INTR_DISABLE g;
            g = status_clear (gpio_status AND pin_bit (gpio_id k)) g
        in if key_level k = idle then
             (k\<lparr>key_5s := Some (CB_5s, 5000), key_level := (if idle = 1 then 0 else 1)\<rparr>,
              intr_state_set (gpio_id k) (release_edge idle) g)
           else (k\<lparr>key_50ms := Some (CB_50ms, 50)\<rparr>, g)
      else (k, g))"

fun handle_keys :: "u8 \<Rightarrow> u32 \<Rightarrow> single_key list \<Rightarrow> gpio \<Rightarrow> single_key list \<times> gpio" where
  "handle_keys idle gpio_status [] g = ([], g)"
| "handle_keys idle gpio_status (k # ks) g =
     (let (k, g) = handle_key idle gpio_status k g; (ks, g) = handle_keys idle gpio_status ks g in (k # ks, g))"

definition pu_key_intr_handler :: "single_key list \<Rightarrow> gpio \<Rightarrow> single_key list \<times> gpio" where
  "pu_key_intr_handler ks g = handle_keys 1 (gp_status g) ks g"

definition pd_key_intr_handler :: "single_key list \<Rightarrow> gpio \<Rightarrow> single_key list \<times> gpio" where
  "pd_key_intr_handler ks g = handle_keys 0 (gp_status g) ks g"

section \<open>The plain handler\<close>

definition key_long_cb :: "single_key \<Rightarrow> single_key \<times> key_call list" where
  "key_long_cb k = (k\<lparr>key_5s := None\<rparr>, if long_press k then [Long (gpio_id k)] else [])"

definition key_short_cb :: "single_key \<Rightarrow> single_key \<times> key_call list" where
  "key_short_cb k = (k\<lparr>key_50ms := None\<rparr>, if short_press k then [Short (gpio_id k)] else [])"

text \<open>\<open>last_time\<close> is the static variable, \<open>time\<close> the system time in microseconds, which wraps round.\<close>

definition key_intr_handler :: "u32 \<Rightarrow> u32 \<Rightarrow> single_key list \<Rightarrow> gpio \<Rightarrow> (u32 \<times> single_key list \<times> gpio) option" where
  "key_intr_handler time last_time ks g =
     (case ks of
        [] \<Rightarrow> None
      | k # rest \<Rightarrow>
          let gpio_status = gp_status g
          in if gpio_status AND pin_bit (gpio_id k) \<noteq> 0 then
               let duration = time - last_time;
                   k = (if last_time \<noteq> 0 then
                          if duration > 4000000 then k\<lparr>key_5s := Some (CB_long, 100)\<rparr>
                          else if 50000 < duration \<and> duration \<le> 1000000 then k\<lparr>key_50ms := Some (CB_short, 1)\<rparr>
                          else k
                        else k);
                   last_time = (if ucast (key_level k) = GPIO_INPUT_GET (gpio_id k) g then time else 0)
               in Some (last_time, k # rest,
                        (status_clear (gpio_status AND pin_bit (gpio_id k)) g)\<lparr>gp_masked := False\<rparr>)
             else Some (last_time, ks, g\<lparr>gp_masked := False\<rparr>))"

definition key_init :: "single_key list \<Rightarrow> gpio \<Rightarrow> gpio option" where
  "key_init ks g =
     (case ks of
        [] \<Rightarrow> None
      | k # rest \<Rightarrow>
          Some ((init_pin INTR_ANYEDGE k (g\<lparr>gp_handler := Key_handler, gp_masked := True\<rparr>))\<lparr>gp_masked := False\<rparr>))"

end
