(* ===== verification/Key_Debounce.thy ===== *)
theory Key_Debounce
  imports Key
begin

text \<open>
  What the debounced keys do: the events that can happen to them as a step relation, the three states
  a key can be in, and how presses, long presses and short presses match.
\<close>

section \<open>Events\<close>

text \<open>
  The world: the keys, the registers, the calls so far and, for each key, how often its five second timer has been started,
  which is once per press.
\<close>

record world =
  w_keys :: "single_key list"
  w_gpio :: gpio
  w_calls :: "key_call list"
  w_presses :: "nat \<Rightarrow> nat"

text \<open>The keys whose press the handler notices.\<close>

definition pressed_now :: "u8 \<Rightarrow> world \<Rightarrow> nat \<Rightarrow> bool" where
  "pressed_now idle w i \<longleftrightarrow>
     i < length (w_keys w) \<and> key_level (w_keys w ! i) = idle \<and> gp_status (w_gpio w) AND pin_bit (gpio_id (w_keys w ! i)) \<noteq> 0"

inductive key_event :: "u8 \<Rightarrow> world \<Rightarrow> world \<Rightarrow> bool" for idle where
  pins: "key_event idle w (w\<lparr>w_gpio := (w_gpio w)\<lparr>gp_input := v, gp_status := s\<rparr>\<rparr>)"
| interrupt: "handle_keys idle (gp_status (w_gpio w)) (w_keys w) (w_gpio w) = (ks, g) \<Longrightarrow>
    key_event idle w (w\<lparr>w_keys := ks, w_gpio := g, w_presses := (\<lambda>i. w_presses w i + (if pressed_now idle w i then 1 else 0))\<rparr>)"
| timer_5s: "i < length (w_keys w) \<Longrightarrow> key_5s (w_keys w ! i) = Some t \<Longrightarrow> key_5s_cb idle (w_keys w ! i) (w_gpio w) = (k, calls) \<Longrightarrow>
    key_event idle w (w\<lparr>w_keys := (w_keys w)[i := k], w_calls := w_calls w @ calls\<rparr>)"
| timer_50ms: "i < length (w_keys w) \<Longrightarrow> key_50ms (w_keys w ! i) = Some t \<Longrightarrow>
    key_50ms_cb idle (w_keys w ! i) (w_gpio w) = (k, g, calls) \<Longrightarrow>
    key_event idle w (w\<lparr>w_keys := (w_keys w)[i := k], w_gpio := g, w_calls := w_calls w @ calls\<rparr>)"

inductive_cases key_eventE: "key_event idle w w'"

section \<open>Key by key\<close>

lemma handle_key_fields:
  "gpio_id (fst (handle_key idle s k g)) = gpio_id k" "short_press (fst (handle_key idle s k g)) = short_press k"
  "i \<noteq> gpio_id k \<Longrightarrow> gp_intr (snd (handle_key idle s k g)) i = gp_intr g i"
  by (simp_all add: handle_key_def Let_def intr_state_set_def status_clear_def)

lemma handle_key_intr:
  "gp_intr g (gpio_id k) = gp_intr g' (gpio_id k) \<Longrightarrow> fst (handle_key idle s k g) = fst (handle_key idle s k g') \<and>
     gp_intr (snd (handle_key idle s k g)) (gpio_id k) = gp_intr (snd (handle_key idle s k g')) (gpio_id k)"
  by (simp add: handle_key_def Let_def intr_state_set_def status_clear_def)

lemma handle_keys_nth:
  assumes "handle_keys idle s ks g = (ks', g')" and "distinct (map gpio_id ks)"
  shows "length ks' = length ks \<and>
     (\<forall>i<length ks. ks' ! i = fst (handle_key idle s (ks ! i) g) \<and>
        gp_intr g' (gpio_id (ks ! i)) = gp_intr (snd (handle_key idle s (ks ! i) g)) (gpio_id (ks ! i))) \<and>
     (\<forall>p. p \<notin> gpio_id ` set ks \<longrightarrow> gp_intr g' p = gp_intr g p)"
  using assms
proof (induction ks arbitrary: g ks' g')
  case (Cons k ks)
  obtain k1 g1 where k1: "handle_key idle s k g = (k1, g1)" by (cases "handle_key idle s k g")
  obtain ks1 where ks1: "handle_keys idle s ks g1 = (ks1, g')" "ks' = k1 # ks1"
  proof (cases "handle_keys idle s ks g1")
    case (Pair a b)
    then show ?thesis using Cons.prems(1) k1 that by simp
  qed
  have d: "distinct (map gpio_id ks)" "gpio_id k \<notin> gpio_id ` set ks" using Cons.prems(2) by auto
  note IH = Cons.IH [OF ks1(1) d(1)]
  have other: "gp_intr g1 p = gp_intr g p" if "p \<noteq> gpio_id k" for p
    using handle_key_fields(3) [OF that, of idle s g] k1 by simp
  have nth: "ks' ! i = fst (handle_key idle s ((k # ks) ! i) g) \<and>
        gp_intr g' (gpio_id ((k # ks) ! i)) = gp_intr (snd (handle_key idle s ((k # ks) ! i) g)) (gpio_id ((k # ks) ! i))"
    if i: "i < length (k # ks)" for i
  proof (cases i)
    case 0
    then show ?thesis using IH d(2) k1 ks1(2) by simp
  next
    case (Suc j)
    then have j: "j < length ks" using i by simp
    then have "gpio_id (ks ! j) \<in> gpio_id ` set ks" by simp
    then have "gpio_id (ks ! j) \<noteq> gpio_id k" using d(2) by metis
    then have "gp_intr g1 (gpio_id (ks ! j)) = gp_intr g (gpio_id (ks ! j))" by (rule other)
    from handle_key_intr [OF this, of idle s] IH j show ?thesis by (simp add: Suc ks1(2))
  qed
  have "gp_intr g' p = gp_intr g p" if "p \<notin> gpio_id ` set (k # ks)" for p
    using IH that other [of p] by auto
  with IH nth show ?case by (simp add: ks1(2))
qed simp

section \<open>The states of a key\<close>

text \<open>
  At rest: the press is awaited and no timer runs. Pressed: the release is awaited. Bouncing: interrupts are off
  and the 50 ms timer runs.
\<close>

definition at_rest :: "u8 \<Rightarrow> single_key \<Rightarrow> gpio_int \<Rightarrow> bool" where
  "at_rest idle k t \<longleftrightarrow> key_level k = idle \<and> t = press_edge idle \<and> key_5s k = None \<and> key_50ms k = None"

definition pressed :: "u8 \<Rightarrow> single_key \<Rightarrow> gpio_int \<Rightarrow> bool" where
  "pressed idle k t \<longleftrightarrow> key_level k = (if idle = 1 then 0 else 1) \<and> t = release_edge idle \<and> key_50ms k = None"

definition bouncing :: "u8 \<Rightarrow> single_key \<Rightarrow> gpio_int \<Rightarrow> bool" where
  "bouncing idle k t \<longleftrightarrow> key_level k = (if idle = 1 then 0 else 1) \<and> t = INTR_DISABLE \<and> key_50ms k = Some (CB_50ms, 50)"

definition key_typed :: "u8 \<Rightarrow> single_key \<Rightarrow> gpio_int \<Rightarrow> bool" where
  "key_typed idle k t \<longleftrightarrow> at_rest idle k t \<or> pressed idle k t \<or> bouncing idle k t"

text \<open>The calls of a key, matched with its presses.\<close>

definition shorts :: "u8 \<Rightarrow> key_call list \<Rightarrow> nat" where
  "shorts p calls = length (filter (\<lambda>c. c = Short p) calls)"

definition longs :: "u8 \<Rightarrow> key_call list \<Rightarrow> nat" where
  "longs p calls = length (filter (\<lambda>c. c = Long p) calls)"

definition key_counts :: "u8 \<Rightarrow> single_key \<Rightarrow> key_call list \<Rightarrow> nat \<Rightarrow> bool" where
  "key_counts idle k calls presses \<longleftrightarrow>
     (short_press k \<longrightarrow> shorts (gpio_id k) calls + (if key_level k = idle then 0 else 1) = presses) \<and>
     longs (gpio_id k) calls + (if key_5s k = None then 0 else 1) \<le> presses"

definition world_ok :: "u8 \<Rightarrow> world \<Rightarrow> bool" where
  "world_ok idle w \<longleftrightarrow>
     distinct (map gpio_id (w_keys w)) \<and>
     (\<forall>i<length (w_keys w). key_typed idle (w_keys w ! i) (gp_intr (w_gpio w) (gpio_id (w_keys w ! i))) \<and>
        key_counts idle (w_keys w ! i) (w_calls w) (w_presses w i))"

lemma edges_differ: "press_edge idle \<noteq> INTR_DISABLE" "release_edge idle \<noteq> INTR_DISABLE"
  by (simp_all add: press_edge_def release_edge_def)

lemmas key_state_defs = key_typed_def at_rest_def pressed_def bouncing_def key_counts_def

lemma key_typedE:
  assumes "key_typed idle k t" and "idle = 0 \<or> idle = 1"
  obtains (rest) "key_level k = idle" "t = press_edge idle" "key_5s k = None" "key_50ms k = None"
  | (down) "key_level k = (if idle = 1 then 0 else 1)" "key_level k \<noteq> idle" "t = release_edge idle" "key_50ms k = None"
  | (bounce) "key_level k = (if idle = 1 then 0 else 1)" "key_level k \<noteq> idle" "t = INTR_DISABLE" "key_50ms k = Some (CB_50ms, 50)"
proof -
  have ne: "(if idle = 1 then 0 else 1) \<noteq> idle" using assms(2) by auto
  consider "at_rest idle k t" | "pressed idle k t" | "bouncing idle k t" using assms(1) by (auto simp: key_typed_def)
  then show thesis
  proof cases
    case 1
    then show thesis by (intro rest) (simp_all add: at_rest_def)
  next
    case 2
    then show thesis using ne by (intro down) (simp_all add: pressed_def)
  next
    case 3
    then show thesis using ne by (intro bounce) (simp_all add: bouncing_def)
  qed
qed

lemma handle_key_ok:
  assumes "idle = 0 \<or> idle = 1" and "key_typed idle k (gp_intr g (gpio_id k))" and "key_counts idle k calls n"
    and "handle_key idle s k g = (k', g')"
  shows "key_typed idle k' (gp_intr g' (gpio_id k')) \<and>
     key_counts idle k' calls (n + (if key_level k = idle \<and> s AND pin_bit (gpio_id k) \<noteq> 0 then 1 else 0))"
proof (cases "s AND pin_bit (gpio_id k) = 0")
  case True
  then show ?thesis using assms by (simp add: handle_key_def)
next
  case False
  define g1 where "g1 = status_clear (s AND pin_bit (gpio_id k)) (intr_state_set (gpio_id k) INTR_DISABLE g)"
  have g1: "gp_intr g1 (gpio_id k) = INTR_DISABLE" by (simp add: g1_def status_clear_def intr_state_set_def)
  have step: "handle_key idle s k g =
      (if key_level k = idle then
         (k\<lparr>key_5s := Some (CB_5s, 5000), key_level := (if idle = 1 then 0 else 1)\<rparr>, intr_state_set (gpio_id k) (release_edge idle) g1)
       else (k\<lparr>key_50ms := Some (CB_50ms, 50)\<rparr>, g1))"
    using False by (simp add: handle_key_def Let_def g1_def)
  have ne: "(if idle = 1 then 0 else 1) \<noteq> idle" using assms(1) by auto
  from assms(2,1) show ?thesis
  proof (cases rule: key_typedE)
    case rest
    then have r: "k' = k\<lparr>key_5s := Some (CB_5s, 5000), key_level := (if idle = 1 then 0 else 1)\<rparr>"
      "gp_intr g' (gpio_id k) = release_edge idle" using step assms(4) by (auto simp: intr_state_set_def)
    have "pressed idle k' (gp_intr g' (gpio_id k'))" using rest r by (simp add: pressed_def)
    moreover have "key_counts idle k' calls (n + 1)" using assms(3) rest ne r(1) by (simp add: key_counts_def)
    ultimately show ?thesis using rest(1) False by (simp add: key_typed_def)
  next
    case down
    then have r: "k' = k\<lparr>key_50ms := Some (CB_50ms, 50)\<rparr>" "g' = g1" using step assms(4) by auto
    have "bouncing idle k' (gp_intr g' (gpio_id k'))" using down r g1 by (simp add: bouncing_def)
    moreover have "key_counts idle k' calls n" using assms(3) r(1) by (simp add: key_counts_def)
    ultimately show ?thesis using down(2) by (simp add: key_typed_def)
  next
    case bounce
    then have r: "k' = k\<lparr>key_50ms := Some (CB_50ms, 50)\<rparr>" "g' = g1" using step assms(4) by auto
    have "bouncing idle k' (gp_intr g' (gpio_id k'))" using bounce r g1 by (simp add: bouncing_def)
    moreover have "key_counts idle k' calls n" using assms(3) r(1) by (simp add: key_counts_def)
    ultimately show ?thesis using bounce(2) by (simp add: key_typed_def)
  qed
qed

lemma key_5s_cb_ok:
  assumes "idle = 0 \<or> idle = 1" and "key_typed idle k t" and "key_counts idle k calls n" and "key_5s k = Some x"
    and "key_5s_cb idle k g = (k', new)"
  shows "key_typed idle k' t \<and> key_counts idle k' (calls @ new) n \<and> gpio_id k' = gpio_id k"
proof -
  have k': "k' = k\<lparr>key_5s := None\<rparr>" "new = [] \<or> new = [Long (gpio_id k)]"
    using assms(5) by (auto simp: key_5s_cb_def split: if_splits)
  have "key_typed idle k' t" using assms(2,4) unfolding key_typed_def at_rest_def pressed_def bouncing_def k'(1) by simp
  moreover have "key_counts idle k' (calls @ new) n"
    using k'(2) assms(3,4) by (elim disjE) (simp_all add: key_counts_def shorts_def longs_def k'(1))
  ultimately show ?thesis by (simp add: k'(1))
qed

lemma key_50ms_cb_ok:
  assumes "idle = 0 \<or> idle = 1" and "key_typed idle k (gp_intr g (gpio_id k))" and "key_counts idle k calls n"
    and "key_50ms k = Some x" and "key_50ms_cb idle k g = (k', g', new)"
  shows "key_typed idle k' (gp_intr g' (gpio_id k)) \<and> key_counts idle k' (calls @ new) n \<and> gpio_id k' = gpio_id k \<and>
     (\<forall>p. p \<noteq> gpio_id k \<longrightarrow> gp_intr g' p = gp_intr g p)"
proof -
  have ne: "(if idle = 1 then 0 else 1) \<noteq> idle" using assms(1) by auto
  have l: "key_level k = (if idle = 1 then 0 else 1)"
    using assms(2,1,4) by (cases rule: key_typedE) simp_all
  show ?thesis
  proof (cases "GPIO_INPUT_GET (gpio_id k) g = (if idle = 1 then 1 else 0)")
    case True
    then have r: "k' = k\<lparr>key_50ms := None, key_5s := None, key_level := idle\<rparr>" "g' = intr_state_set (gpio_id k) (press_edge idle) g"
      "new = (if short_press k then [Short (gpio_id k)] else [])" using assms(5) by (auto simp: key_50ms_cb_def Let_def)
    have "at_rest idle k' (gp_intr g' (gpio_id k))" by (simp add: r(1,2) at_rest_def intr_state_set_def)
    moreover have "key_counts idle k' (calls @ new) n"
      using assms(3) ne l by (auto simp: key_counts_def shorts_def longs_def r(1,3))
    ultimately show ?thesis by (simp add: key_typed_def r(1,2) intr_state_set_def)
  next
    case False
    then have r: "k' = k\<lparr>key_50ms := None\<rparr>" "g' = intr_state_set (gpio_id k) (release_edge idle) g" "new = []"
      using assms(5) by (simp_all add: key_50ms_cb_def Let_def)
    have "pressed idle k' (gp_intr g' (gpio_id k))" using l by (simp add: r(1,2) pressed_def intr_state_set_def)
    moreover have "key_counts idle k' (calls @ new) n" using assms(3) by (simp add: key_counts_def r(1,3))
    ultimately show ?thesis by (simp add: key_typed_def r(1,2) intr_state_set_def)
  qed
qed

text \<open>The calls of one key do not count for another.\<close>

lemma key_counts_other:
  "gpio_id k \<noteq> p \<Longrightarrow> set new \<subseteq> {Long p, Short p} \<Longrightarrow> key_counts idle k (calls @ new) n = key_counts idle k calls n"
proof -
  assume "gpio_id k \<noteq> p" "set new \<subseteq> {Long p, Short p}"
  then have "filter (\<lambda>c. c = Short (gpio_id k)) new = []" "filter (\<lambda>c. c = Long (gpio_id k)) new = []"
    by (auto simp: filter_empty_conv)
  then show ?thesis by (simp add: key_counts_def shorts_def longs_def)
qed

lemma new_calls:
  "key_5s_cb idle k g = (k', new) \<Longrightarrow> set new \<subseteq> {Long (gpio_id k), Short (gpio_id k)}"
  "key_50ms_cb idle k g = (k', g', new) \<Longrightarrow> set new \<subseteq> {Long (gpio_id k), Short (gpio_id k)}"
  by (auto simp: key_5s_cb_def key_50ms_cb_def Let_def split: if_splits)

lemma key_event_ok:
  assumes "key_event idle w w'" and "idle = 0 \<or> idle = 1" and "world_ok idle w"
  shows "world_ok idle w'"
  using assms(1)
proof cases
  case (pins v s)
  then show ?thesis using assms(3) by (simp add: world_ok_def)
next
  case (interrupt ks g)
  have d: "distinct (map gpio_id (w_keys w))" using assms(3) by (simp add: world_ok_def)
  note h = handle_keys_nth [OF interrupt(2) d]
  have one: "gpio_id (ks ! i) = gpio_id (w_keys w ! i) \<and> key_typed idle (ks ! i) (gp_intr g (gpio_id (ks ! i))) \<and>
      key_counts idle (ks ! i) (w_calls w) (w_presses w i + (if pressed_now idle w i then 1 else 0))" if i: "i < length (w_keys w)" for i
  proof -
    let ?k = "w_keys w ! i"
    obtain k' g' where r: "handle_key idle (gp_status (w_gpio w)) ?k (w_gpio w) = (k', g')"
      by (cases "handle_key idle (gp_status (w_gpio w)) ?k (w_gpio w)")
    have k': "ks ! i = k'" "gp_intr g (gpio_id ?k) = gp_intr g' (gpio_id ?k)" "gpio_id k' = gpio_id ?k"
      using h i r handle_key_fields(1) [of idle "gp_status (w_gpio w)" ?k "w_gpio w"] by auto
    have "pressed_now idle w i \<longleftrightarrow> key_level ?k = idle \<and> gp_status (w_gpio w) AND pin_bit (gpio_id ?k) \<noteq> 0"
      using i by (simp add: pressed_now_def)
    moreover have "key_typed idle ?k (gp_intr (w_gpio w) (gpio_id ?k))" "key_counts idle ?k (w_calls w) (w_presses w i)"
      using assms(3) i by (simp_all add: world_ok_def)
    ultimately show ?thesis using handle_key_ok [OF assms(2) _ _ r] k' by simp
  qed
  have len: "length ks = length (w_keys w)" using h by blast
  then have "map gpio_id ks = map gpio_id (w_keys w)" using one by (auto intro: nth_equalityI)
  moreover have "\<forall>i<length (w_keys w). key_typed idle (ks ! i) (gp_intr g (gpio_id (ks ! i))) \<and>
      key_counts idle (ks ! i) (w_calls w) (w_presses w i + (if pressed_now idle w i then 1 else 0))" using one by blast
  ultimately show ?thesis using len d interrupt(1) by (simp add: world_ok_def)
next
  case (timer_5s i t k calls)
  let ?k = "w_keys w ! i"
  have old: "\<forall>j<length (w_keys w). key_typed idle (w_keys w ! j) (gp_intr (w_gpio w) (gpio_id (w_keys w ! j))) \<and>
      key_counts idle (w_keys w ! j) (w_calls w) (w_presses w j)" and d: "distinct (map gpio_id (w_keys w))"
    using assms(3) by (simp_all add: world_ok_def)
  have "key_typed idle ?k (gp_intr (w_gpio w) (gpio_id ?k))" "key_counts idle ?k (w_calls w) (w_presses w i)"
    using old timer_5s(2) by blast+
  note k = key_5s_cb_ok [OF assms(2) this timer_5s(3,4)]
  have id: "gpio_id k = gpio_id ?k" using k by blast
  then have ids: "map gpio_id ((w_keys w)[i := k]) = map gpio_id (w_keys w)" using timer_5s(2) by (simp add: map_update list_update_same_conv)
  have "key_typed idle ((w_keys w)[i := k] ! j) (gp_intr (w_gpio w) (gpio_id ((w_keys w)[i := k] ! j))) \<and>
      key_counts idle ((w_keys w)[i := k] ! j) (w_calls w @ calls) (w_presses w j)" if j: "j < length (w_keys w)" for j
  proof (cases "j = i")
    case True
    then show ?thesis using k j by simp
  next
    case False
    then have "gpio_id (w_keys w ! j) \<noteq> gpio_id ?k" using d j timer_5s(2) nth_eq_iff_index_eq by fastforce
    from key_counts_other [OF this new_calls(1) [OF timer_5s(4)]] show ?thesis using old j False by simp
  qed
  then show ?thesis using timer_5s(1) ids d by (simp add: world_ok_def)
next
  case (timer_50ms i t k g calls)
  let ?k = "w_keys w ! i"
  have old: "\<forall>j<length (w_keys w). key_typed idle (w_keys w ! j) (gp_intr (w_gpio w) (gpio_id (w_keys w ! j))) \<and>
      key_counts idle (w_keys w ! j) (w_calls w) (w_presses w j)" and d: "distinct (map gpio_id (w_keys w))"
    using assms(3) by (simp_all add: world_ok_def)
  have "key_typed idle ?k (gp_intr (w_gpio w) (gpio_id ?k))" "key_counts idle ?k (w_calls w) (w_presses w i)"
    using old timer_50ms(2) by blast+
  note k = key_50ms_cb_ok [OF assms(2) this timer_50ms(3,4)]
  have id: "gpio_id k = gpio_id ?k" using k by blast
  then have ids: "map gpio_id ((w_keys w)[i := k]) = map gpio_id (w_keys w)" using timer_50ms(2) by (simp add: map_update list_update_same_conv)
  have "key_typed idle ((w_keys w)[i := k] ! j) (gp_intr g (gpio_id ((w_keys w)[i := k] ! j))) \<and>
      key_counts idle ((w_keys w)[i := k] ! j) (w_calls w @ calls) (w_presses w j)" if j: "j < length (w_keys w)" for j
  proof (cases "j = i")
    case True
    then show ?thesis using k j by simp
  next
    case False
    then have ne: "gpio_id (w_keys w ! j) \<noteq> gpio_id ?k" using d j timer_50ms(2) nth_eq_iff_index_eq by fastforce
    moreover have "gp_intr g (gpio_id (w_keys w ! j)) = gp_intr (w_gpio w) (gpio_id (w_keys w ! j))"
      using k ne by blast
    ultimately show ?thesis using key_counts_other [OF ne new_calls(2) [OF timer_50ms(4)]] old j False by simp
  qed
  then show ?thesis using timer_50ms(1) ids d by (simp add: world_ok_def)
qed

section \<open>From the initialisation on\<close>

inductive key_reaches :: "u8 \<Rightarrow> world \<Rightarrow> world \<Rightarrow> bool" for idle w0 where
  start: "key_reaches idle w0 w0"
| event: "key_reaches idle w0 w \<Longrightarrow> key_event idle w w' \<Longrightarrow> key_reaches idle w0 w'"

lemma init_pin_intr: "gp_intr (init_pin t k g) = (gp_intr g)(gpio_id k := t)"
  by (simp add: init_pin_def Let_def intr_state_set_def status_clear_def)

lemma init_keys_nth:
  assumes "init_keys idle ks g = (ks', g')" and "distinct (map gpio_id ks)"
  shows "ks' = map (\<lambda>k. k\<lparr>key_level := idle\<rparr>) ks \<and> (\<forall>k\<in>set ks. gp_intr g' (gpio_id k) = press_edge idle) \<and>
     (\<forall>p. p \<notin> gpio_id ` set ks \<longrightarrow> gp_intr g' p = gp_intr g p)"
  using assms
proof (induction ks arbitrary: g ks')
  case (Cons k ks)
  obtain ks1 where ks1: "init_keys idle ks (init_pin (press_edge idle) (k\<lparr>key_level := idle\<rparr>) g) = (ks1, g')"
    "ks' = k\<lparr>key_level := idle\<rparr> # ks1"
  proof (cases "init_keys idle ks (init_pin (press_edge idle) (k\<lparr>key_level := idle\<rparr>) g)")
    case (Pair a b)
    then show ?thesis using Cons.prems(1) that by (simp add: Let_def)
  qed
  have d: "distinct (map gpio_id ks)" "gpio_id k \<notin> gpio_id ` set ks" using Cons.prems(2) by auto
  from Cons.IH [OF ks1(1) d(1)] d(2) show ?case by (auto simp: ks1(2) init_pin_intr)
qed simp

definition fresh_keys :: "single_key list \<Rightarrow> bool" where
  "fresh_keys ks \<longleftrightarrow> distinct (map gpio_id ks) \<and> (\<forall>k\<in>set ks. key_5s k = None \<and> key_50ms k = None)"

text \<open>The keys are set up by one of the two initialisations; \<open>idle\<close> is its level.\<close>

definition set_up :: "u8 \<Rightarrow> single_key list \<Rightarrow> gpio \<Rightarrow> world \<Rightarrow> bool" where
  "set_up idle ks g w \<longleftrightarrow>
     (idle = 1 \<and> pu_key_init ks g = (w_keys w, w_gpio w) \<or> idle = 0 \<and> pd_key_init ks g = (w_keys w, w_gpio w)) \<and>
     w_calls w = [] \<and> w_presses w = (\<lambda>i. 0)"

lemma set_up_ok:
  assumes "set_up idle ks g w" and "fresh_keys ks"
  shows "(idle = 0 \<or> idle = 1) \<and> world_ok idle w"
proof -
  have i: "idle = 0 \<or> idle = 1" using assms(1) by (auto simp: set_up_def)
  obtain h ks' g' where init: "init_keys idle ks (g\<lparr>gp_handler := h, gp_masked := True\<rparr>) = (ks', g')"
    "w_keys w = ks'" "w_gpio w = g'\<lparr>gp_masked := False\<rparr>"
    using assms(1) by (auto simp: set_up_def pu_key_init_def pd_key_init_def split: prod.splits)
  have d: "distinct (map gpio_id ks)" using assms(2) by (simp add: fresh_keys_def)
  note n = init_keys_nth [OF init(1) d]
  have "key_typed idle k (press_edge idle) \<and> key_counts idle k [] 0" if "k \<in> set ks'" for k
    using that n assms(2) by (auto simp: fresh_keys_def key_typed_def at_rest_def key_counts_def shorts_def longs_def)
  moreover have "gp_intr g' (gpio_id k) = press_edge idle" if "k \<in> set ks'" for k
    using that n by auto
  moreover have "map gpio_id ks' = map gpio_id ks" using n by simp
  ultimately show ?thesis using i d assms(1) by (simp add: world_ok_def init(2,3) set_up_def)
qed

text \<open>
  C34: whatever happens to the pins, and whenever the interrupt handler and the timers run, a debounced key is in one of three
  states (at rest, pressed, or bouncing with its interrupt off and its timer running, so that it never hangs), every press
  that is over has led to exactly one call of short_press, and each press to at most one call of long_press.
\<close>

theorem key_states:
  assumes "set_up idle ks g w0" and "fresh_keys ks" and "key_reaches idle w0 w" and "i < length (w_keys w)"
    and "k = w_keys w ! i" and "t = gp_intr (w_gpio w) (gpio_id k)"
  shows "(at_rest idle k t \<or> pressed idle k t \<or> bouncing idle k t) \<and> key_counts idle k (w_calls w) (w_presses w i)"
proof -
  have i: "idle = 0 \<or> idle = 1" and ok: "world_ok idle w0" using set_up_ok [OF assms(1,2)] by auto
  from assms(3) have "world_ok idle w"
  proof induction
    case start
    show ?case by (rule ok)
  next
    case (event w w')
    from key_event_ok [OF event(2) i event(3)] show ?case .
  qed
  then show ?thesis using assms(4-6) by (simp add: world_ok_def key_typed_def)
qed

definition demo_key :: single_key where
  "demo_key = \<lparr>key_level = 0, gpio_id = 4, gpio_func = 0, gpio_name = 0, key_5s = None, key_50ms = None,
     short_press = True, long_press = True\<rparr>"

definition demo_gpio :: gpio where
  "demo_gpio = \<lparr>gp_input = 16, gp_status = 0, gp_intr = (\<lambda>i. INTR_DISABLE), gp_func = (\<lambda>i. 0), gp_enable = 0,
     gp_handler = No_handler, gp_masked = False\<rparr>"

definition demo_world :: world where
  "demo_world = \<lparr>w_keys = fst (pu_key_init [demo_key] demo_gpio), w_gpio = snd (pu_key_init [demo_key] demo_gpio),
     w_calls = [], w_presses = (\<lambda>i. 0)\<rparr>"

definition demo_pressed :: world where
  "demo_pressed =
     (let w = demo_world\<lparr>w_gpio := (w_gpio demo_world)\<lparr>gp_input := 0, gp_status := 16\<rparr>\<rparr>;
          r = handle_keys 1 (gp_status (w_gpio w)) (w_keys w) (w_gpio w)
      in w\<lparr>w_keys := fst r, w_gpio := snd r, w_presses := (\<lambda>i. w_presses w i + (if pressed_now 1 w i then 1 else 0))\<rparr>)"

theorem key_states_witness:
  "(at_rest 1 (w_keys demo_pressed ! 0) (gp_intr (w_gpio demo_pressed) (gpio_id (w_keys demo_pressed ! 0))) \<or>
     pressed 1 (w_keys demo_pressed ! 0) (gp_intr (w_gpio demo_pressed) (gpio_id (w_keys demo_pressed ! 0))) \<or>
     bouncing 1 (w_keys demo_pressed ! 0) (gp_intr (w_gpio demo_pressed) (gpio_id (w_keys demo_pressed ! 0)))) \<and>
   key_counts 1 (w_keys demo_pressed ! 0) (w_calls demo_pressed) (w_presses demo_pressed 0)"
proof (rule key_states [OF _ _ _ _ refl refl])
  show "set_up 1 [demo_key] demo_gpio demo_world" by (simp add: set_up_def demo_world_def)
  show "fresh_keys [demo_key]" by (simp add: fresh_keys_def demo_key_def)
  have "key_reaches 1 demo_world (demo_world\<lparr>w_gpio := (w_gpio demo_world)\<lparr>gp_input := 0, gp_status := 16\<rparr>\<rparr>)"
    by (rule key_reaches.event [OF key_reaches.start key_event.pins])
  then show "key_reaches 1 demo_world demo_pressed"
    unfolding demo_pressed_def Let_def by (rule key_reaches.event) (rule key_event.interrupt, simp)
  show "0 < length (w_keys demo_pressed)"
    by (simp add: demo_pressed_def demo_world_def pu_key_init_def Let_def split: prod.split)
qed

end
