(* ===== verification/Http.thy ===== *)
theory Http
  imports Mqtt_Utils
begin

text \<open>
  The HTTP client, lib/httpclient/httpclient.c: number parsing, the decoder of chunked bodies, the
  callbacks of a connection and the functions that start a request. A C string is the list of its bytes, the
  memory behind a pointer the list of the bytes from there to the end of its block. The calls to the network, the
  timer and the callback of the application are a trace. \<open>None\<close> is undefined behaviour. Each allocation has a
  parameter that tells whether it succeeds.
\<close>

section \<open>Strings in memory\<close>

text \<open>The C string at the start of the memory; \<open>None\<close> if there is no NUL.\<close>

fun cstr :: "u8 list \<Rightarrow> cstring option" where
  "cstr [] = None"
| "cstr (c # m) = (if c = 0 then Some [] else map_option (Cons c) (cstr m))"

text \<open>\<open>strstr\<close> on two strings: the offset of the first occurrence, if there is one.\<close>

fun strstr :: "cstring \<Rightarrow> cstring \<Rightarrow> nat option" where
  "strstr [] w = (if w = [] then Some 0 else None)"
| "strstr (c # s) w =
     (if take (length w) (c # s) = w then Some 0 else map_option Suc (strstr s w))"

text \<open>\<open>strncmp(s, w, strlen(w)) == 0\<close>\<close>

definition starts_with :: "cstring \<Rightarrow> cstring \<Rightarrow> bool" where
  "starts_with w s \<longleftrightarrow> take (length w) s = w"

text \<open>\<open>atoi\<close> is defined for numbers in the range of an int.\<close>

definition libc_space :: "u8 \<Rightarrow> bool" where
  "libc_space c \<longleftrightarrow> c = 32 \<or> 9 \<le> uint c \<and> uint c \<le> 13"

definition atoi :: "cstring \<Rightarrow> int option" where
  "atoi s =
     (let s = dropWhile libc_space s;
          neg = (take 1 s = [45]);
          s = (if neg \<or> take 1 s = [43] then drop 1 s else s);
          v = dec_value 0 (takeWhile is_digit s);
          v = (if neg then - v else v)
      in if - 2147483648 \<le> v \<and> v \<le> 2147483647 then Some v else None)"

definition crlf :: cstring where "crlf = [13, 10]"

section \<open>esp_strtol\<close>

definition esp_isupper :: "int \<Rightarrow> bool" where
  "esp_isupper c \<longleftrightarrow> c \<ge> 65 \<and> c \<le> 90"

definition esp_isalpha :: "int \<Rightarrow> bool" where
  "esp_isalpha c \<longleftrightarrow> (c \<ge> 65 \<and> c \<le> 90) \<or> (c \<ge> 97 \<and> c \<le> 122)"

definition esp_isspace :: "u8 \<Rightarrow> bool" where
  "esp_isspace c \<longleftrightarrow> c = 32 \<or> c = 9 \<or> c = 10"

definition esp_isdigit :: "int \<Rightarrow> bool" where
  "esp_isdigit c \<longleftrightarrow> c \<ge> 48 \<and> c \<le> 57"

text \<open>The loop that skips white space: the first other character and the memory behind it.\<close>

fun skip_space :: "u8 list \<Rightarrow> (u8 \<times> u8 list) option" where
  "skip_space [] = None"
| "skip_space (c # s) = (if esp_isspace c then skip_space s else Some (c, s))"

text \<open>\<open>*s++\<close>\<close>

fun next_char :: "u8 list \<Rightarrow> (u8 \<times> u8 list) option" where
  "next_char [] = None"
| "next_char (c # s) = Some (c, s)"

definition strtol_sign :: "u8 \<Rightarrow> u8 list \<Rightarrow> (bool \<times> u8 \<times> u8 list) option" where
  "strtol_sign c s =
     (if c = 45 then map_option (Pair True) (next_char s)
      else if c = 43 then map_option (Pair False) (next_char s)
      else Some (False, c, s))"

definition strtol_prefix :: "int \<Rightarrow> u8 \<Rightarrow> u8 list \<Rightarrow> (int \<times> u8 \<times> u8 list) option" where
  "strtol_prefix base c s =
     (if (base = 0 \<or> base = 16 \<or> base = 2) \<and> c = 48 then
        do { (x, s1) \<leftarrow> next_char s;
             if (base = 0 \<or> base = 16) \<and> (x = 120 \<or> x = 88) then map_option (Pair 16) (next_char s1)
             else if (base = 0 \<or> base = 2) \<and> (x = 98 \<or> x = 66) then map_option (Pair 2) (next_char s1)
             else Some (if base = 0 then 8 else base, c, s) }
      else Some (if base = 0 then (if c = 48 then 8 else 10) else base, c, s))"

definition strtol_digit :: "int \<Rightarrow> int option" where
  "strtol_digit c =
     (if esp_isdigit c then Some (c - 48)
      else if esp_isalpha c then Some (c - (if esp_isupper c then 65 - 10 else 97 - 10))
      else None)"

text \<open>The accumulator and \<open>any\<close> after one more digit.\<close>

definition strtol_add :: "int \<Rightarrow> u32 \<Rightarrow> int \<Rightarrow> int \<Rightarrow> u32 \<Rightarrow> int \<Rightarrow> u32 \<times> int" where
  "strtol_add base cutoff cutlim d acc any =
     (if any < 0 \<or> acc > cutoff \<or> acc = cutoff \<and> d > cutlim then (acc, -1)
      else (acc * word_of_int base + word_of_int d, 1))"

fun strtol_loop ::
  "int \<Rightarrow> u32 \<Rightarrow> int \<Rightarrow> u8 \<Rightarrow> u8 list \<Rightarrow> u32 \<Rightarrow> int \<Rightarrow> (u32 \<times> int \<times> u8 list) option" where
  "strtol_loop base cutoff cutlim c s acc any =
     (case strtol_digit (uint c) of
        None \<Rightarrow> Some (acc, any, s)
      | Some d \<Rightarrow>
          if d \<ge> base then Some (acc, any, s)
          else (case s of
                  [] \<Rightarrow> None
                | c' # s' \<Rightarrow>
                    strtol_loop base cutoff cutlim c' s'
                      (fst (strtol_add base cutoff cutlim d acc any))
                      (snd (strtol_add base cutoff cutlim d acc any))))"

declare strtol_loop.simps [simp del]

text \<open>The value, a signed 32-bit number, and the offset that \<open>*endptr\<close> is set to.\<close>

definition esp_strtol :: "u8 list \<Rightarrow> int \<Rightarrow> (int \<times> nat) option" where
  "esp_strtol nptr base =
     do { (c, s) \<leftarrow> skip_space nptr;
          (neg, c, s) \<leftarrow> strtol_sign c s;
          (base, c, s) \<leftarrow> strtol_prefix base c s;
          let limit = (if neg then 0x80000000 else 0x7FFFFFFF);
          let cutlim = uint (limit mod word_of_int base);
          let cutoff = limit div word_of_int base;
          (acc, any, s) \<leftarrow> strtol_loop base cutoff cutlim c s 0 0;
          let acc = (if any < 0 then limit else if neg then - acc else acc);
          Some (sint acc, if any \<noteq> 0 then length nptr - length s - 1 else 0) }"

section \<open>Chunked bodies\<close>

text \<open>
  The loop of http_chunked_decode: \<open>str\<close> is the memory from str + j on, \<open>j\<close> the bytes consumed, \<open>decode\<close> the
  destination with \<open>decode_size\<close> bytes filled. A size line without CRLF makes strstr return NULL, with which the
  code goes on to compute: undefined.
\<close>

function chunk_loop :: "u8 list \<Rightarrow> nat \<Rightarrow> u8 list \<Rightarrow> nat \<Rightarrow> (nat \<times> u8 list) option" where
  "chunk_loop str j decode decode_size =
     (case esp_strtol str 16 of
        None \<Rightarrow> None
      | Some (i, _) \<Rightarrow>
          if i \<le> 0 then Some (j, decode)
          else (case Option.bind (cstr str) (\<lambda>s. strstr s crlf) of
                  None \<Rightarrow> None
                | Some e \<Rightarrow>
                    (case rd_seg str (e + 2) (nat i) of
                       None \<Rightarrow> None
                     | Some data \<Rightarrow>
                         (case wr_seg decode decode_size data of
                            None \<Rightarrow> None
                          | Some decode \<Rightarrow>
                              chunk_loop (drop (e + 2 + nat i + 2) str) (j + e + 2 + nat i + 2) decode
                                (decode_size + nat i)))))"
  by pat_completeness auto

termination
  by (relation "measure (\<lambda>(str, j, decode, n). length str)") (auto simp: rd_seg_def split: if_splits)

declare chunk_loop.simps [simp del]

definition http_chunked_decode :: "u8 list \<Rightarrow> u8 list \<Rightarrow> (nat \<times> u8 list) option" where
  "http_chunked_decode chunked decode = chunk_loop chunked 0 decode 0"

section \<open>A request and its connection\<close>

text \<open>
  \<open>rq_timer\<close> is the time the timeout timer is armed with; \<open>rq_callback\<close> tells whether there is a callback.
\<close>

record request_args =
  rq_hostname :: "cstring option"
  rq_port :: int
  rq_secure :: bool
  rq_method :: "cstring option"
  rq_path :: "cstring option"
  rq_headers :: "cstring option"
  rq_post_data :: "cstring option"
  rq_buffer :: "u8 list option"
  rq_buffer_size :: nat
  rq_timeout :: nat
  rq_timer :: "nat option"
  rq_callback :: bool

text \<open>The part of \<open>struct espconn\<close> that the client sets; each callback is registered or not.\<close>

record espconn =
  ec_local_port :: int
  ec_remote_port :: int
  ec_remote_ip :: "u8 list"
  ec_connectcb :: bool
  ec_disconcb :: bool
  ec_reconcb :: bool
  ec_recvcb :: bool
  ec_sentcb :: bool

datatype http_event =
  Gethostbyname cstring | Connect bool | Send bool "u8 list" | Disconnect bool | Delete_conn
| Reply cstring int "cstring option" | Write_freed

text \<open>
  One request: its arguments and its connection, \<open>None\<close> before they are allocated and after they are freed.
  The connection always points to the request.
\<close>

record http =
  ht_req :: "request_args option"
  ht_conn :: "espconn option"
  ht_trace :: "http_event list"

definition http_emit :: "http_event \<Rightarrow> http \<Rightarrow> http" where
  "http_emit e h = h\<lparr>ht_trace := ht_trace h @ [e]\<rparr>"

definition set_req :: "request_args \<Rightarrow> http \<Rightarrow> http" where
  "set_req req h = h\<lparr>ht_req := Some req\<rparr>"

definition BUFFER_SIZE_MAX :: nat where "BUFFER_SIZE_MAX = 0x2000"
definition HTTP_STATUS_GENERIC_ERROR :: int where "HTTP_STATUS_GENERIC_ERROR = -1"
definition HTTP_REQUEST_TIMEOUT_MS :: nat where "HTTP_REQUEST_TIMEOUT_MS = 10000"

section \<open>Callbacks of a connection\<close>

text \<open>
  \<open>malloc n\<close> is \<open>None\<close> when it fails, or the contents of the fresh memory.
\<close>

definition discard_response :: "request_args \<Rightarrow> u8 list \<Rightarrow> http \<Rightarrow> http option" where
  "discard_response req buffer h =
     do { buffer \<leftarrow> wr buffer 0 0;
          Some (http_emit (Disconnect (rq_secure req)) (set_req (req\<lparr>rq_buffer := Some buffer\<rparr>) h)) }"

definition http_receive_callback :: "(nat \<Rightarrow> (nat \<Rightarrow> u8) option) \<Rightarrow> u8 list \<Rightarrow> http \<Rightarrow> http option" where
  "http_receive_callback malloc buf h =
     do { req \<leftarrow> ht_req h;
          case rq_buffer req of
            None \<Rightarrow> Some h
          | Some buffer \<Rightarrow>
              let new_size = rq_buffer_size req + length buf
              in if new_size > BUFFER_SIZE_MAX then discard_response req buffer h
                 else case malloc new_size of
                   None \<Rightarrow> discard_response req buffer h
                 | Some fresh \<Rightarrow>
                     if rq_buffer_size req = 0 then None
                     else do { old \<leftarrow> rd_seg buffer 0 (rq_buffer_size req);
                               new_buffer \<leftarrow> wr_seg (map fresh [0..<new_size]) 0 old;
                               new_buffer \<leftarrow> wr_seg new_buffer (rq_buffer_size req - 1) buf;
                               new_buffer \<leftarrow> wr new_buffer (new_size - 1) 0;
                               Some (set_req (req\<lparr>rq_buffer := Some new_buffer, rq_buffer_size := new_size\<rparr>) h) } }"

definition http_send_callback :: "http \<Rightarrow> http option" where
  "http_send_callback h =
     do { req \<leftarrow> ht_req h;
          Some (case rq_post_data req of
                  None \<Rightarrow> h
                | Some d \<Rightarrow> set_req (req\<lparr>rq_post_data := None\<rparr>) (http_emit (Send (rq_secure req) d) h)) }"

text \<open>The header that announces the data, and the request as sprintf writes it.\<close>

definition post_headers :: "request_args \<Rightarrow> cstring" where
  "post_headers req =
     (case rq_post_data req of
        None \<Rightarrow> []
      | Some d \<Rightarrow> ascii ''Content-Length: '' @ show_int (sint (word_of_nat (length d) :: u32)) @ crlf)"

definition request_text :: "cstring \<Rightarrow> cstring \<Rightarrow> cstring \<Rightarrow> int \<Rightarrow> cstring \<Rightarrow> cstring \<Rightarrow> cstring" where
  "request_text method path hostname port headers posth =
     method @ ascii '' '' @ path @ ascii '' HTTP/1.1'' @ crlf
     @ ascii ''Host: '' @ hostname @ ascii '':'' @ show_int port @ crlf
     @ ascii ''Connection: close'' @ crlf
     @ ascii ''User-Agent: ESP8266'' @ crlf @ headers @ posth @ crlf"

text \<open>\<open>headers_ok\<close> tells whether the empty string can be allocated for missing headers.\<close>

definition http_connect_callback :: "bool \<Rightarrow> http \<Rightarrow> http option" where
  "http_connect_callback headers_ok h =
     do { req \<leftarrow> ht_req h;
          conn \<leftarrow> ht_conn h;
          let posth = post_headers req;
          _ \<leftarrow> wr_seg (replicate 32 0) 0 (posth @ [0 :: u8]);
          headers \<leftarrow> (case rq_headers req of None \<Rightarrow> if headers_ok then Some [] else None | Some s \<Rightarrow> Some s);
          method \<leftarrow> rq_method req;
          path \<leftarrow> rq_path req;
          hostname \<leftarrow> rq_hostname req;
          let size = 69 + length method + length path + length hostname + length headers + length posth;
          let buf = request_text method path hostname (rq_port req) headers posth;
          _ \<leftarrow> wr_seg (replicate size 0) 0 (buf @ [0 :: u8]);
          Some (http_emit (Send (rq_secure req) buf)
            (h\<lparr>ht_req := Some (req\<lparr>rq_headers := None\<rparr>), ht_conn := Some (conn\<lparr>ec_recvcb := True, ec_sentcb := True\<rparr>)\<rparr>)) }"

text \<open>The evaluation of the response: the buffer, the offset of the body in it, if it has one, and the status.\<close>

definition parse_response :: "u8 list \<Rightarrow> nat \<Rightarrow> (u8 list \<times> nat option \<times> int) option" where
  "parse_response buffer buffer_size =
     do { c \<leftarrow> rd buffer 0;
          if c = 0 then Some (buffer, None, HTTP_STATUS_GENERIC_ERROR)
          else do { s \<leftarrow> cstr buffer;
                    if \<not> starts_with (ascii ''HTTP/1.0 '') s \<and> \<not> starts_with (ascii ''HTTP/1.1 '') s
                    then Some (buffer, None, HTTP_STATUS_GENERIC_ERROR)
                    else do { http_status \<leftarrow> atoi (drop 9 s);
                              e \<leftarrow> strstr s (crlf @ crlf);
                              let body = e + 4;
                              if strstr s (ascii ''Transfer-Encoding: chunked'') \<noteq> None then
                                do { let body_size = buffer_size - body;
                                     (_, decoded) \<leftarrow> http_chunked_decode (drop body buffer) (replicate body_size 0);
                                     buffer \<leftarrow> wr_seg buffer body decoded;
                                     Some (buffer, Some body, http_status) }
                              else Some (buffer, Some body, http_status) } } }"

text \<open>
  The disconnect callback. The request is freed before its fields are set to NULL: the last writes go to freed memory.
\<close>

definition http_disconnect_callback :: "http \<Rightarrow> http option" where
  "http_disconnect_callback h =
     (case ht_conn h of
        None \<Rightarrow> Some h
      | Some conn \<Rightarrow>
          do { req \<leftarrow> ht_req h;
               (body, http_status, full) \<leftarrow>
                 (case rq_buffer req of
                    None \<Rightarrow> Some ([], HTTP_STATUS_GENERIC_ERROR, None)
                  | Some buffer \<Rightarrow>
                      do { (buffer, body, http_status) \<leftarrow> parse_response buffer (rq_buffer_size req);
                           body \<leftarrow> (case body of None \<Rightarrow> Some [] | Some b \<Rightarrow> cstr (drop b buffer));
                           full \<leftarrow> cstr buffer;
                           Some (body, http_status, Some full) });
               let h = (if rq_callback req then http_emit (Reply body http_status full) h else h);
               Some (http_emit Delete_conn (http_emit Write_freed (h\<lparr>ht_req := None, ht_conn := None\<rparr>))) })"

definition http_error_callback :: "int \<Rightarrow> http \<Rightarrow> http option" where
  "http_error_callback errType h = http_disconnect_callback h"

definition http_timeout_callback :: "http \<Rightarrow> http option" where
  "http_timeout_callback h =
     (case ht_conn h of
        None \<Rightarrow> Some h
      | Some conn \<Rightarrow>
          do { req \<leftarrow> ht_req h;
               Some (http_emit (Disconnect (rq_secure req)) (set_req (req\<lparr>rq_timer := None\<rparr>) h)) })"

text \<open>\<open>conn_ok\<close> and \<open>tcp_ok\<close> tell whether the connection and its TCP part can be allocated.\<close>

definition http_dns_callback :: "bool \<Rightarrow> bool \<Rightarrow> int \<Rightarrow> u8 list option \<Rightarrow> http \<Rightarrow> http option" where
  "http_dns_callback conn_ok tcp_ok local_port addr h =
     do { req \<leftarrow> ht_req h;
          case addr of
            None \<Rightarrow>
              Some ((if rq_callback req then http_emit (Reply [] HTTP_STATUS_GENERIC_ERROR (Some [])) h else h)
                      \<lparr>ht_req := None\<rparr>)
          | Some ip \<Rightarrow>
              if \<not> conn_ok \<or> \<not> tcp_ok then None
              else let conn = \<lparr>ec_local_port = local_port, ec_remote_port = rq_port req, ec_remote_ip = take 4 ip,
                               ec_connectcb = True, ec_disconcb = True, ec_reconcb = True,
                               ec_recvcb = False, ec_sentcb = False\<rparr>
                   in Some (http_emit (Connect (rq_secure req))
                        (h\<lparr>ht_req := Some (req\<lparr>rq_timer := Some (rq_timeout req)\<rparr>), ht_conn := Some conn\<rparr>)) }"

section \<open>Starting a request\<close>

definition esp_strdup :: "bool \<Rightarrow> cstring option \<Rightarrow> cstring option" where
  "esp_strdup malloc_ok str = (case str of None \<Rightarrow> None | Some s \<Rightarrow> if malloc_ok then Some s else None)"

text \<open>What espconn_gethostbyname answers: in progress, an address at once, or an error.\<close>

datatype dns_answer = Dns_pending | Dns_ok "u8 list" | Dns_error int

text \<open>\<open>ok i\<close> tells whether the i-th allocation succeeds, in the order of the code; \<open>None\<close> for the fields not set yet.\<close>

definition http_raw_request ::
  "(nat \<Rightarrow> bool) \<Rightarrow> int \<Rightarrow> (cstring \<Rightarrow> dns_answer) \<Rightarrow> cstring \<Rightarrow> int \<Rightarrow> bool \<Rightarrow> cstring \<Rightarrow> cstring \<Rightarrow>
   cstring option \<Rightarrow> cstring option \<Rightarrow> bool \<Rightarrow> http option" where
  "http_raw_request ok local_port dns hostname port secure method path headers post_data callback =
     (if \<not> ok 0 \<or> \<not> ok 6 then None
      else let req = \<lparr>rq_hostname = esp_strdup (ok 1) (Some hostname), rq_port = port, rq_secure = secure,
                      rq_method = esp_strdup (ok 2) (Some method), rq_path = esp_strdup (ok 3) (Some path),
                      rq_headers = esp_strdup (ok 4) headers, rq_post_data = esp_strdup (ok 5) post_data,
                      rq_buffer = Some [0], rq_buffer_size = 1, rq_timeout = HTTP_REQUEST_TIMEOUT_MS,
                      rq_timer = None, rq_callback = callback\<rparr>;
               h = \<lparr>ht_req = Some req, ht_conn = None, ht_trace = [Gethostbyname hostname]\<rparr>
           in case dns hostname of
                Dns_pending \<Rightarrow> Some h
              | Dns_ok addr \<Rightarrow> http_dns_callback (ok 7) (ok 8) local_port (Some addr) h
              | Dns_error _ \<Rightarrow> http_dns_callback (ok 7) (ok 8) local_port None h)"

definition no_request :: http where
  "no_request = \<lparr>ht_req = None, ht_conn = None, ht_trace = []\<rparr>"

text \<open>\<open>strchr\<close>: the offset of the first \<open>c\<close>, or the end of the string.\<close>

definition offset_of :: "u8 \<Rightarrow> cstring \<Rightarrow> nat" where
  "offset_of c s = length (takeWhile (\<lambda>x. x \<noteq> c) s)"

text \<open>Copying the first \<open>n\<close> bytes of the URL to \<open>hostname[128]\<close> and ending the string there.\<close>

definition copy_hostname :: "cstring \<Rightarrow> nat \<Rightarrow> cstring option" where
  "copy_hostname url n =
     do { hostname \<leftarrow> wr_seg (replicate 128 0) 0 (take n url);
          hostname \<leftarrow> wr hostname n 0;
          cstr hostname }"

text \<open>\<open>None\<close> in the result of \<open>split_url\<close>: the request is not made. Otherwise host name, port and path.\<close>

definition split_url :: "cstring \<Rightarrow> int \<Rightarrow> (cstring \<times> int \<times> cstring) option option" where
  "split_url url port =
     (let path = offset_of 47 url;
          colon = offset_of 58 url;
          p = (if path < length url then drop path url else ascii ''/'')
      in if colon = length url \<or> colon > path then
           do { hostname \<leftarrow> copy_hostname url path; Some (Some (hostname, port, p)) }
         else
           do { port \<leftarrow> atoi (drop (colon + 1) url);
                if port = 0 then Some None
                else do { hostname \<leftarrow> copy_hostname url colon; Some (Some (hostname, port, p)) } })"

definition http_request ::
  "(nat \<Rightarrow> bool) \<Rightarrow> int \<Rightarrow> (cstring \<Rightarrow> dns_answer) \<Rightarrow> cstring \<Rightarrow> cstring \<Rightarrow>
   cstring option \<Rightarrow> cstring option \<Rightarrow> bool \<Rightarrow> http option" where
  "http_request ok local_port dns url method headers post_data callback =
     (let raw = (\<lambda>secure r. case r of
             None \<Rightarrow> Some no_request
           | Some (hostname, port, path) \<Rightarrow>
               http_raw_request ok local_port dns hostname port secure method path headers post_data callback)
      in if starts_with (ascii ''http://'') url then Option.bind (split_url (drop 7 url) 80) (raw False)
         else if starts_with (ascii ''https://'') url then Option.bind (split_url (drop 8 url) 443) (raw True)
         else Some no_request)"

definition http_post where
  "http_post ok local_port dns url headers post_data callback =
     http_request ok local_port dns url (ascii ''POST'') headers post_data callback"

definition http_get where
  "http_get ok local_port dns url headers callback =
     http_request ok local_port dns url (ascii ''GET'') headers None callback"

definition http_delete where
  "http_delete ok local_port dns url headers post_data callback =
     http_request ok local_port dns url (ascii ''DELETE'') headers post_data callback"

definition http_put where
  "http_put ok local_port dns url headers post_data callback =
     http_request ok local_port dns url (ascii ''PUT'') headers post_data callback"

end
