(* ===== verification/Http_Response.thy ===== *)
theory Http_Response
  imports Http
begin

text \<open>
  What the HTTP client makes of a response: the value that \<open>esp_strtol\<close> reads, the decoding of chunked bodies, the buffer that
  collects the segments, and the evaluation of the response when the connection ends.
\<close>

section \<open>Strings\<close>

lemma cstr_append: "0 \<notin> set xs \<Longrightarrow> cstr (xs @ m) = map_option (append xs) (cstr m)"
  by (cases "cstr m"; induction xs) auto

lemma cstr_end: "0 \<notin> set xs \<Longrightarrow> cstr (xs @ 0 # m) = Some xs"
  by (simp add: cstr_append)

lemma cstr_takeWhile: "0 \<in> set m \<Longrightarrow> cstr m = Some (takeWhile (\<lambda>c. c \<noteq> 0) m)"
  by (induction m) auto

text \<open>A word whose first byte does not occur earlier is found where it stands.\<close>

lemma strstr_skip:
  "w \<noteq> [] \<Longrightarrow> hd w \<notin> set xs \<Longrightarrow> strstr (xs @ s) w = map_option ((+) (length xs)) (strstr s w)"
  by (cases "strstr s w"; induction xs) (auto simp: neq_Nil_conv)

lemma strstr_here: "strstr (w @ s) w = Some 0"
  by (cases w; cases s) auto

lemma strstr_at: "w \<noteq> [] \<Longrightarrow> hd w \<notin> set xs \<Longrightarrow> strstr (xs @ w @ s) w = Some (length xs)"
  by (simp add: strstr_skip strstr_here)

lemma strstr_crlf: "13 \<notin> set xs \<Longrightarrow> strstr (xs @ 13 # 10 # s) [13, 10] = Some (length xs)"
  using strstr_at [of "[13, 10]" xs s] by simp

section \<open>esp_strtol\<close>

text \<open>The value of a digit, and of a string of digits, in a base.\<close>

definition is_digit_in :: "int \<Rightarrow> u8 \<Rightarrow> bool" where
  "is_digit_in base c \<longleftrightarrow> (case strtol_digit (uint c) of None \<Rightarrow> False | Some d \<Rightarrow> d < base)"

definition digit_val :: "u8 \<Rightarrow> int" where
  "digit_val c = the (strtol_digit (uint c))"

definition num_value :: "int \<Rightarrow> int \<Rightarrow> cstring \<Rightarrow> int" where
  "num_value base v ds = foldl (\<lambda>v c. v * base + digit_val c) v ds"

lemma num_value_simps [simp]:
  "num_value base v [] = v" "num_value base v (c # ds) = num_value base (v * base + digit_val c) ds"
  by (simp_all add: num_value_def)

lemma digit_val_nonneg: "is_digit_in base c \<Longrightarrow> 0 \<le> digit_val c \<and> digit_val c < base"
  by (auto simp: is_digit_in_def digit_val_def strtol_digit_def esp_isdigit_def esp_isalpha_def
      esp_isupper_def split: if_splits)

lemma digit_some: "is_digit_in base c \<Longrightarrow> strtol_digit (uint c) = Some (digit_val c) \<and> \<not> base \<le> digit_val c"
  by (auto simp: is_digit_in_def digit_val_def split: option.splits)

lemma num_value_mono:
  assumes "0 \<le> v" "0 < base" "\<forall>c \<in> set ds. is_digit_in base c"
  shows "v \<le> num_value base v ds"
  using assms
proof (induction ds arbitrary: v)
  case (Cons c ds)
  then have d: "0 \<le> digit_val c" using digit_val_nonneg [of base c] by simp
  have "v \<le> v * base" using Cons.prems(1,2) by (simp add: mult_le_cancel_left1)
  then have "v \<le> v * base + digit_val c" using d by linarith
  then show ?case using Cons.IH [of "v * base + digit_val c"] Cons.prems by (simp; linarith)
qed simp

text \<open>The test against cutoff and cutlim is the test whether the next value exceeds the limit.\<close>

lemma cutoff_test:
  fixes v base d L :: int
  assumes "0 < base" "0 \<le> d" "d < base" "0 \<le> v"
  shows "(v > L div base \<or> v = L div base \<and> d > L mod base) \<longleftrightarrow> v * base + d > L"
proof -
  obtain q r where qr: "L div base = q" "L mod base = r" "L = q * base + r" "0 \<le> r" "r < base"
    using assms(1) that [of "L div base" "L mod base"] by simp
  have k: "(q + 1) * base = q * base + base" "(v + 1) * base = v * base + base"
    by (simp_all add: distrib_right)
  have "q < v \<or> v = q \<and> r < d \<longleftrightarrow> q * base + r < v * base + d"
  proof (cases v q rule: linorder_cases)
    case greater
    then have "(q + 1) * base \<le> v * base" using assms(1) by (intro mult_right_mono) auto
    then have "q * base + r < v * base + d" using assms(2) qr(5) k(1) by linarith
    then show ?thesis using greater by simp
  next
    case less
    then have "(v + 1) * base \<le> q * base" using assms(1) by (intro mult_right_mono) auto
    then have "\<not> q * base + r < v * base + d" using assms(3) qr(4) k(2) by linarith
    then show ?thesis using less by simp
  qed auto
  then show ?thesis unfolding qr(1,2) by (simp only: qr(3))
qed

text \<open>What the accumulator holds of a value: the value itself, or that it has exceeded the limit.\<close>

definition holds_value :: "int \<Rightarrow> int \<Rightarrow> u32 \<Rightarrow> int \<Rightarrow> bool" where
  "holds_value L v acc any \<longleftrightarrow> (if v \<le> L then uint acc = v \<and> 0 \<le> any else any < 0)"

lemma strtol_add_holds:
  assumes h: "holds_value L v acc any" and L: "0 \<le> L" "L < 2 ^ 32" and b: "2 \<le> base" "base \<le> 36"
    and d: "0 \<le> d" "d < base" and v: "0 \<le> v"
  shows "holds_value L (v * base + d)
           (fst (strtol_add base (word_of_int L div word_of_int base) (uint (word_of_int L mod word_of_int base :: u32)) d acc any))
           (snd (strtol_add base (word_of_int L div word_of_int base) (uint (word_of_int L mod word_of_int base :: u32)) d acc any))"
    and "snd (strtol_add base (word_of_int L div word_of_int base) (uint (word_of_int L mod word_of_int base :: u32)) d acc any) \<noteq> 0"
proof -
  have uL: "uint (word_of_int L :: u32) = L" "uint (word_of_int base :: u32) = base"
    using L b by (simp_all add: uint_word_of_int)
  then have q: "uint (word_of_int L div word_of_int base :: u32) = L div base"
    "uint (word_of_int L mod word_of_int base :: u32) = L mod base"
    by (simp_all add: uint_div uint_mod)
  show "snd (strtol_add base (word_of_int L div word_of_int base) (uint (word_of_int L mod word_of_int base :: u32)) d acc any) \<noteq> 0"
    by (simp add: strtol_add_def)
  show "holds_value L (v * base + d)
           (fst (strtol_add base (word_of_int L div word_of_int base) (uint (word_of_int L mod word_of_int base :: u32)) d acc any))
           (snd (strtol_add base (word_of_int L div word_of_int base) (uint (word_of_int L mod word_of_int base :: u32)) d acc any))"
  proof (cases "v \<le> L")
    case False
    have "v * 1 \<le> v * base" using v b by (intro mult_left_mono) auto
    then have "\<not> v * base + d \<le> L" using False d by linarith
    then show ?thesis using h False by (simp add: holds_value_def strtol_add_def)
  next
    case True
    then have acc: "uint acc = v" "0 \<le> any" using h by (simp_all add: holds_value_def)
    have test: "(acc > word_of_int L div word_of_int base \<or>
        acc = word_of_int L div word_of_int base \<and> d > uint (word_of_int L mod word_of_int base :: u32)) \<longleftrightarrow>
        v * base + d > L"
      using cutoff_test [of base d v L] b d v acc
      by (simp add: word_less_def word_uint_eq_iff q)
    show ?thesis
    proof (cases "v * base + d > L")
      case True
      then show ?thesis using test acc by (auto simp: strtol_add_def holds_value_def)
    next
      case False
      have "acc = word_of_int v" using acc(1) by auto
      then have "acc * word_of_int base + word_of_int d = (word_of_int (v * base + d) :: u32)" by simp
      moreover have "0 \<le> v * base + d" using v b d by simp
      ultimately have "uint (acc * word_of_int base + word_of_int d :: u32) = v * base + d"
        using False L by (simp only: uint_word_of_int) simp
      then show ?thesis using test acc False by (auto simp: strtol_add_def holds_value_def)
    qed
  qed
qed

lemma strtol_loop_digits:
  assumes L: "0 \<le> L" "L < 2 ^ 32" and b: "2 \<le> base" "base \<le> 36"
    and ds: "\<forall>c \<in> set (c # ds). is_digit_in base c" and e: "\<not> is_digit_in base e"
    and "holds_value L v acc any" "0 \<le> v"
  shows "\<exists>acc' any'. strtol_loop base (word_of_int L div word_of_int base)
           (uint (word_of_int L mod word_of_int base :: u32)) c (ds @ e # rest) acc any = Some (acc', any', rest) \<and>
           holds_value L (num_value base v (c # ds)) acc' any' \<and> any' \<noteq> 0"
  using ds assms(7,8)
proof (induction ds arbitrary: c v acc any)
  case Nil
  let ?f = "strtol_add base (word_of_int L div word_of_int base) (uint (word_of_int L mod word_of_int base :: u32))
     (digit_val c) acc any"
  note d = digit_some [of base c] digit_val_nonneg [of base c]
  have stop: "strtol_loop base cutoff cutlim e rest acc any = Some (acc, any, rest)" for cutoff cutlim acc any
    using e by (subst strtol_loop.simps) (auto simp: is_digit_in_def split: option.splits)
  have "strtol_loop base (word_of_int L div word_of_int base)
      (uint (word_of_int L mod word_of_int base :: u32)) c ([] @ e # rest) acc any = Some (fst ?f, snd ?f, rest)"
    using d Nil.prems(1) by (subst strtol_loop.simps) (simp add: stop)
  then show ?case
    using strtol_add_holds [OF Nil.prems(2) L b, of "digit_val c"] d Nil.prems by simp
next
  case (Cons c' ds)
  let ?f = "strtol_add base (word_of_int L div word_of_int base) (uint (word_of_int L mod word_of_int base :: u32))
     (digit_val c) acc any"
  note d = digit_some [of base c] digit_val_nonneg [of base c]
  have "strtol_loop base (word_of_int L div word_of_int base)
      (uint (word_of_int L mod word_of_int base :: u32)) c ((c' # ds) @ e # rest) acc any =
    strtol_loop base (word_of_int L div word_of_int base)
      (uint (word_of_int L mod word_of_int base :: u32)) c' (ds @ e # rest) (fst ?f) (snd ?f)"
    using d Cons.prems(1) by (subst strtol_loop.simps) simp
  moreover have "0 \<le> v * base + digit_val c" using d Cons.prems b by simp
  ultimately show ?case
    using Cons.IH [of c' "v * base + digit_val c" "fst ?f" "snd ?f"]
      strtol_add_holds(1) [OF Cons.prems(2) L b, of "digit_val c"] d Cons.prems by simp
qed


text \<open>
  The number that is read: the value of the digits, kept in the range of a signed 32-bit number.
\<close>

definition clamp :: "bool \<Rightarrow> int \<Rightarrow> int" where
  "clamp neg v = (if neg then max (- v) (- 2147483648) else min v 2147483647)"

definition no_prefix :: "int \<Rightarrow> u8 \<Rightarrow> bool" where
  "no_prefix base c \<longleftrightarrow> \<not> (base = 16 \<and> (c = 120 \<or> c = 88)) \<and> \<not> (base = 2 \<and> (c = 98 \<or> c = 66))"

lemma skip_spaces: "\<forall>c \<in> set sp. esp_isspace c \<Longrightarrow> skip_space (sp @ m) = skip_space m"
  by (induction sp) auto

lemma digit_not_space: "is_digit_in base c \<Longrightarrow> \<not> esp_isspace c \<and> c \<noteq> 43 \<and> c \<noteq> 45"
  by (auto simp: is_digit_in_def strtol_digit_def esp_isdigit_def esp_isalpha_def esp_isupper_def esp_isspace_def
      split: if_splits)

lemma digit_no_prefix: "2 \<le> base \<Longrightarrow> is_digit_in base c \<Longrightarrow> no_prefix base c"
  by (auto simp: is_digit_in_def strtol_digit_def esp_isdigit_def esp_isalpha_def esp_isupper_def no_prefix_def
      split: if_splits)

lemma strtol_prefix_none:
  "2 \<le> base \<Longrightarrow> no_prefix base x \<Longrightarrow> strtol_prefix base c (x # s) = Some (base, c, x # s)"
  by (auto simp: strtol_prefix_def no_prefix_def)

lemma sint_u32_of_int: "- 2147483648 \<le> k \<Longrightarrow> k < 2147483648 \<Longrightarrow> sint (word_of_int k :: u32) = k"
  by (simp add: signed_of_int signed_take_bit_int_eq_self)

lemma strtol_reads:
  assumes b: "2 \<le> base" "base \<le> 36" and sp: "\<forall>c \<in> set sp. esp_isspace c"
    and sign: "sign = [] \<or> sign = [43] \<or> sign = [45]"
    and ds: "ds \<noteq> []" "\<forall>c \<in> set ds. is_digit_in base c"
    and e: "\<not> is_digit_in base e" "no_prefix base e"
  shows "esp_strtol (sp @ sign @ ds @ e # rest) base =
     Some (clamp (sign = [45]) (num_value base 0 ds), length (sp @ sign @ ds))"
proof -
  obtain c ds' where c: "ds = c # ds'" using ds(1) by (cases ds) auto
  note nd = digit_not_space [of base c]
  have pre: "strtol_prefix base c (ds' @ e # rest) = Some (base, c, ds' @ e # rest)"
    using b(1) e(2) ds(2) c digit_no_prefix strtol_prefix_none by (cases ds') auto
  define neg where "neg \<longleftrightarrow> sign = [45]"
  define L :: int where "L = (if neg then 2147483648 else 2147483647)"
  have L: "0 \<le> L" "L < 2 ^ 32" by (simp_all add: L_def)
  have lim: "(if neg then 0x80000000 else 0x7FFFFFFF) = (word_of_int L :: u32)" by (simp add: L_def)
  obtain acc any where loop:
    "strtol_loop base (word_of_int L div word_of_int base) (uint (word_of_int L mod word_of_int base :: u32))
       c (ds' @ e # rest) 0 0 = Some (acc, any, rest)"
    and holds: "holds_value L (num_value base 0 ds) acc any" "any \<noteq> 0"
    using strtol_loop_digits [OF L b, of c ds' e 0 0 0 rest] ds(2) c e(1) L(1) by (auto simp: holds_value_def)
  obtain c0 s0 where start: "skip_space (sp @ sign @ ds @ e # rest) = Some (c0, s0)"
    "strtol_sign c0 s0 = Some (neg, c, ds' @ e # rest)"
    using sign nd ds(2) c sp by (auto simp: skip_spaces strtol_sign_def neg_def esp_isspace_def)
  have "esp_strtol (sp @ sign @ ds @ e # rest) base = Some
     (sint (if any < 0 then word_of_int L else if neg then - acc else acc), length (sp @ sign @ ds))"
    using start pre loop [folded lim] holds(2) c unfolding esp_strtol_def lim [symmetric] by (simp add: Let_def)
  moreover have "sint (if any < 0 then word_of_int L else if neg then - acc else acc) = clamp neg (num_value base 0 ds)"
  proof (cases "num_value base 0 ds \<le> L")
    case False
    then show ?thesis using holds by (auto simp: holds_value_def clamp_def L_def)
  next
    case True
    have "0 \<le> num_value base 0 ds" using num_value_mono [of 0 base ds] b ds(2) by simp
    moreover have "uint acc = num_value base 0 ds" using holds True by (simp add: holds_value_def)
    then have "acc = word_of_int (num_value base 0 ds)" by (metis word_of_int_uint)
    moreover have "\<not> any < 0" using holds True by (auto simp: holds_value_def)
    ultimately show ?thesis using True sint_u32_of_int [of "num_value base 0 ds"]
        sint_u32_of_int [of "- num_value base 0 ds"]
      by (cases neg) (simp_all add: clamp_def L_def)
  qed
  ultimately show ?thesis by (simp add: neg_def)
qed


section \<open>Chunked bodies\<close>

text \<open>
  A chunk as a server sends it: the size in hexadecimal digits, in either case, an extension, and the data.
\<close>

type_synonym chunk = "cstring \<times> cstring \<times> u8 list"

definition chunk_data :: "chunk \<Rightarrow> u8 list" where
  "chunk_data c = (case c of (ds, ext, data) \<Rightarrow> data)"

definition chunk_ok :: "chunk \<Rightarrow> bool" where
  "chunk_ok c \<longleftrightarrow> (case c of (ds, ext, data) \<Rightarrow>
     ds \<noteq> [] \<and> (\<forall>d \<in> set ds. is_digit_in 16 d) \<and> num_value 16 0 ds = int (length data) \<and>
     data \<noteq> [] \<and> length data < 2147483648 \<and> 0 \<notin> set ext \<and> 13 \<notin> set ext \<and> (ext \<noteq> [] \<longrightarrow> hd ext = 59))"

definition chunk_bytes :: "chunk \<Rightarrow> u8 list" where
  "chunk_bytes c = (case c of (ds, ext, data) \<Rightarrow> ds @ ext @ crlf @ data @ crlf)"

text \<open>The chunks, the last chunk of size 0, and what follows.\<close>

definition chunked_body :: "chunk list \<Rightarrow> u8 list" where
  "chunked_body cs = concat (map chunk_bytes cs) @ [48] @ crlf @ crlf"

lemma hex_not_special: "is_digit_in 16 d \<Longrightarrow> d \<noteq> 0 \<and> d \<noteq> 13"
  by (auto simp: is_digit_in_def strtol_digit_def esp_isdigit_def esp_isalpha_def esp_isupper_def split: if_splits)

lemma not_hex: "\<not> is_digit_in 16 13" "no_prefix 16 13" "\<not> is_digit_in 16 59" "no_prefix 16 59"
  by (simp_all add: is_digit_in_def strtol_digit_def esp_isdigit_def esp_isalpha_def no_prefix_def)

lemma chunk_size:
  assumes "chunk_ok (ds, ext, data)"
  shows "esp_strtol (ds @ ext @ crlf @ m) 16 = Some (int (length data), length ds)"
proof -
  have "\<exists>e rest. ext @ crlf @ m = e # rest \<and> \<not> is_digit_in 16 e \<and> no_prefix 16 e"
    using assms not_hex by (cases ext) (auto simp: chunk_ok_def crlf_def)
  then obtain e rest where e: "ext @ crlf @ m = e # rest" "\<not> is_digit_in 16 e" "no_prefix 16 e" by blast
  show ?thesis
    using strtol_reads [of 16 "[]" "[]" ds e rest] e assms by (simp add: chunk_ok_def clamp_def)
qed

lemma last_chunk_size: "esp_strtol (48 # 13 # m) 16 = Some (0, 1)"
proof -
  have "is_digit_in 16 48" "num_value 16 0 [48] = 0"
    by (simp_all add: is_digit_in_def strtol_digit_def esp_isdigit_def digit_val_def)
  then show ?thesis using strtol_reads [of 16 "[]" "[]" "[48]" 13 m] not_hex by (simp add: clamp_def)
qed

lemma rd_seg_at: "rd_seg (xs @ ys @ zs) (length xs) (length ys) = Some ys"
  by (simp add: rd_seg_def)

lemma chunk_loop_unfold:
  assumes "esp_strtol str 16 = Some (i, q)" "0 < i" "cstr str = Some s" "strstr s crlf = Some e"
    "rd_seg str (e + 2) (nat i) = Some data" "wr_seg d n data = Some d'"
  shows "chunk_loop str j d n = chunk_loop (drop (e + 2 + nat i + 2) str) (j + e + 2 + nat i + 2) d' (n + nat i)"
  using assms by (subst chunk_loop.simps) simp

lemma chunk_loop_step:
  assumes "chunk_ok (ds, ext, data)" "0 \<in> set m" "n + length data \<le> length d"
  shows "chunk_loop (chunk_bytes (ds, ext, data) @ m) j d n =
     chunk_loop m (j + length (chunk_bytes (ds, ext, data))) (take n d @ data @ drop (n + length data) d)
       (n + length data)"
proof -
  have clean: "0 \<notin> set (ds @ ext @ crlf)" "13 \<notin> set (ds @ ext)"
    using assms(1) hex_not_special by (auto simp: chunk_ok_def crlf_def)
  have m: "chunk_bytes (ds, ext, data) @ m = (ds @ ext @ crlf) @ data @ crlf @ m"
    by (simp add: chunk_bytes_def)
  obtain t where "cstr (data @ crlf @ m) = Some t" using cstr_takeWhile [of "data @ crlf @ m"] assms(2) by auto
  then have s: "cstr ((ds @ ext @ crlf) @ data @ crlf @ m) = Some ((ds @ ext @ crlf) @ t)"
    using cstr_append [OF clean(1)] by simp
  have e: "strstr ((ds @ ext @ crlf) @ t) crlf = Some (length (ds @ ext))"
    using strstr_crlf [OF clean(2), of t] by (simp add: crlf_def)
  have r: "rd_seg ((ds @ ext @ crlf) @ data @ crlf @ m) (length (ds @ ext) + 2) (length data) = Some data"
    using rd_seg_at [of "ds @ ext @ crlf" data "crlf @ m"] by (simp add: crlf_def)
  have z: "esp_strtol ((ds @ ext @ crlf) @ data @ crlf @ m) 16 = Some (int (length data), length ds)"
    using chunk_size [OF assms(1)] by simp
  have w: "wr_seg d n data = Some (take n d @ data @ drop (n + length data) d)"
    using assms(3) by (simp add: wr_seg_def)
  have crlf_len: "length crlf = 2" by (simp add: crlf_def)
  have dr: "drop (length (ds @ ext) + 2 + nat (int (length data)) + 2) ((ds @ ext @ crlf) @ data @ crlf @ m) = m"
    by (simp add: crlf_def numeral_eq_Suc)
  have "data \<noteq> []" using assms(1) by (simp add: chunk_ok_def)
  then show ?thesis
    unfolding m using chunk_loop_unfold [OF z _ s e _ w, of j] r dr by (simp add: chunk_bytes_def add.assoc crlf_len)
qed

lemma chunk_loop_body:
  "\<forall>c \<in> set cs. chunk_ok c \<Longrightarrow> 0 \<in> set m \<Longrightarrow> n + length (concat (map chunk_data cs)) \<le> length d \<Longrightarrow>
   \<exists>j'. chunk_loop (concat (map chunk_bytes cs) @ 48 # 13 # m) j d n =
     Some (j', take n d @ concat (map chunk_data cs) @ drop (n + length (concat (map chunk_data cs))) d)"
proof (induction cs arbitrary: j d n)
  case Nil
  then show ?case by (subst chunk_loop.simps) (simp add: last_chunk_size)
next
  case (Cons c cs)
  obtain ds ext data where c: "c = (ds, ext, data)" by (cases c) auto
  let ?m = "concat (map chunk_bytes cs) @ 48 # 13 # m" and ?d = "take n d @ data @ drop (n + length data) d"
  have data: "chunk_data c = data" by (simp add: chunk_data_def c)
  have ok: "chunk_ok (ds, ext, data)" "0 \<in> set ?m" "n + length data \<le> length d"
    using Cons.prems c data by simp_all
  have bound: "n + length data + length (concat (map chunk_data cs)) \<le> length ?d"
    using Cons.prems(3) data by simp
  obtain j' where "chunk_loop ?m (j + length (chunk_bytes (ds, ext, data))) ?d (n + length data) =
     Some (j', take (n + length data) ?d @ concat (map chunk_data cs) @
       drop (n + length data + length (concat (map chunk_data cs))) ?d)"
    using Cons.IH [OF _ Cons.prems(2) bound, of "j + length (chunk_bytes (ds, ext, data))"] Cons.prems(1) by auto
  moreover have "take (n + length data) ?d @ concat (map chunk_data cs) @
       drop (n + length data + length (concat (map chunk_data cs))) ?d =
     take n d @ concat (map chunk_data (c # cs)) @ drop (n + length (concat (map chunk_data (c # cs)))) d"
    using ok(3) data by (simp add: add.assoc add.commute)
  moreover have "concat (map chunk_bytes (c # cs)) @ 48 # 13 # m = chunk_bytes (ds, ext, data) @ ?m"
    by (simp add: c)
  ultimately show ?case using chunk_loop_step [OF ok, of j] by (metis (no_types))
qed

lemma chunked_decode:
  assumes "\<forall>c \<in> set cs. chunk_ok c" "0 \<in> set m" "length (concat (map chunk_data cs)) \<le> k"
  shows "\<exists>j. http_chunked_decode (chunked_body cs @ m) (replicate k 0) =
     Some (j, concat (map chunk_data cs) @ replicate (k - length (concat (map chunk_data cs))) 0)"
  using chunk_loop_body [of cs "[10, 13, 10] @ m" 0 "replicate k 0" 0] assms
  by (simp add: http_chunked_decode_def chunked_body_def crlf_def)

text \<open>A chunk is longer than its data.\<close>

lemma chunk_data_le: "length (concat (map chunk_data cs)) \<le> length (chunked_body cs)"
  by (induction cs) (auto simp: chunked_body_def chunk_data_def chunk_bytes_def)


section \<open>A session\<close>

text \<open>What the network and the timer do; every event calls one callback.\<close>

datatype net_event =
  Dns bool bool int "u8 list option" | Connected bool | Received "nat \<Rightarrow> (nat \<Rightarrow> u8) option" "u8 list"
| Sent | Disconnected | Failed int | Timeout

fun http_step :: "net_event \<Rightarrow> http \<Rightarrow> http option" where
  "http_step (Dns conn_ok tcp_ok local_port addr) h = http_dns_callback conn_ok tcp_ok local_port addr h"
| "http_step (Connected headers_ok) h = http_connect_callback headers_ok h"
| "http_step (Received malloc buf) h = http_receive_callback malloc buf h"
| "http_step Sent h = http_send_callback h"
| "http_step Disconnected h = http_disconnect_callback h"
| "http_step (Failed e) h = http_error_callback e h"
| "http_step Timeout h = http_timeout_callback h"

fun http_run :: "net_event list \<Rightarrow> http \<Rightarrow> http option" where
  "http_run [] h = Some h"
| "http_run (e # es) h = Option.bind (http_step e h) (http_run es)"

lemma http_run_append: "http_run (es @ fs) h = Option.bind (http_run es h) (http_run fs)"
proof (induction es arbitrary: h)
  case (Cons e es)
  then show ?case by (cases "http_step e h") auto
qed simp

section \<open>Receiving\<close>

text \<open>The buffer is the response so far and a NUL.\<close>

definition holds_response :: "request_args \<Rightarrow> u8 list \<Rightarrow> bool" where
  "holds_response req r \<longleftrightarrow> rq_buffer req = Some (r @ [0]) \<and> rq_buffer_size req = length r + 1"

definition with_response :: "request_args \<Rightarrow> u8 list \<Rightarrow> request_args" where
  "with_response req r = req\<lparr>rq_buffer := Some (r @ [0]), rq_buffer_size := length r + 1\<rparr>"

definition alloc_ok :: "(nat \<Rightarrow> (nat \<Rightarrow> u8) option) \<Rightarrow> bool" where
  "alloc_ok malloc \<longleftrightarrow> (\<forall>n \<le> BUFFER_SIZE_MAX. malloc n \<noteq> None)"

lemma single_of_length: "length xs = 1 \<Longrightarrow> \<exists>x. xs = [x]"
  by (cases xs) auto

lemma receive_appends:
  assumes "ht_req h = Some req" "holds_response req r" "malloc (length r + 1 + length buf) = Some fresh"
    "length r + 1 + length buf \<le> BUFFER_SIZE_MAX"
  shows "http_receive_callback malloc buf h = Some (h\<lparr>ht_req := Some (with_response req (r @ buf))\<rparr>)"
proof -
  let ?n = "length r + 1 + length buf" and ?new = "map fresh [0..<length r + 1 + length buf]"
  have a: "rd_seg (r @ [0]) 0 (length r + 1) = Some (r @ [0])" by (simp add: rd_seg_def)
  have b: "wr_seg ?new 0 (r @ [0]) = Some ((r @ [0]) @ drop (length r + 1) ?new)" by (simp add: wr_seg_def)
  have c: "wr_seg ((r @ [0]) @ drop (length r + 1) ?new) (length r) buf =
      Some (r @ buf @ drop (length buf) (0 # drop (length r + 1) ?new))"
    by (simp add: wr_seg_def)
  let ?tail = "drop (length buf) (0 # drop (length r + 1) ?new)"
  have "length ?tail = 1" by simp
  then obtain x where x: "?tail = [x]" using single_of_length by blast
  have d: "wr (r @ buf @ [x]) (?n - 1) 0 = Some ((r @ buf) @ [0])"
    by (simp add: wr_def list_update_append)
  show ?thesis
    using assms(1,2) assms(3,4) a b c [unfolded x] d
    by (simp add: http_receive_callback_def holds_response_def with_response_def set_req_def Let_def)
qed

lemma receive_all:
  assumes "ht_req h = Some req" "holds_response req r" "alloc_ok malloc"
    "length r + 1 + length (concat segs) \<le> BUFFER_SIZE_MAX"
  shows "http_run (map (Received malloc) segs) h = Some (h\<lparr>ht_req := Some (with_response req (r @ concat segs))\<rparr>)"
  using assms
proof (induction segs arbitrary: h req r)
  case Nil
  then show ?case by (simp add: holds_response_def with_response_def)
next
  case (Cons s segs)
  let ?h = "h\<lparr>ht_req := Some (with_response req (r @ s))\<rparr>"
  have "length r + 1 + length s \<le> BUFFER_SIZE_MAX" using Cons.prems(4) by simp
  moreover from this obtain fresh where "malloc (length r + 1 + length s) = Some fresh"
    using Cons.prems(3) by (auto simp: alloc_ok_def)
  ultimately have "http_receive_callback malloc s h = Some ?h"
    using receive_appends Cons.prems(1,2) by blast
  moreover have "http_run (map (Received malloc) segs) ?h =
      Some (?h\<lparr>ht_req := Some (with_response (with_response req (r @ s)) ((r @ s) @ concat segs))\<rparr>)"
    by (rule Cons.IH) (use Cons.prems in \<open>simp_all add: holds_response_def with_response_def\<close>)
  ultimately show ?case by (simp add: with_response_def)
qed

section \<open>Responses\<close>

text \<open>The status line and header lines of a response, up to the blank line.\<close>

definition response_head :: "bool \<Rightarrow> nat \<Rightarrow> cstring \<Rightarrow> cstring list \<Rightarrow> cstring" where
  "response_head newer status reason lines =
     (if newer then ascii ''HTTP/1.1 '' else ascii ''HTTP/1.0 '') @ show_dec status @ 32 # reason
     @ concat (map (\<lambda>l. crlf @ l) lines)"

definition head_ok :: "nat \<Rightarrow> cstring \<Rightarrow> cstring list \<Rightarrow> bool" where
  "head_ok status reason lines \<longleftrightarrow> status < 1000 \<and> 0 \<notin> set reason \<and> 13 \<notin> set reason \<and>
     (\<forall>l \<in> set lines. l \<noteq> [] \<and> 0 \<notin> set l \<and> 13 \<notin> set l)"

lemma strstr_blank_line:
  assumes "\<forall>l \<in> set lines. l \<noteq> [] \<and> 13 \<notin> set l"
  shows "13 \<notin> set x \<Longrightarrow> strstr (x @ concat (map (\<lambda>l. crlf @ l) lines) @ crlf @ crlf @ b) (crlf @ crlf) =
     Some (length x + length (concat (map (\<lambda>l. crlf @ l) lines)))"
  using assms
proof (induction lines arbitrary: x)
  case Nil
  then show ?case using strstr_at [of "crlf @ crlf" x b] by (simp add: crlf_def)
next
  case (Cons l lines)
  let ?rest = "l @ concat (map (\<lambda>l. crlf @ l) lines) @ crlf @ crlf @ b"
  obtain c l' where l: "l = c # l'" "c \<noteq> 13" using Cons.prems(2) by (cases l) auto
  have "strstr (crlf @ ?rest) (crlf @ crlf) = map_option (\<lambda>i. i + 2) (strstr ?rest (crlf @ crlf))"
    using l by (simp add: crlf_def option.map_comp comp_def)
  moreover have "strstr ?rest (crlf @ crlf) = Some (length l + length (concat (map (\<lambda>l. crlf @ l) lines)))"
    using Cons.IH [of l] Cons.prems(2) by simp
  moreover have "strstr (x @ crlf @ ?rest) (crlf @ crlf) =
     map_option ((+) (length x)) (strstr (crlf @ ?rest) (crlf @ crlf))"
    using Cons.prems(1) by (intro strstr_skip) (simp_all add: crlf_def)
  ultimately show ?case by (simp add: crlf_def)
qed

lemma strstr_occurs: "strstr (a @ w @ b) w \<noteq> None"
proof (induction a)
  case Nil
  then show ?case by (simp add: strstr_here)
qed (cases w; auto)

lemma atoi_show:
  assumes "n < 2147483648" "s = [] \<or> \<not> is_digit (hd s)"
  shows "atoi (show_dec n @ s) = Some (int n)"
proof -
  have "show_dec n \<noteq> []" by (subst show_dec.simps) simp
  then obtain c ds where c: "show_dec n = c # ds" by (cases "show_dec n") auto
  have dig: "\<forall>c \<in> set (show_dec n). is_digit c" by (rule show_dec_digits)
  then have "is_digit c" using c by simp
  then have "\<not> libc_space c" "c \<noteq> 45" "c \<noteq> 43" by (auto simp: is_digit_def libc_space_def)
  moreover have "takeWhile is_digit (show_dec n @ s) = show_dec n"
    using dig assms(2) by (cases s) auto
  ultimately show ?thesis
    using c assms(1) show_dec_value [of n] by (simp add: atoi_def Let_def)
qed

lemma head_clean:
  assumes "head_ok status reason lines"
  shows "0 \<notin> set (response_head newer status reason lines)"
    and "13 \<notin> set ((if newer then ascii ''HTTP/1.1 '' else ascii ''HTTP/1.0 '') @ show_dec status @ 32 # reason)"
proof -
  have d: "c \<noteq> 0 \<and> c \<noteq> 13" if "c \<in> set (show_dec status)" for c
    using show_dec_digits [of status] that by (auto simp: is_digit_def)
  then have "0 \<notin> set (show_dec status)" "13 \<notin> set (show_dec status)" by blast+
  then show "0 \<notin> set (response_head newer status reason lines)"
    "13 \<notin> set ((if newer then ascii ''HTTP/1.1 '' else ascii ''HTTP/1.0 '') @ show_dec status @ 32 # reason)"
    using assms by (auto simp: head_ok_def response_head_def ascii_def crlf_def)
qed

lemma parse_response_unfold:
  assumes "rd buf 0 = Some c" "c \<noteq> 0" "cstr buf = Some s"
    "starts_with (ascii ''HTTP/1.0 '') s \<or> starts_with (ascii ''HTTP/1.1 '') s"
    "atoi (drop 9 s) = Some status" "strstr s (crlf @ crlf) = Some e"
  shows "parse_response buf n =
    (if strstr s (ascii ''Transfer-Encoding: chunked'') \<noteq> None then
       do { (_, decoded) \<leftarrow> http_chunked_decode (drop (e + 4) buf) (replicate (n - (e + 4)) 0);
            buffer \<leftarrow> wr_seg buf (e + 4) decoded;
            Some (buffer, Some (e + 4), status) }
     else Some (buf, Some (e + 4), status))"
  using assms by (auto simp: parse_response_def Let_def)

text \<open>What is common to plain and chunked bodies.\<close>

lemma parse_head:
  assumes ok: "head_ok status reason lines" and he: "he = response_head newer status reason lines"
    and s: "cstr (he @ crlf @ crlf @ m) = Some (he @ crlf @ crlf @ t)"
  shows "parse_response (he @ crlf @ crlf @ m) n =
    (if strstr (he @ crlf @ crlf @ t) (ascii ''Transfer-Encoding: chunked'') \<noteq> None then
       do { (_, decoded) \<leftarrow> http_chunked_decode m (replicate (n - (length he + 4)) 0);
            buffer \<leftarrow> wr_seg (he @ crlf @ crlf @ m) (length he + 4) decoded;
            Some (buffer, Some (length he + 4), int status) }
     else Some (he @ crlf @ crlf @ m, Some (length he + 4), int status))"
proof -
  let ?ver = "if newer then ascii ''HTTP/1.1 '' else ascii ''HTTP/1.0 ''"
  let ?lines = "concat (map (\<lambda>l. crlf @ l) lines)"
  have ver: "length ?ver = 9" "\<exists>v. ?ver = 72 # v" by (auto simp: ascii_def)
  have h: "he @ crlf @ crlf @ x = ?ver @ show_dec status @ 32 # reason @ ?lines @ crlf @ crlf @ x" for x
    by (simp add: he response_head_def)
  have first: "rd (he @ crlf @ crlf @ m) 0 = Some 72" using ver(2) by (auto simp: h rd_def)
  have vers: "starts_with (ascii ''HTTP/1.0 '') (he @ crlf @ crlf @ t) \<or>
      starts_with (ascii ''HTTP/1.1 '') (he @ crlf @ crlf @ t)"
    by (simp add: h starts_with_def)
  have dr: "drop 9 (he @ crlf @ crlf @ t) = show_dec status @ 32 # reason @ ?lines @ crlf @ crlf @ t"
    using ver(1) by (simp only: h append_eq_conv_conj drop_append) simp
  have st: "atoi (drop 9 (he @ crlf @ crlf @ t)) = Some (int status)"
    using ok unfolding dr by (intro atoi_show) (simp_all add: head_ok_def is_digit_def)
  have e: "strstr (he @ crlf @ crlf @ t) (crlf @ crlf) = Some (length he)"
    using strstr_blank_line [of lines "?ver @ show_dec status @ 32 # reason" t] head_clean(2) [OF ok, of newer] ok
    by (simp add: h he response_head_def head_ok_def)
  have d: "drop (length he + 4) (he @ crlf @ crlf @ m) = m" by (simp add: crlf_def)
  show ?thesis
    using parse_response_unfold [OF first _ s vers st e, of n] d by simp
qed

lemma plain_response:
  assumes "head_ok status reason lines" "he = response_head newer status reason lines" "0 \<notin> set body"
    and "strstr (he @ crlf @ crlf @ body) (ascii ''Transfer-Encoding: chunked'') = None"
  shows "parse_response (he @ crlf @ crlf @ body @ [0]) n =
     Some (he @ crlf @ crlf @ body @ [0], Some (length he + 4), int status)"
    and "cstr (drop (length he + 4) (he @ crlf @ crlf @ body @ [0])) = Some body"
    and "cstr (he @ crlf @ crlf @ body @ [0]) = Some (he @ crlf @ crlf @ body)"
proof -
  have "0 \<notin> set (he @ crlf @ crlf @ body)" using head_clean(1) assms by (simp add: crlf_def)
  then show s: "cstr (he @ crlf @ crlf @ body @ [0]) = Some (he @ crlf @ crlf @ body)"
    using cstr_end [of "he @ crlf @ crlf @ body" "[]"] by simp
  show "parse_response (he @ crlf @ crlf @ body @ [0]) n =
     Some (he @ crlf @ crlf @ body @ [0], Some (length he + 4), int status)"
    using parse_head [OF assms(1,2) s] assms(4) by simp
  show "cstr (drop (length he + 4) (he @ crlf @ crlf @ body @ [0])) = Some body"
    using cstr_end [OF assms(3), of "[]"] by (simp add: crlf_def)
qed

lemma te_found:
  assumes "ascii ''Transfer-Encoding: chunked'' \<in> set lines" "he = response_head newer status reason lines"
  shows "strstr (he @ t) (ascii ''Transfer-Encoding: chunked'') \<noteq> None"
proof -
  obtain l1 l2 where "lines = l1 @ ascii ''Transfer-Encoding: chunked'' # l2" using assms(1) by (meson split_list)
  then have "he @ t =
     ((if newer then ascii ''HTTP/1.1 '' else ascii ''HTTP/1.0 '') @ show_dec status @ 32 # reason
       @ concat (map (\<lambda>l. crlf @ l) l1) @ crlf) @ ascii ''Transfer-Encoding: chunked'' @
     (concat (map (\<lambda>l. crlf @ l) l2) @ t)"
    unfolding assms(2) response_head_def by simp
  then show ?thesis using strstr_occurs by metis
qed

lemma chunked_response:
  assumes ok: "head_ok status reason lines" and he: "he = response_head newer status reason lines"
    and te: "ascii ''Transfer-Encoding: chunked'' \<in> set lines"
    and cs: "\<forall>c \<in> set cs. chunk_ok c" and data: "data = concat (map chunk_data cs)" "0 \<notin> set data"
    and n: "n = length (he @ crlf @ crlf @ chunked_body cs @ [0])"
  shows "\<exists>rest. parse_response (he @ crlf @ crlf @ chunked_body cs @ [0]) n =
       Some (he @ crlf @ crlf @ data @ 0 # rest, Some (length he + 4), int status)"
proof -
  let ?m = "chunked_body cs @ [0]" and ?k = "length (chunked_body cs) + 1"
  have "0 \<in> set ?m" by simp
  then obtain t where t: "cstr ?m = Some t" using cstr_takeWhile by blast
  have "0 \<notin> set (he @ crlf @ crlf)" using head_clean(1) [OF ok] he by (simp add: crlf_def)
  then have s: "cstr (he @ crlf @ crlf @ ?m) = Some (he @ crlf @ crlf @ t)"
    using cstr_append [of "he @ crlf @ crlf" ?m] t by simp
  have found: "strstr (he @ crlf @ crlf @ t) (ascii ''Transfer-Encoding: chunked'') \<noteq> None"
    using te_found [OF te] he by simp
  have le: "length data \<le> length (chunked_body cs)" using chunk_data_le data(1) by metis
  have k: "n - (length he + 4) = ?k" using n by (simp add: crlf_def)
  obtain j where dec: "http_chunked_decode ?m (replicate ?k 0) = Some (j, data @ replicate (?k - length data) 0)"
    using chunked_decode [OF cs, of "[0]" ?k] le data(1) by auto
  have w: "wr_seg (he @ crlf @ crlf @ ?m) (length he + 4) (data @ replicate (?k - length data) 0) =
     Some (he @ crlf @ crlf @ data @ replicate (?k - length data) 0)"
    using le by (simp add: wr_seg_def crlf_def)
  have "?k - length data = Suc (length (chunked_body cs) - length data)" using le by simp
  then show ?thesis
    using parse_head [OF ok he s, of n] found k dec w by simp
qed


end
