(* ===== verification/Http_Props.thy ===== *)
theory Http_Props
  imports Http_Response
begin

text \<open>
  Whole requests of the HTTP client: URLs, the bytes of a request, the exchange with a server up to the callback of the application,
  and the invariant of a session under any order of events.
\<close>

section \<open>URLs\<close>

text \<open>A host name, port and path that can be written as a URL that the client reads.\<close>

definition url_parts_ok :: "cstring \<Rightarrow> nat option \<Rightarrow> cstring \<Rightarrow> bool" where
  "url_parts_ok host port path \<longleftrightarrow>
     length host < 128 \<and> 0 \<notin> set host \<and> 47 \<notin> set host \<and> 58 \<notin> set host \<and>
     (case port of None \<Rightarrow> True | Some p \<Rightarrow> 0 < p \<and> p < 2147483648) \<and>
     (path \<noteq> [] \<longrightarrow> path ! 0 = 47)"

definition url_rest :: "cstring \<Rightarrow> nat option \<Rightarrow> cstring \<Rightarrow> cstring" where
  "url_rest host port path =
     host @ (case port of None \<Rightarrow> [] | Some p \<Rightarrow> 58 # show_dec p) @ path"

definition http_url :: "bool \<Rightarrow> cstring \<Rightarrow> nat option \<Rightarrow> cstring \<Rightarrow> cstring" where
  "http_url secure host port path =
     (if secure then ascii ''https://'' else ascii ''http://'') @ url_rest host port path"

definition port_of :: "bool \<Rightarrow> nat option \<Rightarrow> int" where
  "port_of secure port = (case port of None \<Rightarrow> if secure then 443 else 80 | Some p \<Rightarrow> int p)"

definition path_of :: "cstring \<Rightarrow> cstring" where
  "path_of path = (if path = [] then ascii ''/'' else path)"

lemma copy_hostname_prefix:
  assumes "length host < 128" "0 \<notin> set host"
  shows "copy_hostname (host @ s) (length host) = Some host"
proof -
  have "wr_seg (replicate 128 0) 0 host = Some (host @ replicate (128 - length host) 0)"
    using assms(1) by (simp add: wr_seg_def)
  moreover have "wr (host @ replicate (128 - length host) 0) (length host) 0 =
      Some (host @ replicate (128 - length host) 0)"
    using assms(1) by (cases "128 - length host") (simp_all add: wr_def list_update_append)
  moreover have "cstr (host @ replicate (128 - length host) 0) = Some host"
    using cstr_end [OF assms(2)] assms(1) by (cases "128 - length host") auto
  ultimately show ?thesis by (simp add: copy_hostname_def)
qed

lemma offset_of_at: "c \<notin> set xs \<Longrightarrow> offset_of c (xs @ s) = length xs + offset_of c s"
  by (induction xs) (auto simp: offset_of_def)

lemma offset_of_Cons: "offset_of c (x # s) = (if x = c then 0 else Suc (offset_of c s))"
  by (simp add: offset_of_def)

lemma offset_of_Nil: "offset_of c [] = 0"
  by (simp add: offset_of_def)

lemma digits_clean: "47 \<notin> set (show_dec p)" "58 \<notin> set (show_dec p)"
  using show_dec_digits [of p] by (auto simp: is_digit_def)

lemma split_url_rest:
  assumes "url_parts_ok host port path"
  shows "split_url (url_rest host port path) d =
     Some (Some (host, (case port of None \<Rightarrow> d | Some p \<Rightarrow> int p), path_of path))"
proof -
  have h: "length host < 128" "0 \<notin> set host" "47 \<notin> set host" "58 \<notin> set host"
    using assms by (simp_all add: url_parts_ok_def)
  have path: "path = [] \<or> (\<exists>s. path = 47 # s)"
    using assms by (cases path) (auto simp: url_parts_ok_def)
  show ?thesis
  proof (cases port)
    case None
    have "offset_of 47 (host @ path) = length host" using h(3) path
      by (auto simp: offset_of_at offset_of_Cons offset_of_Nil)
    moreover have "offset_of 58 (host @ path) = length host + length path \<or> length host < offset_of 58 (host @ path)"
      using h(4) path by (auto simp: offset_of_at offset_of_Cons offset_of_Nil)
    ultimately show ?thesis
      using None path copy_hostname_prefix [OF h(1,2), of path]
      by (auto simp: split_url_def url_rest_def path_of_def Let_def)
  next
    case (Some p)
    let ?url = "host @ 58 # show_dec p @ path"
    have o: "offset_of 47 ?url = length host + 1 + length (show_dec p)" "offset_of 58 ?url = length host"
      using h(3,4) path digits_clean by (auto simp: offset_of_at offset_of_Cons offset_of_Nil)
    have "atoi (show_dec p @ path) = Some (int p)"
      using assms Some path by (intro atoi_show) (auto simp: url_parts_ok_def is_digit_def)
    moreover have "p \<noteq> 0" using assms Some by (simp add: url_parts_ok_def)
    ultimately show ?thesis
      using Some path o copy_hostname_prefix [OF h(1,2), of "58 # show_dec p @ path"]
      by (auto simp: split_url_def url_rest_def path_of_def Let_def)
  qed
qed

lemma http_request_url:
  assumes "url_parts_ok host port path"
  shows "http_request ok local_port dns (http_url secure host port path) method headers post_data callback =
     http_raw_request ok local_port dns host (port_of secure port) secure method (path_of path) headers post_data callback"
proof -
  have "starts_with (ascii ''http://'') (http_url False host port path)"
    "\<not> starts_with (ascii ''http://'') (http_url True host port path)"
    "starts_with (ascii ''https://'') (http_url True host port path)"
    "drop 7 (http_url False host port path) = url_rest host port path"
    "drop 8 (http_url True host port path) = url_rest host port path"
    by (simp_all add: http_url_def starts_with_def ascii_def)
  then show ?thesis
    using split_url_rest [OF assms]
    by (cases secure) (simp_all add: http_request_def port_of_def Let_def split: option.split)
qed

section \<open>The bytes of a request\<close>

definition post_header :: "cstring option \<Rightarrow> cstring" where
  "post_header post_data =
     (case post_data of None \<Rightarrow> []
      | Some d \<Rightarrow> ascii ''Content-Length: '' @ show_dec (length d) @ crlf)"

lemma post_headers_small:
  assumes "case rq_post_data req of None \<Rightarrow> True | Some d \<Rightarrow> length d < 2147483648"
  shows "post_headers req = post_header (rq_post_data req)"
    and "length (post_headers req) < 32"
proof -
  show e: "post_headers req = post_header (rq_post_data req)"
    using assms sint_u32_of_int [of "int (length (the (rq_post_data req)))"]
    by (auto simp: post_headers_def post_header_def show_int_def split: option.splits)
  show "length (post_headers req) < 32"
    using assms show_dec_length [of "length (the (rq_post_data req))" 10] unfolding e
    by (auto simp: post_header_def ascii_def crlf_def split: option.splits)
qed

lemma request_text_length:
  "length (request_text method path host port headers posth) =
     63 + length (show_int port) + length method + length path + length host + length headers + length posth"
  by (simp add: request_text_def ascii_def crlf_def)

lemma connect_sends:
  assumes "ht_req h = Some req" "ht_conn h = Some conn" "rq_method req = Some method" "rq_path req = Some path"
    "rq_hostname req = Some host" "headers_ok"
    "case rq_post_data req of None \<Rightarrow> True | Some d \<Rightarrow> length d < 2147483648"
    "length (show_int (rq_port req)) \<le> 5"
  shows "http_connect_callback headers_ok h =
     Some (http_emit (Send (rq_secure req) (request_text method path host (rq_port req)
         (case rq_headers req of None \<Rightarrow> [] | Some s \<Rightarrow> s) (post_header (rq_post_data req))))
       (h\<lparr>ht_req := Some (req\<lparr>rq_headers := None\<rparr>), ht_conn := Some (conn\<lparr>ec_recvcb := True, ec_sentcb := True\<rparr>)\<rparr>))"
  using assms post_headers_small [of req]
  by (simp add: http_connect_callback_def wr_seg_def request_text_length Let_def split: option.splits)


section \<open>A whole request\<close>

definition allocations_ok :: "(nat \<Rightarrow> bool) \<Rightarrow> bool" where
  "allocations_ok ok \<longleftrightarrow> (\<forall>i < 9. ok i)"

text \<open>The events of a request with an immediate answer: connection, the sent data, the segments of the response.\<close>

definition exchange :: "nat \<Rightarrow> (nat \<Rightarrow> (nat \<Rightarrow> u8) option) \<Rightarrow> u8 list list \<Rightarrow> net_event list" where
  "exchange sents malloc segs =
     Connected True # replicate sents Sent @ map (Received malloc) segs @ [Disconnected]"

lemma sent_without_data:
  assumes "ht_req h = Some req" "rq_post_data req = None"
  shows "http_run (replicate k Sent @ es) h = http_run es h"
  using assms by (induction k) (simp_all add: http_send_callback_def)

lemma sent_data:
  assumes "ht_req h = Some req" "rq_post_data req = Some d" "0 < k"
  shows "http_run (replicate k Sent @ es) h =
     http_run es (http_emit (Send (rq_secure req) d) (h\<lparr>ht_req := Some (req\<lparr>rq_post_data := None\<rparr>)\<rparr>))"
proof -
  obtain k' where k: "k = Suc k'" using assms(3) by (cases k) auto
  let ?h = "http_emit (Send (rq_secure req) d) (h\<lparr>ht_req := Some (req\<lparr>rq_post_data := None\<rparr>)\<rparr>)"
  have "http_send_callback h = Some ?h"
    using assms by (simp add: http_send_callback_def set_req_def http_emit_def)
  moreover have "http_run (replicate k' Sent @ es) ?h = http_run es ?h"
    by (rule sent_without_data [of _ "req\<lparr>rq_post_data := None\<rparr>"]) (simp_all add: http_emit_def)
  ultimately show ?thesis by (simp add: k)
qed

lemma disconnect_replies:
  assumes "ht_conn h = Some conn" "ht_req h = Some req" "holds_response req r" "rq_callback req"
    "parse_response (r @ [0]) (length r + 1) = Some (b, Some off, status)"
    "cstr (drop off b) = Some body" "cstr b = Some full"
  shows "http_disconnect_callback h = Some \<lparr>ht_req = None, ht_conn = None,
     ht_trace = ht_trace h @ [Reply body status (Some full), Write_freed, Delete_conn]\<rparr>"
  using assms by (simp add: http_disconnect_callback_def holds_response_def http_emit_def)

lemma request_received:
  assumes url: "url_parts_ok host port path" and port: "port_of secure port < 100000" and ok: "allocations_ok ok"
    and dns: "dns host = Dns_ok ip" and post: "\<forall>d. post_data = Some d \<longrightarrow> length d < 2147483648"
    and sents: "0 < sents" and malloc: "alloc_ok malloc" and fits: "length (concat segs) < BUFFER_SIZE_MAX"
  shows "\<exists>req conn. do { h \<leftarrow> http_request ok local_port dns (http_url secure host port path) method headers post_data True;
              http_run (exchange sents malloc segs) h } =
     http_disconnect_callback \<lparr>ht_req = Some req, ht_conn = Some conn, ht_trace =
       [Gethostbyname host, Connect secure,
        Send secure (request_text method (path_of path) host (port_of secure port)
          (case headers of None \<Rightarrow> [] | Some s \<Rightarrow> s) (post_header post_data))]
       @ (case post_data of None \<Rightarrow> [] | Some d \<Rightarrow> [Send secure d])\<rparr> \<and>
     holds_response req (concat segs) \<and> rq_callback req"
proof -
  let ?p = "port_of secure port"
  let ?text = "request_text method (path_of path) host ?p (case headers of None \<Rightarrow> [] | Some s \<Rightarrow> s) (post_header post_data)"
  define req where "req = \<lparr>rq_hostname = Some host, rq_port = ?p, rq_secure = secure, rq_method = Some method,
     rq_path = Some (path_of path), rq_headers = headers, rq_post_data = post_data, rq_buffer = Some [0],
     rq_buffer_size = 1, rq_timeout = HTTP_REQUEST_TIMEOUT_MS, rq_timer = Some HTTP_REQUEST_TIMEOUT_MS, rq_callback = True\<rparr>"
  define conn where "conn = \<lparr>ec_local_port = local_port, ec_remote_port = ?p, ec_remote_ip = take 4 ip,
     ec_connectcb = True, ec_disconcb = True, ec_reconcb = True, ec_recvcb = False, ec_sentcb = False\<rparr>"
  define h0 where "h0 = \<lparr>ht_req = Some req, ht_conn = Some conn, ht_trace = [Gethostbyname host, Connect secure]\<rparr>"
  have oks: "ok 0" "ok 1" "ok 2" "ok 3" "ok 4" "ok 5" "ok 6" "ok 7" "ok 8"
    using ok by (simp_all add: allocations_ok_def)
  have start: "http_request ok local_port dns (http_url secure host port path) method headers post_data True = Some h0"
    unfolding http_request_url [OF url] using oks dns
    by (simp add: http_raw_request_def http_dns_callback_def esp_strdup_def h0_def req_def conn_def http_emit_def Let_def
        split: option.splits)
  have "0 \<le> ?p" by (simp add: port_of_def split: option.split)
  then have digits: "length (show_int ?p) \<le> 5"
    using port show_dec_length [of "nat ?p" 5] by (simp add: show_int_def)
  define req1 where "req1 = req\<lparr>rq_headers := None\<rparr>"
  define h1 where "h1 = \<lparr>ht_req = Some req1, ht_conn = Some (conn\<lparr>ec_recvcb := True, ec_sentcb := True\<rparr>),
     ht_trace = [Gethostbyname host, Connect secure, Send secure ?text]\<rparr>"
  have connected: "http_connect_callback True h0 = Some h1"
    using connect_sends [of h0 req conn "method" "path_of path" host True] digits post
    by (simp add: h0_def req_def h1_def req1_def http_emit_def split: option.splits)
  define req2 where "req2 = req1\<lparr>rq_post_data := None\<rparr>"
  define h2 where "h2 = h1\<lparr>ht_req := Some req2, ht_trace := ht_trace h1 @
     (case post_data of None \<Rightarrow> [] | Some d \<Rightarrow> [Send secure d])\<rparr>"
  have sent: "http_run (replicate sents Sent @ es) h1 = http_run es h2" for es
  proof (cases post_data)
    case None
    then show ?thesis using sent_without_data [of h1 req1 sents es]
      by (simp add: h2_def h1_def req1_def req2_def req_def)
  next
    case (Some d)
    then show ?thesis using sent_data [of h1 req1 d sents es] sents
      by (simp add: h2_def h1_def req1_def req2_def req_def http_emit_def)
  qed
  define h3 where "h3 = h2\<lparr>ht_req := Some (with_response req2 (concat segs))\<rparr>"
  have received: "http_run (map (Received malloc) segs) h2 = Some h3"
    using receive_all [of h2 req2 "[]" malloc segs] malloc fits
    by (simp add: h3_def h2_def req2_def req1_def req_def holds_response_def)
  have "http_run (exchange sents malloc segs) h0 = http_run (map (Received malloc) segs @ [Disconnected]) h2"
    by (simp add: exchange_def connected sent)
  then have run: "http_run (exchange sents malloc segs) h0 = http_disconnect_callback h3"
    by (cases "http_disconnect_callback h3") (simp_all add: http_run_append received)
  have "holds_response (with_response req2 (concat segs)) (concat segs) \<and> rq_callback (with_response req2 (concat segs))"
    by (simp add: holds_response_def with_response_def req2_def req1_def req_def)
  then show ?thesis using start run
    by (intro exI [of _ "with_response req2 (concat segs)"] exI [of _ "conn\<lparr>ec_recvcb := True, ec_sentcb := True\<rparr>"])
      (simp add: h3_def h2_def h1_def)
qed

lemma request_exchange:
  assumes "url_parts_ok host port path" "port_of secure port < 100000" "allocations_ok ok"
    "dns host = Dns_ok ip" "\<forall>d. post_data = Some d \<longrightarrow> length d < 2147483648"
    "0 < sents" "alloc_ok malloc" "length (concat segs) < BUFFER_SIZE_MAX"
    and resp: "parse_response (concat segs @ [0]) (length (concat segs) + 1) = Some (b, Some off, status)"
      "cstr (drop off b) = Some body" "cstr b = Some full"
  shows "do { h \<leftarrow> http_request ok local_port dns (http_url secure host port path) method headers post_data True;
              http_run (exchange sents malloc segs) h } =
     Some \<lparr>ht_req = None, ht_conn = None, ht_trace =
       [Gethostbyname host, Connect secure,
        Send secure (request_text method (path_of path) host (port_of secure port)
          (case headers of None \<Rightarrow> [] | Some s \<Rightarrow> s) (post_header post_data))]
       @ (case post_data of None \<Rightarrow> [] | Some d \<Rightarrow> [Send secure d])
       @ [Reply body status (Some full), Write_freed, Delete_conn]\<rparr>"
  using request_received [where dns = dns and host = host and segs = segs, OF assms(1-8)]
    disconnect_replies [OF _ _ _ _ resp] by force


section \<open>Sessions in any order of events\<close>

text \<open>Which events can occur: those whose callback the client has registered with the network or the timer.\<close>

fun http_enabled :: "net_event \<Rightarrow> http \<Rightarrow> bool" where
  "http_enabled (Dns conn_ok tcp_ok local_port addr) h \<longleftrightarrow> ht_req h \<noteq> None \<and> ht_conn h = None"
| "http_enabled (Connected headers_ok) h \<longleftrightarrow> (\<exists>c. ht_conn h = Some c \<and> ec_connectcb c \<and> \<not> ec_recvcb c)"
| "http_enabled (Received malloc buf) h \<longleftrightarrow> (\<exists>c. ht_conn h = Some c \<and> ec_recvcb c)"
| "http_enabled Sent h \<longleftrightarrow> (\<exists>c. ht_conn h = Some c \<and> ec_sentcb c)"
| "http_enabled Disconnected h \<longleftrightarrow> (\<exists>c. ht_conn h = Some c \<and> ec_disconcb c)"
| "http_enabled (Failed e) h \<longleftrightarrow> (\<exists>c. ht_conn h = Some c \<and> ec_reconcb c)"
| "http_enabled Timeout h \<longleftrightarrow> (\<exists>req. ht_req h = Some req \<and> rq_timer req \<noteq> None)"

inductive http_reach :: "http \<Rightarrow> http \<Rightarrow> bool" for h0 where
  start: "http_reach h0 h0"
| step: "http_reach h0 h \<Longrightarrow> http_enabled e h \<Longrightarrow> http_step e h = Some h' \<Longrightarrow> http_reach h0 h'"

definition replies :: "http \<Rightarrow> nat" where
  "replies h = length (filter (\<lambda>e. case e of Reply _ _ _ \<Rightarrow> True | _ \<Rightarrow> False) (ht_trace h))"

text \<open>The request while it is not answered: its strings are there, and its buffer is a block that ends with NUL.\<close>

definition request_ok :: "request_args \<Rightarrow> bool" where
  "request_ok req \<longleftrightarrow> rq_hostname req \<noteq> None \<and> rq_method req \<noteq> None \<and> rq_path req \<noteq> None \<and> rq_callback req \<and>
     length (show_int (rq_port req)) \<le> 5 \<and>
     (case rq_post_data req of None \<Rightarrow> True | Some d \<Rightarrow> length d < 2147483648) \<and>
     (\<exists>b. rq_buffer req = Some b \<and> length b = rq_buffer_size req \<and> b \<noteq> [] \<and> last b = 0)"

definition http_inv :: "http \<Rightarrow> bool" where
  "http_inv h \<longleftrightarrow> (case ht_req h of
       None \<Rightarrow> ht_conn h = None \<and> replies h = 1
     | Some req \<Rightarrow> request_ok req \<and> replies h = 0 \<and> (rq_timer req \<noteq> None \<longrightarrow> ht_conn h \<noteq> None))"

lemma replies_emit [simp]:
  "replies (http_emit e h) = replies h + (case e of Reply _ _ _ \<Rightarrow> 1 | _ \<Rightarrow> 0)"
  by (simp add: replies_def http_emit_def split: http_event.split)

lemma replies_update [simp]:
  "replies (h\<lparr>ht_req := r\<rparr>) = replies h" "replies (h\<lparr>ht_conn := c\<rparr>) = replies h" "replies (set_req req h) = replies h"
  by (simp_all add: replies_def set_req_def)

lemma http_fields [simp]:
  "ht_req (http_emit e h) = ht_req h" "ht_conn (http_emit e h) = ht_conn h"
  "ht_req (set_req req h) = Some req" "ht_conn (set_req req h) = ht_conn h"
  by (simp_all add: http_emit_def set_req_def)

lemma receive_keeps:
  assumes "http_inv h" "ht_req h = Some req"
  shows "\<exists>h'. http_receive_callback malloc buf h = Some h' \<and> http_inv h' \<and> ht_req h' \<noteq> None"
proof -
  obtain b where b: "rq_buffer req = Some b" "length b = rq_buffer_size req" "b \<noteq> []" "last b = 0"
    and ok: "request_ok req" "replies h = 0" "rq_timer req \<noteq> None \<longrightarrow> ht_conn h \<noteq> None"
    using assms by (auto simp: http_inv_def request_ok_def)
  let ?n = "rq_buffer_size req + length buf"
  have pos: "0 < length b" using b(3) by simp
  have discard: "\<exists>h'. discard_response req b h = Some h' \<and> http_inv h' \<and> ht_req h' \<noteq> None"
    using b ok pos by (auto simp: discard_response_def wr_def http_inv_def request_ok_def last_list_update)
  show ?thesis
  proof (cases "?n > BUFFER_SIZE_MAX \<or> malloc ?n = None")
    case True
    then show ?thesis using discard assms(2) b(1) by (auto simp: http_receive_callback_def Let_def)
  next
    case False
    then obtain fresh where m: "malloc ?n = Some fresh" "\<not> ?n > BUFFER_SIZE_MAX" by auto
    have "rq_buffer_size req \<noteq> 0" using b(2) pos by simp
    moreover have "rd_seg b 0 (rq_buffer_size req) = Some b" using b(2) by (simp add: rd_seg_def)
    moreover obtain n1 where n1: "wr_seg (map fresh [0..<?n]) 0 b = Some n1" "length n1 = ?n"
      using b(2) by (auto simp: wr_seg_def)
    moreover obtain n2 where n2: "wr_seg n1 (rq_buffer_size req - 1) buf = Some n2" "length n2 = ?n"
      using n1(2) by (auto simp: wr_seg_def)
    moreover have "wr n2 (?n - 1) 0 = Some (n2[?n - 1 := 0])" using n2(2) \<open>rq_buffer_size req \<noteq> 0\<close>
      by (simp add: wr_def)
    ultimately have "http_receive_callback malloc buf h =
        Some (set_req (req\<lparr>rq_buffer := Some (n2[?n - 1 := 0]), rq_buffer_size := ?n\<rparr>) h)"
      using assms(2) b(1) m by (simp add: http_receive_callback_def Let_def)
    moreover have "n2 \<noteq> []" using n2(2) \<open>rq_buffer_size req \<noteq> 0\<close> by auto
    ultimately show ?thesis
      using ok n2(2) by (auto simp: http_inv_def request_ok_def last_list_update)
  qed
qed

lemma sent_keeps:
  assumes "http_inv h" "ht_req h = Some req"
  shows "\<exists>h'. http_send_callback h = Some h' \<and> http_inv h'"
  using assms by (auto simp: http_send_callback_def http_inv_def request_ok_def split: option.split)

lemma connect_keeps:
  assumes "http_inv h" "ht_req h = Some req" "ht_conn h = Some conn" "http_connect_callback headers_ok h = Some h'"
  shows "http_inv h'"
  using assms by (auto simp: http_connect_callback_def http_inv_def request_ok_def Let_def split: Option.bind_splits)

lemma connect_defined:
  assumes "http_inv h" "ht_req h = Some req" "ht_conn h = Some conn"
  shows "http_connect_callback True h \<noteq> None"
  using assms connect_sends [of h req conn "the (rq_method req)" "the (rq_path req)" "the (rq_hostname req)" True]
  by (auto simp: http_inv_def request_ok_def)

lemma disconnect_keeps:
  assumes "http_inv h" "ht_conn h = Some conn" "http_disconnect_callback h = Some h'"
  shows "http_inv h'"
  using assms
  by (auto simp: http_disconnect_callback_def http_inv_def request_ok_def split: option.splits Option.bind_splits)

lemma timeout_keeps:
  assumes "http_inv h" "ht_req h = Some req"
  shows "\<exists>h'. http_timeout_callback h = Some h' \<and> http_inv h'"
  using assms by (auto simp: http_timeout_callback_def http_inv_def request_ok_def split: option.splits)

lemma dns_keeps:
  assumes "http_inv h" "ht_conn h = None" "http_dns_callback conn_ok tcp_ok local_port addr h = Some h'"
  shows "http_inv h'"
  using assms
  by (auto simp: http_dns_callback_def http_inv_def request_ok_def Let_def replies_def http_emit_def
      split: option.splits Option.bind_splits if_splits)

text \<open>Every event keeps the invariant.\<close>

lemma http_inv_step:
  assumes "http_inv h" "http_enabled e h" "http_step e h = Some h'"
  shows "http_inv h'"
proof (cases "ht_req h")
  case None
  then have "ht_conn h = None" using assms(1) by (simp add: http_inv_def)
  then show ?thesis using assms(2) None by (cases e) auto
next
  case req: (Some req)
  show ?thesis
  proof (cases e)
    case (Dns conn_ok tcp_ok local_port addr)
    then show ?thesis using dns_keeps [OF assms(1)] assms(2,3) by auto
  next
    case (Connected headers_ok)
    then show ?thesis using connect_keeps [OF assms(1) req] assms(2,3) by auto
  next
    case (Received malloc buf)
    then show ?thesis using receive_keeps [OF assms(1) req, of malloc buf] assms(3) by auto
  next
    case Sent
    then show ?thesis using sent_keeps [OF assms(1) req] assms(3) by auto
  next
    case Disconnected
    then show ?thesis using disconnect_keeps [OF assms(1)] assms(2,3) by auto
  next
    case (Failed err)
    then show ?thesis using disconnect_keeps [OF assms(1)] assms(2,3) by (auto simp: http_error_callback_def)
  next
    case Timeout
    then show ?thesis using timeout_keeps [OF assms(1) req] assms(3) by auto
  qed
qed

lemma http_inv_reach: "http_reach h0 h \<Longrightarrow> http_inv h0 \<Longrightarrow> http_inv h"
  by (induction rule: http_reach.induct) (auto intro: http_inv_step)

lemma raw_request_inv:
  assumes "http_raw_request ok local_port dns host port secure method path headers post_data True = Some h"
    and "\<forall>i < 9. ok i" "length (show_int port) \<le> 5" "\<forall>d. post_data = Some d \<longrightarrow> length d < 2147483648"
  shows "http_inv h"
proof -
  define req where "req = \<lparr>rq_hostname = Some host, rq_port = port, rq_secure = secure,
      rq_method = Some method, rq_path = Some path, rq_headers = headers, rq_post_data = post_data,
      rq_buffer = Some [0], rq_buffer_size = 1, rq_timeout = HTTP_REQUEST_TIMEOUT_MS,
      rq_timer = None, rq_callback = True\<rparr>"
  define h0 where "h0 = \<lparr>ht_req = Some req, ht_conn = None, ht_trace = [Gethostbyname host]\<rparr>"
  have inv: "http_inv h0"
    using assms(3,4) by (auto simp: h0_def req_def http_inv_def request_ok_def replies_def split: option.split)
  have dup: "esp_strdup True s = s" for s by (simp add: esp_strdup_def split: option.split)
  have "ok 0" "ok 1" "ok 2" "ok 3" "ok 4" "ok 5" "ok 6" using assms(2) by simp_all
  then have "(case dns host of Dns_pending \<Rightarrow> Some h0
       | Dns_ok addr \<Rightarrow> http_dns_callback (ok 7) (ok 8) local_port (Some addr) h0
       | Dns_error _ \<Rightarrow> http_dns_callback (ok 7) (ok 8) local_port None h0) = Some h"
    using assms(1) by (cases "dns host") (simp_all add: http_raw_request_def Let_def h0_def req_def dup)
  then show ?thesis using inv dns_keeps [OF inv] by (auto simp: h0_def split: dns_answer.splits)
qed


definition event_allocates :: "net_event \<Rightarrow> bool" where
  "event_allocates e \<longleftrightarrow> (case e of Dns conn_ok tcp_ok _ _ \<Rightarrow> conn_ok \<and> tcp_ok | Connected headers_ok \<Rightarrow> headers_ok | _ \<Rightarrow> True)"

definition ends_session :: "net_event \<Rightarrow> bool" where
  "ends_session e \<longleftrightarrow> (case e of Disconnected \<Rightarrow> True | Failed _ \<Rightarrow> True | _ \<Rightarrow> False)"

lemma callbacks_defined:
  assumes "http_inv h" "ht_req h = Some req" "http_enabled e h" "event_allocates e" "\<not> ends_session e"
  shows "http_step e h \<noteq> None"
proof (cases e)
  case (Dns conn_ok tcp_ok local_port addr)
  then show ?thesis using assms by (auto simp: http_dns_callback_def event_allocates_def Let_def split: option.split)
next
  case (Connected headers_ok)
  then show ?thesis using assms connect_defined [OF assms(1,2)] by (auto simp: event_allocates_def)
next
  case (Received malloc buf)
  then show ?thesis using receive_keeps [OF assms(1,2), of malloc buf] by auto
next
  case Sent
  then show ?thesis using sent_keeps [OF assms(1,2)] by auto
next
  case Timeout
  then show ?thesis using timeout_keeps [OF assms(1,2)] by auto
qed (use assms(5) in \<open>simp_all add: ends_session_def\<close>)

text \<open>A chunk that is longer than what has been received.\<close>

lemma truncated_response:
  assumes ok: "head_ok status reason lines" and he: "he = response_head newer status reason lines"
    and te: "ascii ''Transfer-Encoding: chunked'' \<in> set lines"
    and ds: "ds \<noteq> []" "\<forall>d \<in> set ds. is_digit_in 16 d" "int (length part) + 1 < num_value 16 0 ds" "length part < 8192"
  shows "parse_response (he @ crlf @ crlf @ ds @ crlf @ part @ [0]) n = None"
proof -
  let ?m = "ds @ crlf @ part @ [0]"
  have clean: "0 \<notin> set (ds @ crlf)" "13 \<notin> set ds" using ds(2) hex_not_special by (auto simp: crlf_def)
  obtain t where t: "cstr (part @ [0]) = Some t" using cstr_takeWhile [of "part @ [0]"] by auto
  have m: "cstr ?m = Some (ds @ crlf @ t)" using cstr_append [OF clean(1), of "part @ [0]"] t by simp
  have "0 \<notin> set (he @ crlf @ crlf)" using head_clean(1) [OF ok] he by (simp add: crlf_def)
  then have s: "cstr (he @ crlf @ crlf @ ?m) = Some (he @ crlf @ crlf @ ds @ crlf @ t)"
    using cstr_append [of "he @ crlf @ crlf" ?m] m by simp
  have z: "esp_strtol ?m 16 = Some (min (num_value 16 0 ds) 2147483647, length ds)"
    using strtol_reads [of 16 "[]" "[]" ds 13 "10 # part @ [0]"] ds(1,2) not_hex by (simp add: clamp_def crlf_def)
  let ?i = "min (num_value 16 0 ds) 2147483647"
  have i: "int (length part) + 1 < ?i" using ds(3,4) by simp
  have pos: "\<not> ?i \<le> 0" using i by linarith
  have "strstr (ds @ crlf @ t) crlf = Some (length ds)" using strstr_crlf [OF clean(2)] by (simp add: crlf_def)
  moreover have "rd_seg ?m (length ds + 2) (nat ?i) = None"
  proof -
    have "length part + 1 < nat ?i" using i by linarith
    then show ?thesis by (simp add: rd_seg_def crlf_def)
  qed
  ultimately have "http_chunked_decode ?m d = None" for d
    using z m pos unfolding http_chunked_decode_def by (subst chunk_loop.simps) simp
  then show ?thesis
    using parse_head [OF ok he s, of n] te_found [OF te, of he newer status reason] he by simp
qed

section \<open>Properties\<close>

text \<open>
  C6: A POST request whose response is not chunked. The client resolves the host of the URL, connects, sends the request
  with the length of the data, sends the data after the first sent callback, collects the segments of the response in any division,
  and calls back once with the body, the status and the whole response. (The last writes go to the freed request.)
\<close>

theorem http_post_answered:
  assumes "url_parts_ok host port path" "port_of secure port < 100000" "allocations_ok ok" "dns host = Dns_ok ip"
    and "length data < 2147483648" "0 < sents" "alloc_ok malloc"
    and "head_ok status reason lines" "he = response_head newer status reason lines" "0 \<notin> set body"
    and "strstr (he @ crlf @ crlf @ body) (ascii ''Transfer-Encoding: chunked'') = None"
    and "concat segs = he @ crlf @ crlf @ body" "length (concat segs) < BUFFER_SIZE_MAX"
  shows "do { h \<leftarrow> http_post ok local_port dns (http_url secure host port path) headers (Some data) True;
              http_run (exchange sents malloc segs) h } =
     Some \<lparr>ht_req = None, ht_conn = None, ht_trace =
       [Gethostbyname host, Connect secure,
        Send secure (request_text (ascii ''POST'') (path_of path) host (port_of secure port)
          (case headers of None \<Rightarrow> [] | Some s \<Rightarrow> s) (ascii ''Content-Length: '' @ show_dec (length data) @ crlf)),
        Send secure data, Reply body (int status) (Some (concat segs)), Write_freed, Delete_conn]\<rparr>"
proof -
  note p = plain_response [OF assms(8,9,10,11)]
  have s: "concat segs @ [0] = he @ crlf @ crlf @ body @ [0]" using assms(12) by simp
  have parsed: "parse_response (concat segs @ [0]) (length (concat segs) + 1) =
      Some (he @ crlf @ crlf @ body @ [0], Some (length he + 4), int status)"
    using p(1) unfolding s .
  show ?thesis
    using request_exchange [where host = host and dns = dns and ip = ip and segs = segs and post_data = "Some data",
        OF assms(1-4) _ assms(6,7,13) parsed p(2)] p(3) assms(5,12)
    by (simp add: http_post_def post_header_def)
qed

theorem http_post_answered_witness:
  "do { h \<leftarrow> http_post (\<lambda>_. True) 1 (\<lambda>_. Dns_ok [1, 2, 3, 4]) (http_url False [97] (Some 8080) []) None (Some [120, 121]) True;
        http_run (exchange 1 (\<lambda>_. Some (\<lambda>_. 0)) [response_head True 201 [79, 75] [] @ [13], [10, 13, 10, 111]]) h } =
     Some \<lparr>ht_req = None, ht_conn = None, ht_trace =
       [Gethostbyname [97], Connect False,
        Send False (request_text (ascii ''POST'') (ascii ''/'') [97] 8080 [] (ascii ''Content-Length: '' @ show_dec 2 @ crlf)),
        Send False [120, 121], Reply [111] 201 (Some (response_head True 201 [79, 75] [] @ [13, 10, 13, 10, 111])),
        Write_freed, Delete_conn]\<rparr>"
  using http_post_answered [of "[97]" "Some 8080" "[]" False "\<lambda>_. True" "\<lambda>_. Dns_ok [1, 2, 3, 4]" "[1, 2, 3, 4]"
      "[120, 121]" 1 "\<lambda>_. Some (\<lambda>_. 0)" 201 "[79, 75]" "[]" "response_head True 201 [79, 75] []" True "[111]"
      "[response_head True 201 [79, 75] [] @ [13], [10, 13, 10, 111]]" 1 None]
  by (simp add: url_parts_ok_def port_of_def path_of_def allocations_ok_def alloc_ok_def head_ok_def response_head_def
      ascii_def crlf_def BUFFER_SIZE_MAX_def show_dec.simps)

text \<open>
  C17: A GET request whose response is chunked, in chunks of any sizes written in any case and with extensions: the body that the
  callback gets is the concatenation of the data of the chunks.
\<close>

theorem http_get_chunked:
  assumes "url_parts_ok host port path" "port_of secure port < 100000" "allocations_ok ok" "dns host = Dns_ok ip"
    and "0 < sents" "alloc_ok malloc"
    and "head_ok status reason lines" "he = response_head newer status reason lines"
    and "ascii ''Transfer-Encoding: chunked'' \<in> set lines"
    and "\<forall>c \<in> set cs. chunk_ok c" "0 \<notin> set (concat (map chunk_data cs))"
    and "concat segs = he @ crlf @ crlf @ chunked_body cs" "length (concat segs) < BUFFER_SIZE_MAX"
  shows "do { h \<leftarrow> http_get ok local_port dns (http_url secure host port path) headers True;
              http_run (exchange sents malloc segs) h } =
     Some \<lparr>ht_req = None, ht_conn = None, ht_trace =
       [Gethostbyname host, Connect secure,
        Send secure (request_text (ascii ''GET'') (path_of path) host (port_of secure port)
          (case headers of None \<Rightarrow> [] | Some s \<Rightarrow> s) []),
        Reply (concat (map chunk_data cs)) (int status) (Some (he @ crlf @ crlf @ concat (map chunk_data cs))),
        Write_freed, Delete_conn]\<rparr>"
proof -
  let ?data = "concat (map chunk_data cs)"
  have s: "concat segs @ [0] = he @ crlf @ crlf @ chunked_body cs @ [0]" using assms(12) by simp
  have n: "length (concat segs) + 1 = length (he @ crlf @ crlf @ chunked_body cs @ [0])" using assms(12) by simp
  obtain rest where p: "parse_response (concat segs @ [0]) (length (concat segs) + 1) =
      Some (he @ crlf @ crlf @ ?data @ 0 # rest, Some (length he + 4), int status)"
    using chunked_response [OF assms(7-10) refl assms(11) n] unfolding s by blast
  have body: "cstr (drop (length he + 4) (he @ crlf @ crlf @ ?data @ 0 # rest)) = Some ?data"
    using cstr_end [OF assms(11), of rest] by (simp add: crlf_def)
  have "0 \<notin> set (he @ crlf @ crlf @ ?data)"
    using head_clean(1) [OF assms(7)] assms(8,11) by (simp add: crlf_def)
  then have full: "cstr (he @ crlf @ crlf @ ?data @ 0 # rest) = Some (he @ crlf @ crlf @ ?data)"
    using cstr_end [of "he @ crlf @ crlf @ ?data" rest] by simp
  show ?thesis
    using request_exchange [where host = host and dns = dns and ip = ip and segs = segs and post_data = None,
        OF assms(1-4) _ assms(5,6,13) p body full]
    by (simp add: http_get_def post_header_def)
qed

text \<open>Two chunks, \<open>1a\<close> bytes and 2 bytes with an extension.\<close>

theorem http_get_chunked_witness:
  "\<exists>h. do { h \<leftarrow> http_get (\<lambda>_. True) 1 (\<lambda>_. Dns_ok [1, 2, 3, 4]) (http_url True [97] None [47]) None True;
        http_run (exchange 2 (\<lambda>_. Some (\<lambda>_. 7)) [response_head True 200 [] [ascii ''Transfer-Encoding: chunked'']
          @ crlf @ crlf @ chunked_body [([49, 97], [], replicate 26 65), ([50], [59, 120], [66, 67])]]) h } = Some h \<and>
     Reply (replicate 26 65 @ [66, 67]) 200 (Some (response_head True 200 [] [ascii ''Transfer-Encoding: chunked'']
          @ crlf @ crlf @ replicate 26 65 @ [66, 67])) \<in> set (ht_trace h)"
  using http_get_chunked [of "[97]" None "[47]" True "\<lambda>_. True" "\<lambda>_. Dns_ok [1, 2, 3, 4]" "[1, 2, 3, 4]"
      2 "\<lambda>_. Some (\<lambda>_. 7)" 200 "[]" "[ascii ''Transfer-Encoding: chunked'']" _ True
      "[([49, 97], [], replicate 26 65), ([50], [59, 120], [66, 67])]"
      "[response_head True 200 [] [ascii ''Transfer-Encoding: chunked'']
          @ crlf @ crlf @ chunked_body [([49, 97], [], replicate 26 65), ([50], [59, 120], [66, 67])]]" 1 None, OF _ _ _ _ _ _ _ refl]
  by (simp add: url_parts_ok_def port_of_def path_of_def allocations_ok_def alloc_ok_def head_ok_def response_head_def
      ascii_def crlf_def BUFFER_SIZE_MAX_def show_dec.simps chunk_ok_def chunk_data_def chunked_body_def chunk_bytes_def
      is_digit_in_def digit_val_def strtol_digit_def esp_isdigit_def esp_isalpha_def esp_isupper_def)

text \<open>
  \<open>esp_strtol\<close> reads white space, a sign and digits of the base, gives their value kept in the range of a
  signed 32-bit number, and the offset of the first character that is no digit.
\<close>

theorem esp_strtol_value:
  assumes "2 \<le> base" "base \<le> 36" "\<forall>c \<in> set sp. esp_isspace c" "sign \<in> {[], [43], [45]}"
    and "ds \<noteq> []" "\<forall>c \<in> set ds. is_digit_in base c" "\<not> is_digit_in base e" "no_prefix base e"
  shows "esp_strtol (sp @ sign @ ds @ e # rest) base =
     Some (if sign = [45] then max (- num_value base 0 ds) (- 2147483648) else min (num_value base 0 ds) 2147483647,
           length (sp @ sign @ ds))"
  using strtol_reads [of base sp sign ds e rest] assms by (simp add: clamp_def)

theorem esp_strtol_value_witness:
  "esp_strtol [32, 45, 57, 57, 57, 57, 57, 57, 57, 57, 57, 57, 0] 10 = Some (- 2147483648, 12)"
  using esp_strtol_value [of 10 "[32]" "[45]" "[57, 57, 57, 57, 57, 57, 57, 57, 57, 57]" 0 "[]"]
  by (simp add: esp_isspace_def is_digit_in_def digit_val_def strtol_digit_def esp_isdigit_def esp_isalpha_def no_prefix_def)

text \<open>
  C7: In every session that a well-formed URL with a port of at most five digits starts, in any order of the events that can occur:
  the application is never called back while the request lives, and exactly once when it has ended. Then nothing is
  registered any more. With its allocations, every callback but those that end the connection is defined.
\<close>

theorem http_session_safe:
  assumes "http_request ok local_port dns (http_url secure host port path) method headers post_data True = Some h0"
    and "url_parts_ok host port path" "port_of secure port < 100000" "allocations_ok ok"
    and "\<forall>d. post_data = Some d \<longrightarrow> length d < 2147483648"
    and "http_reach h0 h"
  shows "(if ht_req h = None then replies h = 1 \<and> \<not> http_enabled e h
          else replies h = 0 \<and> (http_enabled e h \<and> event_allocates e \<and> \<not> ends_session e \<longrightarrow> http_step e h \<noteq> None))"
proof -
  have "0 \<le> port_of secure port" by (simp add: port_of_def split: option.split)
  then have "length (show_int (port_of secure port)) \<le> 5"
    using assms(3) show_dec_length [of "nat (port_of secure port)" 5] by (simp add: show_int_def)
  then have "http_inv h0"
    using raw_request_inv assms(1,4,5) unfolding http_request_url [OF assms(2)] allocations_ok_def by blast
  then have inv: "http_inv h" using http_inv_reach assms(6) by blast
  show ?thesis
  proof (cases "ht_req h")
    case None
    then show ?thesis using inv by (cases e) (auto simp: http_inv_def)
  next
    case (Some req)
    then have "replies h = 0" using inv by (simp add: http_inv_def)
    then show ?thesis using Some callbacks_defined [OF inv Some] by auto
  qed
qed

text \<open>A request whose host is being looked up.\<close>

theorem http_session_safe_witness:
  "\<exists>h0. http_get (\<lambda>_. True) 1 (\<lambda>_. Dns_pending) (http_url False [97] None []) None True = Some h0 \<and> replies h0 = 0"
proof -
  let ?r = "http_request (\<lambda>_. True) 1 (\<lambda>_. Dns_pending) (http_url False [97] None []) (ascii ''GET'') None None True"
  have url: "url_parts_ok [97] None []" by (simp add: url_parts_ok_def)
  have "?r = Some \<lparr>ht_req = Some \<lparr>rq_hostname = Some [97], rq_port = 80, rq_secure = False, rq_method = Some (ascii ''GET''),
      rq_path = Some (ascii ''/''), rq_headers = None, rq_post_data = None, rq_buffer = Some [0], rq_buffer_size = 1,
      rq_timeout = HTTP_REQUEST_TIMEOUT_MS, rq_timer = None, rq_callback = True\<rparr>, ht_conn = None,
      ht_trace = [Gethostbyname [97]]\<rparr>" (is "_ = Some ?h")
    unfolding http_request_url [OF url]
    by (simp add: http_raw_request_def esp_strdup_def port_of_def path_of_def Let_def)
  then show ?thesis
    using http_session_safe [of "\<lambda>_. True" 1 "\<lambda>_. Dns_pending" False "[97]" None "[]" "ascii ''GET''" None None ?h ?h Sent]
      url http_reach.start [of ?h]
    by (auto simp: http_get_def port_of_def allocations_ok_def)
qed

text \<open>
  C35: When the connection ends inside a chunk, the decoder reads behind the response: the disconnect callback runs into undefined
  behaviour instead of reporting an error. A server can announce a chunk of any size.
\<close>

theorem http_truncated_chunk:
  assumes "url_parts_ok host port path" "port_of secure port < 100000" "allocations_ok ok" "dns host = Dns_ok ip"
    and "0 < sents" "alloc_ok malloc"
    and "head_ok status reason lines" "he = response_head newer status reason lines"
    and "ascii ''Transfer-Encoding: chunked'' \<in> set lines"
    and "ds \<noteq> []" "\<forall>d \<in> set ds. is_digit_in 16 d" "int (length part) + 1 < num_value 16 0 ds"
    and "concat segs = he @ crlf @ crlf @ ds @ crlf @ part" "length (concat segs) < BUFFER_SIZE_MAX"
  shows "do { h \<leftarrow> http_get ok local_port dns (http_url secure host port path) headers True;
              http_run (exchange sents malloc segs) h } = None"
proof -
  have s: "concat segs @ [0] = he @ crlf @ crlf @ ds @ crlf @ part @ [0]" using assms(13) by simp
  have short: "length part < 8192" using assms(13,14) by (simp add: BUFFER_SIZE_MAX_def)
  have "parse_response (concat segs @ [0]) (length (concat segs) + 1) = None"
    using truncated_response [OF assms(7-12)] short unfolding s by simp
  moreover obtain req conn tr where
    "do { h \<leftarrow> http_request ok local_port dns (http_url secure host port path) (ascii ''GET'') headers None True;
          http_run (exchange sents malloc segs) h } =
     http_disconnect_callback \<lparr>ht_req = Some req, ht_conn = Some conn, ht_trace = tr\<rparr>" "holds_response req (concat segs)"
    using request_received [where dns = dns and host = host and segs = segs and post_data = None,
        OF assms(1-4) _ assms(5,6,14)] by blast
  ultimately show ?thesis
    by (simp add: http_get_def http_disconnect_callback_def holds_response_def)
qed

theorem http_truncated_chunk_witness:
  "do { h \<leftarrow> http_get (\<lambda>_. True) 1 (\<lambda>_. Dns_ok [1, 2, 3, 4]) (http_url False [97] None []) None True;
        http_run (exchange 1 (\<lambda>_. Some (\<lambda>_. 0)) [response_head False 200 [] [ascii ''Transfer-Encoding: chunked'']
           @ crlf @ crlf @ [70, 70] @ crlf @ [65]]) h } = None"
  by (rule http_truncated_chunk [where lines = "[ascii ''Transfer-Encoding: chunked'']" and ds = "[70, 70]" and part = "[65]"
      and reason = "[]" and newer = False and status = 200])
    (simp_all add: url_parts_ok_def port_of_def allocations_ok_def alloc_ok_def head_ok_def response_head_def
      ascii_def crlf_def BUFFER_SIZE_MAX_def show_dec.simps
      is_digit_in_def digit_val_def strtol_digit_def esp_isdigit_def esp_isalpha_def esp_isupper_def)

text \<open>
  The request is written to a buffer that has room for a port of five digits. \<open>split_url\<close> takes larger ports.
\<close>

theorem long_port_overflows:
  assumes "ht_req h = Some req" "rq_port req = int p" "100000 \<le> p"
  shows "http_connect_callback headers_ok h = None"
proof -
  have "5 < length (show_int (rq_port req))" using show_dec_longer [of 5 p] assms(2,3) by (simp add: show_int_def)
  then show ?thesis
    using assms(1) by (auto simp: http_connect_callback_def wr_seg_def request_text_length Let_def bind_eq_None_conv)
qed


end
