(* ===== verification/Sntp.thy ===== *)
theory Sntp
  imports Mqtt_Utils
begin

text \<open>
  The clock of lib/sntpclock: sntptime.c (calendar, daylight saving time, strings) and sntpclock.c (the clock that a ticker calls every
  second). \<open>ulong\<close>, \<open>time_t\<close> and \<open>long\<close> have 32 bits. \<open>smk\<close> is the function system_mktime of the SDK, \<open>ctz\<close> and \<open>cdl\<close> are
  the settings of configTime. \<open>None\<close> is undefined behaviour, or a recursion that does not end.
\<close>

section \<open>The calendar\<close>

record tm =
  tm_sec :: int
  tm_min :: int
  tm_hour :: int
  tm_mday :: int
  tm_mon :: int
  tm_year :: int
  tm_wday :: int
  tm_yday :: int
  tm_isdst :: int

definition MONTH_START :: int where "MONTH_START = 1"
definition DIFF1900TO1970 :: u32 where "DIFF1900TO1970 = 2208988800"

definition dayOfMonth :: "int list" where
  "dayOfMonth = [31, 29, 31, 30, 31, 30, 31, 31, 30, 31, 30, 31]"

text \<open>The length of a year counted from 1900, and \<open>leap400\<close> after it.\<close>

definition year_step :: "int \<Rightarrow> int \<Rightarrow> int \<times> int" where
  "year_step year leap400 =
     (if year AND 3 = 0 then
        (if year = 0 \<or> year = 100 \<or> year = 200 then
           (if leap400 - 1 \<noteq> 0 then 365 else 366, leap400 - 1)
         else (366, leap400))
      else (365, leap400))"

text \<open>The loop over the years: the year, the days left and the length of the year.\<close>

function year_loop :: "int \<Rightarrow> int \<Rightarrow> int \<Rightarrow> int \<times> int \<times> int" where
  "year_loop year days leap400 =
     (let (daysofyear, leap400) = year_step year leap400
      in if days < daysofyear then (year, days, daysofyear)
         else year_loop (year + 1) (days - daysofyear) leap400)"
  by pat_completeness auto

termination
  by (relation "measure (\<lambda>(year, days, leap400). nat days)") (auto simp: year_step_def split: if_splits)

declare year_loop.simps [simp del]

text \<open>The loop over the months; reading behind dayOfMonth is undefined.\<close>

fun month_loop :: "int list \<Rightarrow> int \<Rightarrow> int \<Rightarrow> (int \<times> int) option" where
  "month_loop [] month days = None"
| "month_loop (n # ns) month days =
     (if days \<ge> n then month_loop ns (month + 1) (days - n) else Some (month, days))"

text \<open>localtime up to the treatment of daylight saving time.\<close>

definition civil_time :: "u32 \<Rightarrow> u32 \<Rightarrow> tm option" where
  "civil_time secsSince1900 timezone =
     (let epoch = secsSince1900 - 2208988800 + timezone;
          sec = uint (epoch mod 60);
          epoch = epoch div 60;
          min = uint (epoch mod 60);
          epoch = epoch div 60;
          hour = uint (epoch mod 24);
          days = uint (epoch div 24);
          yday = days;
          wday = (days + 4) mod 7;
          (year, days, daysofyear) = year_loop (1970 mod 100) days (4 - ((1970 - 1) div 100 AND 3));
          days' = (if daysofyear AND 1 \<noteq> 0 \<and> days > 58 then days + 1 else days)
      in do { (month, days) \<leftarrow> month_loop dayOfMonth 0 days';
              Some \<lparr>tm_sec = sec, tm_min = min, tm_hour = hour, tm_mday = days + 1, tm_mon = month,
                    tm_year = year + 1970 div 100 * 100, tm_wday = wday, tm_yday = yday, tm_isdst = 0\<rparr> })"

section \<open>Daylight saving time\<close>

type_synonym sys_mktime = "int \<Rightarrow> int \<Rightarrow> int \<Rightarrow> int \<Rightarrow> int \<Rightarrow> int \<Rightarrow> u32"

definition mktime :: "sys_mktime \<Rightarrow> tm \<Rightarrow> u32" where
  "mktime smk t = DIFF1900TO1970
     + smk (tm_year t) (tm_mon t + MONTH_START) (tm_mday t) (tm_hour t) (tm_min t) (tm_sec t)"

text \<open>
  What testDayLight computes of the broken-down time. The \<open>else\<close> of the code belongs to the inner \<open>if\<close>.
\<close>

definition dst_offset :: "tm \<Rightarrow> u32" where
  "dst_offset t =
     (let month = tm_mon t
      in if month < 2 \<or> month > 9 then 0
         else if tm_mday t - tm_wday t \<ge> 25 \<and> (tm_wday t \<noteq> 0 \<or> tm_hour t \<ge> 2)
         then (if month = 9 then 0 else if month = 2 then 0 else 3600)
         else 3600)"

text \<open>localtime, with mkTmStruct and testDayLight, which call it, in place.\<close>

partial_function (option) localtime ::
  "sys_mktime \<Rightarrow> u32 \<Rightarrow> int \<Rightarrow> u32 \<Rightarrow> u32 \<Rightarrow> int \<Rightarrow> tm option" where
  "localtime smk ctz cdl secsSince1900 timezone daylight =
     Option.bind (civil_time secsSince1900 timezone) (\<lambda>t.
       if daylight > 0 then
         Option.bind (localtime smk ctz cdl (mktime smk t) ctz cdl) (\<lambda>t1.
           localtime smk ctz cdl (mktime smk t + dst_offset t1) ctz cdl)
       else Some t)"

definition mkTmStruct :: "sys_mktime \<Rightarrow> u32 \<Rightarrow> int \<Rightarrow> u32 \<Rightarrow> tm option" where
  "mkTmStruct smk ctz cdl secsSince1900 = localtime smk ctz cdl secsSince1900 ctz cdl"

definition testDayLight :: "sys_mktime \<Rightarrow> u32 \<Rightarrow> int \<Rightarrow> u32 \<Rightarrow> u32 option" where
  "testDayLight smk ctz cdl secsSince1900 = map_option dst_offset (mkTmStruct smk ctz cdl secsSince1900)"

definition removeDayLight :: "sys_mktime \<Rightarrow> u32 \<Rightarrow> int \<Rightarrow> u32 \<Rightarrow> u32 option" where
  "removeDayLight smk ctz cdl secsSince1900 =
     map_option (\<lambda>dst. secsSince1900 - dst) (testDayLight smk ctz cdl secsSince1900)"

definition splittime :: "sys_mktime \<Rightarrow> u32 \<Rightarrow> int \<Rightarrow> u32 \<Rightarrow> tm option" where
  "splittime smk ctz cdl secsSince1900 = localtime smk ctz cdl secsSince1900 0 0"

definition gmtime :: "sys_mktime \<Rightarrow> u32 \<Rightarrow> int \<Rightarrow> u32 \<Rightarrow> tm option" where
  "gmtime smk ctz cdl secsSince1900 = localtime smk ctz cdl secsSince1900 0 0"

section \<open>Computing with times\<close>

definition addTimeSeconds :: "sys_mktime \<Rightarrow> u32 \<Rightarrow> int \<Rightarrow> tm \<Rightarrow> u32 \<Rightarrow> tm option" where
  "addTimeSeconds smk ctz cdl t sec1 = splittime smk ctz cdl (sec1 + mktime smk t)"

definition addTimeStruct :: "sys_mktime \<Rightarrow> u32 \<Rightarrow> int \<Rightarrow> tm \<Rightarrow> tm \<Rightarrow> tm option" where
  "addTimeStruct smk ctz cdl t1 t2 = splittime smk ctz cdl (mktime smk t1 + mktime smk t2)"

definition compareTime :: "sys_mktime \<Rightarrow> tm \<Rightarrow> tm \<Rightarrow> int" where
  "compareTime smk t1 t2 = sint (mktime smk t1 - mktime smk t2)"

section \<open>Strings\<close>

definition mon_name :: "cstring list" where
  "mon_name = map ascii [''Jan'', ''Feb'', ''Mar'', ''Apr'', ''May'', ''Jun'', ''Jul'', ''Aug'', ''Sep'', ''Oct'', ''Nov'', ''Dec'']"

definition wday_name :: "cstring list" where
  "wday_name = map ascii [''Sun'', ''Mon'', ''Tue'', ''Wed'', ''Thu'', ''Fri'', ''Sat'']"

definition pad_left :: "u8 \<Rightarrow> nat \<Rightarrow> cstring \<Rightarrow> cstring" where
  "pad_left c n s = replicate (n - length s) c @ s"

text \<open>\<open>%02d\<close>; a time and a date are not negative.\<close>

definition two_digits :: "int \<Rightarrow> cstring" where
  "two_digits n = pad_left 48 2 (show_int n)"

definition rd_int :: "'a list \<Rightarrow> int \<Rightarrow> 'a option" where
  "rd_int xs i = (if i < 0 then None else rd xs (nat i))"

text \<open>sprintf to a buffer of a size, with the NUL.\<close>

definition sprintf_to :: "nat \<Rightarrow> cstring \<Rightarrow> cstring option" where
  "sprintf_to n s = (if length s < n then Some s else None)"

definition asctime :: "tm \<Rightarrow> cstring option" where
  "asctime t =
     do { wday \<leftarrow> rd_int wday_name (tm_wday t);
          mon \<leftarrow> rd_int mon_name (tm_mon t);
          sprintf_to 27 (pad_left 32 3 wday @ [32] @ pad_left 32 3 mon @ [32] @ pad_left 32 2 (show_int (tm_mday t)) @ [32]
            @ two_digits (tm_hour t) @ [58] @ two_digits (tm_min t) @ [58] @ two_digits (tm_sec t) @ [32]
            @ show_int (tm_year t)) }"

definition ctime :: "sys_mktime \<Rightarrow> u32 \<Rightarrow> int \<Rightarrow> u32 \<Rightarrow> cstring option" where
  "ctime smk ctz cdl secsSince1900 = Option.bind (localtime smk ctz cdl secsSince1900 ctz cdl) asctime"

section \<open>The clock\<close>

text \<open>\<open>ck_callback\<close> tells whether a callback is attached.\<close>

record sntp_clock =
  ck_callback :: bool
  ck_timezone :: u32
  ck_daylight :: int
  ck_local :: tm
  ck_secs :: u32
  ck_cb_secs :: u32

definition no_time :: tm where
  "no_time = \<lparr>tm_sec = 0, tm_min = 0, tm_hour = 0, tm_mday = 0, tm_mon = 0, tm_year = 0, tm_wday = 0, tm_yday = 0, tm_isdst = 0\<rparr>"

definition SNTPClock :: sntp_clock where
  "SNTPClock = \<lparr>ck_callback = False, ck_timezone = 0, ck_daylight = 0, ck_local = no_time, ck_secs = 0, ck_cb_secs = 0\<rparr>"

definition attachCb_seconds :: "u32 \<Rightarrow> sntp_clock \<Rightarrow> sntp_clock" where
  "attachCb_seconds seconds c = c\<lparr>ck_cb_secs := ck_secs c + seconds, ck_callback := True\<rparr>"

definition attachCb_tm :: "sys_mktime \<Rightarrow> u32 \<Rightarrow> int \<Rightarrow> tm \<Rightarrow> sntp_clock \<Rightarrow> sntp_clock option" where
  "attachCb_tm smk ctz cdl t c =
     map_option (\<lambda>secs. c\<lparr>ck_cb_secs := secs, ck_callback := True\<rparr>)
       (removeDayLight smk ctz cdl (mktime smk t - ck_timezone c))"

definition detachCb :: "sntp_clock \<Rightarrow> sntp_clock" where
  "detachCb c = c\<lparr>ck_callback := False\<rparr>"

text \<open>One tick: \<open>now\<close> is the answer of sntp_get_current_timestamp. The result tells whether the callback is called.\<close>

definition secondTick :: "sys_mktime \<Rightarrow> u32 \<Rightarrow> int \<Rightarrow> u32 \<Rightarrow> sntp_clock \<Rightarrow> (sntp_clock \<times> bool) option" where
  "secondTick smk ctz cdl now c =
     do { let c = c\<lparr>ck_secs := now\<rparr>;
          t \<leftarrow> localtime smk ctz cdl (ck_secs c + DIFF1900TO1970) (ck_timezone c) (ck_daylight c);
          let c = c\<lparr>ck_local := t\<rparr>;
          Some (c, ck_callback c \<and> ck_secs c + DIFF1900TO1970 \<ge> ck_cb_secs c) }"

text \<open>\<open>answers\<close> is what SNTP answers to each question; \<open>None\<close> if it never answers with a time.\<close>

fun wait_for_time :: "u32 list \<Rightarrow> u32 \<Rightarrow> u32 option" where
  "wait_for_time answers secs =
     (if secs \<noteq> 0 then Some secs else case answers of [] \<Rightarrow> None | a # as \<Rightarrow> wait_for_time as a)"

definition clock_begin :: "u32 list \<Rightarrow> u32 \<Rightarrow> int \<Rightarrow> sntp_clock \<Rightarrow> (sntp_clock \<times> u32) option" where
  "clock_begin answers timezone daylight c =
     do { secs \<leftarrow> wait_for_time answers (ck_secs c);
          Some (c\<lparr>ck_timezone := timezone, ck_daylight := daylight, ck_secs := secs\<rparr>, secs + DIFF1900TO1970) }"

definition getTimeStr :: "sntp_clock \<Rightarrow> cstring option" where
  "getTimeStr c = sprintf_to 20 (two_digits (tm_hour (ck_local c)) @ [58] @ two_digits (tm_min (ck_local c)) @ [58]
     @ two_digits (tm_sec (ck_local c)))"

definition getDateTimeStr :: "sntp_clock \<Rightarrow> cstring option" where
  "getDateTimeStr c = sprintf_to 20 (pad_left 48 4 (show_int (tm_year (ck_local c))) @ [45]
     @ two_digits (tm_mon (ck_local c) + MONTH_START) @ [45] @ two_digits (tm_mday (ck_local c)) @ [32]
     @ two_digits (tm_hour (ck_local c)) @ [58] @ two_digits (tm_min (ck_local c)) @ [58]
     @ two_digits (tm_sec (ck_local c)))"

end
