(* ===== verification/Sntp_Calendar.thy ===== *)
theory Sntp_Calendar
  imports Sntp
begin

text \<open>
  The Gregorian calendar and the summer time of the European Union, and what the functions of the SNTP clock make of them.
\<close>

section \<open>The Gregorian calendar\<close>

definition leap :: "int \<Rightarrow> bool" where
  "leap y \<longleftrightarrow> y mod 4 = 0 \<and> (y mod 100 \<noteq> 0 \<or> y mod 400 = 0)"

definition year_length :: "int \<Rightarrow> int" where
  "year_length y = (if leap y then 366 else 365)"

definition month_lengths :: "int \<Rightarrow> int list" where
  "month_lengths y = [31, if leap y then 29 else 28, 31, 30, 31, 30, 31, 31, 30, 31, 30, 31]"

text \<open>The days from 1 January 1970 to the start of the year 1970 + n, and to a date. Months count from 0.\<close>

fun days_to_year :: "nat \<Rightarrow> int" where
  "days_to_year 0 = 0"
| "days_to_year (Suc n) = days_to_year n + year_length (1970 + int n)"

definition days_to_date :: "int \<Rightarrow> int \<Rightarrow> int \<Rightarrow> int" where
  "days_to_date y m d = days_to_year (nat (y - 1970)) + sum_list (take (nat m) (month_lengths y)) + d - 1"

definition valid_date :: "int \<Rightarrow> int \<Rightarrow> int \<Rightarrow> bool" where
  "valid_date y m d \<longleftrightarrow> 1970 \<le> y \<and> 0 \<le> m \<and> m < 12 \<and> 1 \<le> d \<and> d \<le> month_lengths y ! nat m"

section \<open>Years\<close>

text \<open>What is in \<open>leap400\<close> before year 1900 + y is looked at.\<close>

definition leap400_at :: "int \<Rightarrow> int" where
  "leap400_at y = (if y \<le> 100 then 1 else if y \<le> 200 then 0 else -1)"

lemma hundreds:
  assumes "70 \<le> y" "y < 300"
  shows "(1900 + y :: int) mod 100 = 0 \<longleftrightarrow> y = 100 \<or> y = 200"
    and "(1900 + y :: int) mod 400 = 0 \<longleftrightarrow> y = 100"
proof -
  have "k = 20 \<or> k = 21" if "1900 + y = 100 * k" for k
  proof -
    have "19 < k" "k < 22" using that assms by linarith+
    then show ?thesis by linarith
  qed
  then show "(1900 + y :: int) mod 100 = 0 \<longleftrightarrow> y = 100 \<or> y = 200"
    by (fastforce simp: mod_eq_0_iff_dvd elim!: dvdE)
  have "k = 5" if "1900 + y = 400 * k" for k
  proof -
    have "4 < k" "k < 6" using that assms by linarith+
    then show ?thesis by linarith
  qed
  then show "(1900 + y :: int) mod 400 = 0 \<longleftrightarrow> y = 100"
    by (fastforce simp: mod_eq_0_iff_dvd elim!: dvdE)
qed

lemma year_step_leap:
  assumes "70 \<le> y" "y < 300"
  shows "year_step y (leap400_at y) = (year_length (1900 + y), leap400_at (y + 1))"
proof -
  have m: "y AND 3 = y mod 4" using take_bit_eq_mod [of 2 y] take_bit_eq_mask [of 2 y] by (simp add: mask_eq_exp_minus_1)
  have "y mod 4 = (1900 + y) mod 4" by (simp add: mod_add_left_eq [symmetric, of 1900])
  then show ?thesis
    using hundreds [OF assms] by (auto simp: year_step_def m year_length_def leap_def leap400_at_def)
qed

lemma year_length_bounds: "365 \<le> year_length y" "year_length y \<le> 366"
  by (simp_all add: year_length_def)

lemma days_to_year_bound: "365 * int n \<le> days_to_year n"
proof (induction n)
  case (Suc n)
  then show ?case using year_length_bounds(1) [of "1970 + int n"] by simp
qed simp

lemma year_loop_years:
  assumes "0 \<le> days" "days_to_year n + days < 49711"
  shows "\<exists>n' days'. year_loop (70 + int n) days (leap400_at (70 + int n)) =
       (70 + int n', days', year_length (1970 + int n')) \<and>
     days_to_year n' + days' = days_to_year n + days \<and> 0 \<le> days' \<and> days' < year_length (1970 + int n')"
  using assms
proof (induction "nat days" arbitrary: n days rule: less_induct)
  case less
  have small: "70 + int n < 300" using days_to_year_bound [of n] less.prems by linarith
  have step: "year_step (70 + int n) (leap400_at (70 + int n)) =
      (year_length (1970 + int n), leap400_at (70 + int (Suc n)))"
    using year_step_leap [of "70 + int n"] small by (simp add: add.commute add.left_commute)
  have succ: "70 + int n + 1 = 70 + int (Suc n)" by simp
  show ?case
  proof (cases "days < year_length (1970 + int n)")
    case True
    then have "year_loop (70 + int n) days (leap400_at (70 + int n)) = (70 + int n, days, year_length (1970 + int n))"
      by (subst year_loop.simps) (simp add: step)
    then show ?thesis using True less.prems(1) by blast
  next
    case False
    let ?d = "days - year_length (1970 + int n)"
    have "year_loop (70 + int n) days (leap400_at (70 + int n)) =
        year_loop (70 + int (Suc n)) ?d (leap400_at (70 + int (Suc n)))"
      using False by (subst year_loop.simps) (simp only: step Let_def prod.case succ if_False)
    moreover have "\<exists>n' days'. year_loop (70 + int (Suc n)) ?d (leap400_at (70 + int (Suc n))) =
       (70 + int n', days', year_length (1970 + int n')) \<and>
     days_to_year n' + days' = days_to_year (Suc n) + ?d \<and> 0 \<le> days' \<and> days' < year_length (1970 + int n')"
      using False less.prems year_length_bounds [of "1970 + int n"] by (intro less.hyps) auto
    ultimately show ?thesis by simp
  qed
qed

section \<open>Months\<close>

text \<open>The loop over the months of a leap year, after a day has been skipped in other years, finds the date.\<close>

definition month_found :: "int \<Rightarrow> int list \<Rightarrow> int \<Rightarrow> bool" where
  "month_found days ns skipped \<longleftrightarrow>
     (case month_loop dayOfMonth 0 skipped of
        None \<Rightarrow> False
      | Some (m, d) \<Rightarrow> 0 \<le> m \<and> m < 12 \<and> 0 \<le> d \<and> d < ns ! nat m \<and> sum_list (take (nat m) ns) + d = days)"

lemma months_of_leap_year:
  assumes "0 \<le> i" "i < 366"
  shows "month_found i [31, 29, 31, 30, 31, 30, 31, 31, 30, 31, 30, 31] i"
  using assms by (simp add: month_found_def dayOfMonth_def)

lemma months_of_other_year:
  assumes "0 \<le> i" "i < 365"
  shows "month_found i [31, 28, 31, 30, 31, 30, 31, 31, 30, 31, 30, 31] (if i > 58 then i + 1 else i)"
  using assms by (simp add: month_found_def dayOfMonth_def)

lemma month_loop_date:
  assumes "0 \<le> days" "days < year_length y"
  shows "month_found days (month_lengths y) (if year_length y AND 1 \<noteq> 0 \<and> days > 58 then days + 1 else days)"
  using assms months_of_leap_year [of days] months_of_other_year [of days]
  by (cases "leap y"; cases "58 < days") (simp_all add: year_length_def month_lengths_def)

section \<open>localtime\<close>

text \<open>The seconds from 1 January 1970 to a broken-down time.\<close>

definition seconds_of :: "tm \<Rightarrow> int" where
  "seconds_of t = 86400 * days_to_date (tm_year t) (tm_mon t) (tm_mday t) + 3600 * tm_hour t + 60 * tm_min t + tm_sec t"

definition valid_time :: "tm \<Rightarrow> bool" where
  "valid_time t \<longleftrightarrow> valid_date (tm_year t) (tm_mon t) (tm_mday t) \<and> 0 \<le> tm_hour t \<and> tm_hour t < 24 \<and>
     0 \<le> tm_min t \<and> tm_min t < 60 \<and> 0 \<le> tm_sec t \<and> tm_sec t < 60 \<and>
     tm_wday t = (days_to_date (tm_year t) (tm_mon t) (tm_mday t) + 4) mod 7"

lemma split_seconds:
  fixes E :: int
  shows "E = 86400 * (E div 60 div 60 div 24) + 3600 * (E div 60 div 60 mod 24) + 60 * (E div 60 mod 60) + E mod 60"
  using mult_div_mod_eq [of 60 E] mult_div_mod_eq [of 60 "E div 60"] mult_div_mod_eq [of 24 "E div 60 div 60"] by linarith

lemma civil_time_correct:
  "\<exists>t. civil_time secs timezone = Some t \<and> valid_time t \<and> seconds_of t = uint (secs - 2208988800 + timezone) \<and>
     tm_year t < 2107 \<and> tm_yday t = days_to_date (tm_year t) (tm_mon t) (tm_mday t) \<and> tm_isdst t = 0"
proof -
  define epoch where "epoch = secs - 2208988800 + timezone"
  define E where "E = uint epoch"
  have E: "0 \<le> E" "E < 4294967296" using unsigned_less [of epoch, where 'a = int] by (simp_all add: E_def)
  have u: "uint (epoch mod 60) = E mod 60" "uint (epoch div 60 mod 60) = E div 60 mod 60"
    "uint (epoch div 60 div 60 mod 24) = E div 60 div 60 mod 24"
    "uint (epoch div 60 div 60 div 24) = E div 60 div 60 div 24"
    by (simp_all add: E_def uint_div uint_mod)
  obtain D H M S where D: "E div 60 div 60 div 24 = D" "E div 60 div 60 mod 24 = H" "E div 60 mod 60 = M" "E mod 60 = S"
    and sum: "E = 86400 * D + 3600 * H + 60 * M + S"
    and bounds: "0 \<le> D" "0 \<le> H" "H < 24" "0 \<le> M" "M < 60" "0 \<le> S" "S < 60"
    by (rule that [OF refl refl refl refl split_seconds])
      (simp_all only: pos_mod_sign pos_mod_bound pos_imp_zdiv_nonneg_iff E(1) zero_less_numeral)
  have d: "0 \<le> D" "D < 49711" using sum bounds E(2) by linarith+
  have l: "4 - ((1970 - 1) div 100 AND 3) = leap400_at (70 + int 0)" by (simp add: leap400_at_def)
  obtain n days where loop: "year_loop 70 D (leap400_at (70 + int 0)) = (70 + int n, days, year_length (1970 + int n))"
    and days: "days_to_year n + days = D" "0 \<le> days" "days < year_length (1970 + int n)"
    using year_loop_years [of D 0] d by auto
  have n: "1970 + int n < 2107" using days_to_year_bound [of n] days(1,2) d(2) by linarith
  let ?skipped = "if year_length (1970 + int n) AND 1 \<noteq> 0 \<and> days > 58 then days + 1 else days"
  obtain m k where month: "month_loop dayOfMonth 0 ?skipped = Some (m, k)" "0 \<le> m" "m < 12" "0 \<le> k"
      "k < month_lengths (1970 + int n) ! nat m" "sum_list (take (nat m) (month_lengths (1970 + int n))) + k = days"
    using month_loop_date [OF days(2,3)] by (auto simp: month_found_def split: option.splits)
  define t where "t = \<lparr>tm_sec = S, tm_min = M, tm_hour = H, tm_mday = k + 1,
     tm_mon = m, tm_year = 1970 + int n, tm_wday = (D + 4) mod 7, tm_yday = D, tm_isdst = 0\<rparr>"
  have "civil_time secs timezone = Some t"
    unfolding civil_time_def epoch_def [symmetric] Let_def u D l using loop month(1)
    by (simp add: t_def)
  moreover have date: "days_to_date (1970 + int n) m (k + 1) = D"
    using month(6) days(1) by (simp add: days_to_date_def)
  moreover have "valid_time t"
    using date month bounds by (simp add: valid_time_def valid_date_def t_def)
  moreover have "seconds_of t = E" using date sum by (simp add: seconds_of_def t_def)
  moreover have "tm_year t < 2107" "tm_yday t = days_to_date (tm_year t) (tm_mon t) (tm_mday t)" "tm_isdst t = 0"
    using n date by (simp_all add: t_def)
  ultimately show ?thesis unfolding E_def epoch_def by blast
qed

lemma localtime_plain: "daylight \<le> 0 \<Longrightarrow> localtime smk ctz cdl secs timezone daylight = civil_time secs timezone"
  by (subst localtime.simps) simp

lemma localtime_dst_settings:
  assumes "cdl \<le> 0" "0 < daylight"
  shows "localtime smk ctz cdl secs timezone daylight =
     Option.bind (civil_time secs timezone) (\<lambda>t. Option.bind (civil_time (mktime smk t) ctz) (\<lambda>t1.
       civil_time (mktime smk t + dst_offset t1) ctz))"
  using assms by (subst localtime.simps) (simp add: localtime_plain)

lemma localtime_returns: "cdl \<le> 0 \<Longrightarrow> \<exists>t. localtime smk ctz cdl secs timezone daylight = Some t"
proof (cases "0 < daylight")
  case True
  assume "cdl \<le> 0"
  obtain t where t: "civil_time secs timezone = Some t" using civil_time_correct by blast
  obtain t1 where t1: "civil_time (mktime smk t) ctz = Some t1" using civil_time_correct by blast
  obtain t2 where "civil_time (mktime smk t + dst_offset t1) ctz = Some t2" using civil_time_correct by blast
  then show ?thesis using t t1 localtime_dst_settings [OF \<open>cdl \<le> 0\<close> True] by simp
next
  case False
  then show ?thesis using localtime_plain civil_time_correct by (metis not_less)
qed

section \<open>Strings\<close>

lemma show_int_length: "0 \<le> n \<Longrightarrow> n < 10 ^ k \<Longrightarrow> 0 < k \<Longrightarrow> length (show_int n) \<le> k"
  using show_dec_length [of "nat n" k] by (simp add: show_int_def nat_less_iff)

lemma two_digits_length: "0 \<le> n \<Longrightarrow> n < 100 \<Longrightarrow> length (two_digits n) = 2"
  using show_int_length [of n 2] by (simp add: two_digits_def pad_left_def)

lemma month_length_bound:
  assumes "0 \<le> m" "m < 12"
  shows "month_lengths y ! nat m \<le> 31"
proof -
  have "set (month_lengths y) \<subseteq> {..31}" by (simp add: month_lengths_def)
  moreover have "month_lengths y ! nat m \<in> set (month_lengths y)"
    using assms by (intro nth_mem) (simp add: month_lengths_def)
  ultimately show ?thesis by blast
qed

lemma valid_time_bounds:
  assumes "valid_time t"
  shows "0 \<le> tm_mon t" "tm_mon t < 12" "1 \<le> tm_mday t" "tm_mday t \<le> 31" "0 \<le> tm_wday t" "tm_wday t < 7"
  using assms month_length_bound [of "tm_mon t" "tm_year t"] by (auto simp: valid_time_def valid_date_def)

text \<open>The strings of a time that \<open>localtime\<close> returns fit their buffers, the one of the date and time exactly.\<close>

theorem time_strings_fit:
  assumes "valid_time t" "tm_year t < 10000"
  shows "\<exists>s. asctime t = Some s" "\<exists>s. getTimeStr (c\<lparr>ck_local := t\<rparr>) = Some s \<and> length s = 8"
    "\<exists>s. getDateTimeStr (c\<lparr>ck_local := t\<rparr>) = Some s \<and> length s = 19"
proof -
  note b = valid_time_bounds [OF assms(1)]
  have y: "1970 \<le> tm_year t" using assms(1) by (simp add: valid_time_def valid_date_def)
  have two: "length (two_digits (tm_hour t)) = 2" "length (two_digits (tm_min t)) = 2"
    "length (two_digits (tm_sec t)) = 2" "length (two_digits (tm_mon t + 1)) = 2" "length (two_digits (tm_mday t)) = 2"
    using assms(1) b by (auto simp: valid_time_def intro!: two_digits_length)
  have len: "length (show_int (tm_year t)) \<le> 4" "length (show_int (tm_mday t)) \<le> 2"
    using show_int_length [of "tm_year t" 4] show_int_length [of "tm_mday t" 2] y assms(2) b by simp_all
  have "rd_int wday_name (tm_wday t) = Some (wday_name ! nat (tm_wday t))"
    "rd_int mon_name (tm_mon t) = Some (mon_name ! nat (tm_mon t))"
    using b by (simp_all add: rd_int_def rd_def wday_name_def mon_name_def nat_less_iff)
  moreover have names: "\<forall>s \<in> set wday_name. length s = 3" "\<forall>s \<in> set mon_name. length s = 3"
    by (simp_all add: wday_name_def mon_name_def ascii_def)
  have "length wday_name = 7" "length mon_name = 12" by (simp_all add: wday_name_def mon_name_def)
  then have "length (wday_name ! nat (tm_wday t)) = 3" "length (mon_name ! nat (tm_mon t)) = 3"
    using names b by (auto simp: nat_less_iff)
  ultimately show "\<exists>s. asctime t = Some s"
    using two len by (simp add: asctime_def sprintf_to_def pad_left_def)
  show "\<exists>s. getTimeStr (c\<lparr>ck_local := t\<rparr>) = Some s \<and> length s = 8"
    using two by (simp add: getTimeStr_def sprintf_to_def)
  show "\<exists>s. getDateTimeStr (c\<lparr>ck_local := t\<rparr>) = Some s \<and> length s = 19"
    using two len by (simp add: getDateTimeStr_def sprintf_to_def pad_left_def MONTH_START_def)
qed

section \<open>Properties\<close>

text \<open>
  C18: Without daylight saving time, \<open>localtime\<close> returns the date and time of the Gregorian calendar, leap years
  included, and the day of the week, for every 32-bit time: the valid date that lies the given number of seconds after 1 January 1970.
\<close>

theorem localtime_calendar:
  assumes "daylight \<le> 0"
  shows "\<exists>t. localtime smk ctz cdl secs timezone daylight = Some t \<and> valid_time t \<and>
     seconds_of t = uint (secs - DIFF1900TO1970 + timezone)"
  using civil_time_correct [of secs timezone] localtime_plain [OF assms] by (auto simp: DIFF1900TO1970_def)

text \<open>29 February 2000, a Tuesday.\<close>

theorem localtime_calendar_witness:
  "\<exists>t. localtime (\<lambda>_ _ _ _ _ _. 0) 0 0 (2208988800 + 951782400) 0 0 = Some t \<and> valid_time t \<and> seconds_of t = 951782400"
  using localtime_calendar [of 0 "\<lambda>_ _ _ _ _ _. 0" 0 0 "2208988800 + 951782400" 0] by (simp add: DIFF1900TO1970_def)

lemma localtime_never: "0 < cdl \<Longrightarrow> 0 < daylight \<Longrightarrow> localtime smk ctz cdl secs timezone daylight \<noteq> Some t"
proof -
  have "localtime smk ctz cdl secs timezone daylight = Some t \<Longrightarrow> \<not> (0 < cdl \<and> 0 < daylight)"
  proof (rule localtime.raw_induct [where P = "\<lambda>smk ctz cdl secs timezone daylight t. \<not> (0 < cdl \<and> 0 < daylight)"],
      intro notI, elim conjE)
    fix loc smk ctz cdl secs timezone daylight t
    assume ih: "\<And>smk ctz cdl secs timezone daylight t. loc smk ctz cdl secs timezone daylight = Some t \<Longrightarrow>
        \<not> (0 < cdl \<and> 0 < daylight)"
      and body: "Option.bind (civil_time secs timezone) (\<lambda>t.
         if daylight > 0 then
           Option.bind (loc smk ctz cdl (mktime smk t) ctz cdl) (\<lambda>t1.
             loc smk ctz cdl (mktime smk t + dst_offset t1) ctz cdl)
         else Some t) = Some t"
      and dl: "0 < cdl" "0 < daylight"
    from body dl(2) obtain t0 t1 where "loc smk ctz cdl (mktime smk t0) ctz cdl = Some t1"
      by (cases "civil_time secs timezone"; cases "loc smk ctz cdl (mktime smk (the (civil_time secs timezone))) ctz cdl") auto
    from ih [OF this] dl(1) show False by simp
  qed
  then show "0 < cdl \<Longrightarrow> 0 < daylight \<Longrightarrow> localtime smk ctz cdl secs timezone daylight \<noteq> Some t" by blast
qed

text \<open>
  C36: With daylight saving time in the settings of configTime, \<open>localtime\<close> with daylight saving time calls itself without end, whatever
  the time, and so do the functions that use it.
\<close>

theorem localtime_dst_never_returns:
  assumes "0 < cdl" "0 < daylight"
  shows "localtime smk ctz cdl secs timezone daylight = None \<and> mkTmStruct smk ctz cdl secs = None \<and>
     testDayLight smk ctz cdl secs = None \<and> removeDayLight smk ctz cdl secs = None \<and> ctime smk ctz cdl secs = None"
proof -
  have "localtime smk ctz cdl secs tz dl = None" if "0 < dl" for secs tz dl
    using localtime_never [OF assms(1) that] by (metis not_None_eq)
  then show ?thesis
    using assms by (simp add: mkTmStruct_def testDayLight_def removeDayLight_def ctime_def)
qed

theorem localtime_dst_never_returns_witness:
  "localtime (\<lambda>_ _ _ _ _ _. 0) 3600 1 3900000000 3600 1 = None"
  using localtime_dst_never_returns [of 1 1 "\<lambda>_ _ _ _ _ _. 0" 3600 3900000000 3600] by simp

text \<open>
  Summer time of the European Union in local time: from the last Sunday of March, 2 o'clock, to the last Sunday of October, 2 o'clock.
  A date in a month of 31 days is on or after the last Sunday if the latest Sunday up to it is at least the 25th.
\<close>

definition last_sunday :: "tm \<Rightarrow> int \<Rightarrow> bool" where
  "last_sunday t d \<longleftrightarrow> 25 \<le> d \<and> d \<le> 31 \<and> (tm_wday t + (d - tm_mday t)) mod 7 = 0"

definition past_last_sunday :: "tm \<Rightarrow> bool" where
  "past_last_sunday t \<longleftrightarrow> (\<exists>d. last_sunday t d \<and> (d < tm_mday t \<or> d = tm_mday t \<and> 2 \<le> tm_hour t))"

definition summer_time :: "tm \<Rightarrow> bool" where
  "summer_time t \<longleftrightarrow> (if tm_mon t = 2 then past_last_sunday t
     else if tm_mon t = 9 then \<not> past_last_sunday t else 2 < tm_mon t \<and> tm_mon t < 9)"

lemma last_sunday_test:
  assumes "0 \<le> tm_wday t" "tm_wday t < 7" "tm_mday t \<le> 31"
  shows "past_last_sunday t \<longleftrightarrow> tm_mday t - tm_wday t \<ge> 25 \<and> (tm_wday t \<noteq> 0 \<or> tm_hour t \<ge> 2)"
proof -
  obtain w m h where w: "tm_wday t = w" and m: "tm_mday t = m" and h: "tm_hour t = h" by blast
  have unique: "d = m - w" if u: "25 \<le> d" "d \<le> m" "(w + (d - m)) mod 7 = 0" for d
  proof -
    obtain k where k: "w + (d - m) = 7 * k" using u(3) by (auto simp: mod_eq_0_iff_dvd elim!: dvdE)
    have "-1 < k" "k < 1" using k u(1,2) assms w m by linarith+
    then show ?thesis using k by simp
  qed
  show ?thesis
  proof
    assume "past_last_sunday t"
    then obtain d where d: "25 \<le> d" "(w + (d - m)) mod 7 = 0" "d < m \<or> d = m \<and> 2 \<le> h"
      by (auto simp: past_last_sunday_def last_sunday_def w m h)
    then have "d = m - w" using unique by auto
    then show "tm_mday t - tm_wday t \<ge> 25 \<and> (tm_wday t \<noteq> 0 \<or> tm_hour t \<ge> 2)"
      using d by (auto simp: w m h)
  next
    assume "tm_mday t - tm_wday t \<ge> 25 \<and> (tm_wday t \<noteq> 0 \<or> tm_hour t \<ge> 2)"
    then have "last_sunday t (m - w) \<and> (m - w < m \<or> m - w = m \<and> 2 \<le> h)"
      using assms by (auto simp: last_sunday_def w m h)
    then show "past_last_sunday t" by (auto simp: past_last_sunday_def m h)
  qed
qed

text \<open>
  \<open>testDayLight\<close> decides rightly in every month but March. There it is the wrong way round, one hour in the first weeks and none
  after the last Sunday, because the \<open>else\<close> belongs to the inner \<open>if\<close>.
\<close>

theorem dst_wrong_in_march:
  assumes "valid_time t"
  shows "dst_offset t = (if tm_mon t = 2 then if summer_time t then 0 else 3600
     else if summer_time t then 3600 else 0)"
proof -
  note b = valid_time_bounds [OF assms]
  then show ?thesis
    using last_sunday_test [of t] by (auto simp: dst_offset_def summer_time_def Let_def)
qed

text \<open>Monday 30 March 1970, 12 o'clock: summer time, but no hour is added.\<close>

theorem dst_wrong_in_march_witness:
  "dst_offset \<lparr>tm_sec = 0, tm_min = 0, tm_hour = 12, tm_mday = 30, tm_mon = 2, tm_year = 1970, tm_wday = 1,
     tm_yday = 0, tm_isdst = 0\<rparr> = 0"
  using dst_wrong_in_march [of "\<lparr>tm_sec = 0, tm_min = 0, tm_hour = 12, tm_mday = 30, tm_mon = 2, tm_year = 1970, tm_wday = 1,
     tm_yday = 0, tm_isdst = 0\<rparr>"]
  by (simp add: valid_time_def valid_date_def days_to_date_def month_lengths_def leap_def summer_time_def last_sunday_test)

text \<open>
  A callback that is attached with a delay is called at the next tick of the clock already, until the year 2036, because the delay is added to a
  time that counts from 1970 and compared with one that counts from 1900; and then at every tick.
\<close>

theorem delay_ignored:
  assumes "cdl \<le> 0" "uint (ck_secs c) \<le> uint now" "uint now < 2085978496" "uint seconds \<le> 2208988800"
  shows "\<exists>c'. secondTick smk ctz cdl now (attachCb_seconds seconds c) = Some (c', True)"
proof -
  have s: "uint (now + DIFF1900TO1970) = uint now + 2208988800"
    using assms(3) by (simp add: DIFF1900TO1970_def uint_word_ariths)
  have "uint (ck_secs c + seconds) = uint (ck_secs c) + uint seconds"
    using assms(2-4) by (simp add: uint_word_ariths)
  then have "ck_secs c + seconds \<le> now + DIFF1900TO1970" using s assms(2,4) by (simp add: word_le_def)
  moreover obtain t where "localtime smk ctz cdl (now + DIFF1900TO1970) (ck_timezone c) (ck_daylight c) = Some t"
    using localtime_returns [OF assms(1)] by blast
  ultimately show ?thesis by (simp add: secondTick_def attachCb_seconds_def)
qed

theorem delay_ignored_witness:
  "\<exists>c'. secondTick (\<lambda>_ _ _ _ _ _. 0) 0 0 1500000001 (attachCb_seconds 3600 (SNTPClock\<lparr>ck_secs := 1500000000\<rparr>)) = Some (c', True)"
  by (rule delay_ignored) (simp_all add: SNTPClock_def)

end
