(* ===== verification/Libc.thy ===== *)
theory Libc
  imports Http_Response
begin

text \<open>
  The C library functions of lib/noduino/core: the string and character functions of libc_replacements.c and the number
  conversions of stdlib_noniso.c. Memory behind a pointer is a list of bytes, a char is unsigned, int and long have 32 bits.
\<close>

section \<open>Characters\<close>

definition islower :: "int \<Rightarrow> bool" where
  "islower c \<longleftrightarrow> c \<ge> 97 \<and> c \<le> 122"

definition isupper :: "int \<Rightarrow> bool" where
  "isupper c \<longleftrightarrow> c \<ge> 65 \<and> c \<le> 90"

definition isalpha :: "int \<Rightarrow> bool" where
  "isalpha c \<longleftrightarrow> islower c \<or> isupper c"

definition isdigit :: "int \<Rightarrow> bool" where
  "isdigit c \<longleftrightarrow> c \<ge> 48 \<and> c \<le> 57"

definition isalnum :: "int \<Rightarrow> bool" where
  "isalnum c \<longleftrightarrow> isalpha c \<or> isdigit c"

definition iscntrl :: "int \<Rightarrow> bool" where
  "iscntrl c \<longleftrightarrow> c \<le> 0x1F \<or> c = 0x7F"

definition isprint :: "int \<Rightarrow> bool" where
  "isprint c \<longleftrightarrow> \<not> iscntrl c"

definition isgraph :: "int \<Rightarrow> bool" where
  "isgraph c \<longleftrightarrow> isprint c \<and> c \<noteq> 32"

definition ispunct :: "int \<Rightarrow> bool" where
  "ispunct c \<longleftrightarrow> isgraph c \<and> \<not> isalnum c"

definition isspace :: "int \<Rightarrow> bool" where
  "isspace c \<longleftrightarrow> c \<in> {0x20, 0x09, 0x0a, 0x0b, 0x0c, 0x0d}"

definition isblank :: "int \<Rightarrow> bool" where
  "isblank c \<longleftrightarrow> c \<in> {0x20, 0x09}"

definition isxdigit :: "int \<Rightarrow> bool" where
  "isxdigit c \<longleftrightarrow> (c \<ge> 65 \<and> c \<le> 70) \<or> (c \<ge> 97 \<and> c \<le> 102) \<or> isdigit c"

definition tolower :: "int \<Rightarrow> int" where
  "tolower c = (if isupper c then c + 0x20 else c)"

definition toupper :: "int \<Rightarrow> int" where
  "toupper c = (if islower c then c - 0x20 else c)"

section \<open>Strings\<close>

text \<open>The sizes that malloc and realloc ask for: rounded up to words, in 32 bits.\<close>

definition malloc_size :: "u32 \<Rightarrow> u32" where
  "malloc_size n = (n + 3) AND NOT 3"

fun strnlen :: "u8 list \<Rightarrow> nat \<Rightarrow> nat option" where
  "strnlen s len =
     (if len = 0 then Some 0
      else case s of [] \<Rightarrow> None | c # s \<Rightarrow> if c = 0 then Some 0 else map_option Suc (strnlen s (len - 1)))"

declare strnlen.simps [simp del]

text \<open>strchr and strrchr: the offset of the first or last occurrence; the NUL itself is never found.\<close>

fun strchr :: "u8 list \<Rightarrow> u8 \<Rightarrow> nat option option" where
  "strchr [] character = None"
| "strchr (c # s) character =
     (if c = 0 then Some None else if c = character then Some (Some 0)
      else map_option (map_option Suc) (strchr s character))"

fun strrchr_loop :: "u8 list \<Rightarrow> u8 \<Rightarrow> nat \<Rightarrow> nat option \<Rightarrow> nat option option" where
  "strrchr_loop [] character i ret = None"
| "strrchr_loop (c # s) character i ret =
     (if c = 0 then Some ret
      else strrchr_loop s character (i + 1) (if c = character then Some i else ret))"

definition strrchr :: "u8 list \<Rightarrow> u8 \<Rightarrow> nat option option" where
  "strrchr s character = strrchr_loop s character 0 None"

text \<open>The loop of strncat writes at \<open>k\<close> = i + offset; \<open>n\<close> counts down.\<close>

fun strncat_loop :: "u8 list \<Rightarrow> nat \<Rightarrow> u8 list \<Rightarrow> nat \<Rightarrow> u8 list option" where
  "strncat_loop dest k src n =
     (if n = 0 then wr dest k 0
      else case src of
        [] \<Rightarrow> None
      | c # s \<Rightarrow> if c = 0 then wr dest k 0
                 else case wr dest k c of None \<Rightarrow> None | Some dest \<Rightarrow> strncat_loop dest (k + 1) s (n - 1))"

declare strncat_loop.simps [simp del]

definition strncat :: "u8 list \<Rightarrow> u8 list \<Rightarrow> nat \<Rightarrow> u8 list option" where
  "strncat dest src n = do { s \<leftarrow> cstr dest; strncat_loop dest (length s) src n }"

definition strcat :: "u8 list \<Rightarrow> u8 list \<Rightarrow> u8 list option" where
  "strcat dest src = do { s \<leftarrow> cstr src; strncat dest src (length s) }"

text \<open>
  strtok_r: \<open>m\<close> is the block of the string, \<open>s\<close> and \<open>last\<close> are offsets in it or NULL. First the skipping of
  delimiters, then the scan of the token. The results are the token, the new \<open>last\<close> and the memory.
\<close>

function skip_delims :: "u8 list \<Rightarrow> cstring \<Rightarrow> nat \<Rightarrow> (u8 \<times> nat) option" where
  "skip_delims m delim s =
     (if s < length m then if m ! s \<in> set delim then skip_delims m delim (s + 1) else Some (m ! s, s + 1)
      else None)"
  by pat_completeness auto

termination by (relation "measure (\<lambda>(m, delim, s). length m - s)") auto

function scan_token :: "u8 list \<Rightarrow> cstring \<Rightarrow> nat \<Rightarrow> (nat option \<times> u8 list) option" where
  "scan_token m delim s =
     (if s < length m then
        if m ! s \<in> set delim then Some (Some (s + 1), m[s := 0])
        else if m ! s = 0 then Some (None, m)
        else scan_token m delim (s + 1)
      else None)"
  by pat_completeness auto

termination by (relation "measure (\<lambda>(m, delim, s). length m - s)") auto

declare skip_delims.simps [simp del] scan_token.simps [simp del]

definition strtok_r ::
  "u8 list \<Rightarrow> nat option \<Rightarrow> cstring \<Rightarrow> nat option \<Rightarrow> (nat option \<times> nat option \<times> u8 list) option" where
  "strtok_r m s delim lst =
     (case (if s = None then lst else s) of
        None \<Rightarrow> Some (None, lst, m)
      | Some s \<Rightarrow>
          do { (c, s) \<leftarrow> skip_delims m delim s;
               if c = 0 then Some (None, None, m)
               else do { (lst, m') \<leftarrow> scan_token m delim s; Some (Some (s - 1), lst, m') } })"

fun strcasecmp :: "u8 list \<Rightarrow> u8 list \<Rightarrow> int option" where
  "strcasecmp (x # str1) (y # str2) =
     (let c1 = tolower (uint x); c2 = tolower (uint y)
      in if c1 - c2 \<noteq> 0 \<or> c2 = 0 then Some (c1 - c2) else strcasecmp str1 str2)"
| "strcasecmp _ _ = None"

text \<open>The copying loop of strlcpy, with \<open>n\<close> bytes left before the last: how far it gets in both strings, and what is left.\<close>

fun strlcpy_loop :: "u8 list \<Rightarrow> nat \<Rightarrow> u8 list \<Rightarrow> nat \<Rightarrow> (u8 list \<times> nat \<times> u8 list \<times> nat) option" where
  "strlcpy_loop dst k [] n = None"
| "strlcpy_loop dst k (c # s) n =
     (case wr dst k c of
        None \<Rightarrow> None
      | Some dst \<Rightarrow>
          if c = 0 then Some (dst, k + 1, s, n)
          else if n - 1 = 0 then Some (dst, k + 1, s, 0) else strlcpy_loop dst (k + 1) s (n - 1))"

text \<open>\<open>while (*s++);\<close>: the memory behind the NUL.\<close>

fun skip_to_nul :: "u8 list \<Rightarrow> u8 list option" where
  "skip_to_nul [] = None"
| "skip_to_nul (c # s) = (if c = 0 then Some s else skip_to_nul s)"

definition strlcpy :: "u8 list \<Rightarrow> u8 list \<Rightarrow> nat \<Rightarrow> (u8 list \<times> nat) option" where
  "strlcpy dst src sz =
     do { (dst, k, s, n) \<leftarrow> (if sz \<noteq> 0 \<and> sz - 1 \<noteq> 0 then strlcpy_loop dst 0 src (sz - 1) else Some (dst, 0, src, 0));
          if n = 0 then
            do { dst \<leftarrow> (if sz \<noteq> 0 then wr dst k 0 else Some dst);
                 s \<leftarrow> skip_to_nul s;
                 Some (dst, length src - length s - 1) }
          else Some (dst, length src - length s - 1) }"

section \<open>Numbers\<close>

definition digit_chars :: "u8 list" where
  "digit_chars = ascii ''0123456789abcdef''"

text \<open>Swapping from both ends, offsets \<open>is\<close> and \<open>ie\<close>.\<close>

function reverse_loop :: "u8 list \<Rightarrow> nat \<Rightarrow> nat \<Rightarrow> u8 list option" where
  "reverse_loop m i e =
     (if i < e then if e < length m then reverse_loop (m[e := m ! i, i := m ! e]) (i + 1) (e - 1) else None
      else Some m)"
  by pat_completeness auto

termination by (relation "measure (\<lambda>(m, i, e). e - i)") auto

declare reverse_loop.simps [simp del]

definition reverse :: "u8 list \<Rightarrow> nat \<Rightarrow> nat \<Rightarrow> u8 list option" where
  "reverse m i e = reverse_loop m i (e - 1)"

text \<open>The digits of a number that is not negative, the last one first, from offset \<open>out\<close> on.\<close>

partial_function (option) signed_digits :: "int \<Rightarrow> u8 list \<Rightarrow> nat \<Rightarrow> int \<Rightarrow> (u8 list \<times> nat) option" where
  "signed_digits base result out quot =
     (let tmp = quot div base
      in Option.bind (rd digit_chars (nat (quot - tmp * base))) (\<lambda>c.
         Option.bind (wr result out c) (\<lambda>result.
           if tmp \<noteq> 0 then signed_digits base result (out + 1) tmp else Some (result, out + 1))))"

definition itoa :: "u32 \<Rightarrow> u8 list \<Rightarrow> int \<Rightarrow> u8 list option" where
  "itoa value result base =
     (if base < 2 \<or> base > 16 then wr result 0 0
      else if sint value = - 2147483648 then None
      else do { (result, out) \<leftarrow> signed_digits base result 0 (abs (sint value));
                (result, out) \<leftarrow> (if sint value < 0 then map_option (\<lambda>m. (m, out + 1)) (wr result out 45)
                                 else Some (result, out));
                result \<leftarrow> reverse result 0 out;
                wr result out 0 })"

definition ltoa :: "u32 \<Rightarrow> u8 list \<Rightarrow> int \<Rightarrow> u8 list option" where
  "ltoa value result base =
     (if base < 2 \<or> base > 16 then wr result 0 0
      else if sint value = - 2147483648 then None
      else do { (result, out) \<leftarrow> signed_digits base result 0 (abs (sint value));
                (result, out) \<leftarrow> (if sint value < 0 then map_option (\<lambda>m. (m, out + 1)) (wr result out 45)
                                 else Some (result, out));
                result \<leftarrow> reverse result 0 out;
                wr result out 0 })"

partial_function (option) unsigned_digits :: "u32 \<Rightarrow> u8 list \<Rightarrow> nat \<Rightarrow> u32 \<Rightarrow> (u8 list \<times> nat) option" where
  "unsigned_digits base result out quot =
     (let tmp = quot div base
      in Option.bind (rd digit_chars (unat (quot - tmp * base))) (\<lambda>c.
         Option.bind (wr result out c) (\<lambda>result.
           if tmp \<noteq> 0 then unsigned_digits base result (out + 1) tmp else Some (result, out + 1))))"

definition utoa :: "u32 \<Rightarrow> u8 list \<Rightarrow> int \<Rightarrow> u8 list option" where
  "utoa value result base =
     (if base < 2 \<or> base > 16 then wr result 0 0
      else do { (result, out) \<leftarrow> unsigned_digits (word_of_int base) result 0 value;
                result \<leftarrow> reverse result 0 out;
                wr result out 0 })"

definition ultoa :: "u32 \<Rightarrow> u8 list \<Rightarrow> int \<Rightarrow> u8 list option" where
  "ultoa value result base =
     (if base < 2 \<or> base > 16 then wr result 0 0
      else do { (result, out) \<leftarrow> unsigned_digits (word_of_int base) result 0 value;
                result \<leftarrow> reverse result 0 out;
                wr result out 0 })"

end
