(* ===== verification/Libc_Props.thy ===== *)
theory Libc_Props
  imports Libc
begin

text \<open>
  The number conversions write strings that \<open>esp_strtol\<close> reads back, strtok splits a string into its tokens, and the other string functions
  do what the C standard says.
\<close>

section \<open>Numbers to strings\<close>

text \<open>The digits of a number, the last one first.\<close>

definition char_of_digit :: "nat \<Rightarrow> u8" where
  "char_of_digit d = digit_chars ! d"

function lsd :: "nat \<Rightarrow> nat \<Rightarrow> cstring" where
  "lsd b q = (if q < b \<or> b < 2 then [char_of_digit q] else char_of_digit (q mod b) # lsd b (q div b))"
  by pat_completeness auto

termination by (relation "measure snd") auto

declare lsd.simps [simp del]

lemma lsd_ne: "lsd b q \<noteq> []"
  by (subst lsd.simps) simp

lemma char_of_digit_val:
  assumes "d < 16" "int d < base"
  shows "is_digit_in base (char_of_digit d) \<and> digit_val (char_of_digit d) = int d"
proof -
  have "d \<in> set [0..<16]" using assms(1) by simp
  then have "strtol_digit (uint (char_of_digit d)) = Some (int d)"
    by (auto simp: upt_rec char_of_digit_def digit_chars_def ascii_def strtol_digit_def esp_isdigit_def esp_isalpha_def
        esp_isupper_def)
  then show ?thesis using assms(2) by (simp add: is_digit_in_def digit_val_def)
qed

lemma num_value_append: "num_value base v (xs @ ys) = num_value base (num_value base v xs) ys"
  by (simp add: num_value_def)

lemma lsd_digits:
  assumes "2 \<le> b" "b \<le> 16"
  shows "(\<forall>c \<in> set (lsd b q). is_digit_in (int b) c) \<and> num_value (int b) 0 (rev (lsd b q)) = int q"
proof (induction q rule: less_induct)
  case (less q)
  show ?case
  proof (cases "q < b")
    case True
    then show ?thesis using char_of_digit_val [of q "int b"] assms by (subst (1 2) lsd.simps) simp
  next
    case False
    then have "q div b < q" using assms by simp
    note IH = less.IH [OF this]
    have "int (q div b) * int b + int (q mod b) = int q"
      by (metis div_mult_mod_eq of_nat_add of_nat_mult)
    then show ?thesis
      using IH False assms char_of_digit_val [of "q mod b" "int b"]
      by (subst (1 2) lsd.simps) (simp add: num_value_append)
  qed
qed

lemma lsd_length: "2 \<le> b \<Longrightarrow> q < 2 ^ k \<Longrightarrow> 0 < k \<Longrightarrow> length (lsd b q) \<le> k"
proof (induction k arbitrary: q)
  case (Suc k)
  show ?case
  proof (cases "q < b")
    case True
    then show ?thesis by (subst lsd.simps) simp
  next
    case False
    then have "0 < k" using Suc.prems by (cases k) auto
    moreover have "q div b \<le> q div 2" using Suc.prems(1) by (simp add: div_le_mono2)
    then have "q div b < 2 ^ k" using Suc.prems(2) by (simp add: div_less_iff_less_mult mult.commute)
    ultimately have "length (lsd b (q div b)) \<le> k" using Suc by simp
    then show ?thesis using False Suc.prems(1) by (subst lsd.simps) simp
  qed
qed simp

lemma write_digit: "wr (xs @ ys) (length xs) c = (case ys of [] \<Rightarrow> None | y # ys \<Rightarrow> Some (xs @ c # ys))"
  by (cases ys) (simp_all add: wr_def list_update_append)

text \<open>The loops of the four functions write these digits.\<close>

lemma rd_char_of_digit: "d < 16 \<Longrightarrow> rd digit_chars d = Some (char_of_digit d)"
  by (simp add: rd_def char_of_digit_def digit_chars_def ascii_def)

lemma signed_digits_lsd:
  assumes "2 \<le> b" "b \<le> 16"
  shows "length (lsd b q) \<le> length ys \<Longrightarrow>
     signed_digits (int b) (xs @ ys) (length xs) (int q) =
       Some (xs @ lsd b q @ drop (length (lsd b q)) ys, length xs + length (lsd b q))"
proof (induction q arbitrary: xs ys rule: less_induct)
  case (less q)
  have t: "int q div int b = int (q div b)" "int q - int (q div b) * int b = int (q mod b)"
    by (simp_all add: zdiv_int zmod_int minus_div_mult_eq_mod)
  obtain y ys' where ys: "ys = y # ys'" using less.prems lsd_ne by (cases ys) auto
  have r: "rd digit_chars (nat (int (q mod b))) = Some (char_of_digit (q mod b))"
    using assms by (intro trans [OF _ rd_char_of_digit]) (simp_all add: less_le_trans [of _ b])
  have w: "wr (xs @ ys) (length xs) (char_of_digit (q mod b)) = Some ((xs @ [char_of_digit (q mod b)]) @ ys')"
    by (simp add: write_digit ys)
  show ?case
  proof (cases "q < b")
    case True
    then have "lsd b q = [char_of_digit (q mod b)]" by (subst lsd.simps) simp
    moreover have "q div b = 0" using True by simp
    ultimately show ?thesis
      using r w ys True by (subst signed_digits.simps) (simp add: t Let_def)
  next
    case False
    have l: "lsd b q = char_of_digit (q mod b) # lsd b (q div b)" using False assms by (subst lsd.simps) simp
    have "q div b < q" "q div b \<noteq> 0" using False assms by (simp_all add: div_eq_0_iff)
    moreover have "length (lsd b (q div b)) \<le> length ys'" using less.prems l ys by simp
    ultimately have "signed_digits (int b) ((xs @ [char_of_digit (q mod b)]) @ ys') (length (xs @ [char_of_digit (q mod b)])) (int (q div b)) =
      Some ((xs @ [char_of_digit (q mod b)]) @ lsd b (q div b) @ drop (length (lsd b (q div b))) ys',
        length (xs @ [char_of_digit (q mod b)]) + length (lsd b (q div b)))"
      using less.IH by blast
    then show ?thesis
      using r w ys l \<open>q div b \<noteq> 0\<close> by (subst signed_digits.simps) (simp add: t Let_def)
  qed
qed

lemma unsigned_digits_lsd:
  assumes "2 \<le> b" "b \<le> 16"
  shows "q < 2 ^ 32 \<Longrightarrow> length (lsd b q) \<le> length ys \<Longrightarrow>
     unsigned_digits (word_of_nat b) (xs @ ys) (length xs) (word_of_nat q) =
       Some (xs @ lsd b q @ drop (length (lsd b q)) ys, length xs + length (lsd b q))"
proof (induction q arbitrary: xs ys rule: less_induct)
  case (less q)
  have u: "unat (word_of_nat q :: u32) = q" "unat (word_of_nat b :: u32) = b"
    using less.prems(1) assms by (simp_all add: unat_of_nat)
  have small: "q div b < 2 ^ 32" using less.prems(1) by (meson div_le_dividend le_less_trans)
  have t: "(word_of_nat q :: u32) div word_of_nat b = word_of_nat (q div b)"
    using u small by (simp add: word_unat_eq_iff unat_div unat_of_nat)
  have "(word_of_nat q :: u32) - word_of_nat (q div b) * word_of_nat b = word_of_nat (q - q div b * b)"
    by (simp add: of_nat_diff)
  then have m: "unat ((word_of_nat q :: u32) - word_of_nat (q div b) * word_of_nat b) = q mod b"
    using less.prems(1) mod_less_eq_dividend [of q b] le_less_trans [of "q mod b" q "2 ^ 32"]
    by (simp add: unat_of_nat minus_div_mult_eq_mod)
  obtain y ys' where ys: "ys = y # ys'" using less.prems lsd_ne by (cases ys) auto
  have r: "rd digit_chars (q mod b) = Some (char_of_digit (q mod b))"
    using assms by (intro rd_char_of_digit) (simp_all add: less_le_trans [of _ b])
  have w: "wr (xs @ ys) (length xs) (char_of_digit (q mod b)) = Some ((xs @ [char_of_digit (q mod b)]) @ ys')"
    by (simp add: write_digit ys)
  have z: "(word_of_nat (q div b) :: u32) = 0 \<longleftrightarrow> q div b = 0"
    using small by (simp add: word_unat_eq_iff unat_of_nat)
  show ?case
  proof (cases "q < b")
    case True
    then have "lsd b q = [char_of_digit (q mod b)]" by (subst lsd.simps) simp
    moreover have "q div b = 0" using True by simp
    ultimately show ?thesis
      using r w ys m z by (subst unsigned_digits.simps) (simp add: t Let_def)
  next
    case False
    have l: "lsd b q = char_of_digit (q mod b) # lsd b (q div b)" using False assms by (subst lsd.simps) simp
    have "q div b < q" "q div b \<noteq> 0" using False assms by (simp_all add: div_eq_0_iff)
    moreover have "length (lsd b (q div b)) \<le> length ys'" using less.prems l ys by simp
    ultimately have "unsigned_digits (word_of_nat b) ((xs @ [char_of_digit (q mod b)]) @ ys') (length (xs @ [char_of_digit (q mod b)])) (word_of_nat (q div b)) =
      Some ((xs @ [char_of_digit (q mod b)]) @ lsd b (q div b) @ drop (length (lsd b (q div b))) ys',
        length (xs @ [char_of_digit (q mod b)]) + length (lsd b (q div b)))"
      using less.IH small by blast
    then show ?thesis
      using r w ys l m z \<open>q div b \<noteq> 0\<close> by (subst unsigned_digits.simps) (simp add: t Let_def)
  qed
qed

lemma reverse_loop_rev:
  "reverse_loop (xs @ ys @ zs) (length xs) (length xs + length ys - 1) = Some (xs @ rev ys @ zs)"
proof (induction "length ys" arbitrary: xs ys zs rule: less_induct)
  case less
  show ?case
  proof (cases "length ys < 2")
    case True
    then have "ys = [] \<or> (\<exists>y. ys = [y])" by (cases ys; cases "tl ys") auto
    then show ?thesis by (subst reverse_loop.simps) auto
  next
    case False
    then obtain a t where t: "ys = a # t" "t \<noteq> []" by (cases ys) auto
    then obtain mid b where ys: "ys = a # mid @ [b]" by (metis append_butlast_last_id)
    let ?m = "xs @ ys @ zs" and ?i = "length xs" and ?e = "length xs + length mid + 1"
    have nth: "?m ! ?e = b" "?m ! ?i = a" "?e < length ?m" by (simp_all add: ys nth_append)
    have upd: "?m[?e := a, ?i := b] = (xs @ [b]) @ mid @ (a # zs)"
      by (simp add: ys list_update_append)
    have "reverse_loop ?m ?i ?e = reverse_loop (?m[?e := a, ?i := b]) (?i + 1) (?e - 1)"
      using nth by (subst reverse_loop.simps) simp
    also have "\<dots> = reverse_loop ((xs @ [b]) @ mid @ (a # zs)) (length (xs @ [b])) (length (xs @ [b]) + length mid - 1)"
      by (simp only: upd) simp
    also have "\<dots> = Some ((xs @ [b]) @ rev mid @ (a # zs))"
      using less.hyps [of mid "xs @ [b]" "a # zs"] ys by simp
    finally show ?thesis by (simp add: ys)
  qed
qed

lemma reverse_prefix: "reverse (ys @ zs) 0 (length ys) = Some (rev ys @ zs)"
  using reverse_loop_rev [of "[]" ys zs] by (simp add: reverse_def)


text \<open>The string that the four functions write, in both signs.\<close>

definition number_string :: "nat \<Rightarrow> int \<Rightarrow> cstring" where
  "number_string b v = (if v < 0 then [45] else []) @ rev (lsd b (nat (abs v)))"

lemma number_string_length:
  "2 \<le> b \<Longrightarrow> - 2147483648 < v \<Longrightarrow> v < 2147483648 \<Longrightarrow> length (number_string b v) \<le> 32"
  using lsd_length [of b "nat (abs v)" 31] by (auto simp: number_string_def nat_less_iff)

lemma digits_nonzero: "2 \<le> b \<Longrightarrow> b \<le> 16 \<Longrightarrow> 0 \<notin> set (lsd b q)"
  using lsd_digits [of b q] by (auto simp: is_digit_in_def strtol_digit_def esp_isdigit_def esp_isalpha_def)

lemma number_string_read:
  assumes "2 \<le> b" "b \<le> 16" "- 2147483648 \<le> v" "v < 4294967296"
  shows "esp_strtol (number_string b v @ 0 # rest) (int b) = Some (min v 2147483647, length (number_string b v))"
    and "cstr (number_string b v @ 0 # rest) = Some (number_string b v)"
proof -
  have nul: "\<not> is_digit_in (int b) 0" "no_prefix (int b) 0"
    by (simp_all add: is_digit_in_def strtol_digit_def esp_isdigit_def esp_isalpha_def no_prefix_def)
  note d = lsd_digits [OF assms(1,2), of "nat (abs v)"]
  show "esp_strtol (number_string b v @ 0 # rest) (int b) = Some (min v 2147483647, length (number_string b v))"
    using strtol_reads [of "int b" "[]" "if v < 0 then [45] else []" "rev (lsd b (nat (abs v)))" 0 rest]
      d nul assms lsd_ne by (auto simp: number_string_def clamp_def)
  show "cstr (number_string b v @ 0 # rest) = Some (number_string b v)"
    using digits_nonzero [OF assms(1,2)] by (intro cstr_end) (simp add: number_string_def)
qed

lemma itoa_writes:
  assumes "2 \<le> b" "b \<le> 16" "sint value \<noteq> - 2147483648" "length (number_string b (sint value)) < length result"
  shows "itoa value result (int b) =
     Some (number_string b (sint value) @ 0 # drop (length (number_string b (sint value)) + 1) result)"
proof -
  let ?v = "sint value" and ?ds = "lsd b (nat (abs (sint value)))"
  have s: "signed_digits (int b) result 0 (abs ?v) = Some (?ds @ drop (length ?ds) result, length ?ds)"
    using signed_digits_lsd [OF assms(1,2), of "nat (abs ?v)" result "[]"] assms(4)
    by (simp add: number_string_def split: if_splits)
  define n where "n = length (number_string b ?v)"
  have z: "wr (number_string b ?v @ drop n result) n 0 = Some (number_string b ?v @ 0 # drop (n + 1) result)"
    using assms(4) write_digit [of "number_string b ?v" "drop n result" 0] Cons_nth_drop_Suc [of n result]
    by (auto simp: n_def split: list.split)
  show ?thesis
  proof (cases "?v < 0")
    case False
    have "reverse (?ds @ drop (length ?ds) result) 0 (length ?ds) = Some (number_string b ?v @ drop n result)"
      using reverse_prefix False by (simp add: number_string_def n_def)
    then show ?thesis using s z assms False by (simp add: itoa_def n_def number_string_def)
  next
    case True
    have n: "n = length ?ds + 1" using True by (simp add: n_def number_string_def)
    have "wr (?ds @ drop (length ?ds) result) (length ?ds) 45 = Some ((?ds @ [45]) @ drop n result)"
      using assms(4) write_digit [of ?ds "drop (length ?ds) result" 45] Cons_nth_drop_Suc [of "length ?ds" result] n
      by (auto simp: n_def split: list.split)
    moreover have "reverse ((?ds @ [45]) @ drop n result) 0 (length ?ds + 1) = Some (number_string b ?v @ drop n result)"
      using reverse_prefix [of "?ds @ [45]" "drop n result"] True by (simp add: number_string_def)
    ultimately show ?thesis using s z assms True n by (simp add: itoa_def n_def)
  qed
qed

lemma utoa_writes:
  assumes "2 \<le> b" "b \<le> 16" "length (number_string b (uint value)) < length result"
  shows "utoa value result (int b) =
     Some (number_string b (uint value) @ 0 # drop (length (number_string b (uint value)) + 1) result)"
proof -
  let ?ds = "lsd b (unat value)"
  have ns: "number_string b (uint value) = rev ?ds" by (simp add: number_string_def)
  have "unat value < 2 ^ 32" using unat_u32_bound [of "value"] by simp
  then have s: "unsigned_digits (word_of_int (int b)) result 0 value = Some (?ds @ drop (length ?ds) result, length ?ds)"
    using unsigned_digits_lsd [OF assms(1,2), of "unat value" result "[]"] assms(3) ns by simp
  have "wr (rev ?ds @ drop (length ?ds) result) (length ?ds) 0 = Some (rev ?ds @ 0 # drop (length ?ds + 1) result)"
    using assms(3) ns write_digit [of "rev ?ds" "drop (length ?ds) result" 0] Cons_nth_drop_Suc [of "length ?ds" result]
    by (auto split: list.split)
  then show ?thesis using s reverse_prefix [of ?ds] assms(1,2) by (simp add: utoa_def ns)
qed

lemma same_functions: "ltoa = itoa" "ultoa = utoa"
  by (simp_all add: fun_eq_iff ltoa_def itoa_def ultoa_def utoa_def)

section \<open>Tokens\<close>

text \<open>The maximal runs of bytes that are no delimiters.\<close>

function tokens :: "cstring \<Rightarrow> cstring \<Rightarrow> cstring list" where
  "tokens delim s =
     (let t = dropWhile (\<lambda>c. c \<in> set delim) s
      in if t = [] then []
         else takeWhile (\<lambda>c. c \<notin> set delim) t # tokens delim (drop 1 (dropWhile (\<lambda>c. c \<notin> set delim) t)))"
  by pat_completeness auto

termination
proof (relation "measure (\<lambda>(delim, s). length s)")
  fix delim s t :: cstring
  assume t: "t = dropWhile (\<lambda>c. c \<in> set delim) s" "t \<noteq> []"
  then have "length (dropWhile (\<lambda>c. c \<notin> set delim) t) \<le> length t" "length t \<le> length s"
    by (simp_all add: length_dropWhile_le)
  then show "((delim, drop 1 (dropWhile (\<lambda>c. c \<notin> set delim) t)), delim, s) \<in> measure (\<lambda>(delim, s). length s)"
    using t by (cases s) auto
qed simp

declare tokens.simps [simp del]

text \<open>What is left to be scanned: nothing, or the string at \<open>last\<close>.\<close>

definition remaining :: "u8 list \<Rightarrow> nat option \<Rightarrow> cstring \<Rightarrow> bool" where
  "remaining m lst r \<longleftrightarrow> (case lst of None \<Rightarrow> r = [] | Some i \<Rightarrow> cstr (drop i m) = Some r)"

lemma cstr_drop_Cons:
  assumes "cstr (drop i m) = Some (c # r)"
  shows "i < length m" "m ! i = c" "c \<noteq> 0" "cstr (drop (i + 1) m) = Some r"
proof -
  obtain x xs where x: "drop i m = x # xs" using assms by (cases "drop i m") auto
  then show "i < length m" using assms by (cases "i < length m") auto
  then have "drop i m = m ! i # drop (i + 1) m" using Cons_nth_drop_Suc [of i m] by simp
  then show "m ! i = c" "c \<noteq> 0" "cstr (drop (i + 1) m) = Some r" using assms by (auto split: if_splits)
qed

lemma cstr_drop_Nil:
  assumes "cstr (drop i m) = Some []"
  shows "i < length m" "m ! i = 0"
proof -
  show "i < length m" using assms by (cases "i < length m") auto
  then have "drop i m = m ! i # drop (i + 1) m" using Cons_nth_drop_Suc [of i m] by simp
  then show "m ! i = 0" using assms by (auto split: if_splits)
qed


lemma skip_delims_correct:
  assumes "cstr (drop i m) = Some r" "0 \<notin> set delim"
  shows "skip_delims m delim i = (case dropWhile (\<lambda>c. c \<in> set delim) r of
       [] \<Rightarrow> Some (0, i + length r + 1)
     | c # t \<Rightarrow> Some (c, i + length r - length t))"
  using assms
proof (induction r arbitrary: i)
  case Nil
  then show ?case using cstr_drop_Nil [of i m] by (subst skip_delims.simps) auto
next
  case (Cons c r)
  note d = cstr_drop_Cons [OF Cons.prems(1)]
  show ?case
  proof (cases "c \<in> set delim")
    case True
    have len: "length (dropWhile (\<lambda>c. c \<in> set delim) r) \<le> length r" by (rule length_dropWhile_le)
    have "skip_delims m delim i = skip_delims m delim (i + 1)" using True d by (subst skip_delims.simps) simp
    then show ?thesis using Cons.IH [OF d(4) Cons.prems(2)] True by (simp del: dropWhile_eq_Nil_conv split: list.split)
  next
    case False
    then show ?thesis using d by (subst skip_delims.simps) simp
  qed
qed

lemma scan_token_correct:
  assumes "cstr (drop i m) = Some r" "0 \<notin> set delim"
  shows "scan_token m delim i = (case dropWhile (\<lambda>c. c \<notin> set delim) r of
       [] \<Rightarrow> Some (None, m)
     | c # t \<Rightarrow> Some (Some (i + length r - length t), m[i + length (takeWhile (\<lambda>c. c \<notin> set delim) r) := 0]))"
  using assms
proof (induction r arbitrary: i)
  case Nil
  then show ?case using cstr_drop_Nil [of i m] by (subst scan_token.simps) auto
next
  case (Cons c r)
  note d = cstr_drop_Cons [OF Cons.prems(1)]
  show ?case
  proof (cases "c \<in> set delim")
    case True
    then show ?thesis using d by (subst scan_token.simps) simp
  next
    case False
    have "scan_token m delim i = scan_token m delim (i + 1)" using False d by (subst scan_token.simps) simp
    then show ?thesis using Cons.IH [OF d(4) Cons.prems(2)] False by (simp del: dropWhile_eq_Nil_conv split: list.split)
  qed
qed

lemma cstr_split: "cstr m = Some r \<longleftrightarrow> (\<exists>z. m = r @ 0 # z) \<and> 0 \<notin> set r"
proof (induction m arbitrary: r)
  case (Cons c m)
  show ?case
  proof (cases "c = 0")
    case True
    then show ?thesis by (cases r) auto
  next
    case False
    then show ?thesis using Cons.IH by (cases r) auto
  qed
qed simp

text \<open>One call: the next token, terminated, and what is left.\<close>

lemma strtok_r_step:
  assumes rem: "remaining m lst r" and delim: "0 \<notin> set delim"
  shows "\<exists>lst' m'. (case tokens delim r of
       [] \<Rightarrow> strtok_r m None delim lst = Some (None, lst', m') \<and> remaining m' lst' []
     | tok # toks \<Rightarrow> (\<exists>p r'. strtok_r m None delim lst = Some (Some p, lst', m') \<and> cstr (drop p m') = Some tok \<and>
          remaining m' lst' r' \<and> tokens delim r' = toks))"
proof (cases lst)
  case None
  then have "tokens delim r = []" using rem by (subst tokens.simps) (simp add: remaining_def)
  then show ?thesis using None by (simp add: strtok_r_def remaining_def)
next
  case (Some i)
  then have r: "cstr (drop i m) = Some r" using rem by (simp add: remaining_def)
  let ?t = "dropWhile (\<lambda>c. c \<in> set delim) r"
  show ?thesis
  proof (cases "?t = []")
    case True
    then have "tokens delim r = []" by (subst tokens.simps) simp
    moreover have "skip_delims m delim i = Some (0, i + length r + 1)"
      using skip_delims_correct [OF r delim] True by simp
    ultimately show ?thesis using Some by (simp add: strtok_r_def remaining_def)
  next
    case False
    then obtain c t where t: "?t = c # t" by (cases ?t) auto
    define p where "p = i + (length r - length ?t)"
    have c: "c \<notin> set delim" using t by (metis hd_dropWhile list.sel(1) list.simps(3))
    have split: "r = takeWhile (\<lambda>c. c \<in> set delim) r @ ?t" by simp
    have len: "length r = length (takeWhile (\<lambda>c. c \<in> set delim) r) + length ?t"
      by (metis length_append takeWhile_dropWhile_id)
    obtain z where z: "drop i m = r @ 0 # z" and r0: "0 \<notin> set r" using r cstr_split by metis
    have "drop p m = drop (length r - length ?t) (drop i m)" by (simp add: p_def add.commute)
    also have "\<dots> = ?t @ 0 # z" unfolding z using len by (simp add: dropWhile_eq_drop [symmetric])
    finally have dp: "drop p m = c # t @ 0 # z" using t by simp
    have t0: "c \<noteq> 0" "0 \<notin> set t" using r0 t by (metis UnCI list.set_intros set_append split, metis UnCI list.set_intros(2) set_append split)
    have pl: "p < length m" using dp by (cases "p < length m") auto
    have sk: "skip_delims m delim i = Some (c, p + 1)"
      using skip_delims_correct [OF r delim] t len by (simp add: p_def)
    have next_: "cstr (drop (p + 1) m) = Some t"
      using dp t0 by (metis Suc_eq_plus1 cstr_split drop_Suc list.sel(3) tl_drop)
    let ?tok = "takeWhile (\<lambda>c. c \<notin> set delim) t" and ?u = "dropWhile (\<lambda>c. c \<notin> set delim) t"
    have toks: "tokens delim r = (c # ?tok) # tokens delim (drop 1 ?u)"
      using t c by (subst tokens.simps) (simp add: Let_def)
    have tu: "t = ?tok @ ?u" by simp
    show ?thesis
    proof (cases ?u)
      case Nil
      then have tok: "?tok = t" using tu by simp
      have "cstr (drop p m) = Some (c # t)" using dp t0 cstr_split [of "drop p m" "c # t"] by simp
      moreover have "scan_token m delim (p + 1) = Some (None, m)"
        using scan_token_correct [OF next_ delim] Nil by (simp del: dropWhile_eq_Nil_conv)
      moreover have "tokens delim [] = []" by (simp add: tokens.simps)
      moreover have "tokens delim r = [c # t]" using toks Nil tok \<open>tokens delim [] = []\<close> by simp
      ultimately show ?thesis
        using sk t0(1) Some by (simp add: strtok_r_def remaining_def)
    next
      case (Cons d u)
      define k where "k = p + 1 + length ?tok"
      have m: "m = take p m @ (c # ?tok) @ d # u @ 0 # z"
        using dp tu Cons by (metis append_Cons append_assoc append_take_drop_id)
      have k: "length (take p m @ c # ?tok) = k" using pl by (simp add: k_def)
      have upd: "m[k := 0] = take p m @ (c # ?tok) @ 0 # u @ 0 # z"
        using k by (subst m) (simp add: list_update_append k_def)
      have "scan_token m delim (p + 1) = Some (Some (k + 1), m[k := 0])"
        using scan_token_correct [OF next_ delim] Cons arg_cong [OF tu, of length] by (simp add: k_def)
      moreover have "drop p (m[k := 0]) = (c # ?tok) @ 0 # u @ 0 # z"
        unfolding upd using pl by simp
      moreover have "0 \<notin> set (c # ?tok)" using t0 tu by (metis UnCI insert_iff list.simps(15) set_append)
      moreover have "drop (k + 1) (m[k := 0]) = u @ 0 # z"
        unfolding upd using k by (simp add: k_def)
      moreover have "0 \<notin> set u" using t0(2) tu Cons by (metis UnCI list.set_intros(2) set_append)
      ultimately show ?thesis
        using toks Cons sk t0(1) Some cstr_split [of "drop p (m[k := 0])" "c # ?tok"]
          cstr_split [of "drop (k + 1) (m[k := 0])" u]
        by (auto simp: strtok_r_def remaining_def)
    qed
  qed
qed

text \<open>
  Calls of strtok one after the other, from a first call on the string at offset \<open>s\<close> (or from where the last one has
  stopped): the strings that are returned, each read at its return, and the memory.
\<close>

fun strtok_calls :: "nat \<Rightarrow> cstring \<Rightarrow> u8 list \<Rightarrow> nat option \<Rightarrow> (cstring option list \<times> u8 list) option" where
  "strtok_calls 0 delim m lst = Some ([], m)"
| "strtok_calls (Suc k) delim m lst =
     do { (tok, lst, m) \<leftarrow> strtok_r m None delim lst;
          tok \<leftarrow> (case tok of None \<Rightarrow> Some None | Some p \<Rightarrow> map_option Some (cstr (drop p m)));
          (toks, m) \<leftarrow> strtok_calls k delim m lst;
          Some (tok # toks, m) }"

lemma strtok_calls_tokens:
  assumes "remaining m lst r" "0 \<notin> set delim"
  shows "\<exists>m'. strtok_calls k delim m lst =
     Some (take k (map Some (tokens delim r)) @ replicate (k - length (tokens delim r)) None, m')"
  using assms(1)
proof (induction k arbitrary: m lst r)
  case (Suc k)
  show ?case
  proof (cases "tokens delim r")
    case Nil
    then obtain lst' m' where "strtok_r m None delim lst = Some (None, lst', m')" "remaining m' lst' []"
      using strtok_r_step [OF Suc.prems assms(2)] by auto
    moreover have "tokens delim [] = []" by (simp add: tokens.simps)
    ultimately show ?thesis using Suc.IH [of m' lst' "[]"] Nil by auto
  next
    case (Cons tok toks)
    then obtain lst' m' p r' where "strtok_r m None delim lst = Some (Some p, lst', m')" "cstr (drop p m') = Some tok"
        "remaining m' lst' r'" "tokens delim r' = toks"
      using strtok_r_step [OF Suc.prems assms(2)] by auto
    then show ?thesis using Suc.IH [of m' lst' r'] Cons by auto
  qed
qed simp

lemma first_call: "strtok_r m (Some s) delim lst = strtok_r m None delim (Some s)"
  by (simp add: strtok_r_def)

section \<open>Copying and comparing\<close>

lemma strlcpy_loop_copies:
  assumes "0 \<notin> set s" "0 < n" "k + min (length s + 1) n \<le> length dst"
  shows "strlcpy_loop dst k (s @ 0 # z) n =
    (if length s < n then Some (take k dst @ s @ 0 # drop (k + length s + 1) dst, k + length s + 1, z, n - length s)
     else Some (take k dst @ take n s @ drop (k + n) dst, k + n, drop n (s @ 0 # z), 0))"
  using assms
proof (induction s arbitrary: dst k n)
  case Nil
  then show ?case by (auto simp: wr_def upd_conv_take_nth_drop)
next
  case (Cons c s)
  have k: "k < length dst" using Cons.prems by simp
  let ?d = "dst[k := c]"
  have w: "wr dst k c = Some ?d" "take (k + 1) ?d = take k dst @ [c]" using k by (simp_all add: wr_def take_Suc_conv_app_nth)
  show ?case
  proof (cases "n = 1")
    case True
    then show ?thesis using w Cons.prems(1) k by (simp add: upd_conv_take_nth_drop)
  next
    case False
    have "strlcpy_loop ?d (k + 1) (s @ 0 # z) (n - 1) =
      (if length s < n - 1 then Some (take (k + 1) ?d @ s @ 0 # drop (k + 1 + length s + 1) ?d, k + 1 + length s + 1, z, n - 1 - length s)
       else Some (take (k + 1) ?d @ take (n - 1) s @ drop (k + 1 + (n - 1)) ?d, k + 1 + (n - 1), drop (n - 1) (s @ 0 # z), 0))"
      using Cons.prems False by (intro Cons.IH) auto
    then show ?thesis using w Cons.prems(1,2) False by (cases n) (auto simp: drop_update_cancel)
  qed
qed

lemma skip_to_nul_at: "0 \<notin> set s \<Longrightarrow> skip_to_nul (s @ 0 # z) = Some z"
  by (induction s) auto

lemma strncat_loop_appends:
  assumes "0 \<notin> set s" "n = length s" "length (pre @ s) < length (pre @ post)"
  shows "strncat_loop (pre @ post) (length pre) (s @ z) n = Some (pre @ s @ 0 # drop (length s + 1) post)"
  using assms
proof (induction s arbitrary: pre post n)
  case Nil
  then show ?case using write_digit [of pre post 0] by (subst strncat_loop.simps) (cases post; simp)
next
  case (Cons c s)
  obtain x post' where post: "post = x # post'" using Cons.prems(3) by (cases post) auto
  have "strncat_loop (pre @ post) (length pre) ((c # s) @ z) n = strncat_loop ((pre @ [c]) @ post') (length (pre @ [c])) (s @ z) (length s)"
    using Cons.prems post write_digit [of pre post c] by (subst strncat_loop.simps) simp
  then show ?case using Cons.IH [of "length s" "pre @ [c]" post'] Cons.prems post by simp
qed

lemma tolower_nonzero: "tolower (uint c) = 0 \<longleftrightarrow> c = 0"
  by (auto simp: tolower_def isupper_def unsigned_eq_0_iff)

lemma tolower_0 [simp]: "tolower 0 = 0" "0 = tolower (uint c) \<longleftrightarrow> c = 0"
  using tolower_nonzero [of 0] tolower_nonzero [of c] by auto

section \<open>Properties\<close>

text \<open>
  C37: What \<open>itoa\<close> writes in a base from 2 to 16 is a string that \<open>esp_strtol\<close> of the HTTP client reads back to the number, for every number but the least,
  and it fits a buffer of 33 bytes, whatever is in it.
\<close>

theorem itoa_strtol_roundtrip:
  assumes "2 \<le> base" "base \<le> 16" "sint value \<noteq> - 2147483648" "33 \<le> length result"
  shows "\<exists>m s. itoa value result base = Some m \<and> length m = length result \<and> cstr m = Some s \<and>
     esp_strtol m base = Some (sint value, length s)"
proof -
  obtain b where b: "base = int b" "2 \<le> b" "b \<le> 16"
    using assms(1,2) by (metis nat_int nonneg_int_cases numeral_le_iff of_nat_le_iff of_nat_numeral order_trans zero_le_numeral)
  have v: "- 2147483648 \<le> sint value" "sint value < 2147483648"
    using sint_greater_eq [of "value"] sint_less [of "value"] by simp_all
  let ?s = "number_string b (sint value)"
  have len: "length ?s \<le> 32" using number_string_length b(2) v assms(3) by simp
  then have i: "itoa value result base = Some (?s @ 0 # drop (length ?s + 1) result)"
    using itoa_writes [OF b(2,3) assms(3), of result] assms(4) b(1) by simp
  show ?thesis
    using number_string_read [OF b(2,3) v(1), of "drop (length ?s + 1) result"] v len assms(4) b(1) i
    by (intro exI [of _ "?s @ 0 # drop (length ?s + 1) result"] exI [of _ ?s]) simp
qed

theorem itoa_strtol_roundtrip_witness:
  "\<exists>m s. itoa (- 255) (replicate 33 7) 16 = Some m \<and> length m = 33 \<and> cstr m = Some s \<and>
     esp_strtol m 16 = Some (- 255, length s)"
proof -
  have "sint (- 255 :: u32) = - 255" using sint_u32_of_int [of "- 255"] by simp
  then show ?thesis using itoa_strtol_roundtrip [of 16 "- 255" "replicate 33 7"] by simp
qed

text \<open>The least number has no absolute value.\<close>

theorem itoa_least_undefined: "2 \<le> base \<Longrightarrow> base \<le> 16 \<Longrightarrow> itoa 0x80000000 result base = None"
  by (simp add: itoa_def)

text \<open>\<open>utoa\<close> writes every number.\<close>

theorem utoa_strtol:
  assumes "2 \<le> base" "base \<le> 16" "33 \<le> length result"
  shows "\<exists>m s. utoa value result base = Some m \<and> cstr m = Some s \<and> num_value base 0 s = uint value"
proof -
  obtain b where b: "base = int b" "2 \<le> b" "b \<le> 16"
    using assms(1,2) by (metis nat_int nonneg_int_cases numeral_le_iff of_nat_le_iff of_nat_numeral order_trans zero_le_numeral)
  have "unat value < 2 ^ 32" using unat_u32_bound [of "value"] by simp
  then have "length (lsd b (unat value)) \<le> 32" using lsd_length [of b "unat value" 32] b(2) by simp
  then have "utoa value result base = Some (rev (lsd b (unat value)) @ 0 # drop (length (lsd b (unat value)) + 1) result)"
    using utoa_writes [OF b(2,3), of "value" result] assms(3) b(1) by (simp add: number_string_def)
  moreover have "cstr (rev (lsd b (unat value)) @ 0 # drop (length (lsd b (unat value)) + 1) result) = Some (rev (lsd b (unat value)))"
    using digits_nonzero [OF b(2,3)] by (intro cstr_end) simp
  ultimately show ?thesis using lsd_digits [OF b(2,3), of "unat value"] b(1) by auto
qed

text \<open>
  C38: Successive calls of \<open>strtok\<close> return the maximal runs of bytes that are no delimiters, in order, and then NULL for ever.
\<close>

theorem strtok_tokens:
  assumes "cstr (drop i m) = Some s" "0 \<notin> set delim"
  shows "\<exists>m'. strtok_calls k delim m (Some i) =
     Some (take k (map Some (tokens delim s)) @ replicate (k - length (tokens delim s)) None, m')"
  by (rule strtok_calls_tokens) (use assms in \<open>simp_all add: remaining_def\<close>)

text \<open>Three calls on \<open>,a,b,\<close>.\<close>

theorem strtok_tokens_witness:
  "\<exists>m'. strtok_calls 3 [44] [44, 97, 44, 98, 44, 0] (Some 0) = Some ([Some [97], Some [98], None], m')"
  using strtok_tokens [of 0 "[44, 97, 44, 98, 44, 0]" "[44, 97, 44, 98, 44]" "[44]" 3]
  by (simp add: tokens.simps Let_def)

text \<open>
  \<open>strlcpy\<close> copies what fits the given size, always with a NUL, writes nothing behind it, and returns the length of the source.
\<close>

theorem strlcpy_correct:
  assumes "0 \<notin> set s" "0 < n" "n \<le> length dst"
  shows "strlcpy dst (s @ 0 # z) n =
     Some (take (n - 1) s @ 0 # drop (min (length s) (n - 1) + 1) dst, length s)"
proof (cases "n = 1")
  case True
  then show ?thesis using assms skip_to_nul_at [OF assms(1)] by (cases dst) (simp_all add: strlcpy_def wr_def)
next
  case False
  note l = strlcpy_loop_copies [OF assms(1), of "n - 1" 0 dst z]
  show ?thesis
  proof (cases "length s < n - 1")
    case True
    then have "\<not> n \<le> Suc (length s)" by linarith
    then show ?thesis using True l assms False by (simp add: strlcpy_def min_def)
  next
    case no: False
    have "skip_to_nul (drop (n - 1) (s @ 0 # z)) = Some z"
      using no skip_to_nul_at [of "drop (n - 1) s" z] assms(1) by (metis append_self_conv2 drop_all drop_append diff_is_0_eq' drop0 in_set_dropD linorder_not_less)
    moreover have "wr (take (n - 1) s @ drop (n - 1) dst) (n - 1) 0 = Some (take (n - 1) s @ 0 # drop n dst)"
    proof -
      have "length (take (n - 1) s) = n - 1" using no by simp
      then have "wr (take (n - 1) s @ drop (n - 1) dst) (n - 1) 0 =
          (case drop (n - 1) dst of [] \<Rightarrow> None | y # ys \<Rightarrow> Some (take (n - 1) s @ 0 # ys))"
        using write_digit [of "take (n - 1) s" "drop (n - 1) dst" 0] by metis
      moreover have "drop (n - 1) dst = dst ! (n - 1) # drop n dst"
        using Cons_nth_drop_Suc [of "n - 1" dst] assms(2,3) by simp
      ultimately show ?thesis by simp
    qed
    ultimately show ?thesis using l no assms False by (simp add: strlcpy_def min_def)
  qed
qed

text \<open>\<open>strcat\<close> appends a string if the block has room for it.\<close>

theorem strcat_appends:
  assumes "0 \<notin> set s" "0 \<notin> set t" "length s + length t < length (s @ 0 # post)"
  shows "strcat (s @ 0 # post) (t @ 0 # z) = Some (s @ t @ 0 # drop (length t) post)"
  using strncat_loop_appends [of t "length t" s "0 # post" "0 # z"] cstr_end assms
  by (simp add: strcat_def strncat_def)

text \<open>\<open>strcasecmp\<close> returns 0 exactly for strings that are equal up to the case of their letters.\<close>

theorem strcasecmp_zero:
  assumes "0 \<notin> set s" "0 \<notin> set t"
  shows "\<exists>d. strcasecmp (s @ 0 # y) (t @ 0 # z) = Some d \<and>
     (d = 0 \<longleftrightarrow> map (\<lambda>c. tolower (uint c)) s = map (\<lambda>c. tolower (uint c)) t)"
  using assms
proof (induction s arbitrary: t)
  case Nil
  then show ?case using tolower_nonzero [of "hd t"] by (cases t) (auto simp: Let_def tolower_nonzero)
next
  case (Cons c s)
  show ?case
  proof (cases t)
    case Nil
    then show ?thesis using Cons.prems tolower_nonzero [of c] by (auto simp: Let_def tolower_nonzero)
  next
    case (Cons d t')
    then show ?thesis using Cons.IH [of t'] Cons.prems tolower_nonzero [of d] by (auto simp: Let_def)
  qed
qed


end
