(* ===== verification/Smartlink.thy ===== *)
theory Smartlink
  imports Http_Response
begin

text \<open>
  lib/smartlink/smartlink.c: a phone sends the name and the password of a network in a probe request, which the board
  receives in promiscuous mode. The calls to the SDK are a trace. \<open>None\<close> is undefined behaviour.
\<close>

section \<open>The receiver\<close>

datatype sl_event =
  Sl_disconnect | Sl_clear_config | Sl_set_opmode u8 | Sl_promiscuous | Sl_register_rx
| Sl_set_config cstring cstring | Sl_restart

definition SMARTLK_TOKEN :: cstring where
  "SMARTLK_TOKEN = ascii ''<!-SL-!>''"

text \<open>\<open>cb\<close> and \<open>fail\<close> tell whether the functions are given. They are kept, but never called.\<close>

record smartlink =
  sl_received_cb :: bool
  sl_failed_cb :: bool
  sl_max_wait :: u8
  sl_trace :: "sl_event list"

definition smartlink_init :: "bool \<Rightarrow> bool \<Rightarrow> u8 \<Rightarrow> smartlink \<Rightarrow> smartlink" where
  "smartlink_init cb fail mx s =
     s\<lparr>sl_received_cb := cb, sl_failed_cb := fail, sl_max_wait := mx,
       sl_trace := sl_trace s @ [Sl_disconnect, Sl_clear_config, Sl_set_opmode 1, Sl_promiscuous, Sl_register_rx]\<rparr>"

text \<open>The name goes to 32 bytes of the configuration, the password to 64.\<close>

definition smartlink_received :: "cstring \<Rightarrow> cstring \<Rightarrow> smartlink \<Rightarrow> smartlink option" where
  "smartlink_received ssid password s =
     do { _ \<leftarrow> wr_seg (replicate 32 0) 0 (ssid @ [0 :: u8]);
          _ \<leftarrow> wr_seg (replicate 64 0) 0 (password @ [0 :: u8]);
          Some (s\<lparr>sl_trace := sl_trace s @ [Sl_set_opmode 1, Sl_set_config ssid password, Sl_restart]\<rparr>) }"

definition FRAME_TYPE_MANAGEMENT :: u8 where "FRAME_TYPE_MANAGEMENT = 0"
definition FRAME_SUBTYPE_PROBE_REQUEST :: u8 where "FRAME_SUBTYPE_PROBE_REQUEST = 4"

text \<open>The sizes of RxControl and of the header of a probe request.\<close>

definition sizeof_RxControl :: nat where "sizeof_RxControl = 12"
definition sizeof_probe_request :: nat where "sizeof_probe_request = 24"

text \<open>Bits 2 and 3 of the first byte of a frame are the type, the upper four the subtype.\<close>

definition frame_type :: "u8 \<Rightarrow> u8" where "frame_type b = drop_bit 2 b AND 3"
definition frame_subtype :: "u8 \<Rightarrow> u8" where "frame_subtype b = drop_bit 4 b"

text \<open>
  What is done with the name of the probe request: \<open>tag\<close> is the memory from the element on. The arrays \<open>ssid\<close> and \<open>password\<close> have
  40 bytes, of which 32 are cleared; the others hold what has been on the stack.
\<close>

definition smartlink_ssid :: "u8 list \<Rightarrow> u8 list \<Rightarrow> u8 list \<Rightarrow> smartlink \<Rightarrow> smartlink option" where
  "smartlink_ssid stack1 stack2 tag s =
     do { tag_length \<leftarrow> rd tag 1;
          if tag_length = 0 then Some s
          else do { bytes \<leftarrow> rd_seg tag 2 (unat tag_length);
                    ssid_buff \<leftarrow> wr_seg (replicate 32 0) 0 bytes;
                    str \<leftarrow> cstr ssid_buff;
                    case strstr str SMARTLK_TOKEN of
                      None \<Rightarrow> Some s
                    | Some pos \<Rightarrow>
                        do { prefix \<leftarrow> rd_seg ssid_buff 0 pos;
                             ssid \<leftarrow> wr_seg (replicate 32 0 @ stack1) 0 prefix;
                             name \<leftarrow> cstr ssid;
                             let n = unat tag_length - length SMARTLK_TOKEN - length name;
                             rest \<leftarrow> (if unat tag_length < length SMARTLK_TOKEN + length name then None
                                     else rd_seg ssid_buff (pos + length SMARTLK_TOKEN) n);
                             password \<leftarrow> wr_seg (replicate 32 0 @ stack2) 0 rest;
                             pw \<leftarrow> cstr password;
                             smartlink_received name pw s } } }"

definition smartlink_wifi_promiscuous_rx :: "u8 list \<Rightarrow> u8 list \<Rightarrow> u8 list \<Rightarrow> nat \<Rightarrow> smartlink \<Rightarrow> smartlink option" where
  "smartlink_wifi_promiscuous_rx stack1 stack2 buf len s =
     (if len < 64 then Some s
      else do { b \<leftarrow> rd buf sizeof_RxControl;
                if frame_type b = FRAME_TYPE_MANAGEMENT \<and> frame_subtype b = FRAME_SUBTYPE_PROBE_REQUEST
                then smartlink_ssid stack1 stack2 (drop (sizeof_RxControl + sizeof_probe_request) buf) s
                else Some s })"

section \<open>Properties\<close>

text \<open>A probe request whose first element is the name.\<close>

definition probe_request :: "u8 list \<Rightarrow> u8 list \<Rightarrow> u8 \<Rightarrow> u8 list \<Rightarrow> u8 list \<Rightarrow> u8 list" where
  "probe_request rx_ctrl header tag_number name rest =
     rx_ctrl @ [0x40] @ header @ [tag_number, word_of_nat (length name)] @ name @ rest"

lemma smartlink_frame:
  assumes "length rx_ctrl = 12" "length header = 23" "64 \<le> len"
  shows "smartlink_wifi_promiscuous_rx stack1 stack2 (probe_request rx_ctrl header tn name rest) len s =
     smartlink_ssid stack1 stack2 ([tn, word_of_nat (length name)] @ name @ rest) s"
  using assms
  by (simp add: smartlink_wifi_promiscuous_rx_def probe_request_def rd_def nth_append sizeof_RxControl_def sizeof_probe_request_def
      frame_type_def frame_subtype_def FRAME_TYPE_MANAGEMENT_def FRAME_SUBTYPE_PROBE_REQUEST_def)

text \<open>
  C39: A probe request for the name \<open>ssid<!-SL-!>password\<close> of at most 31 bytes, where the name \<open>ssid\<close> has no
  \<open><\<close> in it, sets the configuration to this name and password and restarts the board; the bytes that the buffers have held before play no part.
\<close>

theorem smartlink_configures:
  assumes "length rx_ctrl = 12" "length header = 23" "64 \<le> len"
    and "0 \<notin> set ssid" "60 \<notin> set ssid" "0 \<notin> set password" "length ssid + 8 + length password < 32"
  shows "smartlink_wifi_promiscuous_rx stack1 stack2
       (probe_request rx_ctrl header tag_number (ssid @ SMARTLK_TOKEN @ password) rest) len s =
     Some (s\<lparr>sl_trace := sl_trace s @ [Sl_set_opmode 1, Sl_set_config ssid password, Sl_restart]\<rparr>)"
proof -
  define nm where "nm = ssid @ SMARTLK_TOKEN @ password"
  have tok: "length SMARTLK_TOKEN = 8" "0 \<notin> set SMARTLK_TOKEN" "hd SMARTLK_TOKEN = 60" "SMARTLK_TOKEN \<noteq> []"
    by (simp_all add: SMARTLK_TOKEN_def ascii_def)
  have len: "length nm = length ssid + 8 + length password" by (simp add: nm_def tok(1))
  then have n: "length nm < 32" "unat (word_of_nat (length nm) :: u8) = length nm"
    using assms(7) by (simp, simp only: unat_u8_of_nat) simp
  then have nz: "(word_of_nat (length nm) :: u8) \<noteq> 0" using len by (auto simp: word_unat_eq_iff)
  obtain k where k: "32 - length nm = Suc k" using n(1) by (cases "32 - length nm") auto
  have buf: "wr_seg (replicate 32 0) 0 nm = Some (nm @ 0 # replicate k 0)"
    using n(1) k by (simp add: wr_seg_def)
  have str: "cstr (nm @ 0 # replicate k 0) = Some nm" using assms(4,6) tok(2) by (intro cstr_end) (simp add: nm_def)
  have pos: "strstr nm SMARTLK_TOKEN = Some (length ssid)" using strstr_at tok(3,4) assms(5) by (simp add: nm_def)
  have copy: "wr_seg (replicate 32 0 @ st) 0 x = Some (x @ 0 # replicate (31 - length x) 0 @ st)"
    "cstr (x @ 0 # replicate (31 - length x) 0 @ st) = Some x" if "length x < 32" "0 \<notin> set x" for x st :: "u8 list"
    using that by (auto simp: wr_seg_def cstr_end Suc_diff_le simp flip: replicate_Suc)
  have "smartlink_received ssid password s =
      Some (s\<lparr>sl_trace := sl_trace s @ [Sl_set_opmode 1, Sl_set_config ssid password, Sl_restart]\<rparr>)"
    using assms(7) by (simp add: smartlink_received_def wr_seg_def)
  moreover have "rd_seg (nm @ 0 # replicate k 0) (length ssid + 8) (length password) = Some password"
    using tok(1) rd_seg_at [of "ssid @ SMARTLK_TOKEN" password "0 # replicate k 0"] by (simp add: nm_def)
  moreover have "rd_seg (nm @ 0 # replicate k 0) 0 (length ssid) = Some ssid" by (simp add: rd_seg_def nm_def)
  moreover have "rd_seg ([tag_number, word_of_nat (length nm)] @ nm @ rest) 2 (length nm) = Some nm"
    using rd_seg_at [of "[tag_number, word_of_nat (length nm)]" nm rest] by (simp add: numeral_2_eq_2)
  ultimately show ?thesis
    unfolding smartlink_frame [OF assms(1-3)] smartlink_ssid_def nm_def [symmetric]
    using len n(2) nz buf str pos copy [of ssid stack1] copy [of password stack2] assms tok
    by (simp add: rd_def Let_def del: append_assoc)
qed


theorem smartlink_configures_witness:
  "smartlink_wifi_promiscuous_rx [9, 9, 9, 9, 9, 9, 9, 9] [] (probe_request (replicate 12 5) (replicate 23 0) 0
      ([97] @ SMARTLK_TOKEN @ [98, 99]) []) 128 \<lparr>sl_received_cb = False, sl_failed_cb = False, sl_max_wait = 5, sl_trace = []\<rparr> =
    Some \<lparr>sl_received_cb = False, sl_failed_cb = False, sl_max_wait = 5,
      sl_trace = [Sl_set_opmode 1, Sl_set_config [97] [98, 99], Sl_restart]\<rparr>"
  by (subst smartlink_configures) simp_all

text \<open>
  A probe request with a name of more than 31 bytes, which every station in reach can send, overflows the 32 bytes of
  \<open>ssid_buff\<close>, or leaves them without a NUL for the search: undefined behaviour, with or without the token.
\<close>

theorem smartlink_long_name:
  assumes "length rx_ctrl = 12" "length header = 23" "64 \<le> len"
    and "31 < length name" "length name < 256" "0 \<notin> set name"
  shows "smartlink_wifi_promiscuous_rx stack1 stack2 (probe_request rx_ctrl header tag_number name rest) len s = None"
proof -
  have n: "unat (word_of_nat (length name) :: u8) = length name" using assms(5) by (simp add: byte_simps)
  then have nz: "(word_of_nat (length name) :: u8) \<noteq> 0" using assms(4) by (auto simp: word_unat_eq_iff)
  have "rd_seg ([tag_number, word_of_nat (length name)] @ name @ rest) 2 (length name) = Some name"
    using rd_seg_at [of "[tag_number, word_of_nat (length name)]" name rest] by (simp add: numeral_2_eq_2)
  moreover have "Option.bind (wr_seg (replicate 32 0) 0 name) cstr = None"
  proof (cases "length name = 32")
    case True
    then show ?thesis using cstr_append [OF assms(6), of "[]"] by (simp add: wr_seg_def)
  next
    case False
    then show ?thesis using assms(4) by (simp add: wr_seg_def)
  qed
  ultimately show ?thesis
    unfolding smartlink_frame [OF assms(1-3)] smartlink_ssid_def
    using n nz by (cases "wr_seg (replicate 32 0) 0 name") (simp_all add: rd_def)
qed

theorem smartlink_long_name_witness:
  "smartlink_wifi_promiscuous_rx [] [] (probe_request (replicate 12 0) (replicate 23 0) 0 (replicate 32 97) [1]) 128
     \<lparr>sl_received_cb = False, sl_failed_cb = False, sl_max_wait = 5, sl_trace = []\<rparr> = None"
  by (rule smartlink_long_name) simp_all

end
