(* ===== verification/Boot13.thy ===== *)
theory Boot13
  imports Rboot_Verify
begin

text \<open>
  The boot loader that bootloader/boot1.3/bootloader2.c has reconstructed from the SDK: the configuration sectors at the end
  of the flash name the rom to boot; when it cannot be loaded, the other rom is written into the configuration and the chip is
  reset. The flash routines are a parameter as in \<open>Rboot\<close>; so is the loader that is copied to 0x4010FC00, which gets the
  address of the rom and yields its return value, or \<open>None\<close> if it starts the rom. The messages are left out.
\<close>

section \<open>Configuration\<close>

record rom_config =
  rf_byte0 :: u8
  rf_byte1 :: u8
  rf_address1 :: "u8 list"
  rf_address2 :: "u8 list"

definition rom_config_of :: "u8 list \<Rightarrow> rom_config" where
  "rom_config_of b = \<lparr>rf_byte0 = b ! 0, rf_byte1 = b ! 1, rf_address1 = take 3 (drop 2 b), rf_address2 = take 3 (drop 5 b)\<rparr>"

definition rom_config_bytes :: "rom_config \<Rightarrow> u8 list" where
  "rom_config_bytes c = [rf_byte0 c, rf_byte1 c] @ rf_address1 c @ rf_address2 c"

definition BYTE0_USEADDRESS2 :: u8 where "BYTE0_USEADDRESS2 = 0x04"
definition BYTE1_TESTMODE :: u8 where "BYTE1_TESTMODE = 0x20"
definition FAIL :: u32 where "FAIL = 1"

text \<open>The value of a comparison in C.\<close>

definition c_bool :: "bool \<Rightarrow> u8" where "c_bool b = (if b then 1 else 0)"

text \<open>How a boot ends: the rom at an address is started, the chip is reset, or call_user_start returns.\<close>

datatype boot13_end = Started u32 | Reset | Returned

section \<open>Loading\<close>

definition checkMagic :: "'f spi_flash \<Rightarrow> u32 \<Rightarrow> 'f \<Rightarrow> u32" where
  "checkMagic io addr f =
     (let header = snd (SPIRead io addr 16 f)
      in if header ! 0 = 0xe9 then 0
         else if header ! 0 = 0xea \<and> header ! 1 = 0x04 then le32 header 12
         else 0xffffffff)"

text \<open>\<open>Inl a\<close>: the rom at \<open>a\<close> is started. \<open>Inr r\<close>: the return value.\<close>

definition loadImage :: "'f spi_flash \<Rightarrow> (u32 \<Rightarrow> 'f \<Rightarrow> u32 option) \<Rightarrow> u32 \<Rightarrow> 'f \<Rightarrow> u32 + u32" where
  "loadImage io loader romaddr f =
     (let ret = checkMagic io romaddr f
      in if ret = 0xffffffff then Inr FAIL
         else (let romaddr = (if ret \<noteq> 0 then romaddr + (16 + ret) else romaddr)
               in case loader romaddr f of None \<Rightarrow> Inl romaddr | Some r \<Rightarrow> Inr r))"

section \<open>Changing the rom\<close>

definition swapboot :: "'f spi_flash \<Rightarrow> u32 \<Rightarrow> rom_config \<Rightarrow> 'f \<Rightarrow> 'f" where
  "swapboot io configsect a3 f =
     (let configaddr = push_bit 12 configsect;
          bootconfig = snd (SPIRead io (configaddr + 0x3000) 4 f);
          (sectoffset, addroffset, bootconfig) =
            (if bootconfig ! 0 = 0 then (2, 0x2000, bootconfig[0 := 1]) else (1, 0x1000, bootconfig[0 := 0]));
          romconfig = snd (SPIRead io (configaddr + addroffset) 0x1000 f);
          romconfig = rom_config_bytes a3 @ drop 8 romconfig;
          f = snd (SPIEraseSector io (configsect + sectoffset) f);
          f = snd (SPIWrite io (configaddr + addroffset) romconfig f);
          f = snd (SPIEraseSector io (configsect + 3) f);
          f = snd (SPIWrite io (configaddr + 0x3000) bootconfig f)
      in f)"

text \<open>
  The test for a configuration that has been marked before compares the flag with 0 first: \<open>&\<close> binds weaker than \<open>==\<close>.
\<close>

definition bootFailedSwap :: "'f spi_flash \<Rightarrow> u32 \<Rightarrow> rom_config \<Rightarrow> 'f \<Rightarrow> boot13_end \<times> 'f" where
  "bootFailedSwap io a2 a3 f =
     (if rf_byte0 a3 AND c_bool (BYTE0_USEADDRESS2 = 0) \<noteq> 0 then (Returned, f)
      else (Reset, swapboot io a2 (a3\<lparr>rf_byte0 := rf_byte0 a3 XOR BYTE0_USEADDRESS2\<rparr>) f))"

definition load_or_swap ::
  "'f spi_flash \<Rightarrow> (u32 \<Rightarrow> 'f \<Rightarrow> u32 option) \<Rightarrow> u32 \<Rightarrow> u32 \<Rightarrow> rom_config \<Rightarrow> 'f \<Rightarrow> boot13_end \<times> 'f" where
  "load_or_swap io loader runAddr a12 romconf f =
     (case loadImage io loader runAddr f of
        Inl a \<Rightarrow> (Started a, f)
      | Inr r \<Rightarrow> if r = FAIL then bootFailedSwap io a12 romconf f else (Returned, f))"

section \<open>call_user_start\<close>

definition conf_area :: "u8 \<Rightarrow> u32" where
  "conf_area flags =
     (let a0 = drop_bit 4 flags
      in if a0 = 0 then 0x7C else if a0 = 1 then 0x3C else if a0 = 2 then 0xFC else if a0 = 3 then 0x1FC
         else if a0 = 4 then 0x3FC else 0x7C)"

text \<open>The address of the second rom: the middle of the flash, or of its first megabyte.\<close>

definition second_rom :: "u32 \<Rightarrow> u32" where
  "second_rom a12 =
     (let runAddr = (if a12 = 0x1FC \<or> a12 = 0x3FC then 0xFC else a12)
      in push_bit 12 (drop_bit 1 (runAddr + 4)) + 0x1000)"

definition new_rom_config :: rom_config where
  "new_rom_config = \<lparr>rf_byte0 = 0xff AND 0xfc, rf_byte1 = (0xff AND 0xe0) OR 3,
     rf_address1 = replicate 3 0xff, rf_address2 = replicate 3 0xff\<rparr>"

text \<open>The code behind the second return can not be reached.\<close>

definition call_user_start :: "'f spi_flash \<Rightarrow> (u32 \<Rightarrow> 'f \<Rightarrow> u32 option) \<Rightarrow> 'f \<Rightarrow> boot13_end \<times> 'f" where
  "call_user_start io loader f =
     (let header = snd (SPIRead io 0 8 f);
          a12 = conf_area (header ! 3);
          config = snd (SPIRead io (push_bit 12 a12 + 0x3000) 4 f);
          a2 = (if config ! 0 = 0 then 1 else 2);
          romconf = rom_config_of (snd (SPIRead io (push_bit 12 (a2 + a12)) 8 f));
          (romconf, f) =
            (if rf_byte1 romconf AND 0x1f \<noteq> 3 \<or> rf_byte0 romconf AND 0x03 = 3
             then (new_rom_config, swapboot io a12 new_rom_config f) else (romconf, f))
      in if (rf_byte1 romconf AND 0x40 \<noteq> 0 \<or> rf_byte1 romconf AND c_bool (BYTE1_TESTMODE = 0) \<noteq> 0) \<and>
            drop_bit 7 (rf_byte1 romconf) \<noteq> 0
         then
           (let a3 = rf_byte0 romconf AND 3
            in if a3 \<noteq> 0 \<and> rf_byte0 romconf AND BYTE0_USEADDRESS2 \<noteq> 0 then
                 (if a3 = 1 then load_or_swap io loader (second_rom a12) a12 romconf f else (Returned, f))
               else if a3 \<noteq> 0 \<and> a3 \<noteq> 1 then (Returned, f)
               else load_or_swap io loader 0x1000 a12 romconf f)
         else (Returned, f))"

section \<open>The configuration in the flash\<close>

text \<open>The byte that selects a configuration, and the configuration that it selects, in the last four sectors.\<close>

definition boot_select :: "nat \<Rightarrow> u8 list \<Rightarrow> u8" where
  "boot_select s m = m ! ((s + 3) * 4096)"

definition slot_of :: "u8 \<Rightarrow> nat" where
  "slot_of b = (if b = 0 then 1 else 2)"

definition selected_config :: "nat \<Rightarrow> u8 list \<Rightarrow> rom_config" where
  "selected_config s m = rom_config_of (take 8 (drop ((s + slot_of (boot_select s m)) * 4096) m))"

text \<open>A flash of a known size that holds its configuration in its last four sectors.\<close>

definition boot13_flash :: "nat \<Rightarrow> u8 list \<Rightarrow> bool" where
  "boot13_flash s m \<longleftrightarrow> length m = (s + 4) * 4096 \<and> length m < 2 ^ 32 \<and> 0 < s \<and> conf_area (m ! 3) = word_of_nat s"

text \<open>A configuration that boots one of two roms, the second if \<open>second\<close>.\<close>

definition two_roms :: "bool \<Rightarrow> rom_config \<Rightarrow> bool" where
  "two_roms second c \<longleftrightarrow> rf_byte1 c AND 0x1f = 3 \<and> rf_byte1 c AND 0x40 \<noteq> 0 \<and> drop_bit 7 (rf_byte1 c) \<noteq> 0 \<and>
     rf_byte0 c AND 3 = 1 \<and> (rf_byte0 c AND BYTE0_USEADDRESS2 \<noteq> 0) = second \<and>
     length (rf_address1 c) = 3 \<and> length (rf_address2 c) = 3"

lemma rom_config_of_bytes:
  "length (rf_address1 c) = 3 \<Longrightarrow> length (rf_address2 c) = 3 \<Longrightarrow> rom_config_of (rom_config_bytes c) = c"
  by (simp add: rom_config_of_def rom_config_bytes_def numeral_2_eq_2 numeral_3_eq_3 eval_nat_numeral)

lemma toggle_and_3: "(b XOR 4) AND 3 = b AND (3 :: u8)"
proof -
  have "(4 :: u8) AND 3 = 0" by code_simp
  then show ?thesis by (simp only: bit.conj_xor_distrib2 xor.right_neutral)
qed

lemma toggle_and_4: "(b XOR 4) AND 4 \<noteq> 0 \<longleftrightarrow> b AND 4 = (0 :: u8)"
proof -
  have four: "(4 :: u8) = 2 ^ 2" by simp
  have "bit (4 :: u8) 2" by code_simp
  then have "bit (b XOR 4) 2 \<longleftrightarrow> \<not> bit b 2" by (simp only: bit_xor_iff) blast
  moreover have "x AND 4 = 0 \<longleftrightarrow> \<not> bit x 2" for x :: u8
    unfolding four by (rule and_exp_eq_0_iff_not_bit)
  ultimately show ?thesis by blast
qed

lemma swap_two_roms:
  "two_roms second c \<Longrightarrow> two_roms (\<not> second) (c\<lparr>rf_byte0 := rf_byte0 c XOR BYTE0_USEADDRESS2\<rparr>)"
  using toggle_and_3 [of "rf_byte0 c"] toggle_and_4 [of "rf_byte0 c"]
  by (auto simp: two_roms_def BYTE0_USEADDRESS2_def)

lemma conf_area_cases:
  assumes "conf_area b = word_of_nat s" "(s + 4) * 4096 < 2 ^ 32"
  shows "s \<in> {0x3C, 0x7C, 0xFC, 0x1FC, 0x3FC}"
proof -
  have "s < 2 ^ 32" using assms(2) by simp
  then have "unat (word_of_nat s :: u32) = s" by (simp add: unat_of_nat)
  then show ?thesis using assms(1) by (auto simp: conf_area_def Let_def split: if_splits dest!: arg_cong [of _ _ unat])
qed

section \<open>Changing the configuration\<close>

lemma sector_address: "s * 4096 < 2 ^ 32 \<Longrightarrow> push_bit 12 (word_of_nat s :: u32) = word_of_nat (s * 4096)"
  by (simp add: push_bit_eq_mult mult.commute)

lemma slice_at: "take n (drop (length xs) (xs @ ys)) = take n ys"
  by simp

end
