(* ===== verification/Boot13_Props.thy ===== *)
theory Boot13_Props
  imports Boot13
begin

text \<open>
  The boot loader 1.3 on a flash chip: how it changes its configuration, which rom it loads, and what happens over several starts.
\<close>

lemma unat_sector:
  assumes "k < 4" "(s + 4) * 4096 < 2 ^ 32"
  shows "unat (word_of_nat ((s + k) * 4096) :: u32) = (s + k) * 4096" "unat (word_of_nat (s + k) :: u32) = s + k"
proof -
  have "(s + k) * 4096 < 2 ^ 32" "s + k < 2 ^ 32" using assms by simp_all
  then show "unat (word_of_nat ((s + k) * 4096) :: u32) = (s + k) * 4096" "unat (word_of_nat (s + k) :: u32) = s + k"
    by (simp_all add: unat_of_nat del: of_nat_mult of_nat_add)
qed

text \<open>The configuration that is not selected, and the flash after \<open>swapboot\<close>: two sectors are rewritten.\<close>

definition other_slot :: "nat \<Rightarrow> u8 list \<Rightarrow> nat" where
  "other_slot s m = (if boot_select s m = 0 then 2 else 1)"

definition with_config :: "nat \<Rightarrow> rom_config \<Rightarrow> u8 list \<Rightarrow> u8 list" where
  "with_config s c m =
     (let i = (s + other_slot s m) * 4096 in take i m @ (rom_config_bytes c @ drop 8 (take 4096 (drop i m))) @ drop (i + 4096) m)"

lemma length_with_config:
  "boot13_flash s m \<Longrightarrow> length (rf_address1 c) = 3 \<Longrightarrow> length (rf_address2 c) = 3 \<Longrightarrow> length (with_config s c m) = length m"
  by (auto simp: with_config_def other_slot_def boot13_flash_def rom_config_bytes_def Let_def)

lemma swapboot_writes:
  assumes chip: "flash_chip io mem" and fl: "boot13_flash s (mem f)"
    and c: "length (rf_address1 c) = 3" "length (rf_address2 c) = 3"
  shows "mem (swapboot io (word_of_nat s) c f) = take ((s + 3) * 4096) (with_config s c (mem f)) @
     (take 4 (drop ((s + 3) * 4096) (mem f)))[0 := if boot_select s (mem f) = 0 then 1 else 0] @ replicate 4092 0xff"
proof -
  let ?m = "mem f" and ?t = "other_slot s (mem f)"
  have len: "length ?m = (s + 4) * 4096" "(s + 4) * 4096 < 2 ^ 32" using fl by (simp_all add: boot13_flash_def)
  have t: "?t = 1 \<or> ?t = 2" by (simp add: other_slot_def)
  then have t4: "?t < 4" by auto
  note un = unat_sector [OF _ len(2)]
  define boot where "boot = take 4 (drop ((s + 3) * 4096) ?m)"
  define boot' where "boot' = boot[0 := if boot_select s ?m = 0 then 1 else 0]"
  have bl: "length boot' = 4" "boot ! 0 = boot_select s ?m"
    using len(1) by (simp_all add: boot_def boot'_def boot_select_def)
  have base: "push_bit 12 (word_of_nat s :: u32) = word_of_nat (s * 4096)" using len(2) by (intro sector_address) simp
  have addr: "(word_of_nat (s * 4096) :: u32) + word_of_nat (k * 4096) = word_of_nat ((s + k) * 4096)" for k
    by (simp add: distrib_right)
  have r1: "SPIRead io (word_of_nat ((s + 3) * 4096)) 4 f = (True, boot)"
    using flash_readD [OF chip, of "word_of_nat ((s + 3) * 4096)" 4 f] un(1) [of 3] len(1) by (simp add: boot_def)
  define old where "old = take 4096 (drop ((s + ?t) * 4096) ?m)"
  have r2: "SPIRead io (word_of_nat ((s + ?t) * 4096)) 4096 f = (True, old)"
    using flash_readD [OF chip, of "word_of_nat ((s + ?t) * 4096)" 4096 f] un(1) [OF t4] len(1) t by (auto simp: old_def)
  define new where "new = rom_config_bytes c @ drop 8 old"
  have nl: "length new = 4096" using len(1) t c by (auto simp: new_def old_def rom_config_bytes_def)
  have st: "(unat (word_of_nat (s + ?t) :: u32) + 1) * 4096 \<le> length ?m" using un(2) [OF t4] len(1) t by auto
  have same: "unat (word_of_nat ((s + ?t) * 4096) :: u32) = unat (word_of_nat (s + ?t) :: u32) * 4096"
    by (simp only: un [OF t4])
  obtain f1 f2 where f2: "SPIEraseSector io (word_of_nat (s + ?t)) f = (True, f1)"
    "SPIWrite io (word_of_nat ((s + ?t) * 4096)) new f1 = (True, f2)"
    "mem f2 = take ((s + ?t) * 4096) ?m @ new @ drop ((s + ?t + 1) * 4096) ?m"
    using rewrite_sector [OF chip st nl same] unfolding un [OF t4] by blast
  have m2: "mem f2 = with_config s c ?m" by (simp add: f2(3) with_config_def new_def old_def Let_def add.commute)
  have l2: "length (mem f2) = (s + 4) * 4096" using length_with_config [OF fl c] len(1) by (simp add: m2)
  obtain f3 f4 where f4: "SPIEraseSector io (word_of_nat (s + 3)) f2 = (True, f3)"
    "SPIWrite io (word_of_nat ((s + 3) * 4096)) boot' f3 = (True, f4)"
    "mem f4 = take ((s + 3) * 4096) (mem f2) @ boot' @ replicate 4092 0xff"
    using rewrite_sector_start [OF chip, of "word_of_nat (s + 3)" f2 boot' "word_of_nat ((s + 3) * 4096)"] un [of 3] l2 bl(1)
    by auto
  have a3: "(word_of_nat (s * 4096) :: u32) + 0x3000 = word_of_nat ((s + 3) * 4096)" using addr [of 3] by simp
  have choice: "(if boot ! 0 = 0 then (2, 0x2000, boot[0 := 1]) else (1, 0x1000, boot[0 := 0])) =
      (word_of_nat ?t :: u32, word_of_nat (?t * 4096) :: u32, boot')"
    by (simp add: bl(2) other_slot_def boot'_def)
  have "(word_of_nat s :: u32) + word_of_nat ?t = word_of_nat (s + ?t)" "(word_of_nat s :: u32) + 3 = word_of_nat (s + 3)"
    by simp_all
  then have "swapboot io (word_of_nat s) c f = f4"
    unfolding swapboot_def Let_def base a3 r1 snd_conv choice prod.case addr r2 new_def [symmetric]
    by (simp only: f2(1,2) f4(1,2) snd_conv)
  then show ?thesis unfolding boot_def [symmetric] boot'_def [symmetric] m2 [symmetric] by (simp add: f4(3))
qed

lemma swapboot_swaps:
  assumes chip: "flash_chip io mem" and fl: "boot13_flash s (mem f)"
    and c: "length (rf_address1 c) = 3" "length (rf_address2 c) = 3"
  shows "boot13_flash s (mem (swapboot io (word_of_nat s) c f)) \<and>
     selected_config s (mem (swapboot io (word_of_nat s) c f)) = c \<and>
     (boot_select s (mem (swapboot io (word_of_nat s) c f)) = 0 \<longleftrightarrow> boot_select s (mem f) \<noteq> 0) \<and>
     take (s * 4096) (mem (swapboot io (word_of_nat s) c f)) = take (s * 4096) (mem f)"
proof -
  let ?m = "mem f" and ?t = "other_slot s (mem f)"
  define m2 where "m2 = with_config s c ?m"
  define boot' where "boot' = (take 4 (drop ((s + 3) * 4096) ?m))[0 := if boot_select s ?m = 0 then 1 else 0]"
  define m4 where "m4 = mem (swapboot io (word_of_nat s) c f)"
  have len: "length ?m = (s + 4) * 4096" using fl by (simp add: boot13_flash_def)
  have l2: "length m2 = (s + 4) * 4096" using length_with_config [OF fl c] len by (simp add: m2_def)
  have bl: "length boot' = 4" "boot' ! 0 = (if boot_select s ?m = 0 then 1 else 0)" using len by (simp_all add: boot'_def)
  have t: "?t = 1 \<or> ?t = 2" by (simp add: other_slot_def)
  have rl: "length (rom_config_bytes c) = 8" using c by (simp add: rom_config_bytes_def)
  have m4: "m4 = take ((s + 3) * 4096) m2 @ boot' @ replicate 4092 0xff"
    using swapboot_writes [OF chip fl c] by (simp add: m4_def m2_def boot'_def)
  have area: "take (s * 4096) m4 = take (s * 4096) ?m"
    using l2 len t by (auto simp: m4 min_def m2_def with_config_def Let_def)
  have "3 < s * 4096" using fl by (simp add: boot13_flash_def)
  then have "m4 ! 3 = ?m ! 3" using area by (metis nth_take)
  then have flash: "boot13_flash s m4" using fl l2 bl(1) by (simp add: boot13_flash_def m4)
  have sel: "boot_select s m4 = (if boot_select s ?m = 0 then 1 else 0)"
    using l2 bl by (simp add: boot_select_def m4 nth_append)
  then have slot: "slot_of (boot_select s m4) = ?t" by (simp add: slot_of_def other_slot_def)
  have "take 8 (drop ((s + ?t) * 4096) m4) = take 8 (drop ((s + ?t) * 4096) m2)"
    using l2 t by (auto simp: m4 take_drop min_def)
  also have "\<dots> = rom_config_bytes c" using len rl t by (auto simp: m2_def with_config_def Let_def)
  finally have "selected_config s m4 = c"
    unfolding selected_config_def slot using rom_config_of_bytes c by simp
  then show ?thesis using flash sel area unfolding m4_def by simp
qed

section \<open>Booting\<close>

lemma take_nth_eq: "take k m = take k m' \<Longrightarrow> i < k \<Longrightarrow> m ! i = m' ! i"
  by (metis nth_take)

text \<open>With a configuration of two roms the one that is selected is loaded.\<close>

lemma call_user_start_loads:
  assumes chip: "flash_chip io mem" and fl: "boot13_flash s (mem f)"
    and sel: "selected_config s (mem f) = c" and c: "two_roms second c"
  shows "call_user_start io loader f =
     load_or_swap io loader (if second then second_rom (word_of_nat s) else 0x1000) (word_of_nat s) c f"
proof -
  let ?m = "mem f"
  have len: "length ?m = (s + 4) * 4096" "(s + 4) * 4096 < 2 ^ 32" "0 < s" using fl by (simp_all add: boot13_flash_def)
  have base: "push_bit 12 (word_of_nat k :: u32) = word_of_nat (k * 4096)" if "k < s + 4" for k
    using len(2) that by (intro sector_address) simp
  have un: "unat (word_of_nat (k * 4096) :: u32) = k * 4096" if "k < s + 4" for k
  proof -
    have "k * 4096 < 2 ^ 32" using len(2) that by simp
    then show ?thesis by (simp add: unat_of_nat del: of_nat_mult)
  qed
  have r0: "SPIRead io 0 8 f = (True, take 8 ?m)"
    using flash_readD [OF chip, of 0 8 f] len by simp
  have h: "conf_area (take 8 ?m ! 3) = word_of_nat s" using fl by (simp add: boot13_flash_def)
  have rc: "SPIRead io (word_of_nat ((s + 3) * 4096)) 4 f = (True, take 4 (drop ((s + 3) * 4096) ?m))"
    using flash_readD [OF chip, of "word_of_nat ((s + 3) * 4096)" 4 f] un [of "s + 3"] len(1) by simp
  have c0: "take 4 (drop ((s + 3) * 4096) ?m) ! 0 = boot_select s ?m"
    using len(1) by (simp add: boot_select_def)
  define t where "t = slot_of (boot_select s ?m)"
  have t: "t < 4" "(if boot_select s ?m = 0 then 1 else 2) = (word_of_nat t :: u32)" by (simp_all add: t_def slot_of_def)
  have rr: "SPIRead io (word_of_nat ((s + t) * 4096)) 8 f = (True, take 8 (drop ((s + t) * 4096) ?m))"
    using flash_readD [OF chip, of "word_of_nat ((s + t) * 4096)" 8 f] un [of "s + t"] len(1) t(1) by simp
  have conf: "rom_config_of (take 8 (drop ((s + t) * 4096) ?m)) = c" using sel by (simp add: selected_config_def t_def)
  have a3: "push_bit 12 (word_of_nat s :: u32) + 0x3000 = word_of_nat ((s + 3) * 4096)"
    using base [of s] by (simp add: distrib_right)
  have at: "push_bit 12 (word_of_nat t + word_of_nat s :: u32) = word_of_nat ((s + t) * 4096)"
    using base [of "s + t"] t(1) by (simp add: add.commute)
  have and_0: "x AND c_bool (BYTE1_TESTMODE = 0) = 0" for x by (simp add: c_bool_def BYTE1_TESTMODE_def)
  show ?thesis
    using c unfolding call_user_start_def Let_def r0 snd_conv h a3 rc c0 t(2) at rr conf and_0
    by (simp add: two_roms_def)
qed

text \<open>What loading a rom does depends on the area of the roms only, if it does for the loader.\<close>

definition loader_ok :: "nat \<Rightarrow> ('f \<Rightarrow> u8 list) \<Rightarrow> (u32 \<Rightarrow> 'f \<Rightarrow> u32 option) \<Rightarrow> bool" where
  "loader_ok s mem loader \<longleftrightarrow> (\<forall>a f f'. take (s * 4096) (mem f) = take (s * 4096) (mem f') \<longrightarrow> loader a f = loader a f')"

lemma loadImage_area:
  assumes chip: "flash_chip io mem" and l: "loader_ok s mem loader"
    and area: "take (s * 4096) (mem f) = take (s * 4096) (mem f')" and a: "unat a + 16 \<le> s * 4096"
    and len: "s * 4096 \<le> length (mem f)" "s * 4096 \<le> length (mem f')"
  shows "loadImage io loader a f = loadImage io loader a f'"
proof -
  have "take 16 (drop (unat a) (mem f)) = take 16 (drop (unat a) (take (s * 4096) (mem f)))"
    using a by (simp add: drop_take min_def)
  also have "\<dots> = take 16 (drop (unat a) (take (s * 4096) (mem f')))" by (simp only: area)
  also have "\<dots> = take 16 (drop (unat a) (mem f'))" using a by (simp add: drop_take min_def)
  finally have "SPIRead io a 16 f = SPIRead io a 16 f'"
    using flash_readD [OF chip, of a 16 f] flash_readD [OF chip, of a 16 f'] a len by simp
  then have "checkMagic io a f = checkMagic io a f'" by (simp add: checkMagic_def)
  moreover have "loader b f = loader b f'" for b using l area unfolding loader_ok_def by blast
  ultimately show ?thesis by (simp add: loadImage_def Let_def)
qed

definition rom_address :: "nat \<Rightarrow> bool \<Rightarrow> u32" where
  "rom_address s second = (if second then second_rom (word_of_nat s) else 0x1000)"

lemma rom_address_bound:
  assumes "boot13_flash s m"
  shows "unat (rom_address s second) + 16 \<le> s * 4096"
proof -
  have "s \<in> {0x3C, 0x7C, 0xFC, 0x1FC, 0x3FC}"
    using conf_area_cases [of "m ! 3" s] assms by (simp add: boot13_flash_def)
  then show ?thesis by (auto simp: rom_address_def second_rom_def Let_def push_bit_eq_mult drop_bit_eq_div)
qed

lemma failed_boot_swaps:
  assumes "flash_chip io mem" and "boot13_flash s (mem f)" and "two_roms second (selected_config s (mem f))"
    and "loadImage io loader (rom_address s second) f = Inr FAIL"
    and "c = (selected_config s (mem f))\<lparr>rf_byte0 := rf_byte0 (selected_config s (mem f)) XOR BYTE0_USEADDRESS2\<rparr>"
  shows "call_user_start io loader f = (Reset, swapboot io (word_of_nat s) c f)"
    and "two_roms (\<not> second) c" and "length (rf_address1 c) = 3" and "length (rf_address2 c) = 3"
proof -
  show "call_user_start io loader f = (Reset, swapboot io (word_of_nat s) c f)"
    using call_user_start_loads [OF assms(1,2) refl assms(3), of loader] assms(4)
    by (simp add: load_or_swap_def rom_address_def bootFailedSwap_def c_bool_def BYTE0_USEADDRESS2_def assms(5))
  show "two_roms (\<not> second) c" unfolding assms(5) by (rule swap_two_roms [OF assms(3)])
  then show "length (rf_address1 c) = 3" "length (rf_address2 c) = 3" by (simp_all add: two_roms_def)
qed

lemma failed_boot:
  assumes chip: "flash_chip io mem" and fl: "boot13_flash s (mem f)" and c: "two_roms second (selected_config s (mem f))"
    and fails: "loadImage io loader (rom_address s second) f = Inr FAIL"
  shows "\<exists>f'. call_user_start io loader f = (Reset, f') \<and> boot13_flash s (mem f') \<and>
     two_roms (\<not> second) (selected_config s (mem f')) \<and> take (s * 4096) (mem f') = take (s * 4096) (mem f)"
  using failed_boot_swaps [OF assms refl] swapboot_swaps [OF chip fl] by metis

lemma good_boot:
  assumes "flash_chip io mem" and "boot13_flash s (mem f)" and "two_roms second (selected_config s (mem f))"
    and "loadImage io loader (rom_address s second) f = Inl a"
  shows "call_user_start io loader f = (Started a, f)"
  using call_user_start_loads [OF assms(1,2) refl assms(3), of loader] assms(4)
  by (simp add: load_or_swap_def rom_address_def)

text \<open>At most \<open>n\<close> boots, one after each reset.\<close>

fun boots :: "'f spi_flash \<Rightarrow> (u32 \<Rightarrow> 'f \<Rightarrow> u32 option) \<Rightarrow> nat \<Rightarrow> 'f \<Rightarrow> boot13_end \<times> 'f" where
  "boots io loader 0 f = (Reset, f)"
| "boots io loader (Suc n) f =
     (case call_user_start io loader f of (Reset, f) \<Rightarrow> boots io loader n f | r \<Rightarrow> r)"

text \<open>
  A flash of 256 KB for the examples: the header, a rom at 0x21000 if \<open>magic\<close> is right, and a configuration that selects the first rom.
\<close>

definition demo_boot13 :: "u8 \<Rightarrow> u8 list" where
  "demo_boot13 magic = [0, 0, 0, 0x10] @ replicate 135164 0 @ [magic] @ replicate 114687 0 @ [1, 0xe3] @ replicate 12286 0"

lemma demo_boot13_flash:
  "boot13_flash 60 (demo_boot13 magic)" "two_roms False (selected_config 60 (demo_boot13 magic))"
proof -
  show "boot13_flash 60 (demo_boot13 magic)"
    by (simp add: boot13_flash_def demo_boot13_def conf_area_def Let_def drop_bit_eq_div)
  have "boot_select 60 (demo_boot13 magic) = 0"
    by (simp add: boot_select_def demo_boot13_def nth_append)
  moreover have "take 8 (drop 249856 (demo_boot13 magic)) = [1, 0xe3] @ replicate 6 0"
    by (simp add: demo_boot13_def)
  ultimately have "selected_config 60 (demo_boot13 magic) = rom_config_of ([1, 0xe3] @ replicate 6 0)"
    by (simp add: selected_config_def slot_of_def)
  then show "two_roms False (selected_config 60 (demo_boot13 magic))"
    by (simp add: two_roms_def rom_config_of_def BYTE0_USEADDRESS2_def drop_bit_eq_div)
qed

lemma demo_boot13_load:
  "loadImage nor_flash loader (rom_address 60 False) (demo_boot13 magic) = Inr FAIL"
  "magic \<noteq> 0xe9 \<Longrightarrow> magic \<noteq> 0xea \<Longrightarrow> loadImage nor_flash loader (rom_address 60 True) (demo_boot13 magic) = Inr FAIL"
  "loader 0x21000 (demo_boot13 0xe9) = None \<Longrightarrow> loadImage nor_flash loader (rom_address 60 True) (demo_boot13 0xe9) = Inl 0x21000"
proof -
  have a: "rom_address 60 False = 0x1000" "rom_address 60 True = 0x21000"
    by (simp_all add: rom_address_def second_rom_def push_bit_eq_mult drop_bit_eq_div)
  have r: "snd (SPIRead nor_flash 0x1000 16 (demo_boot13 magic)) = replicate 16 0"
    "snd (SPIRead nor_flash 0x21000 16 (demo_boot13 magic)) = magic # replicate 15 0" for magic
    by (simp_all add: nor_flash_def demo_boot13_def)
  show "loadImage nor_flash loader (rom_address 60 False) (demo_boot13 magic) = Inr FAIL"
    unfolding a loadImage_def checkMagic_def r by simp
  show "magic \<noteq> 0xe9 \<Longrightarrow> magic \<noteq> 0xea \<Longrightarrow> loadImage nor_flash loader (rom_address 60 True) (demo_boot13 magic) = Inr FAIL"
    unfolding a loadImage_def checkMagic_def r by simp
  show "loader 0x21000 (demo_boot13 0xe9) = None \<Longrightarrow> loadImage nor_flash loader (rom_address 60 True) (demo_boot13 0xe9) = Inl 0x21000"
    unfolding a loadImage_def checkMagic_def r by simp
qed

section \<open>Properties\<close>

text \<open>
  C19: When the selected rom cannot be loaded, the boot loader selects the other rom and resets; when that can be loaded it is
  started, now and at every later start, and the area of the roms is unchanged.
\<close>

theorem boot13_falls_back:
  assumes "flash_chip io mem" and "boot13_flash s (mem f)" and "two_roms second (selected_config s (mem f))"
    and "loader_ok s mem loader"
    and "loadImage io loader (rom_address s second) f = Inr FAIL"
    and "loadImage io loader (rom_address s (\<not> second)) f = Inl a"
  shows "\<exists>f'. boots io loader 2 f = (Started a, f') \<and> take (s * 4096) (mem f') = take (s * 4096) (mem f) \<and>
     call_user_start io loader f' = (Started a, f')"
proof -
  obtain f' where f': "call_user_start io loader f = (Reset, f')" "boot13_flash s (mem f')"
    "two_roms (\<not> second) (selected_config s (mem f'))" "take (s * 4096) (mem f') = take (s * 4096) (mem f)"
    using failed_boot [OF assms(1-3,5)] by blast
  have "loadImage io loader (rom_address s (\<not> second)) f' = Inl a"
    using loadImage_area [OF assms(1,4) f'(4) rom_address_bound [OF f'(2)]] f'(2) assms(2,6)
    by (simp add: boot13_flash_def)
  from good_boot [OF assms(1) f'(2,3) this] have "call_user_start io loader f' = (Started a, f')" .
  then show ?thesis using f' by (auto simp: numeral_2_eq_2)
qed

text \<open>The first rom is missing, the second is good.\<close>

theorem boot13_falls_back_witness:
  "\<exists>f'. boots nor_flash (\<lambda>_ _. None) 2 (demo_boot13 0xe9) = (Started 0x21000, f') \<and>
     take (60 * 4096) f' = take (60 * 4096) (demo_boot13 0xe9) \<and>
     call_user_start nor_flash (\<lambda>_ _. None) f' = (Started 0x21000, f')"
  using boot13_falls_back [where io = nor_flash and mem = id and s = 60 and f = "demo_boot13 0xe9" and second = False
        and loader = "\<lambda>_ _. None" and a = "0x21000"]
    nor_flash_chip demo_boot13_flash [of "0xe9"] demo_boot13_load(1) [where loader = "\<lambda>_ _. None" and magic = "0xe9"] demo_boot13_load(3) [where loader = "\<lambda>_ _. None"]
  by (simp add: loader_ok_def)

text \<open>
  To see what is erased, a log is put between the boot loader and the flash: it passes every call on
  and remembers the sectors that are erased, in order.
\<close>

definition logged :: "'f spi_flash \<Rightarrow> ('f \<times> u32 list) spi_flash" where
  "logged io =
     \<lparr>SPIRead = (\<lambda>a n x. SPIRead io a n (fst x)),
      SPIEraseSector = (\<lambda>k x. case SPIEraseSector io k (fst x) of (ok, f) \<Rightarrow> (ok, f, snd x @ [k])),
      SPIWrite = (\<lambda>a bs x. case SPIWrite io a bs (fst x) of (ok, f) \<Rightarrow> (ok, f, snd x))\<rparr>"

lemma logged_chip: "flash_chip io mem \<Longrightarrow> flash_chip (logged io) (mem \<circ> fst)"
  unfolding flash_chip_def logged_def by fastforce

lemma swapboot_logged:
  "swapboot (logged io) cs c (f, l) =
     (swapboot io cs c f,
      l @ [cs + (if snd (SPIRead io (push_bit 12 cs + 0x3000) 4 f) ! 0 = 0 then 2 else 1), cs + 3])"
  by (simp add: swapboot_def logged_def Let_def split: prod.splits)

lemma loadImage_logged:
  "loadImage (logged io) (\<lambda>a x. loader a (fst x)) a (f, l) = loadImage io loader a f"
  by (simp add: loadImage_def checkMagic_def logged_def Let_def)

text \<open>
  The sectors erased by \<open>n\<close> failed boots: each time the configuration that is not selected, then the
  sector that holds the selection. \<open>z\<close>: the selecting byte is 0.
\<close>

fun failed_erasures :: "nat \<Rightarrow> bool \<Rightarrow> nat \<Rightarrow> u32 list" where
  "failed_erasures s z 0 = []"
| "failed_erasures s z (Suc n) =
     of_nat (s + (if z then 2 else 1)) # of_nat (s + 3) # failed_erasures s (\<not> z) n"

lemma failed_boot_logged:
  assumes chip: "flash_chip io mem" and fl: "boot13_flash s (mem f)" and two: "two_roms second (selected_config s (mem f))"
    and fails: "loadImage io loader (rom_address s second) f = Inr FAIL"
  shows "\<exists>f'. call_user_start (logged io) (\<lambda>a x. loader a (fst x)) (f, l) =
       (Reset, f', l @ failed_erasures s (boot_select s (mem f) = 0) 1) \<and>
     boot13_flash s (mem f') \<and> two_roms (\<not> second) (selected_config s (mem f')) \<and>
     (boot_select s (mem f') = 0 \<longleftrightarrow> boot_select s (mem f) \<noteq> 0) \<and>
     take (s * 4096) (mem f') = take (s * 4096) (mem f)"
proof -
  have pre: "boot13_flash s ((mem \<circ> fst) (f, l))" "two_roms second (selected_config s ((mem \<circ> fst) (f, l)))"
    "loadImage (logged io) (\<lambda>a x. loader a (fst x)) (rom_address s second) (f, l) = Inr FAIL"
    using fl two fails by (simp_all only: loadImage_logged comp_apply fst_conv)
  note sw = failed_boot_swaps [OF logged_chip [OF chip] pre refl, unfolded comp_apply fst_conv]
  note swaps = swapboot_swaps [OF chip fl sw(3,4)]
  have len: "length (mem f) = (s + 4) * 4096" "(s + 4) * 4096 < 2 ^ 32" using fl by (simp_all add: boot13_flash_def)
  have "push_bit 12 (word_of_nat s :: u32) + 0x3000 = word_of_nat ((s + 3) * 4096)"
    using sector_address [of s] len(2) by (simp add: distrib_right)
  then have sel: "snd (SPIRead io (push_bit 12 (word_of_nat s) + 0x3000) 4 f) ! 0 = boot_select s (mem f)"
    using flash_readD [OF chip, of "word_of_nat ((s + 3) * 4096)" 4 f] unat_sector(1) [of 3 s] len
    by (simp add: boot_select_def)
  show ?thesis
    using sw(1) swaps sw(2) unfolding swapboot_logged sel by (cases "boot_select s (mem f) = 0") auto
qed

text \<open>
  C40: when neither rom can be loaded, the boot loader never stops: after any number \<open>n\<close> of boots it
  has reset the chip \<open>n\<close> times, the area of the roms is as before, and the selection has changed with
  every boot, as has the rom that is selected. What it has erased is exactly \<open>2 * n\<close> sectors: with
  every boot the sector of the configuration that is not selected and the sector that holds the
  selection. The message for a failed backup is never reached, because the test for it is always
  false.
\<close>

theorem boot13_never_gives_up:
  assumes "flash_chip io mem" and "boot13_flash s (mem f)" and "two_roms second (selected_config s (mem f))"
    and "loader_ok s mem loader"
    and "\<forall>b. loadImage io loader (rom_address s b) f = Inr FAIL"
  shows "\<exists>f'. boots (logged io) (\<lambda>a x. loader a (fst x)) n (f, l) =
       (Reset, f', l @ failed_erasures s (boot_select s (mem f) = 0) n) \<and>
     length (failed_erasures s (boot_select s (mem f) = 0) n) = 2 * n \<and>
     take (s * 4096) (mem f') = take (s * 4096) (mem f) \<and>
     (boot_select s (mem f') = 0 \<longleftrightarrow> (boot_select s (mem f) = 0) = even n) \<and>
     two_roms (if even n then second else \<not> second) (selected_config s (mem f'))"
  using assms(2,3,5)
proof (induction n arbitrary: f second l)
  case 0
  then show ?case by simp
next
  case (Suc n)
  let ?z = "boot_select s (mem f) = 0"
  obtain f1 where f1: "call_user_start (logged io) (\<lambda>a x. loader a (fst x)) (f, l) =
      (Reset, f1, l @ failed_erasures s ?z 1)" "boot13_flash s (mem f1)"
    "two_roms (\<not> second) (selected_config s (mem f1))" "(boot_select s (mem f1) = 0) = (\<not> ?z)"
    "take (s * 4096) (mem f1) = take (s * 4096) (mem f)"
    using failed_boot_logged [OF assms(1) Suc.prems(1,2), of loader l] Suc.prems(3) by blast
  have "\<forall>b. loadImage io loader (rom_address s b) f1 = Inr FAIL"
    using loadImage_area [OF assms(1,4) f1(5) rom_address_bound [OF f1(2)]] f1(2) Suc.prems(1,3)
    by (simp add: boot13_flash_def)
  from Suc.IH [OF f1(2,3) this, of "l @ failed_erasures s ?z 1"] show ?case
    using f1(1,4,5) by (auto split: if_splits)
qed

text \<open>Both roms are missing.\<close>

theorem boot13_never_gives_up_witness:
  "\<exists>f'. boots (logged nor_flash) (\<lambda>a x. (\<lambda>_ _. None) a (fst x)) 1000000 (demo_boot13 0, []) =
       (Reset, f', [] @ failed_erasures 60 (boot_select 60 (id (demo_boot13 0)) = 0) 1000000) \<and>
     length (failed_erasures 60 (boot_select 60 (id (demo_boot13 0)) = 0) 1000000) = 2 * 1000000 \<and>
     take (60 * 4096) (id f') = take (60 * 4096) (id (demo_boot13 0)) \<and>
     (boot_select 60 (id f') = 0 \<longleftrightarrow> (boot_select 60 (id (demo_boot13 0)) = 0) = even (1000000 :: nat)) \<and>
     two_roms (if even (1000000 :: nat) then False else \<not> False) (selected_config 60 (id f'))"
proof (rule boot13_never_gives_up [OF nor_flash_chip])
  show "boot13_flash 60 (id (demo_boot13 0))" "two_roms False (selected_config 60 (id (demo_boot13 0)))"
    using demo_boot13_flash [of 0] by simp_all
  show "\<forall>b. loadImage nor_flash (\<lambda>_ _. None) (rom_address 60 b) (demo_boot13 0) = Inr FAIL"
  proof
    fix b show "loadImage nor_flash (\<lambda>_ _. None) (rom_address 60 b) (demo_boot13 0) = Inr FAIL"
      using demo_boot13_load(1,2) [where magic = 0 and loader = "\<lambda>_ _. None"] by (cases b) auto
  qed
qed (simp add: loader_ok_def)

end
