(* ===== verification/Spec2Isabelle.thy ===== *)
theory Spec2Isabelle
  imports Ringbuf Proto Msg_Queue Mqtt_Utils Mqtt_Msg Mqtt_Client_Props Airkiss_Decode Rboot_Api Esptool_Boot
    Espboot_Verify Cron_Table Key_Debounce Http_Props Sntp_Calendar Libc_Props Smartlink Boot13_Props
begin

text \<open>
  A verification library for noduino-sdk, the software development kit of the Noduino boards (ESP8266): the MQTT
  client, the HTTP client, the clock, the Airkiss decoder and the smart link, the boot loaders with their image builder, the timer
  tables, the key driver and the replacements of the C library.
  This theory imports the others; every theory opens with a text that says what it holds.

  Parts of the program and their theories

  \<^item> \<open>Prelude\<close>: the machine integers of the code as words, memory blocks with reads and writes that are \<open>None\<close>
    out of bounds, little-endian words in byte lists, and the rules for definedness that all components share.
  \<^item> src/lib/mqtt. \<open>Ringbuf\<close> (ringbuf.c: RINGBUF_Init, RINGBUF_Put, RINGBUF_Get) is a ring of bytes; \<open>Proto\<close> (proto.c) frames packets
    in it by byte stuffing; \<open>Msg_Queue\<close> (queue.c) is the packet queue on top, with the loop of MQTT_Publish that drops old packets;
    \<open>Mqtt_Utils\<close> (utils.c) parses addresses and numbers; \<open>Mqtt_Msg\<close> (mqtt_msg.c, mqtt_msg.h) builds and reads packets;
    \<open>Mqtt_Client\<close> (mqtt.c) is the client: one definition per callback, task and function of the interface, on a
    record of MQTT_Client whose output is a trace of calls to the network. \<open>Mqtt_Client_Live\<close> shows what each does to a
    client that is set up, and \<open>Mqtt_Client_Props\<close> has the properties.
  \<^item> src/lib/airkiss. \<open>Airkiss\<close> is airkiss.c, frame by frame; \<open>Airkiss_Decode\<close> has the sender, the decoding of all it
    sends in the presence of other frames, and the safety of the buffers.
  \<^item> src/bootloader/rboot. \<open>Rboot\<close> is rboot.c (check_image, find_image) and rboot-stage2a.c (load_rom); \<open>Rboot_Verify\<close> has the format of an
    image as bytes, the verdict on it, and the choice of a rom; \<open>Rboot_Api\<close> is appcode/rboot-api.c, with which an
    application writes configurations and roms.
  \<^item> src/bootloader/esp-bootloader. \<open>Esptool\<close> is the host program esptool2 (esptool2.c, esptool2_elf.c), and \<open>Esptool_Boot\<close> shows
    that what it builds is what rBoot accepts and loads. \<open>Espboot\<close> is the boot loader espboot.c and its ram_loader.c;
    \<open>Espboot_Verify\<close> shows that its checks are those of rBoot and that updates are installed.
  \<^item> src/lib/noduino/cron. \<open>Cron\<close> is cron.c on an explicit store of list nodes; \<open>Cron_Table\<close> relates the lists to sorted tables and
    gives the schedule.
  \<^item> src/lib/driver/key.c. \<open>Key\<close> is the driver, \<open>Key_Debounce\<close> its events as a step relation and the states of a key.
  \<^item> src/lib/httpclient. \<open>Http\<close> is httpclient.c: the number parser, the decoder of chunked bodies, the callbacks of a connection
    on the record of a request, and the functions that start one. \<open>Http_Response\<close> has the events of a session and the
    evaluation of a response, \<open>Http_Props\<close> the requests, the exchanges and the order of the events.
  \<^item> src/lib/sntpclock. \<open>Sntp\<close> is sntptime.c and sntpclock.c; \<open>Sntp_Calendar\<close> compares the calendar with the Gregorian one and
    gives the behaviour of daylight saving time and of the callback.
  \<^item> src/lib/smartlink/smartlink.c is \<open>Smartlink\<close>, with its properties.
  \<^item> src/bootloader/boot1.3/bootloader2.c is \<open>Boot13\<close>, on the flash routines of \<open>Rboot\<close>; \<open>Boot13_Props\<close> has what it does over
    several starts.
  \<^item> src/lib/noduino/core. \<open>Libc\<close> has the functions on characters, strings and integers of libc_replacements.c and
    stdlib_noniso.c, \<open>Libc_Props\<close> what they compute.

  How they interact: mqtt.c puts the packets that mqtt_msg.c has built into the queue, which frames them into the ring; the timer and the
  callbacks of the network change the connection state. esptool2 makes the images that an application writes with
  rboot-api.c to the flash, and that rBoot or espboot check, install and load. The format of an image is one definition,
  \<open>rom_bytes\<close> of \<open>Rboot_Verify\<close>, which the theories of esptool2 and espboot share. The flash of all boot loaders is one interface,
  \<open>flash_chip\<close>. What itoa writes is what the number parser of the HTTP client reads.

  How the code is modelled

  Structures are records, enumerations are datatypes, and integers are words of their width, so that overflow wraps round as in
  the code; where the code computes with int and an overflow would be undefined, the model tests for it. A function that accesses
  memory outside a block, uses a freed node or divides by zero is \<open>None\<close> (or \<open>Undefined\<close> in \<open>Esptool\<close>, where a failure is
  another outcome). A loop that may not end is a \<open>partial_function\<close>, and not ending is \<open>None\<close> too. One such loop runs on fuel, the receive callback
  of the MQTT client (\<open>mqtt_tcpclient_recv\<close>): there not ending is \<open>Out_of_fuel\<close>, apart from \<open>Undefined\<close>, and one unit
  per packet of a segment is enough where the properties claim a result. All other loops are
  total functions with their termination proved. Functional
  properties give a result, and so that the code returns.

  Interfaces and parameters

  The locale \<open>byte_fifo\<close> is what proto.c and queue.c rely on of the ring, \<open>packet_queue\<close> what the client relies on of the queue,
  \<open>table_simulation\<close> the simulation of a table by a machine; each is interpreted on the model. Code that is not in the repository is a
  parameter: the flash routines of the boot ROM (\<open>spi_flash\<close>, with the contract \<open>flash_chip\<close>: a read yields the
  contents, an erased sector is all ones, a write to erased bytes stores them), malloc (which sizes or addresses it yields), the
  space on the disk, the level of a pin. The network and the application are calls in a trace. What the callers of the MQTT client
  and the SDK have to guarantee, because the code does not check it, is \<open>env_ok\<close> and \<open>input_ok\<close> of \<open>Mqtt_Client_Live\<close>.

  What the lemmas show

  Refinement of abstract data types (ring, queue, sorted job table), round trips (frames, packets, configurations), functional
  correctness of the decoder, of the calendar, of the boot loaders and of the clients' callbacks, invariants of the clients and of the keys under
  every sequence of events, liveness (the queue is sent, the client reconnects and pings, the boot loader resets for ever, erasing two sectors each time), equivalence of the two boot
  loaders, and the behaviour in the cases in which the code goes wrong: endless loops, lost packets, dangling
  pointers, sectors that are not erased.

  Not modelled

  Console messages (except those of rBoot's find_image), register access of the bus drivers, sensor formulas and the conversions of
  the C library in floating point, and the arming of hardware timers. In the clock, configTime only stores what are parameters of the
  model here, and the delays of begin have no effect on it. bootloader3.c and ota_stage1.c do not compile: they use names that are declared
  nowhere. The echo and UPnP servers are glue between callbacks of the SDK and printf. cJSON, mbed TLS, lwIP, U8g2, the SX127x
  drivers, emlib and CMSIS, the Arduino cores and the SDK headers are third-party code; the sketches and examples only call the
  libraries.
\<close>

end
